(* ===== verification/Prelude.thy ===== *)
theory Prelude
  imports Main "HOL-Library.Word"
begin

text \<open>
  Shared vocabulary of the development: the machine integer types of
  \<^verbatim>\<open>src/include/types.h\<close>, the outcome of kernel code that may fail to return
  (\<open>fault\<close> and the sequencing operator \<open>bindE\<close>), NULL-terminated pointer chains with
  the traversal loop that the kernel writes again and again
  (\<^verbatim>\<open>for(;probe->next!=NULL;probe=probe->next);\<close>), and the arithmetic of pages.
\<close>

unbundle bit_operations_syntax

named_theorems fault_simps \<open>evaluation of the fault monad\<close>
named_theorems chain_simps \<open>pointer chains\<close>
named_theorems page_simps \<open>page arithmetic\<close>

section \<open>Machine integers\<close>

type_synonym byte = "8 word"
type_synonym uint16 = "16 word"
type_synonym uint32 = "32 word"

section \<open>Outcomes\<close>

text \<open>
  Kernel code runs with nobody to return an error to. \<open>PageFault v\<close> is an access to an
  unmapped virtual address: the handler prints and returns, so the access is retried for
  ever. \<open>Stopped\<close> is \<^verbatim>\<open>stop_kern\<close> (an endless loop after a message), \<open>Spin\<close> any other
  loop that never ends, and \<open>Undefined\<close> a step whose C behaviour is undefined, such as the
  use of an uninitialised variable.
\<close>

datatype fault = PageFault uint32 | Stopped | Spin | Undefined

definition bindE :: "fault + 'a \<Rightarrow> ('a \<Rightarrow> fault + 'b) \<Rightarrow> fault + 'b" where
  "bindE r f = (case r of Inl e \<Rightarrow> Inl e | Inr x \<Rightarrow> f x)"

definition loopE :: "'a option \<Rightarrow> fault + 'a" where
  "loopE r = (case r of None \<Rightarrow> Inl Spin | Some x \<Rightarrow> Inr x)"

lemma bindE_Inr [simp, fault_simps]: "bindE (Inr x) f = f x"
  by (simp add: bindE_def)

lemma bindE_Inl [simp, fault_simps]: "bindE (Inl e) f = Inl e"
  by (simp add: bindE_def)

lemma loopE_Some [simp, fault_simps]: "loopE (Some x) = Inr x"
  by (simp add: loopE_def)

lemma loopE_None [simp, fault_simps]: "loopE None = Inl Spin"
  by (simp add: loopE_def)

lemma bindE_eq_Inr: "bindE r f = Inr y \<longleftrightarrow> (\<exists>x. r = Inr x \<and> f x = Inr y)"
  by (cases r) auto

lemma bindE_cong [fundef_cong]:
  "r = r' \<Longrightarrow> (\<And>x. r' = Inr x \<Longrightarrow> f x = g x) \<Longrightarrow> bindE r f = bindE r' g"
  by (cases r') auto

text \<open>A block of calls in sequence.\<close>

fun foldE :: "('x \<Rightarrow> 's \<Rightarrow> fault + 's) \<Rightarrow> 'x list \<Rightarrow> 's \<Rightarrow> fault + 's" where
  "foldE f [] s = Inr s"
| "foldE f (x # xs) s = bindE (f x s) (foldE f xs)"

lemma foldE_append: "foldE f (xs @ ys) s = bindE (foldE f xs s) (foldE f ys)"
proof (induction xs arbitrary: s)
  case (Cons x xs)
  then show ?case by (cases "f x s") auto
qed simp

text \<open>A loop that may fail in its body and may also run for ever.\<close>

definition joinE :: "(fault + 'a) option \<Rightarrow> fault + 'a" where
  "joinE r = (case r of None \<Rightarrow> Inl Spin | Some x \<Rightarrow> x)"

lemma joinE_Some [simp, fault_simps]: "joinE (Some x) = x"
  by (simp add: joinE_def)

lemma joinE_None [simp, fault_simps]: "joinE None = Inl Spin"
  by (simp add: joinE_def)

section \<open>Pointer chains\<close>

text \<open>
  A pointer into an array or heap of nodes is an \<open>option\<close>: \<open>None\<close> is NULL. The field
  \<^verbatim>\<open>next\<close> is a function from nodes to pointers. \<open>chain nx p xs\<close> says that following
  \<^verbatim>\<open>next\<close> from \<open>p\<close> visits exactly \<open>xs\<close> and ends at NULL.
\<close>

fun chain :: "('p \<Rightarrow> 'p option) \<Rightarrow> 'p option \<Rightarrow> 'p list \<Rightarrow> bool" where
  "chain nx p [] \<longleftrightarrow> p = None"
| "chain nx p (x # xs) \<longleftrightarrow> p = Some x \<and> chain nx (nx x) xs"

text \<open>
  The loop \<^verbatim>\<open>for(;probe->next!=NULL;probe=probe->next);\<close>. On a cyclic structure it does
  not end: its value is then \<open>None\<close>.
\<close>

partial_function (option) last_node :: "('p \<Rightarrow> 'p option) \<Rightarrow> 'p \<Rightarrow> 'p option" where
  "last_node nx p = (case nx p of None \<Rightarrow> Some p | Some q \<Rightarrow> last_node nx q)"

text \<open>The loop \<^verbatim>\<open>for(;probe->next->next!=NULL;probe=probe->next);\<close>, from a node with a successor.\<close>

partial_function (option) second_last_node :: "('p \<Rightarrow> 'p option) \<Rightarrow> 'p \<Rightarrow> 'p \<Rightarrow> ('p \<times> 'p) option" where
  "second_last_node nx p q =
     (case nx q of None \<Rightarrow> Some (p, q) | Some r \<Rightarrow> second_last_node nx q r)"

text \<open>The loop \<^verbatim>\<open>for(;probe!=NULL;probe=probe->next) counter++;\<close>.\<close>

partial_function (option) count_nodes :: "('p \<Rightarrow> 'p option) \<Rightarrow> 'p option \<Rightarrow> uint32 \<Rightarrow> uint32 option" where
  "count_nodes nx p n = (case p of None \<Rightarrow> Some n | Some q \<Rightarrow> count_nodes nx (nx q) (n + 1))"

lemma chain_None [simp, chain_simps]: "chain nx None xs \<longleftrightarrow> xs = []"
  by (cases xs) auto

lemma chain_Some: "chain nx (Some p) xs \<longleftrightarrow> (\<exists>ys. xs = p # ys \<and> chain nx (nx p) ys)"
  by (cases xs) auto

lemma chain_unique: "chain nx p xs \<Longrightarrow> chain nx p ys \<Longrightarrow> xs = ys"
proof (induction xs arbitrary: p ys)
  case (Cons x xs)
  then show ?case by (cases ys) auto
qed simp

lemma chain_append_suffix: "chain nx p (xs @ x # ys) \<Longrightarrow> chain nx (nx x) ys"
  by (induction xs arbitrary: p) auto

lemma chain_not_in_tail: "chain nx (nx x) xs \<Longrightarrow> x \<notin> set xs"
proof
  assume c: "chain nx (nx x) xs" and "x \<in> set xs"
  then obtain ys zs where xs: "xs = ys @ x # zs" by (auto simp: in_set_conv_decomp)
  with c have "chain nx (nx x) zs" by (auto dest: chain_append_suffix)
  with c have "xs = zs" by (rule chain_unique)
  with xs show False by simp
qed

lemma chain_distinct: "chain nx p xs \<Longrightarrow> distinct xs"
  by (induction xs arbitrary: p) (auto dest: chain_not_in_tail)

lemma chain_upd_other [simp]:
  "y \<notin> set xs \<Longrightarrow> chain (nx(y := q)) p xs = chain nx p xs"
  by (induction xs arbitrary: p) auto

lemma chain_cong: "(\<And>x. x \<in> set xs \<Longrightarrow> f x = g x) \<Longrightarrow> chain f p xs = chain g p xs"
  by (induction xs arbitrary: p) auto

text \<open>Appending at the tail, as every insertion in the kernel does.\<close>

lemma chain_snoc:
  "chain nx p (xs @ [x]) \<Longrightarrow> y \<notin> set (xs @ [x]) \<Longrightarrow> nx y = None \<Longrightarrow>
     chain (nx(x := Some y)) p (xs @ [x, y])"
proof (induction xs arbitrary: p)
  case (Cons a xs)
  have "a \<noteq> x" using chain_distinct [OF Cons.prems(1)] by auto
  with Cons show ?case by auto
qed auto

text \<open>Cutting the chain after a node, and unlinking the node behind another one.\<close>

lemma chain_cut:
  "chain nx p (xs @ x # ys) \<Longrightarrow> chain (nx(x := None)) p (xs @ [x])"
proof (induction xs arbitrary: p)
  case (Cons a xs)
  have "a \<noteq> x" using chain_distinct [OF Cons.prems(1)] by auto
  with Cons show ?case by auto
qed auto

lemma chain_unlink:
  "chain nx p (xs @ x # y # ys) \<Longrightarrow> chain (nx(x := nx y)) p (xs @ x # ys)"
proof (induction xs arbitrary: p)
  case Nil
  then have "x \<notin> set ys" using chain_distinct [OF Nil.prems] by auto
  then have "chain (nx(x := nx y)) (nx y) ys = chain nx (nx y) ys" by simp
  with Nil show ?case by (simp add: fun_upd_def)
next
  case (Cons a xs)
  have "a \<noteq> x" using chain_distinct [OF Cons.prems(1)] by auto
  with Cons show ?case by auto
qed

lemma chain_last_None: "chain nx p (xs @ [x]) \<Longrightarrow> nx x = None"
  by (drule chain_append_suffix) simp

lemma last_node_chain: "chain nx (Some p) xs \<Longrightarrow> last_node nx p = Some (last xs)"
proof (induction xs arbitrary: p)
  case (Cons x xs)
  then show ?case
    by (cases "nx x") (auto simp: last_node.simps [of nx x] chain_Some)
qed simp

lemma second_last_node_chain:
  "chain nx (Some p) (p # q # xs) \<Longrightarrow>
     \<exists>ys a b. p # q # xs = ys @ [a, b] \<and> second_last_node nx p q = Some (a, b)"
proof (induction xs arbitrary: p q)
  case Nil
  then show ?case by (auto simp: second_last_node.simps [of nx p q])
next
  case (Cons x xs)
  then have "chain nx (Some q) (q # x # xs)" by simp
  then obtain ys a b where "q # x # xs = ys @ [a, b]" and "second_last_node nx q x = Some (a, b)"
    using Cons.IH [of q x] by auto
  moreover have "nx q = Some x" using Cons.prems by simp
  ultimately show ?case
    by (intro exI [of _ "p # ys"]) (simp add: second_last_node.simps [of nx p q])
qed

lemma count_nodes_chain: "chain nx p xs \<Longrightarrow> count_nodes nx p n = Some (n + of_nat (length xs))"
  by (induction xs arbitrary: p n) (auto simp: count_nodes.simps)

section \<open>Byte ranges and page arithmetic\<close>

text \<open>The bytes \<open>a\<close>, \<open>a + 1\<close>, \dots of a buffer of \<open>n\<close> bytes; addresses wrap at \<open>2 ^ 32\<close>.\<close>

definition span :: "uint32 \<Rightarrow> nat \<Rightarrow> uint32 set" where
  "span a n = (\<lambda>i. a + of_nat i) ` {..<n}"

lemma span_0 [simp]: "span a 0 = {}"
  by (simp add: span_def)

lemma span_Suc: "span a (Suc n) = insert a (span (a + 1) n)"
proof -
  have "{..<Suc n} = insert 0 (Suc ` {..<n})" by (auto simp: image_iff less_Suc_eq_0_disj)
  then show ?thesis by (simp add: span_def image_image algebra_simps)
qed

lemma span_mem: "i < n \<Longrightarrow> a + of_nat i \<in> span a n"
  by (simp add: span_def)

lemma of_nat_inj_32: "i < 2 ^ 32 \<Longrightarrow> j < 2 ^ 32 \<Longrightarrow> (of_nat i :: uint32) = of_nat j \<longleftrightarrow> i = j"
  by (auto simp: word_unat_eq_iff unat_of_nat take_bit_nat_eq_self)

lemma unat_lt_32: "unat (x :: uint32) < 2 ^ 32"
  using unsigned_less [of x] by simp

lemma unat_of_nat_32: "n < 2 ^ 32 \<Longrightarrow> unat (of_nat n :: uint32) = n"
  by (simp add: unat_of_nat take_bit_nat_eq_self unsigned_of_nat)

lemma unat_pred: "unat (len :: uint32) = Suc n \<Longrightarrow> len \<noteq> 0 \<and> unat (len - 1) = n"
  by (cases "len = 0") (auto simp: unat_minus_one)

lemma unat_Suc_below: "unat (i :: uint32) < unat (n :: uint32) \<Longrightarrow> unat (i + 1) = Suc (unat i)"
  using unat_lt_32 [of n] by (simp add: unat_word_ariths)

text \<open>\<open>page_base a\<close> is the C expression \<^verbatim>\<open>a & 0xFFFFF000\<close>.\<close>

definition page_base :: "uint32 \<Rightarrow> uint32" where
  "page_base a = a AND 0xFFFFF000"

lemma page_mask_eq: "(0xFFFFF000 :: uint32) = NOT (mask 12)"
  by (simp add: mask_eq_decr_exp)

lemma page_base_shift: "page_base a = push_bit 12 (drop_bit 12 a)"
  unfolding page_base_def page_mask_eq
  by (rule bit_word_eqI) (auto simp: bit_simps)

lemma unat_page_base: "unat (page_base a) = unat a div 4096 * 4096"
proof -
  have lt: "unat a div 4096 * 4096 < 2 ^ 32"
    using unat_lt_32 [of a] div_times_less_eq_dividend [of "unat a" 4096] by linarith
  have "unat (page_base a) = take_bit 32 (push_bit 12 (drop_bit 12 (unat a)))"
    using unat_lt_32 [of a]
    by (simp only: page_base_shift unsigned_push_bit_eq unsigned_drop_bit_eq)
      (simp add: take_bit_nat_eq_self)
  also have "\<dots> = unat a div 4096 * 4096"
    using lt by (simp add: push_bit_eq_mult drop_bit_eq_div take_bit_nat_eq_self)
  finally show ?thesis .
qed

lemma page_base_idem [simp, page_simps]: "page_base (page_base a) = page_base a"
  by (simp add: page_base_def)

lemma page_base_le: "page_base a \<le> a"
  by (simp add: word_le_nat_alt unat_page_base)

end
