(* ===== verification/Interfaces.thy ===== *)
theory Interfaces
  imports Prelude
begin

text \<open>
  The contracts between components, as locales. \<open>byte_memory\<close> is what code that works on
  raw addresses (\<^verbatim>\<open>string.c\<close>, \<^verbatim>\<open>bitmap.c\<close>) relies on; it is interpreted on a flat memory
  and on the paged memory of the machine. \<open>page_source\<close> is the contract of a page
  allocator, with the facts every client wants (no page is handed out twice, all pages are
  handed out before it fails); it is interpreted on the bitmap pool.
\<close>

section \<open>Byte memory\<close>

text \<open>
  \<open>ld\<close> and \<open>st\<close> are the byte load and store, \<open>R\<close> the addresses the client may use,
  \<open>ok\<close> the states in which it may use them, \<open>mem\<close> the contents, and \<open>rest\<close> whatever a
  store to \<open>R\<close> must leave alone.
\<close>

locale byte_memory =
  fixes ld :: "uint32 \<Rightarrow> 's \<Rightarrow> fault + byte"
    and st :: "uint32 \<Rightarrow> byte \<Rightarrow> 's \<Rightarrow> fault + 's"
    and ok :: "'s \<Rightarrow> bool"
    and R :: "uint32 set"
    and mem :: "'s \<Rightarrow> uint32 \<Rightarrow> byte"
    and rest :: "'s \<Rightarrow> 'r"
  assumes ld_ok: "ok s \<Longrightarrow> a \<in> R \<Longrightarrow> ld a s = Inr (mem s a)"
    and st_ok: "ok s \<Longrightarrow> a \<in> R \<Longrightarrow>
      \<exists>s'. st a b s = Inr s' \<and> ok s' \<and> rest s' = rest s \<and> (\<forall>x\<in>R. mem s' x = ((mem s)(a := b)) x)"

text \<open>The memory of a C program seen without paging: every address holds a byte.\<close>

type_synonym flat = "uint32 \<Rightarrow> byte"

definition flat_ld :: "uint32 \<Rightarrow> flat \<Rightarrow> fault + byte" where
  "flat_ld a h = Inr (h a)"

definition flat_st :: "uint32 \<Rightarrow> byte \<Rightarrow> flat \<Rightarrow> fault + flat" where
  "flat_st a b h = Inr (h(a := b))"

interpretation flat: byte_memory flat_ld flat_st "\<lambda>_. True" UNIV "\<lambda>h. h" "\<lambda>_. ()"
  by unfold_locales (auto simp: flat_ld_def flat_st_def)

section \<open>Page allocators\<close>

text \<open>
  \<open>alloc\<close> hands out one page or nothing, \<open>avail\<close> is the set of pages it still has.
\<close>

locale page_source =
  fixes alloc :: "'s \<Rightarrow> 'p option \<times> 's"
    and avail :: "'s \<Rightarrow> 'p set"
    and inv :: "'s \<Rightarrow> bool"
  assumes alloc_Some: "inv s \<Longrightarrow> alloc s = (Some p, s') \<Longrightarrow>
      p \<in> avail s \<and> avail s' = avail s - {p} \<and> inv s'"
    and alloc_None: "inv s \<Longrightarrow> alloc s = (None, s') \<Longrightarrow> avail s = {} \<and> s' = s"
    and avail_finite: "inv s \<Longrightarrow> finite (avail s)"

text \<open>A client that asks \<open>n\<close> times and stops at the first refusal.\<close>

fun alloc_many :: "('s \<Rightarrow> 'p option \<times> 's) \<Rightarrow> nat \<Rightarrow> 's \<Rightarrow> 'p list \<times> 's" where
  "alloc_many f 0 s = ([], s)"
| "alloc_many f (Suc n) s =
     (case f s of (None, s') \<Rightarrow> ([], s')
      | (Some p, s') \<Rightarrow> (let (ps, s'') = alloc_many f n s' in (p # ps, s'')))"

context page_source
begin

lemma alloc_many_inv:
  "inv s \<Longrightarrow> alloc_many alloc n s = (ps, s') \<Longrightarrow>
     inv s' \<and> distinct ps \<and> set ps \<subseteq> avail s \<and> avail s' = avail s - set ps"
proof (induction n arbitrary: s ps)
  case (Suc n)
  show ?case
  proof (cases "alloc s")
    case (Pair r t)
    show ?thesis
    proof (cases r)
      case None
      then have "alloc s = (None, t)" using Pair by simp
      with alloc_None [OF Suc.prems(1) this] Suc.prems None Pair show ?thesis by auto
    next
      case (Some p)
      then have p: "p \<in> avail s" "avail t = avail s - {p}" "inv t"
        using alloc_Some [OF Suc.prems(1)] Pair by auto
      obtain qs where qs: "alloc_many alloc n t = (qs, s')" "ps = p # qs"
        using Suc.prems(2) Pair Some by (auto split: prod.splits)
      from Suc.IH [OF p(3) qs(1)] p qs(2) show ?thesis by auto
    qed
  qed
qed simp

lemma alloc_many_length:
  "inv s \<Longrightarrow> alloc_many alloc n s = (ps, s') \<Longrightarrow> length ps = min n (card (avail s))"
proof (induction n arbitrary: s ps)
  case (Suc n)
  show ?case
  proof (cases "alloc s")
    case (Pair r t)
    show ?thesis
    proof (cases r)
      case None
      then have "alloc s = (None, t)" using Pair by simp
      with alloc_None [OF Suc.prems(1) this] Suc.prems None Pair show ?thesis by auto
    next
      case (Some p)
      then have p: "p \<in> avail s" "avail t = avail s - {p}" "inv t"
        using alloc_Some [OF Suc.prems(1)] Pair by auto
      obtain qs where qs: "alloc_many alloc n t = (qs, s')" "ps = p # qs"
        using Suc.prems(2) Pair Some by (auto split: prod.splits)
      have "card (avail s) = Suc (card (avail t))"
        using p card.remove [OF avail_finite [OF Suc.prems(1)] p(1)] by simp
      with Suc.IH [OF p(3) qs(1)] qs(2) show ?thesis by simp
    qed
  qed
qed simp

lemmas alloc_many_spec = alloc_many_inv alloc_many_length

end

section \<open>Queues\<close>

text \<open>
  The contract of a first-in first-out queue of nodes: \<open>contents s ns\<close> says that the queue holds
  \<open>ns\<close>, the oldest first.
\<close>

locale fifo_queue =
  fixes add :: "'n \<Rightarrow> 's \<Rightarrow> fault + 's"
    and get :: "'s \<Rightarrow> 'n option \<times> 's"
    and contents :: "'s \<Rightarrow> 'n list \<Rightarrow> bool"
  assumes add_ok: "contents s ns \<Longrightarrow> n \<notin> set ns \<Longrightarrow> \<exists>s'. add n s = Inr s' \<and> contents s' (ns @ [n])"
    and get_Cons: "contents s (n # ns) \<Longrightarrow> \<exists>s'. get s = (Some n, s') \<and> contents s' ns"
    and get_Nil: "contents s [] \<Longrightarrow> get s = (None, s)"
begin

lemma add_all:
  "contents s ms \<Longrightarrow> distinct (ms @ ns) \<Longrightarrow> \<exists>s'. foldE add ns s = Inr s' \<and> contents s' (ms @ ns)"
proof (induction ns arbitrary: s ms)
  case (Cons n ns)
  obtain t where t: "add n s = Inr t" "contents t (ms @ [n])" using add_ok [OF Cons.prems(1), of n] Cons.prems(2) by auto
  then show ?case using Cons.IH [OF t(2)] Cons.prems(2) by auto
qed simp

lemma get_all: "contents s ns \<Longrightarrow> \<exists>s'. alloc_many get (length ns) s = (ns, s') \<and> contents s' []"
proof (induction ns arbitrary: s)
  case (Cons n ns)
  obtain t where t: "get s = (Some n, t)" "contents t ns" using get_Cons [OF Cons.prems] by blast
  then show ?case using Cons.IH [OF t(2)] by auto
qed simp

lemma first_in_first_out:
  assumes "contents s []" "distinct ns"
  shows "\<exists>s' s''. foldE add ns s = Inr s' \<and> alloc_many get (length ns) s' = (ns, s'') \<and> contents s'' []"
  using add_all [OF assms(1), of ns] assms(2) get_all by fastforce

end

end
