(* ===== verification/Pmm.thy ===== *)
theory Pmm
  imports Interfaces
begin

text \<open>
  \<^verbatim>\<open>src/kernel/modules/pmm/pmm.c\<close>: the physical page manager, a buddy allocator over
  eleven lists of blocks of 1 to 1024 pages, and a separate list of single pages. A
  \<^verbatim>\<open>pm_page_t *\<close> always points into \<^verbatim>\<open>page_array\<close>, so a pointer is the index of an
  element, or \<open>None\<close> for NULL. The struct \<^verbatim>\<open>pm_multi_link_t\<close> has one head per block size,
  all used alike: it is a function from the value of the enum. \<^verbatim>\<open>page_c_t\<close> is an
  unsigned 32-bit integer in the compiled code and the module stores other values than
  the enum's in it, so it is a 32-bit word here. Diagnostic \<^verbatim>\<open>printk\<close> calls are left out.
\<close>

section \<open>State\<close>

type_synonym page_c = uint32

abbreviation c_erro :: page_c where "c_erro \<equiv> 11"

abbreviation ERRO_POP_BLOCK :: uint32 where "ERRO_POP_BLOCK \<equiv> 0xFFFFFFFF"

record pm_page =
  page_no :: uint32
  p_next :: "uint32 option"
  p_state :: byte

record pm_alloc =
  a_addr :: uint32
  a_size :: page_c
  a_state :: byte

record pm_entry =
  e_size :: uint32
  base_addr_low :: uint32
  base_addr_high :: uint32
  length_low :: uint32
  length_high :: uint32
  e_type :: uint32

record pmm =
  page_array :: "uint32 \<Rightarrow> pm_page"
  MULTI_LINK :: "nat \<Rightarrow> uint32 option"
  SINGLE_LINK :: "uint32 option"
  pmm_page_start :: uint32
  pmm_page_end :: uint32
  pmm_max_page_no :: uint32
  singel_page_first_no :: uint32
  block_count_array :: "nat \<Rightarrow> uint32"

text \<open>The field \<^verbatim>\<open>next\<close> of all pages, and its update.\<close>

definition nextf :: "pmm \<Rightarrow> uint32 \<Rightarrow> uint32 option" where
  "nextf st i = p_next (page_array st i)"

definition set_next :: "uint32 \<Rightarrow> uint32 option \<Rightarrow> pmm \<Rightarrow> pmm" where
  "set_next i q st = st\<lparr>page_array := (page_array st)(i := (page_array st i)\<lparr>p_next := q\<rparr>)\<rparr>"

section \<open>Helpers\<close>

definition pmm_page_no_to_addr :: "pmm \<Rightarrow> uint32 \<Rightarrow> uint32" where
  "pmm_page_no_to_addr st n = push_bit 12 n + pmm_page_start st"

definition addr_to_pmm_page_no :: "pmm \<Rightarrow> uint32 \<Rightarrow> uint32" where
  "addr_to_pmm_page_no st addr = drop_bit 12 (addr - pmm_page_start st)"

definition c_to_uint32 :: "page_c \<Rightarrow> uint32" where
  "c_to_uint32 ph = push_bit (unat ph) 1"

definition get_partner_page_no :: "uint32 \<Rightarrow> page_c \<Rightarrow> uint32" where
  "get_partner_page_no n type =
     (let v1 = c_to_uint32 type; v2 = 2 * v1
      in if (n - v1) mod v2 = 0 then n - v1 else n + v1)"

section \<open>Lists of blocks\<close>

text \<open>
  \<^verbatim>\<open>append_block\<close>: for a value of \<^verbatim>\<open>c\<close> that is not one of the eleven sizes no case of the
  switch sets \<^verbatim>\<open>header\<close>, and the test after the switch reads it uninitialised.
\<close>

definition append_block :: "uint32 \<Rightarrow> page_c \<Rightarrow> pmm \<Rightarrow> fault + pmm" where
  "append_block n c st =
     (let st1 = set_next n None st
      in if c < c_erro
         then (case MULTI_LINK st1 (unat c) of
                 None \<Rightarrow> Inr (st1\<lparr>MULTI_LINK := (MULTI_LINK st1)(unat c := Some n)\<rparr>)
               | Some header \<Rightarrow>
                   bindE (loopE (last_node (nextf st1) header)) (\<lambda>probe. Inr (set_next probe (Some n) st1)))
         else Inl Undefined)"

definition pop_block :: "page_c \<Rightarrow> pmm \<Rightarrow> fault + (uint32 \<times> pmm)" where
  "pop_block c st =
     (if c < c_erro
      then (case MULTI_LINK st (unat c) of
              None \<Rightarrow> Inr (ERRO_POP_BLOCK, st)
            | Some header \<Rightarrow>
                (case nextf st header of
                   None \<Rightarrow> Inr (page_no (page_array st header),
                             st\<lparr>MULTI_LINK := (MULTI_LINK st)(unat c := None)\<rparr>)
                 | Some q \<Rightarrow>
                     bindE (loopE (second_last_node (nextf st) header q)) (\<lambda>(probe, l).
                       Inr (page_no (page_array st l), set_next probe None st))))
      else if c = c_erro then Inr (ERRO_POP_BLOCK, st)
      else Inl Undefined)"

text \<open>
  The loop of \<^verbatim>\<open>find_and_pop_block\<close>: \<open>Inr (probe, q)\<close> when the successor \<open>q\<close> of
  \<open>probe\<close> is the block, \<open>Inl probe\<close> when the end of the list is reached.
\<close>

partial_function (option) find_prev ::
  "(uint32 \<Rightarrow> uint32 option) \<Rightarrow> (uint32 \<Rightarrow> uint32) \<Rightarrow> uint32 \<Rightarrow> uint32 \<Rightarrow> (uint32 + uint32 \<times> uint32) option" where
  "find_prev nx pn target probe =
     (case nx probe of
        None \<Rightarrow> Some (Inl probe)
      | Some q \<Rightarrow> if pn q = target then Some (Inr (probe, q)) else find_prev nx pn target q)"

definition find_and_pop_block :: "uint32 \<Rightarrow> page_c \<Rightarrow> pmm \<Rightarrow> fault + (uint32 \<times> pmm)" where
  "find_and_pop_block target ph st =
     (if ph < c_erro
      then (case MULTI_LINK st (unat ph) of
              None \<Rightarrow> Inr (ERRO_POP_BLOCK, st)
            | Some header \<Rightarrow>
                if nextf st header = None \<and> page_no (page_array st header) = target
                then bindE (pop_block ph st) (\<lambda>(_, st'). Inr (target, st'))
                else bindE (loopE (find_prev (nextf st) (\<lambda>i. page_no (page_array st i)) target header)) (\<lambda>r.
                  case r of
                    Inr (probe, q) \<Rightarrow> Inr (target, set_next probe (nextf st q) st)
                  | Inl probe \<Rightarrow>
                      if page_no (page_array st probe) = target
                      then bindE (pop_block ph st) (\<lambda>(_, st'). Inr (target, st'))
                      else Inr (ERRO_POP_BLOCK, st)))
      else if ph = c_erro then Inr (ERRO_POP_BLOCK, st)
      else Inl Undefined)"

section \<open>Initialisation\<close>

text \<open>The entries of the multiboot memory map, in the order of the buffer.\<close>

fun get_max_pm_addr_loop :: "pm_entry list \<Rightarrow> uint32 \<Rightarrow> uint32" where
  "get_max_pm_addr_loop [] max_addr = max_addr"
| "get_max_pm_addr_loop (e # es) max_addr =
     get_max_pm_addr_loop es
       (if e_type e = 1 \<and> max_addr < base_addr_low e + length_low e
        then base_addr_low e + length_low e else max_addr)"

definition get_max_pm_addr :: "pm_entry list \<Rightarrow> uint32" where
  "get_max_pm_addr mmap = get_max_pm_addr_loop mmap 0"

function page_array_init :: "uint32 \<Rightarrow> pmm \<Rightarrow> pmm" where
  "page_array_init i st =
     (if i < pmm_max_page_no st
      then page_array_init (i + 1)
             (st\<lparr>page_array := (page_array st)(i := \<lparr>page_no = i, p_next = None, p_state = 1\<rparr>)\<rparr>)
      else st)"
  by pat_completeness auto
termination
  by (relation "measure (\<lambda>(i, st). unat (pmm_max_page_no st) - unat i)")
    (auto simp: word_less_nat_alt unat_Suc_below)

partial_function (option) fill_multi :: "uint32 \<Rightarrow> pmm \<Rightarrow> (fault + (uint32 \<times> pmm)) option" where
  "fill_multi temp_page_no st =
     (if temp_page_no < pmm_max_page_no st - 1024
      then (case append_block temp_page_no 10 st of
              Inl e \<Rightarrow> Some (Inl e)
            | Inr st' \<Rightarrow> fill_multi (temp_page_no + 1024) st')
      else Some (Inr (temp_page_no, st)))"

function fill_single :: "uint32 \<Rightarrow> uint32 option \<Rightarrow> pmm \<Rightarrow> fault + pmm" where
  "fill_single temp_page_no temp_single_probe st =
     (if temp_page_no < pmm_max_page_no st
      then if SINGLE_LINK st = None
           then fill_single (temp_page_no + 1) (Some temp_page_no) (st\<lparr>SINGLE_LINK := Some temp_page_no\<rparr>)
           else (case temp_single_probe of
                   None \<Rightarrow> Inl Undefined
                 | Some p \<Rightarrow> fill_single (temp_page_no + 1) (Some temp_page_no)
                              (set_next p (Some temp_page_no) st))
      else Inr st)"
  by pat_completeness auto
termination
  by (relation "measure (\<lambda>(t, p, st). unat (pmm_max_page_no st) - unat t)")
    (auto simp: word_less_nat_alt unat_Suc_below set_next_def)

declare page_array_init.simps [simp del] fill_single.simps [simp del]

definition initial_blocks :: "(uint32 \<times> page_c) list" where
  "initial_blocks = [(0, 0), (1, 0), (2, 1), (4, 2), (8, 3), (16, 4), (32, 5), (64, 6),
     (128, 7), (256, 8), (512, 9), (1024, 10)]"

definition pmm_page_init :: "pmm \<Rightarrow> fault + pmm" where
  "pmm_page_init st =
     (let st1 = page_array_init 0 (st\<lparr>MULTI_LINK := (\<lambda>_. None)\<rparr>)
      in bindE (foldE (\<lambda>(n, c). append_block n c) initial_blocks st1) (\<lambda>st2.
         bindE (joinE (fill_multi 2048 st2)) (\<lambda>(temp_page_no, st3).
         fill_single temp_page_no None (st3\<lparr>singel_page_first_no := temp_page_no\<rparr>))))"

text \<open>The highest address is an argument: \<open>pmm_init\<close> takes it from a list of entries, \<open>Multiboot\<close> from memory.\<close>

definition pmm_init_to :: "uint32 \<Rightarrow> uint32 \<Rightarrow> pmm \<Rightarrow> fault + pmm" where
  "pmm_init_to kern_end max_addr st =
     (let start = push_bit 12 (drop_bit 12 kern_end + 1);
          end = push_bit 12 (drop_bit 12 max_addr)
      in pmm_page_init (st\<lparr>pmm_page_start := start, pmm_page_end := end,
                          pmm_max_page_no := drop_bit 12 (end - start)\<rparr>))"

definition pmm_init :: "uint32 \<Rightarrow> pm_entry list \<Rightarrow> pmm \<Rightarrow> fault + pmm" where
  "pmm_init kern_end mmap st = pmm_init_to kern_end (get_max_pm_addr mmap) st"

section \<open>Allocation\<close>

text \<open>The second argument of the call is \<^verbatim>\<open>pop_page_no-1\<close>, as in the source.\<close>

function alloc_helper :: "page_c \<Rightarrow> page_c \<Rightarrow> uint32 \<Rightarrow> pmm \<Rightarrow> fault + (uint32 \<times> pmm)" where
  "alloc_helper target_ph pop_ph pop_page_no st =
     (if pop_ph \<noteq> target_ph
      then let append_page_no = pop_page_no + c_to_uint32 pop_ph div 2
           in bindE (append_block append_page_no (pop_page_no - 1) st) (\<lambda>st'.
                alloc_helper target_ph (pop_ph - 1) pop_page_no st')
      else Inr (pop_page_no, st))"
  by pat_completeness auto
termination
proof (relation "measure (\<lambda>(t, p, n, st). unat (p - t))")
  fix target_ph pop_ph :: page_c and pop_page_no append_page_no :: uint32 and st st' :: pmm
  assume "pop_ph \<noteq> target_ph"
  then have "unat (pop_ph - target_ph - 1) < unat (pop_ph - target_ph)"
    by (simp add: unat_minus_one unat_gt_0)
  then show "((target_ph, pop_ph - 1, pop_page_no, st'), target_ph, pop_ph, pop_page_no, st)
      \<in> measure (\<lambda>(t, p, n, st). unat (p - t))"
    by (simp add: algebra_simps)
qed auto

text \<open>The loop that counts the binary digits of \<^verbatim>\<open>page_count\<close>.\<close>

function count_digits :: "uint32 \<Rightarrow> uint32 \<Rightarrow> uint32" where
  "count_digits page_count_probe counter1 =
     (if page_count_probe \<noteq> 0 then count_digits (drop_bit 1 page_count_probe) (counter1 + 1) else counter1)"
  by pat_completeness auto
termination
  by (relation "measure (\<lambda>(p, c). unat p)") (auto simp: drop_bit_eq_div unat_div unat_gt_0)

text \<open>The loop \<^verbatim>\<open>for(;ph<_erro;ph++)\<close>: the size at which it stops and the block it found.\<close>

function pop_from :: "page_c \<Rightarrow> uint32 \<Rightarrow> pmm \<Rightarrow> fault + (page_c \<times> uint32 \<times> pmm)" where
  "pop_from ph pop_page_no st =
     (if ph < c_erro
      then bindE (pop_block ph st) (\<lambda>(n, st').
             if n \<noteq> ERRO_POP_BLOCK then Inr (ph, n, st') else pop_from (ph + 1) n st')
      else Inr (ph, pop_page_no, st))"
  by pat_completeness auto
termination
  by (relation "measure (\<lambda>(ph, n, st). 11 - unat ph)") (auto simp: word_less_nat_alt unat_Suc_below [of _ 11])

declare alloc_helper.simps [simp del] count_digits.simps [simp del] pop_from.simps [simp del]

definition order_of :: "uint32 \<Rightarrow> page_c" where
  "order_of page_count =
     (let counter1 = count_digits page_count 0; counter2 = counter1 - 1
      in if page_count = push_bit (unat counter2) 1 then counter1 - 1 else counter1)"

abbreviation alloc_failed :: pm_alloc where
  "alloc_failed \<equiv> \<lparr>a_addr = 0, a_size = c_erro, a_state = 0\<rparr>"

definition pmm_alloc_pages :: "uint32 \<Rightarrow> pmm \<Rightarrow> fault + (pm_alloc \<times> pmm)" where
  "pmm_alloc_pages page_count st =
     (if page_count > 1024 \<or> page_count = 0 then Inr (alloc_failed, st)
      else let origin_ph = order_of page_count
           in bindE (pop_from origin_ph ERRO_POP_BLOCK st) (\<lambda>(ph, pop_page_no, st').
                if pop_page_no = ERRO_POP_BLOCK then Inr (alloc_failed, st')
                else bindE (alloc_helper origin_ph ph pop_page_no st') (\<lambda>(target_page_no, st'').
                  Inr (\<lparr>a_addr = pmm_page_no_to_addr st'' target_page_no, a_size = origin_ph, a_state = 1\<rparr>, st''))))"

definition pmm_alloc_one_page :: "pmm \<Rightarrow> fault + (pm_alloc \<times> pmm)" where
  "pmm_alloc_one_page st =
     (case SINGLE_LINK st of
        Some header \<Rightarrow>
          (case nextf st header of
             None \<Rightarrow> Inr (\<lparr>a_addr = pmm_page_no_to_addr st (page_no (page_array st header)), a_size = 0, a_state = 1\<rparr>,
                          st\<lparr>SINGLE_LINK := None\<rparr>)
           | Some q \<Rightarrow>
               bindE (loopE (second_last_node (nextf st) header q)) (\<lambda>(probe, l).
                 Inr (\<lparr>a_addr = pmm_page_no_to_addr st (page_no (page_array st l)), a_size = 0, a_state = 1\<rparr>,
                      set_next probe None st)))
      | None \<Rightarrow> pmm_alloc_pages 1 st)"

section \<open>Release\<close>

function free_helper :: "uint32 \<Rightarrow> page_c \<Rightarrow> pmm \<Rightarrow> fault + pmm" where
  "free_helper n sz st =
     (let partner = get_partner_page_no n sz
      in bindE (find_and_pop_block partner sz st) (\<lambda>(r, st').
           if r \<noteq> ERRO_POP_BLOCK
           then free_helper (if partner < n then partner else n) (sz + 1) st'
           else append_block n sz st'))"
  by pat_completeness auto
termination
  by (relation "measure (\<lambda>(n, sz, st). 12 - unat sz)")
    (auto simp: find_and_pop_block_def word_less_nat_alt unat_Suc_below [of _ 11] split: if_splits)

declare free_helper.simps [simp del]

definition pmm_free_page :: "pm_alloc \<Rightarrow> pmm \<Rightarrow> fault + (bool \<times> pmm)" where
  "pmm_free_page block_disc st =
     (let n = addr_to_pmm_page_no st (a_addr block_disc)
      in if n < pmm_max_page_no st
         then if n < singel_page_first_no st
              then bindE (free_helper n (a_size block_disc) st) (\<lambda>st'. Inr (True, st'))
              else (case SINGLE_LINK st of
                      None \<Rightarrow> Inr (True, st\<lparr>SINGLE_LINK := Some n\<rparr>)
                    | Some p \<Rightarrow> bindE (loopE (last_node (nextf st) p)) (\<lambda>probe.
                                  Inr (True, set_next probe (Some n) st)))
         else Inr (False, st))"

section \<open>Counting\<close>

definition counte_helper :: "uint32 option \<Rightarrow> pmm \<Rightarrow> fault + uint32" where
  "counte_helper probe st = loopE (count_nodes (nextf st) probe 0)"

definition get_block_count :: "pmm \<Rightarrow> fault + pmm" where
  "get_block_count st =
     bindE (foldE (\<lambda>c st. bindE (counte_helper (MULTI_LINK st c) st) (\<lambda>k.
                     Inr (st\<lparr>block_count_array := (block_count_array st)(c := k)\<rparr>))) [0..<11] st) (\<lambda>st'.
     Inr (st'\<lparr>block_count_array := (block_count_array st')(11 := 0)\<rparr>))"

definition get_single_count :: "pmm \<Rightarrow> fault + uint32" where
  "get_single_count st = loopE (count_nodes (nextf st) (SINGLE_LINK st) 0)"

end
