(* ===== verification/PmmLists.thy ===== *)
theory PmmLists
  imports Pmm
begin

text \<open>
  The linked lists of the page manager refine lists of page numbers. \<open>pmm_rel st L S\<close>
  relates a state to the eleven block lists \<open>L 0, \<dots>, L 10\<close> and the single-page list
  \<open>S\<close>; each list operation of \<^verbatim>\<open>pmm.c\<close> is shown to return and to do the evident thing to
  these lists.
\<close>

section \<open>The refinement relation\<close>

definition listed :: "(nat \<Rightarrow> uint32 list) \<Rightarrow> uint32 list \<Rightarrow> uint32 set" where
  "listed L S = (\<Union>c<11. set (L c)) \<union> set S"

definition pmm_rel :: "pmm \<Rightarrow> (nat \<Rightarrow> uint32 list) \<Rightarrow> uint32 list \<Rightarrow> bool" where
  "pmm_rel st L S \<longleftrightarrow>
     (\<forall>c<11. chain (nextf st) (MULTI_LINK st c) (L c)) \<and>
     chain (nextf st) (SINGLE_LINK st) S \<and>
     (\<forall>c<11. \<forall>d<11. c \<noteq> d \<longrightarrow> set (L c) \<inter> set (L d) = {}) \<and>
     (\<forall>c<11. set (L c) \<inter> set S = {}) \<and>
     (\<forall>n < pmm_max_page_no st. page_no (page_array st n) = n) \<and>
     (\<forall>n \<in> listed L S. n < pmm_max_page_no st)"

definition geometry :: "pmm \<Rightarrow> uint32 \<times> uint32 \<times> uint32 \<times> uint32" where
  "geometry st = (pmm_page_start st, pmm_page_end st, pmm_max_page_no st, singel_page_first_no st)"

lemma nextf_set_next [simp]: "nextf (set_next i q st) = (nextf st)(i := q)"
  by (auto simp: nextf_def set_next_def)

lemma page_no_set_next [simp]: "page_no (page_array (set_next i q st) n) = page_no (page_array st n)"
  by (simp add: set_next_def)

lemma set_next_frame [simp]:
  "MULTI_LINK (set_next i q st) = MULTI_LINK st" "SINGLE_LINK (set_next i q st) = SINGLE_LINK st"
  "geometry (set_next i q st) = geometry st"
  by (simp_all add: set_next_def geometry_def)

lemma nextf_frame [simp]:
  "nextf (st\<lparr>MULTI_LINK := ml\<rparr>) = nextf st" "nextf (st\<lparr>SINGLE_LINK := sl\<rparr>) = nextf st"
  "geometry (st\<lparr>MULTI_LINK := ml\<rparr>) = geometry st" "geometry (st\<lparr>SINGLE_LINK := sl\<rparr>) = geometry st"
  by (auto simp: nextf_def geometry_def)

lemma geometry_max: "geometry st' = geometry st \<Longrightarrow> pmm_max_page_no st' = pmm_max_page_no st"
  by (simp add: geometry_def)

lemma set_next_max [simp]: "pmm_max_page_no (set_next i q st) = pmm_max_page_no st"
  by (rule geometry_max) simp

lemma listed_list: "c < 11 \<Longrightarrow> n \<in> set (L c) \<Longrightarrow> n \<in> listed L S"
  by (auto simp: listed_def)

lemma listed_single: "n \<in> set S \<Longrightarrow> n \<in> listed L S"
  by (simp add: listed_def)

lemma listed_upd:
  "c < 11 \<Longrightarrow> listed (L(c := ys)) S = (\<Union>d\<in>{..<11} - {c}. set (L d)) \<union> set ys \<union> set S"
  by (auto simp: listed_def split: if_splits)

lemma pmm_rel_chain: "pmm_rel st L S \<Longrightarrow> c < 11 \<Longrightarrow> chain (nextf st) (MULTI_LINK st c) (L c)"
  by (simp add: pmm_rel_def)

lemma pmm_rel_page_no: "pmm_rel st L S \<Longrightarrow> n \<in> listed L S \<Longrightarrow> page_no (page_array st n) = n"
  by (simp add: pmm_rel_def)

lemma pmm_rel_disj: "pmm_rel st L S \<Longrightarrow> c < 11 \<Longrightarrow> d < 11 \<Longrightarrow> c \<noteq> d \<Longrightarrow> set (L c) \<inter> set (L d) = {}"
  unfolding pmm_rel_def by blast

lemma pmm_rel_disj_single: "pmm_rel st L S \<Longrightarrow> c < 11 \<Longrightarrow> set (L c) \<inter> set S = {}"
  unfolding pmm_rel_def by blast

text \<open>Changing one block list: what has to be checked of the new state.\<close>

lemma pmm_rel_update:
  assumes rel: "pmm_rel st L S" and c: "c < 11"
    and chain_c: "chain (nextf st') (MULTI_LINK st' c) ys"
    and other: "\<And>d. d < 11 \<Longrightarrow> d \<noteq> c \<Longrightarrow> MULTI_LINK st' d = MULTI_LINK st d"
    and single: "SINGLE_LINK st' = SINGLE_LINK st"
    and nexts: "\<And>x. x \<in> listed (L(c := [])) S \<Longrightarrow> nextf st' x = nextf st x"
    and nums: "\<And>n. page_no (page_array st' n) = page_no (page_array st n)"
    and geo: "geometry st' = geometry st"
    and ys: "\<And>y. y \<in> set ys \<Longrightarrow> y < pmm_max_page_no st \<and> y \<notin> listed (L(c := [])) S"
  shows "pmm_rel st' (L(c := ys)) S"
proof -
  have L: "x \<in> listed (L(c := [])) S" if "x \<in> set (L d)" "d < 11" "d \<noteq> c" for x d
    using that c by (auto simp: listed_upd)
  have S: "x \<in> listed (L(c := [])) S" if "x \<in> set S" for x
    using that by (rule listed_single)
  have ch: "chain (nextf st') (MULTI_LINK st' d) ((L(c := ys)) d)" if "d < 11" for d
  proof (cases "d = c")
    case False
    then have "chain (nextf st') (MULTI_LINK st d) (L d) = chain (nextf st) (MULTI_LINK st d) (L d)"
      using L [OF _ that False] nexts by (intro chain_cong) blast
    with pmm_rel_chain [OF rel that] other [OF that False] False show ?thesis by simp
  qed (use chain_c in simp)
  have chS: "chain (nextf st') (SINGLE_LINK st') S"
    using rel S nexts single chain_cong [of S "nextf st'" "nextf st"] by (auto simp: pmm_rel_def)
  have dj: "set ((L(c := ys)) d) \<inter> set ((L(c := ys)) e) = {}" if "d < 11" "e < 11" "d \<noteq> e" for d e
    using pmm_rel_disj [OF rel that] L ys that by (auto split: if_splits)
  have djS: "set ((L(c := ys)) d) \<inter> set S = {}" if "d < 11" for d
    using pmm_rel_disj_single [OF rel that] S ys by (auto split: if_splits)
  have bnd: "n < pmm_max_page_no st" if "n \<in> listed (L(c := ys)) S" for n
    using that rel ys unfolding listed_upd [OF c] by (auto simp: pmm_rel_def listed_def)
  show ?thesis
    using ch chS dj djS bnd nums rel geometry_max [OF geo] by (simp add: pmm_rel_def)
qed

text \<open>Writing the \<^verbatim>\<open>next\<close> field of a page that is on no list.\<close>

lemma pmm_rel_set_next_unlisted:
  assumes "pmm_rel st L S" "i \<notin> listed L S"
  shows "pmm_rel (set_next i q st) L S"
proof -
  have "i \<notin> set (L c)" if "c < 11" for c using assms(2) that by (auto simp: listed_def)
  moreover have "i \<notin> set S" using assms(2) by (simp add: listed_def)
  ultimately show ?thesis using assms(1) by (simp add: pmm_rel_def)
qed

section \<open>Operations on one list\<close>

lemma c_less: "(c :: page_c) < c_erro \<longleftrightarrow> unat c < 11"
  by (simp add: word_less_nat_alt)

lemma listed_drop: "c < 11 \<Longrightarrow> x \<in> listed (L(c := [])) S \<Longrightarrow> x \<in> listed L S"
  by (auto simp: listed_upd) (auto simp: listed_def)

lemma listed_rest:
  "pmm_rel st L S \<Longrightarrow> c < 11 \<Longrightarrow> x \<in> set (L c) \<Longrightarrow> x \<notin> listed (L(c := [])) S"
  using pmm_rel_disj [of st L S _ c] pmm_rel_disj_single [of st L S c]
  by (fastforce simp: listed_upd)

lemma list_bound: "pmm_rel st L S \<Longrightarrow> c < 11 \<Longrightarrow> x \<in> set (L c) \<Longrightarrow> x < pmm_max_page_no st"
  using listed_list [of c x L S] by (simp add: pmm_rel_def)

lemma append_block_rel:
  assumes rel: "pmm_rel st L S" and c: "unat c < 11"
    and n: "n \<notin> listed L S" "n < pmm_max_page_no st"
  shows "\<exists>st'. append_block n c st = Inr st' \<and> pmm_rel st' (L(unat c := L (unat c) @ [n])) S \<and>
    geometry st' = geometry st"
proof -
  let ?c = "unat c" and ?st1 = "set_next n None st"
  have rel1: "pmm_rel ?st1 L S" using rel n(1) by (rule pmm_rel_set_next_unlisted)
  have ch: "chain (nextf ?st1) (MULTI_LINK st ?c) (L ?c)" using pmm_rel_chain [OF rel1 c] by simp
  have ok: "y < pmm_max_page_no ?st1 \<and> y \<notin> listed (L(?c := [])) S" if "y \<in> set (L ?c @ [n])" for y
    using that list_bound [OF rel1 c] listed_rest [OF rel1 c] listed_drop [OF c] n by auto
  show ?thesis
  proof (cases "MULTI_LINK st ?c")
    case None
    then have L: "L ?c = []" using ch by simp
    let ?st' = "?st1\<lparr>MULTI_LINK := (MULTI_LINK st)(?c := Some n)\<rparr>"
    have "pmm_rel ?st' (L(?c := L ?c @ [n])) S"
      using L ok by (intro pmm_rel_update [OF rel1 c]) (auto simp: L)
    then show ?thesis using None c by (simp add: append_block_def Let_def c_less)
  next
    case (Some header)
    then obtain xs x where L: "L ?c = xs @ [x]" using ch by (cases "L ?c" rule: rev_cases) auto
    have last: "last_node (nextf ?st1) header = Some x" using last_node_chain ch Some L by fastforce
    let ?st' = "set_next x (Some n) ?st1"
    have "n \<notin> set (xs @ [x])" using listed_list [OF c, of n L S] n(1) L by auto
    then have "chain (nextf ?st') (MULTI_LINK ?st' ?c) (xs @ [x, n])"
      using chain_snoc [of "nextf ?st1" "Some header" xs x n] ch Some L by simp
    moreover have "x \<notin> listed (L(?c := [])) S" using listed_rest [OF rel1 c] L by simp
    ultimately have "pmm_rel ?st' (L(?c := L ?c @ [n])) S"
      using ok L by (intro pmm_rel_update [OF rel1 c]) auto
    then show ?thesis using Some c last by (simp add: append_block_def Let_def c_less)
  qed
qed

text \<open>\<^verbatim>\<open>pop_block\<close> takes the last block of the list.\<close>

lemma pop_block_empty:
  "pmm_rel st L S \<Longrightarrow> unat c < 11 \<Longrightarrow> L (unat c) = [] \<Longrightarrow> pop_block c st = Inr (ERRO_POP_BLOCK, st)"
  using pmm_rel_chain [of st L S "unat c"] by (simp add: pop_block_def c_less)

lemma pop_block_rel:
  assumes rel: "pmm_rel st L S" and c: "unat c < 11" and L: "L (unat c) = xs @ [x]"
  shows "\<exists>st'. pop_block c st = Inr (x, st') \<and> pmm_rel st' (L(unat c := xs)) S \<and> geometry st' = geometry st"
proof -
  let ?c = "unat c"
  have ch: "chain (nextf st) (MULTI_LINK st ?c) (xs @ [x])" using pmm_rel_chain [OF rel c] L by simp
  have num: "page_no (page_array st x) = x"
    using pmm_rel_page_no [OF rel] listed_list [OF c] L by simp
  have ok: "y < pmm_max_page_no st \<and> y \<notin> listed (L(?c := [])) S" if "y \<in> set xs" for y
    using that list_bound [OF rel c] listed_rest [OF rel c] L by auto
  show ?thesis
  proof (cases xs rule: rev_cases)
    case Nil
    let ?st' = "st\<lparr>MULTI_LINK := (MULTI_LINK st)(?c := None)\<rparr>"
    have "pmm_rel ?st' (L(?c := xs)) S" using Nil by (intro pmm_rel_update [OF rel c]) auto
    then show ?thesis using Nil ch num c by (simp add: pop_block_def c_less)
  next
    case (snoc ys y)
    then have "xs \<noteq> []" by simp
    then obtain h ws where hs: "xs = h # ws" by (auto simp: neq_Nil_conv)
    obtain q zs where "ws @ [x] = q # zs" by (cases ws) auto
    with hs have hq: "xs @ [x] = h # q # zs" by simp
    then have head: "MULTI_LINK st ?c = Some h" "nextf st h = Some q" using ch by auto
    obtain us a b where ab: "h # q # zs = us @ [a, b]" "second_last_node (nextf st) h q = Some (a, b)"
      using second_last_node_chain [of "nextf st" h q zs] ch hq head by auto
    then have eq: "xs = us @ [a]" "b = x" using hq by auto
    let ?st' = "set_next a None st"
    have "chain (nextf ?st') (MULTI_LINK ?st' ?c) xs"
      using chain_cut [of "nextf st" _ us a "[x]"] ch eq by simp
    moreover have "a \<notin> listed (L(?c := [])) S" using listed_rest [OF rel c] L eq by simp
    ultimately have "pmm_rel ?st' (L(?c := xs)) S" using ok by (intro pmm_rel_update [OF rel c]) auto
    then show ?thesis using head ab eq num c by (simp add: pop_block_def c_less)
  qed
qed

text \<open>
  \<^verbatim>\<open>find_and_pop_block\<close> finds every block of its list but the head of a list with more
  than one block: \<open>findable\<close>.
\<close>

definition findable :: "uint32 \<Rightarrow> uint32 list \<Rightarrow> bool" where
  "findable t xs \<longleftrightarrow> xs = [t] \<or> t \<in> set (tl xs)"

lemma find_prev_found:
  "chain nx (Some p) (p # xs @ t # ys) \<Longrightarrow> (\<And>i. i \<in> set (p # xs @ t # ys) \<Longrightarrow> pn i = i) \<Longrightarrow>
     find_prev nx pn t p = Some (Inr (last (p # xs), t))"
proof (induction xs arbitrary: p)
  case Nil
  then show ?case by (simp add: find_prev.simps)
next
  case (Cons x xs)
  have "x \<noteq> t" using chain_distinct [OF Cons.prems(1)] by auto
  with Cons show ?case by (simp add: find_prev.simps [of nx pn t p])
qed

lemma find_prev_missing:
  "chain nx (Some p) (p # xs) \<Longrightarrow> (\<And>i. i \<in> set xs \<Longrightarrow> pn i = i) \<Longrightarrow> t \<notin> set xs \<Longrightarrow>
     find_prev nx pn t p = Some (Inl (last (p # xs)))"
proof (induction xs arbitrary: p)
  case Nil
  then show ?case by (simp add: find_prev.simps)
next
  case (Cons x xs)
  then have "x \<noteq> t" by auto
  with Cons show ?case by (simp add: find_prev.simps [of nx pn t p])
qed

lemma find_and_pop_block_found:
  assumes rel: "pmm_rel st L S" and c: "unat c < 11" and f: "findable t (L (unat c))"
  shows "\<exists>st'. find_and_pop_block t c st = Inr (t, st') \<and>
    pmm_rel st' (L(unat c := remove1 t (L (unat c)))) S \<and> geometry st' = geometry st"
proof -
  let ?c = "unat c"
  have ch: "chain (nextf st) (MULTI_LINK st ?c) (L ?c)" using pmm_rel_chain [OF rel c] .
  have num: "page_no (page_array st i) = i" if "i \<in> set (L ?c)" for i
    using pmm_rel_page_no [OF rel] listed_list [of ?c i L S] c that by simp
  show ?thesis
  proof (cases "L ?c = [t]")
    case True
    then obtain st' where "pop_block c st = Inr (t, st')" "pmm_rel st' (L(?c := [])) S" "geometry st' = geometry st"
      using pop_block_rel [OF rel c, of "[]" t] by auto
    then show ?thesis using True ch num c by (simp add: find_and_pop_block_def c_less)
  next
    case False
    then obtain p xs ys where L: "L ?c = p # xs @ t # ys"
      using f by (cases "L ?c") (auto simp: findable_def in_set_conv_decomp)
    obtain us a where us: "p # xs = us @ [a]" by (metis append_butlast_last_id list.distinct(1))
    then have la: "last (p # xs) = a" by (metis last_snoc)
    let ?st' = "set_next a (nextf st t) st"
    have hd: "MULTI_LINK st ?c = Some p" and nn: "nextf st p \<noteq> None"
      using ch L by (cases xs; auto)+
    have "find_prev (nextf st) (\<lambda>i. page_no (page_array st i)) t p = Some (Inr (a, t))"
      using find_prev_found [of "nextf st" p xs t ys] ch L hd num la by (simp del: last.simps)
    then have run: "find_and_pop_block t c st = Inr (t, ?st')"
      using hd nn c by (auto simp: find_and_pop_block_def c_less)
    have "t \<notin> set (p # xs)" using chain_distinct [OF ch] L by auto
    then have t: "t \<notin> set (us @ [a])" unfolding us .
    have L': "L ?c = us @ a # t # ys" using us L by (metis append_Cons append_assoc append_Nil)
    with t have eq: "remove1 t (L ?c) = us @ a # ys" by (simp add: remove1_append)
    have "chain (nextf ?st') (MULTI_LINK ?st' ?c) (remove1 t (L ?c))"
      using chain_unlink [of "nextf st" _ us a t ys] ch unfolding eq by (simp add: L')
    moreover have "a \<notin> listed (L(?c := [])) S" using listed_rest [OF rel c, of a] L' by simp
    ultimately have "pmm_rel ?st' (L(?c := remove1 t (L ?c))) S"
      using list_bound [OF rel c] listed_rest [OF rel c] set_remove1_subset [of t "L ?c"]
      by (intro pmm_rel_update [OF rel c]) auto
    with run show ?thesis by simp
  qed
qed

lemma find_and_pop_block_missing:
  assumes rel: "pmm_rel st L S" and c: "unat c < 11" and f: "\<not> findable t (L (unat c))"
  shows "find_and_pop_block t c st = Inr (ERRO_POP_BLOCK, st)"
proof -
  let ?c = "unat c"
  have ch: "chain (nextf st) (MULTI_LINK st ?c) (L ?c)" using pmm_rel_chain [OF rel c] .
  have num: "page_no (page_array st i) = i" if "i \<in> set (L ?c)" for i
    using pmm_rel_page_no [OF rel] listed_list [of ?c i L S] c that by simp
  show ?thesis
  proof (cases "L ?c")
    case Nil
    then show ?thesis using ch c by (simp add: find_and_pop_block_def c_less)
  next
    case (Cons p xs)
    have t: "t \<notin> set xs" and single: "xs = [] \<longrightarrow> p \<noteq> t" using f Cons by (auto simp: findable_def)
    have fp: "find_prev (nextf st) (\<lambda>i. page_no (page_array st i)) t p = Some (Inl (last (p # xs)))"
      using find_prev_missing [of "nextf st" p xs] ch Cons t num by auto
    have "last (p # xs) \<noteq> t" using t single by (cases xs rule: rev_cases) auto
    moreover have "page_no (page_array st (last (p # xs))) = last (p # xs)" using num Cons by simp
    moreover have "\<not> (nextf st p = None \<and> page_no (page_array st p) = t)"
      using ch Cons single num by (cases xs) auto
    ultimately show ?thesis using ch Cons fp c by (auto simp: find_and_pop_block_def c_less)
  qed
qed

end
