(* ===== verification/PmmBuddy.thy ===== *)
theory PmmBuddy
  imports PmmLists
begin

text \<open>
  What the page manager does with whole blocks: buddies, the merging \<^verbatim>\<open>free_helper\<close>
  refined by \<open>buddy_free\<close> on lists, the conservation of pages, allocation, the state
  after initialisation and the single-page list.
\<close>

section \<open>Buddies\<close>

definition blk :: "nat \<Rightarrow> uint32 \<Rightarrow> nat set" where
  "blk c n = {unat n ..< unat n + 2 ^ c}"

lemma unat_c_to_uint32: "c < 32 \<Longrightarrow> unat (c_to_uint32 (of_nat c)) = 2 ^ c"
proof -
  assume c: "c < 32"
  then have lt: "(2 :: nat) ^ c < 2 ^ 32" by (rule power_strict_increasing) simp
  have "unat (of_nat c :: uint32) = c" using c by (intro unat_of_nat_32) simp
  then have "c_to_uint32 (of_nat c) = of_nat (2 ^ c)" by (simp add: c_to_uint32_def)
  then show ?thesis using unat_of_nat_32 [OF lt] by (simp only:)
qed

lemma partner_unat:
  assumes c: "c < 11" and n: "2 ^ c dvd unat n" "unat n + 2 ^ c \<le> 2 ^ 31"
  shows "unat (get_partner_page_no n (of_nat c)) =
    (if odd (unat n div 2 ^ c) then unat n - 2 ^ c else unat n + 2 ^ c)"
proof -
  let ?v = "c_to_uint32 (of_nat c)"
  obtain k where k: "unat n = 2 ^ c * k" using n(1) by blast
  have v: "unat ?v = 2 ^ c" using c by (intro unat_c_to_uint32) simp
  have c2: "(2 :: nat) ^ c \<le> 2 ^ 10" using c by (intro power_increasing) auto
  have "unat (2 * ?v) = (2 * unat ?v) mod 2 ^ 32" by (simp add: unat_word_ariths)
  then have v2: "unat (2 * ?v) = 2 ^ c * 2" using c2 v by simp
  have plus: "unat (n + ?v) = unat n + 2 ^ c"
    using n(2) v by (simp add: unat_word_ariths)
  show ?thesis
  proof (cases "k = 0")
    case True
    then have "n = 0" using k by (simp add: unat_eq_0)
    have "unat (0 - ?v) = 2 ^ 32 - 2 ^ c"
      using v c2 by (subst unat_sub_if_size) (simp add: word_size)
    moreover have "(2 ^ 32 - 2 ^ c) mod (2 ^ c * 2) = (2 ^ c :: nat)"
    proof -
      have "(2 :: nat) ^ 32 - 2 ^ c = 2 ^ c * (2 ^ (32 - c) - 1)"
        using c by (simp add: right_diff_distrib' flip: power_add)
      moreover have "(2 ^ (32 - c) - 1) mod 2 = (1 :: nat)"
      proof -
        obtain j where "32 - c = Suc j" using c by (cases "32 - c") auto
        moreover obtain i where "(2 :: nat) ^ j = Suc i" by (metis not0_implies_Suc power_not_zero zero_neq_numeral)
        ultimately have "(2 :: nat) ^ (32 - c) - 1 = Suc (2 * i)" by simp
        then show ?thesis by simp
      qed
      ultimately show ?thesis by (simp add: mult_mod_right [symmetric])
    qed
    ultimately have "unat ((n - ?v) mod (2 * ?v)) \<noteq> 0"
      using \<open>n = 0\<close> v2 by (simp only: unat_mod) simp
    then have "(n - ?v) mod (2 * ?v) \<noteq> 0" by (metis unat_0)
    then show ?thesis
      using True k plus by (simp add: get_partner_page_no_def Let_def)
  next
    case False
    then have le: "2 ^ c \<le> unat n" using k by simp
    have minus: "unat (n - ?v) = unat n - 2 ^ c"
      using le v by (simp add: unat_sub word_le_nat_alt)
    have eq: "unat n - 2 ^ c = 2 ^ c * (k - 1)" using k by (simp add: right_diff_distrib')
    have "unat ((n - ?v) mod (2 * ?v)) = 2 ^ c * ((k - 1) mod 2)"
      by (simp only: unat_mod minus v2 eq mult_mod_right)
    moreover have "(n - ?v) mod (2 * ?v) = 0 \<longleftrightarrow> unat ((n - ?v) mod (2 * ?v)) = 0"
      by (simp only: unat_eq_0)
    ultimately have "(n - ?v) mod (2 * ?v) = 0 \<longleftrightarrow> (k - 1) mod 2 = 0" by simp
    also have "\<dots> \<longleftrightarrow> odd k" using False by presburger
    finally show ?thesis
      using k minus plus by (simp add: get_partner_page_no_def Let_def)
  qed
qed

text \<open>Two buddies make up the block of twice the size that starts at the smaller one.\<close>

lemma blk_merge:
  assumes c: "c < 11" and n: "2 ^ c dvd unat n" "unat n + 2 ^ c \<le> 2 ^ 31"
    and q: "q = get_partner_page_no n (of_nat c)" and m: "m = (if q < n then q else n)"
  shows "2 ^ Suc c dvd unat m" "blk (Suc c) m = blk c n \<union> blk c q" "q \<noteq> n"
    "blk c n \<inter> blk c q = {}" "unat m + 2 ^ Suc c = max (unat n) (unat q) + 2 ^ c"
proof -
  obtain k where k: "unat n = 2 ^ c * k" using n(1) by blast
  have pos: "(0 :: nat) < 2 ^ c" by simp
  have uq: "unat q = (if odd k then unat n - 2 ^ c else unat n + 2 ^ c)"
    using partner_unat [OF c n] q k by simp
  have even_up: "2 * 2 ^ c dvd (2 :: nat) ^ c * j" if "even j" for j
    using that by (metis dvd_refl mult.commute mult_dvd_mono)
  consider (odd) "odd k" "unat q + 2 ^ c = unat n" | (even) "even k" "unat q = unat n + 2 ^ c"
    using uq k pos by (cases k) (auto split: if_splits)
  then have "2 ^ Suc c dvd unat m \<and> blk (Suc c) m = blk c n \<union> blk c q \<and> q \<noteq> n \<and>
      blk c n \<inter> blk c q = {} \<and> unat m + 2 ^ Suc c = max (unat n) (unat q) + 2 ^ c"
  proof cases
    case odd
    then have "q < n" using pos unfolding word_less_nat_alt by linarith
    moreover have "unat q = 2 ^ c * (k - 1)" using odd k by (simp add: right_diff_distrib')
    ultimately show ?thesis
      using odd even_up [of "k - 1"] m pos by (auto simp: blk_def)
  next
    case even
    then have "\<not> q < n" unfolding word_less_nat_alt by linarith
    then show ?thesis
      using even even_up [of k] k m pos by (auto simp: blk_def)
  qed
  then show "2 ^ Suc c dvd unat m" "blk (Suc c) m = blk c n \<union> blk c q" "q \<noteq> n"
    "blk c n \<inter> blk c q = {}" "unat m + 2 ^ Suc c = max (unat n) (unat q) + 2 ^ c"
    by blast+
qed

section \<open>Merging\<close>

text \<open>\<^verbatim>\<open>free_helper\<close> on lists; \<open>None\<close> when it merges two blocks of 1024 pages.\<close>

function buddy_free :: "(nat \<Rightarrow> uint32 list) \<Rightarrow> uint32 \<Rightarrow> nat \<Rightarrow> (nat \<Rightarrow> uint32 list) option" where
  "buddy_free L n c =
     (if c < 11
      then let q = get_partner_page_no n (of_nat c)
           in if findable q (L c)
              then buddy_free (L(c := remove1 q (L c))) (if q < n then q else n) (Suc c)
              else Some (L(c := L c @ [n]))
      else None)"
  by pat_completeness auto
termination
  by (relation "measure (\<lambda>(L, n, c). 11 - c)") auto

declare buddy_free.simps [simp del]

lemma findable_in: "findable q xs \<Longrightarrow> q \<in> set xs"
  by (cases xs) (auto simp: findable_def)

lemma listed_remove1:
  assumes "pmm_rel st L S" "c < 11" "q \<in> set (L c)"
  shows "listed (L(c := remove1 q (L c))) S = listed L S - {q}"
proof -
  have "distinct (L c)" using pmm_rel_chain [OF assms(1,2)] by (rule chain_distinct)
  then have "set (remove1 q (L c)) = set (L c) - {q}" by simp
  moreover have "q \<notin> listed (L(c := [])) S" by (rule listed_rest [OF assms])
  moreover have "listed L S = listed (L(c := [])) S \<union> set (L c)"
    using listed_upd [OF assms(2), of L "L c"] listed_upd [OF assms(2), of L "[]"] by auto
  ultimately show ?thesis
    using listed_upd [OF assms(2), of L "remove1 q (L c)"] listed_upd [OF assms(2), of L "[]"] by auto
qed

lemma not_erro: "n < pmm_max_page_no st \<Longrightarrow> n \<noteq> ERRO_POP_BLOCK"
  using unat_lt_32 [of "pmm_max_page_no st"] by (auto simp: word_less_nat_alt)

text \<open>Refinement: the recursive \<^verbatim>\<open>free_helper\<close> computes \<open>buddy_free\<close> on the lists.\<close>

lemma free_helper_refines:
  assumes "pmm_rel st L S" "c \<le> 11" "n \<notin> listed L S" "n < pmm_max_page_no st"
  shows "case buddy_free L n c of
      None \<Rightarrow> free_helper n (of_nat c) st = Inl Undefined
    | Some L' \<Rightarrow> \<exists>st'. free_helper n (of_nat c) st = Inr st' \<and> pmm_rel st' L' S \<and> geometry st' = geometry st"
  using assms
proof (induction L n c arbitrary: st rule: buddy_free.induct)
  case (1 L n c)
  have uc: "unat (of_nat c :: uint32) = c" using "1.prems"(2) by (intro unat_of_nat_32) simp
  show ?case
  proof (cases "c < 11")
    case False
    then have "c = 11" using "1.prems"(2) by simp
    then show ?thesis
      by (subst buddy_free.simps, subst free_helper.simps)
        (simp add: Let_def find_and_pop_block_def append_block_def)
  next
    case c: True
    let ?q = "get_partner_page_no n (of_nat c)"
    show ?thesis
    proof (cases "findable ?q (L c)")
      case False
      then have "find_and_pop_block ?q (of_nat c) st = Inr (ERRO_POP_BLOCK, st)"
        using find_and_pop_block_missing [OF "1.prems"(1), of "of_nat c" ?q] uc c by simp
      with False show ?thesis
        using append_block_rel [OF "1.prems"(1), of "of_nat c" n] "1.prems" uc c
        by (subst buddy_free.simps, subst free_helper.simps) (simp add: Let_def)
    next
      case f: True
      let ?L = "L(c := remove1 ?q (L c))" and ?m = "if ?q < n then ?q else n"
      obtain st1 where st1: "find_and_pop_block ?q (of_nat c) st = Inr (?q, st1)" "pmm_rel st1 ?L S"
        "geometry st1 = geometry st"
        using find_and_pop_block_found [OF "1.prems"(1), of "of_nat c" ?q] uc c f by auto
      have q: "?q \<in> set (L c)" using f by (rule findable_in)
      have ql: "?q < pmm_max_page_no st" using list_bound [OF "1.prems"(1) c q] .
      have lst: "listed ?L S = listed L S - {?q}" using listed_remove1 [OF "1.prems"(1) c q] .
      have m: "?m \<notin> listed ?L S" "?m < pmm_max_page_no st1"
        using lst "1.prems"(3,4) ql geometry_max [OF st1(3)] by auto
      have "buddy_free L n c = buddy_free ?L ?m (Suc c)"
        using c f by (subst buddy_free.simps) (simp add: Let_def)
      moreover have "free_helper n (of_nat c) st = free_helper ?m (of_nat (Suc c)) st1"
        using st1(1) not_erro [OF ql]
        by (subst free_helper.simps) (simp add: Let_def add.commute)
      moreover have "Suc c \<le> 11" using c by simp
      ultimately show ?thesis
        using "1.IH" [OF c refl f st1(2) _ m] st1(3) by (simp only:)
    qed
  qed
qed

section \<open>Conservation of pages\<close>

text \<open>The pages on the block lists, and the invariant of a buddy system below page \<open>M\<close>.\<close>

definition buddy_pages :: "(nat \<Rightarrow> uint32 list) \<Rightarrow> nat set" where
  "buddy_pages L = (\<Union>c<11. \<Union>n\<in>set (L c). blk c n)"

definition buddy_ok :: "nat \<Rightarrow> (nat \<Rightarrow> uint32 list) \<Rightarrow> bool" where
  "buddy_ok M L \<longleftrightarrow>
     (\<forall>c<11. distinct (L c)) \<and>
     (\<forall>c<11. \<forall>n\<in>set (L c). 2 ^ c dvd unat n \<and> unat n + 2 ^ c \<le> M) \<and>
     (\<forall>c<11. \<forall>d<11. \<forall>n\<in>set (L c). \<forall>m\<in>set (L d). (c, n) \<noteq> (d, m) \<longrightarrow> blk c n \<inter> blk d m = {})"

lemma buddy_okD:
  assumes "buddy_ok M L" "c < 11"
  shows "distinct (L c)" "n \<in> set (L c) \<Longrightarrow> 2 ^ c dvd unat n" "n \<in> set (L c) \<Longrightarrow> unat n + 2 ^ c \<le> M"
    "d < 11 \<Longrightarrow> n \<in> set (L c) \<Longrightarrow> m \<in> set (L d) \<Longrightarrow> (c, n) \<noteq> (d, m) \<Longrightarrow> blk c n \<inter> blk d m = {}"
  using assms unfolding buddy_ok_def by blast+

lemma blk_nonempty: "unat n \<in> blk c n"
  by (simp add: blk_def)

lemma buddy_pagesI: "c < 11 \<Longrightarrow> n \<in> set (L c) \<Longrightarrow> blk c n \<subseteq> buddy_pages L"
  unfolding buddy_pages_def by blast

lemma buddy_pages_upd:
  "c < 11 \<Longrightarrow> buddy_pages (L(c := ys)) = (\<Union>d\<in>{..<11} - {c}. \<Union>n\<in>set (L d). blk d n) \<union> (\<Union>n\<in>set ys. blk c n)"
proof -
  assume "c < 11"
  then have "{..<11} = insert c ({..<11} - {c})" by auto
  then have "buddy_pages (L(c := ys)) = (\<Union>d\<in>insert c ({..<11} - {c}). \<Union>n\<in>set ((L(c := ys)) d). blk d n)"
    unfolding buddy_pages_def by (simp only:)
  then show ?thesis by (auto split: if_splits)
qed

lemma buddy_ok_append:
  assumes ok: "buddy_ok M L" and c: "c < 11"
    and n: "2 ^ c dvd unat n" "unat n + 2 ^ c \<le> M" "blk c n \<inter> buddy_pages L = {}"
  shows "buddy_ok M (L(c := L c @ [n]))" "buddy_pages (L(c := L c @ [n])) = buddy_pages L \<union> blk c n"
proof -
  have dj: "blk c n \<inter> blk d m = {}" if "d < 11" "m \<in> set (L d)" for d m
    using n(3) buddy_pagesI [of d m L] that by blast
  then have "n \<notin> set (L c)" using c blk_nonempty [of n c] by blast
  then show "buddy_ok M (L(c := L c @ [n]))"
    using ok c n(1,2) dj unfolding buddy_ok_def by (auto split: if_splits simp: Int_commute)
  show "buddy_pages (L(c := L c @ [n])) = buddy_pages L \<union> blk c n"
    using buddy_pages_upd [OF c, of L "L c"] buddy_pages_upd [OF c, of L "L c @ [n]"] by auto
qed

lemma buddy_ok_remove:
  assumes ok: "buddy_ok M L" and c: "c < 11" and q: "q \<in> set (L c)"
  shows "buddy_ok M (L(c := remove1 q (L c)))"
    "buddy_pages (L(c := remove1 q (L c))) = buddy_pages L - blk c q"
proof -
  have set: "set (remove1 q (L c)) = set (L c) - {q}" using buddy_okD(1) [OF ok c] by simp
  show "buddy_ok M (L(c := remove1 q (L c)))"
    using ok set by (auto simp: buddy_ok_def)
  have dj: "blk d n \<inter> blk c q = {}" if "d < 11" "n \<in> set (L d)" "(d, n) \<noteq> (c, q)" for d n
    using buddy_okD(4) [OF ok that(1) c that(2) q that(3)] .
  let ?A = "\<Union>d\<in>{..<11} - {c}. \<Union>n\<in>set (L d). blk d n"
  have "(\<Union>n\<in>set (L c) - {q}. blk c n) = (\<Union>n\<in>set (L c). blk c n) - blk c q"
    using dj [OF c] by fast
  then have new: "buddy_pages (L(c := remove1 q (L c))) = ?A \<union> ((\<Union>n\<in>set (L c). blk c n) - blk c q)"
    unfolding buddy_pages_upd [OF c] set by (simp only:)
  have old: "buddy_pages L = ?A \<union> (\<Union>n\<in>set (L c). blk c n)"
    using buddy_pages_upd [OF c, of L "L c"] by simp
  have "?A \<inter> blk c q = {}" using dj by fast
  then show "buddy_pages (L(c := remove1 q (L c))) = buddy_pages L - blk c q"
    unfolding new old by blast
qed

text \<open>
  Freeing a block adds exactly its pages to the free pages and keeps every free block
  aligned and disjoint from the others, whatever merging takes place.
\<close>

lemma buddy_free_ok:
  assumes "buddy_ok M L" "M \<le> 2 ^ 31" "c < 11" "2 ^ c dvd unat n" "unat n + 2 ^ c \<le> M"
    "blk c n \<inter> buddy_pages L = {}" "buddy_free L n c = Some L'"
  shows "buddy_ok M L' \<and> buddy_pages L' = buddy_pages L \<union> blk c n"
  using assms
proof (induction L n c rule: buddy_free.induct)
  case (1 L n c)
  let ?q = "get_partner_page_no n (of_nat c)"
  show ?case
  proof (cases "findable ?q (L c)")
    case False
    then have "L' = L(c := L c @ [n])"
      using "1.prems"(3,7) by (subst (asm) buddy_free.simps) (simp add: Let_def)
    then show ?thesis using buddy_ok_append [OF "1.prems"(1,3-6)] by (simp only:)
  next
    case f: True
    let ?L = "L(c := remove1 ?q (L c))" and ?m = "if ?q < n then ?q else n"
    have q: "?q \<in> set (L c)" using f by (rule findable_in)
    note rm = buddy_ok_remove [OF "1.prems"(1,3) q]
    have n31: "unat n + 2 ^ c \<le> 2 ^ 31" using "1.prems"(2,5) by simp
    note merge = blk_merge [OF "1.prems"(3,4) n31 refl refl]
    have run: "buddy_free ?L ?m (Suc c) = Some L'"
      using "1.prems"(3,7) f by (subst (asm) buddy_free.simps) (simp add: Let_def)
    then have c: "Suc c < 11" by (subst (asm) buddy_free.simps) (auto split: if_splits)
    have bnd: "unat ?m + 2 ^ Suc c \<le> M"
      using merge(5) "1.prems"(5) buddy_okD(3) [OF "1.prems"(1,3) q] by simp
    have dj: "blk (Suc c) ?m \<inter> buddy_pages ?L = {}"
      unfolding merge(2) rm(2) using "1.prems"(6) by blast
    have "buddy_ok M L' \<and> buddy_pages L' = buddy_pages ?L \<union> blk (Suc c) ?m"
      by (rule "1.IH" [OF "1.prems"(3) refl f rm(1) "1.prems"(2) c merge(1) bnd dj run])
    moreover have "blk c ?q \<subseteq> buddy_pages L" by (rule buddy_pagesI [of c ?q L, OF "1.prems"(3) q])
    ultimately show ?thesis unfolding rm(2) merge(2) by blast
  qed
qed

end
