(* ===== verification/PmmAlloc.thy ===== *)
theory PmmAlloc
  imports PmmBuddy
begin

text \<open>
  Allocation of blocks and of single pages, and the state that \<^verbatim>\<open>pmm_page_init\<close> builds, in
  terms of the lists of \<open>pmm_rel\<close>.
\<close>

section \<open>The size of a request\<close>

lemma unat_half: "unat (drop_bit 1 (p :: uint32)) = unat p div 2"
  by (simp add: drop_bit_eq_div unat_div)

lemma count_digits_eq:
  "2 ^ d \<le> unat p \<Longrightarrow> unat p < 2 ^ Suc d \<Longrightarrow> count_digits p k = k + of_nat (Suc d)"
proof (induction d arbitrary: p k)
  case 0
  then have p: "unat p = 1" by simp
  then have "unat (drop_bit 1 p) = 0" by (simp only: unat_half)
  then have "drop_bit 1 p = 0" by (simp only: unat_eq_0)
  moreover have "p \<noteq> 0" using p by auto
  ultimately show ?case by (simp add: count_digits.simps [of p] count_digits.simps [of 0])
next
  case (Suc d)
  have "2 ^ d \<le> unat (drop_bit 1 p)" "unat (drop_bit 1 p) < 2 ^ Suc d"
    using Suc.prems by (simp_all only: unat_half) auto
  then have "count_digits (drop_bit 1 p) (k + 1) = k + 1 + of_nat (Suc d)" by (rule Suc.IH)
  moreover have "p \<noteq> 0" using Suc.prems(1) by auto
  ultimately show ?case by (simp add: count_digits.simps [of p] algebra_simps)
qed

lemma between_powers: "0 < (n :: nat) \<Longrightarrow> \<exists>d. 2 ^ d \<le> n \<and> n < 2 ^ Suc d"
proof (induction n rule: less_induct)
  case (less n)
  show ?case
  proof (cases "n = 1")
    case True
    then show ?thesis by (intro exI [of _ 0]) simp
  next
    case False
    then obtain d where "2 ^ d \<le> n div 2" "n div 2 < 2 ^ Suc d"
      using less.IH [of "n div 2"] less.prems by auto
    then show ?thesis by (intro exI [of _ "Suc d"]) auto
  qed
qed

text \<open>\<open>order_of\<close> is the smallest block size that holds the request.\<close>

lemma order_of_spec:
  assumes "0 < unat n" "unat n \<le> 1024"
  obtains c where "order_of n = of_nat c" "c < 11" "unat n \<le> 2 ^ c" "\<And>d. d < c \<Longrightarrow> 2 ^ d < unat n"
proof -
  obtain d where d: "2 ^ d \<le> unat n" "unat n < 2 ^ Suc d" using between_powers [OF assms(1)] by blast
  have "(2 :: nat) ^ d < 2 ^ 11" using d(1) assms(2) by simp
  then have d11: "d < 11" by (rule power_less_imp_less_exp [rotated]) simp
  have cd: "count_digits n 0 = of_nat (Suc d)" using count_digits_eq [OF d, of 0] by simp
  have ud: "unat (of_nat d :: uint32) = d" using d11 by (intro unat_of_nat_32) simp
  have pow: "n = push_bit d 1 \<longleftrightarrow> unat n = 2 ^ d"
  proof -
    have "unat (push_bit d 1 :: uint32) = 2 ^ d"
      using unat_c_to_uint32 [of d] d11 ud by (simp add: c_to_uint32_def)
    then show ?thesis by (simp only: word_unat_eq_iff)
  qed
  have ord: "order_of n = (if unat n = 2 ^ d then of_nat d else of_nat (Suc d))"
    unfolding order_of_def Let_def cd using pow ud by simp
  have small: "(2 :: nat) ^ e < 2 ^ d" if "e < d" for e using that by simp
  show ?thesis
  proof (cases "unat n = 2 ^ d")
    case True
    then show ?thesis using that [of d] ord d11 small by simp
  next
    case False
    then have lt: "2 ^ d < unat n" using d(1) by simp
    then have "d \<noteq> 10" using assms(2) by auto
    then have "Suc d < 11" using d11 by simp
    moreover have "2 ^ e < unat n" if "e < Suc d" for e
      using lt small [of e] that by (cases "e = d") (simp, metis less_SucE less_trans)
    ultimately show ?thesis using that [of "Suc d"] ord False d(2) by simp
  qed
qed

section \<open>Allocation of blocks\<close>

text \<open>\<open>first_nonempty L c\<close> is the size at which the search of \<^verbatim>\<open>pmm_alloc_pages\<close> stops.\<close>

definition all_empty :: "(nat \<Rightarrow> uint32 list) \<Rightarrow> nat \<Rightarrow> nat \<Rightarrow> bool" where
  "all_empty L c d \<longleftrightarrow> (\<forall>e. c \<le> e \<and> e < d \<longrightarrow> L e = [])"

lemma all_empty_refl: "all_empty L c c"
  by (auto simp: all_empty_def)

lemma pop_from_step:
  assumes "pmm_rel st L S" "c < 11" "L c = []"
  shows "pop_from (of_nat c) r st = pop_from (of_nat (Suc c)) ERRO_POP_BLOCK st"
proof -
  have uc: "unat (of_nat c :: uint32) = c" using assms(2) by (intro unat_of_nat_32) simp
  then have "pop_block (of_nat c) st = Inr (ERRO_POP_BLOCK, st)"
    using pop_block_empty [OF assms(1), of "of_nat c"] assms(2,3) by simp
  moreover have "(of_nat c :: uint32) < 11" using uc assms(2) by (simp add: c_less)
  ultimately show ?thesis by (simp add: pop_from.simps [of "of_nat c"] add.commute)
qed

lemma pop_from_skip:
  assumes "pmm_rel st L S" "c \<le> d" "d \<le> 11" "all_empty L c d"
  shows "pop_from (of_nat c) ERRO_POP_BLOCK st = pop_from (of_nat d) ERRO_POP_BLOCK st"
  using assms(2-4)
proof (induction d rule: dec_induct)
  case (step e)
  then have "all_empty L c e" "L e = []" by (auto simp: all_empty_def)
  with step pop_from_step [OF assms(1), of e ERRO_POP_BLOCK] show ?case by simp
qed simp

lemma pop_from_none:
  assumes "pmm_rel st L S" "c \<le> 11" "all_empty L c 11"
  shows "pop_from (of_nat c) ERRO_POP_BLOCK st = Inr (c_erro, ERRO_POP_BLOCK, st)"
  using pop_from_skip [OF assms(1,2) _ assms(3)] by (simp add: pop_from.simps [of 11])

lemma pop_from_found:
  assumes rel: "pmm_rel st L S" and c: "c \<le> d" "d < 11" and e: "all_empty L c d" and L: "L d = xs @ [x]"
  shows "\<exists>st'. pop_from (of_nat c) ERRO_POP_BLOCK st = Inr (of_nat d, x, st') \<and>
    pmm_rel st' (L(d := xs)) S \<and> geometry st' = geometry st"
proof -
  have ud: "unat (of_nat d :: uint32) = d" using c(2) by (intro unat_of_nat_32) simp
  have dd: "(of_nat d :: uint32) < 11" using ud c(2) by (simp add: c_less)
  obtain st' where st': "pop_block (of_nat d) st = Inr (x, st')" "pmm_rel st' (L(d := xs)) S"
    "geometry st' = geometry st"
    using pop_block_rel [OF rel, of "of_nat d" xs x] ud c(2) L by auto
  have "x \<noteq> ERRO_POP_BLOCK" using not_erro [OF list_bound [OF rel c(2), of x]] L by simp
  then have "pop_from (of_nat d) ERRO_POP_BLOCK st = Inr (of_nat d, x, st')"
    using st'(1) dd by (simp add: pop_from.simps [of "of_nat d"])
  then show ?thesis using pop_from_skip [OF rel c(1) _ e] c(2) st' by simp
qed

lemma request_range: "0 < unat n \<Longrightarrow> unat n \<le> 1024 \<Longrightarrow> \<not> (n > (1024 :: uint32) \<or> n = 0)"
  by (auto simp: word_less_nat_alt)

lemma alloc_helper_same [simp]: "alloc_helper t t n st = Inr (n, st)"
  by (simp add: alloc_helper.simps)

lemma geometry_start: "geometry st' = geometry st \<Longrightarrow> pmm_page_no_to_addr st' = pmm_page_no_to_addr st"
  by (simp add: geometry_def pmm_page_no_to_addr_def fun_eq_iff)

text \<open>A request for which a block of the right size is free takes the last such block.\<close>

lemma pmm_alloc_pages_exact_rel:
  assumes rel: "pmm_rel st L S" and n: "0 < unat n" "unat n \<le> 1024"
    and c: "order_of n = of_nat c" "c < 11" and L: "L c = xs @ [x]"
  shows "\<exists>st'. pmm_alloc_pages n st =
      Inr (\<lparr>a_addr = pmm_page_no_to_addr st x, a_size = of_nat c, a_state = 1\<rparr>, st') \<and>
    pmm_rel st' (L(c := xs)) S \<and> geometry st' = geometry st"
proof -
  obtain st' where st': "pop_from (of_nat c) ERRO_POP_BLOCK st = Inr (of_nat c, x, st')"
    "pmm_rel st' (L(c := xs)) S" "geometry st' = geometry st"
    using pop_from_found [OF rel order_refl c(2) all_empty_refl L] by blast
  have "x \<noteq> ERRO_POP_BLOCK" using not_erro [OF list_bound [OF rel c(2), of x]] L by simp
  then show ?thesis
    using st' request_range [OF n] c(1) geometry_start [OF st'(3)]
    by (simp add: pmm_alloc_pages_def Let_def)
qed

lemma pmm_alloc_pages_none_rel:
  assumes rel: "pmm_rel st L S" and n: "0 < unat n" "unat n \<le> 1024"
    and c: "order_of n = of_nat c" "c < 11" and e: "all_empty L c 11"
  shows "pmm_alloc_pages n st = Inr (alloc_failed, st)"
  using pop_from_none [OF rel _ e] request_range [OF n] c by (simp add: pmm_alloc_pages_def Let_def)

text \<open>
  A request that has to split a larger block \<open>x\<close> puts the upper half on the list number
  \<open>x - 1\<close> instead of the next smaller size; where that is not a list, the split is undefined.
\<close>

lemma alloc_helper_step:
  "pop_ph \<noteq> t \<Longrightarrow> alloc_helper t pop_ph n st =
     bindE (append_block (n + c_to_uint32 pop_ph div 2) (n - 1) st) (\<lambda>st'. alloc_helper t (pop_ph - 1) n st')"
  by (subst alloc_helper.simps) (simp add: Let_def)

lemma pmm_alloc_pages_split_undefined:
  assumes rel: "pmm_rel st L S" and n: "0 < unat n" "unat n \<le> 1024"
    and c: "order_of n = of_nat c" and d: "c < d" "d < 11" and e: "all_empty L c d" and L: "L d = xs @ [x]"
    and x: "unat (x - 1) \<ge> 11"
  shows "pmm_alloc_pages n st = Inl Undefined"
proof -
  obtain st' where st': "pop_from (of_nat c) ERRO_POP_BLOCK st = Inr (of_nat d, x, st')"
    using pop_from_found [OF rel _ d(2) e L] d(1) by auto
  have "x \<noteq> ERRO_POP_BLOCK" using not_erro [OF list_bound [OF rel d(2), of x]] L by simp
  moreover have "(of_nat d :: uint32) \<noteq> of_nat c" using d by (subst of_nat_inj_32) auto
  moreover have "\<not> x - 1 < 11" using x by (simp only: c_less)
  ultimately show ?thesis
    using st' request_range [OF n] c
    by (simp add: pmm_alloc_pages_def Let_def alloc_helper_step append_block_def)
qed

end
