(* ===== verification/PmmInit.thy ===== *)
theory PmmInit
  imports PmmAlloc
begin

text \<open>
  The single-page list, and the state that \<^verbatim>\<open>pmm_page_init\<close> builds: every page below
  \<^verbatim>\<open>pmm_max_page_no\<close> is on exactly one list, the block lists cover the pages below
  \<^verbatim>\<open>singel_page_first_no\<close> and the single-page list the others.
\<close>

section \<open>The single-page list\<close>

lemma pmm_rel_single_update:
  assumes rel: "pmm_rel st L S"
    and ch: "chain (nextf st') (SINGLE_LINK st') ys"
    and multi: "MULTI_LINK st' = MULTI_LINK st"
    and nexts: "\<And>x. x \<in> listed L [] \<Longrightarrow> nextf st' x = nextf st x"
    and nums: "\<And>n. page_no (page_array st' n) = page_no (page_array st n)"
    and geo: "geometry st' = geometry st"
    and ys: "\<And>y. y \<in> set ys \<Longrightarrow> y < pmm_max_page_no st \<and> y \<notin> listed L []"
  shows "pmm_rel st' L ys"
proof -
  have L: "x \<in> listed L []" if "d < 11" "x \<in> set (L d)" for x d
    using that by (rule listed_list)
  have chL: "chain (nextf st') (MULTI_LINK st' d) (L d)" if "d < 11" for d
    using pmm_rel_chain [OF rel that] chain_cong [of "L d" "nextf st'" "nextf st"] L [OF that] nexts multi
    by simp
  have bnd: "n < pmm_max_page_no st" if "n \<in> listed L ys" for n
    using that list_bound [OF rel] ys by (auto simp: listed_def)
  show ?thesis
    using chL ch bnd L ys rel nums geometry_max [OF geo] by (fastforce simp: pmm_rel_def)
qed

lemma single_unlisted: "pmm_rel st L S \<Longrightarrow> x \<in> set S \<Longrightarrow> x < pmm_max_page_no st \<and> x \<notin> listed L []"
  by (fastforce simp: pmm_rel_def listed_def)

text \<open>\<^verbatim>\<open>pmm_alloc_one_page\<close> takes the last single page, and \<^verbatim>\<open>pmm_free_page\<close> puts one back there.\<close>

lemma pmm_alloc_one_page_rel:
  assumes rel: "pmm_rel st L (xs @ [x])"
  shows "\<exists>st'. pmm_alloc_one_page st =
      Inr (\<lparr>a_addr = pmm_page_no_to_addr st x, a_size = 0, a_state = 1\<rparr>, st') \<and>
    pmm_rel st' L xs \<and> geometry st' = geometry st \<and> nextf st' x = None"
proof -
  have ch: "chain (nextf st) (SINGLE_LINK st) (xs @ [x])" using rel by (simp add: pmm_rel_def)
  have num: "page_no (page_array st x) = x"
    using pmm_rel_page_no [OF rel] listed_single [of x "xs @ [x]" L] by simp
  have nx: "nextf st x = None" using chain_last_None [OF ch] .
  have ok: "y < pmm_max_page_no st \<and> y \<notin> listed L []" if "y \<in> set xs" for y
    using single_unlisted [OF rel] that by simp
  show ?thesis
  proof (cases xs rule: rev_cases)
    case Nil
    let ?st' = "st\<lparr>SINGLE_LINK := None\<rparr>"
    have "pmm_rel ?st' L xs" using Nil by (intro pmm_rel_single_update [OF rel]) auto
    then show ?thesis using Nil ch num nx by (simp add: pmm_alloc_one_page_def)
  next
    case (snoc ys y)
    then obtain h q zs where hq: "xs @ [x] = h # q # zs"
      by (cases ys; cases "tl ys") auto
    then have head: "SINGLE_LINK st = Some h" "nextf st h = Some q" using ch by auto
    obtain us a b where ab: "h # q # zs = us @ [a, b]" "second_last_node (nextf st) h q = Some (a, b)"
      using second_last_node_chain [of "nextf st" h q zs] ch hq head by auto
    then have eq: "xs = us @ [a]" "b = x" using hq by auto
    let ?st' = "set_next a None st"
    have "chain (nextf ?st') (SINGLE_LINK ?st') xs"
      using chain_cut [of "nextf st" _ us a "[x]"] ch eq by simp
    moreover have "a \<notin> listed L []" using ok eq by simp
    ultimately have "pmm_rel ?st' L xs" using ok by (intro pmm_rel_single_update [OF rel]) auto
    then show ?thesis using head ab eq num nx by (simp add: pmm_alloc_one_page_def)
  qed
qed

lemma append_single_rel:
  assumes rel: "pmm_rel st L S" and n: "n < pmm_max_page_no st" "n \<notin> listed L S" "nextf st n = None"
  shows "S = [] \<Longrightarrow> pmm_rel (st\<lparr>SINGLE_LINK := Some n\<rparr>) L [n]"
    "S = xs @ [x] \<Longrightarrow> pmm_rel (set_next x (Some n) st) L (xs @ [x, n])"
proof -
  have nl: "n \<notin> listed L []" using n(2) by (auto simp: listed_def)
  have ok: "y < pmm_max_page_no st \<and> y \<notin> listed L []" if "y \<in> insert n (set S)" for y
    using single_unlisted [OF rel] that n(1) nl by auto
  show "pmm_rel (st\<lparr>SINGLE_LINK := Some n\<rparr>) L [n]" if "S = []"
    using n ok by (intro pmm_rel_single_update [OF rel]) auto
  show "pmm_rel (set_next x (Some n) st) L (xs @ [x, n])" if S: "S = xs @ [x]"
  proof -
    have ch: "chain (nextf st) (SINGLE_LINK st) (xs @ [x])" using rel S by (simp add: pmm_rel_def)
    moreover have "n \<notin> set (xs @ [x])" using n(2) S by (auto simp: listed_def)
    ultimately have "chain (nextf (set_next x (Some n) st)) (SINGLE_LINK st) (xs @ [x, n])"
      using chain_snoc n(3) by simp
    then show ?thesis using ok S by (intro pmm_rel_single_update [OF rel]) auto
  qed
qed

lemma page_no_addr:
  assumes "unat n < 2 ^ 20"
  shows "addr_to_pmm_page_no st (pmm_page_no_to_addr st n) = n"
proof -
  have "drop_bit 12 (push_bit 12 n) = n"
  proof (rule bit_word_eqI)
    fix k assume "k < LENGTH(32)"
    have "\<not> bit n k" if "20 \<le> k"
    proof -
      have "take_bit 20 (unat n) = unat n" using assms by (simp add: take_bit_nat_eq_self)
      then have "\<not> bit (unat n) k" using that by (metis bit_take_bit_iff not_le)
      then show ?thesis by (simp add: bit_unsigned_iff bit_imp_le_length)
    qed
    then show "bit (drop_bit 12 (push_bit 12 n)) k = bit n k"
      using \<open>k < LENGTH(32)\<close> by (cases "20 \<le> k") (auto simp: bit_simps)
  qed
  then show ?thesis by (simp add: addr_to_pmm_page_no_def pmm_page_no_to_addr_def)
qed

lemma pmm_free_page_single_rel:
  assumes rel: "pmm_rel st L S" and n: "n < pmm_max_page_no st" "n \<notin> listed L S" "nextf st n = None"
    and single: "\<not> n < singel_page_first_no st" "unat n < 2 ^ 20"
  shows "\<exists>st'. pmm_free_page \<lparr>a_addr = pmm_page_no_to_addr st n, a_size = z, a_state = w\<rparr> st = Inr (True, st') \<and>
    pmm_rel st' L (S @ [n]) \<and> geometry st' = geometry st"
proof (cases S rule: rev_cases)
  case Nil
  then have "SINGLE_LINK st = None" using rel by (simp add: pmm_rel_def)
  then show ?thesis
    using append_single_rel(1) [OF rel n Nil] n(1) single Nil page_no_addr [OF single(2)]
    by (simp add: pmm_free_page_def Let_def)
next
  case (snoc xs x)
  have ch: "chain (nextf st) (SINGLE_LINK st) (xs @ [x])" using rel snoc by (simp add: pmm_rel_def)
  then obtain h where h: "SINGLE_LINK st = Some h" by (cases "SINGLE_LINK st") auto
  then have "last_node (nextf st) h = Some x" using last_node_chain [of "nextf st" h "xs @ [x]"] ch by simp
  then show ?thesis
    using append_single_rel(2) [OF rel n snoc] n(1) single snoc h page_no_addr [OF single(2)]
    by (simp add: pmm_free_page_def Let_def)
qed

section \<open>Initialisation\<close>

lemma page_array_init_eq:
  "page_array_init i st = st\<lparr>page_array := (\<lambda>n. if i \<le> n \<and> n < pmm_max_page_no st
     then \<lparr>page_no = n, p_next = None, p_state = 1\<rparr> else page_array st n)\<rparr>"
proof (induction i st rule: page_array_init.induct)
  case (1 i st)
  show ?case
  proof (cases "i < pmm_max_page_no st")
    case False
    then have "(if i \<le> n \<and> n < pmm_max_page_no st then \<lparr>page_no = n, p_next = None, p_state = 1\<rparr>
        else page_array st n) = page_array st n" for n by auto
    then show ?thesis using False by (subst page_array_init.simps) (simp only: if_False, simp)
  next
    case True
    then have "i + 1 \<le> n \<longleftrightarrow> i \<le> n \<and> n \<noteq> i" for n
      using unat_Suc_below [of i "pmm_max_page_no st"]
      by (auto simp: word_le_nat_alt word_less_nat_alt word_unat_eq_iff)
    then show ?thesis
      using True "1.IH" [OF True] by (subst page_array_init.simps) (auto simp: fun_eq_iff)
  qed
qed

text \<open>Every list is empty and no page has a successor.\<close>

lemma pmm_rel_blank:
  assumes "SINGLE_LINK st = None"
  shows "pmm_rel (page_array_init 0 (st\<lparr>MULTI_LINK := (\<lambda>_. None)\<rparr>)) (\<lambda>_. []) []"
  using assms by (simp add: pmm_rel_def page_array_init_eq listed_def)

definition app_block :: "uint32 \<times> page_c \<Rightarrow> (nat \<Rightarrow> uint32 list) \<Rightarrow> nat \<Rightarrow> uint32 list" where
  "app_block b L = L(unat (snd b) := L (unat (snd b)) @ [fst b])"

lemma listed_app_block: "unat (snd b) < 11 \<Longrightarrow> listed (app_block b L) S = insert (fst b) (listed L S)"
  by (auto simp: app_block_def listed_def split: if_splits)

text \<open>
  A run of \<^verbatim>\<open>append_block\<close> calls on pages that are on no list. The \<^verbatim>\<open>next\<close> fields of the
  pages that stay off the lists keep being NULL, which \<^verbatim>\<open>fill_single\<close> relies on.
\<close>

definition clear_unlisted :: "pmm \<Rightarrow> (nat \<Rightarrow> uint32 list) \<Rightarrow> uint32 list \<Rightarrow> bool" where
  "clear_unlisted st L S \<longleftrightarrow> (\<forall>n < pmm_max_page_no st. n \<notin> listed L S \<longrightarrow> nextf st n = None)"

lemma append_block_clear:
  assumes rel: "pmm_rel st L S" and c: "unat c < 11" and n: "n \<notin> listed L S"
    and run: "append_block n c st = Inr st'" and cl: "clear_unlisted st L S"
  shows "clear_unlisted st' (app_block (n, c) L) S"
proof (cases "MULTI_LINK st (unat c)")
  case None
  then show ?thesis
    using run c cl by (auto simp: append_block_def Let_def c_less clear_unlisted_def listed_app_block)
next
  case (Some h)
  have ch: "chain (nextf (set_next n None st)) (Some h) (L (unat c))"
    using pmm_rel_chain [OF pmm_rel_set_next_unlisted [OF rel n] c] Some by simp
  then have last: "last_node (nextf (set_next n None st)) h = Some (last (L (unat c)))"
    by (rule last_node_chain)
  have "L (unat c) \<noteq> []" using ch by auto
  then have "last (L (unat c)) \<in> listed L S" using listed_list [OF c] by simp
  moreover have "st' = set_next (last (L (unat c))) (Some n) (set_next n None st)"
    using run Some last c by (simp add: append_block_def Let_def c_less)
  ultimately show ?thesis using c cl by (auto simp: clear_unlisted_def listed_app_block)
qed

lemma append_block_step:
  assumes "pmm_rel st L S" "clear_unlisted st L S" "unat (snd b) < 11" "fst b \<notin> listed L S"
    "fst b < pmm_max_page_no st"
  shows "\<exists>st'. append_block (fst b) (snd b) st = Inr st' \<and> pmm_rel st' (app_block b L) S \<and>
    clear_unlisted st' (app_block b L) S \<and> geometry st' = geometry st"
  using append_block_rel [OF assms(1,3-5)] append_block_clear [OF assms(1,3,4)] assms(2)
  by (auto simp: app_block_def)

lemma foldE_append_block:
  assumes "pmm_rel st L S" "clear_unlisted st L S" "distinct (map fst bs)"
    "\<And>b. b \<in> set bs \<Longrightarrow> unat (snd b) < 11 \<and> fst b \<notin> listed L S \<and> fst b < pmm_max_page_no st"
  shows "\<exists>st'. foldE (\<lambda>(n, c). append_block n c) bs st = Inr st' \<and> pmm_rel st' (fold app_block bs L) S \<and>
    clear_unlisted st' (fold app_block bs L) S \<and> geometry st' = geometry st"
  using assms
proof (induction bs arbitrary: st L)
  case (Cons b bs)
  then obtain st1 where st1: "append_block (fst b) (snd b) st = Inr st1" "pmm_rel st1 (app_block b L) S"
    "clear_unlisted st1 (app_block b L) S" "geometry st1 = geometry st"
    using append_block_step [OF Cons.prems(1,2), of b] by auto
  have "unat (snd a) < 11 \<and> fst a \<notin> listed (app_block b L) S \<and> fst a < pmm_max_page_no st1"
    if "a \<in> set bs" for a
    using Cons.prems(3) Cons.prems(4) [of a] Cons.prems(4) [of b] that geometry_max [OF st1(4)]
    by (auto simp: listed_app_block image_iff)
  then show ?case
    using Cons.IH [OF st1(2,3)] Cons.prems(3) st1(1,4) by (auto simp: case_prod_unfold)
qed simp

text \<open>The first page of the single-page list, for a memory of \<open>M\<close> pages.\<close>

definition single_first :: "nat \<Rightarrow> nat" where
  "single_first M = 1024 * (2 + (M - 2049) div 1024)"

lemma single_first_bounds:
  assumes "2048 \<le> M"
  shows "2048 \<le> single_first M" "single_first M \<le> M" "M \<le> single_first M + 1024"
  using assms by (auto simp: single_first_def)

lemma more_blocks: "2 \<le> k \<Longrightarrow> 2048 \<le> M \<Longrightarrow> 1024 * k < M - 1024 \<longleftrightarrow> k < single_first M div 1024"
  by (auto simp: single_first_def)

lemma fill_multi_rel:
  assumes "pmm_rel st L S" "clear_unlisted st L S" "unat (pmm_max_page_no st) = M" "2048 \<le> M" "M \<le> 2 ^ 20"
    "2 \<le> k" "k \<le> single_first M div 1024" "\<forall>n\<in>listed L S. unat n < 1024 * k"
  shows "\<exists>st'. fill_multi (of_nat (1024 * k)) st = Some (Inr (of_nat (single_first M), st')) \<and>
    pmm_rel st' (L(10 := L 10 @ map (\<lambda>j. of_nat (1024 * j)) [k..<single_first M div 1024])) S \<and>
    clear_unlisted st' (L(10 := L 10 @ map (\<lambda>j. of_nat (1024 * j)) [k..<single_first M div 1024])) S \<and>
    geometry st' = geometry st"
  using assms
proof (induction "single_first M div 1024 - k" arbitrary: k st L)
  case 0
  then have k: "k = single_first M div 1024" by simp
  have ut: "unat (of_nat (1024 * k) :: uint32) = 1024 * k"
    using k single_first_bounds(2) [OF "0.prems"(4)] "0.prems"(5) by (intro unat_of_nat_32) simp
  have um: "unat (pmm_max_page_no st - 1024) = M - 1024"
    using "0.prems"(3,4) by (simp add: unat_sub word_le_nat_alt)
  have "\<not> of_nat (1024 * k) < pmm_max_page_no st - 1024"
    using more_blocks [OF "0.prems"(6,4)] k unfolding word_less_nat_alt ut um by simp
  moreover have "1024 * k = single_first M" using k by (simp add: single_first_def)
  ultimately show ?case using "0.prems"(1,2) k by (subst fill_multi.simps) (simp del: of_nat_mult)
next
  case (Suc d)
  let ?t = "of_nat (1024 * k) :: uint32"
  have k: "k < single_first M div 1024" using Suc.hyps(2) by simp
  have kM: "1024 * k < M - 1024" using more_blocks [OF Suc.prems(6,4)] k by simp
  then have ut: "unat ?t = 1024 * k" using Suc.prems(5) by (intro unat_of_nat_32) simp
  have um: "unat (pmm_max_page_no st - 1024) = M - 1024"
    using Suc.prems(3,4) by (simp add: unat_sub word_le_nat_alt)
  have cond: "?t < pmm_max_page_no st - 1024" "?t < pmm_max_page_no st"
    using kM unfolding word_less_nat_alt ut um Suc.prems(3) by simp_all
  have tl: "?t \<notin> listed L S" using Suc.prems(8) ut by (metis less_irrefl)
  let ?L = "app_block (?t, 10) L"
  obtain st1 where st1: "append_block ?t 10 st = Inr st1" "pmm_rel st1 ?L S"
    "clear_unlisted st1 ?L S" "geometry st1 = geometry st"
    using append_block_step [OF Suc.prems(1,2), of "(?t, 10)"] cond(2) tl by auto
  have lst: "\<forall>n\<in>listed ?L S. unat n < 1024 * Suc k"
    using Suc.prems(8) ut by (auto simp: listed_app_block)
  have L10: "?L(10 := ?L 10 @ xs) = L(10 := L 10 @ ?t # xs)" for xs
    by (simp add: app_block_def)
  have next_t: "?t + 1024 = of_nat (1024 * Suc k)" by (simp add: algebra_simps)
  have up: "[k..<single_first M div 1024] = k # [Suc k..<single_first M div 1024]"
    using k by (rule upt_conv_Cons)
  have "fill_multi ?t st = fill_multi (of_nat (1024 * Suc k)) st1"
    using cond(1) st1(1) by (subst fill_multi.simps) (simp only: next_t if_True sum.case)
  moreover have "d = single_first M div 1024 - Suc k" using Suc.hyps(2) by simp
  ultimately show ?case
    using Suc.hyps(1) [of "Suc k" st1 ?L] st1(2,3,4) Suc.prems(3-6) k lst geometry_max [OF st1(4)]
    unfolding up L10 list.map by simp
qed

lemma fill_single_rel:
  assumes "pmm_rel st L (map of_nat [f..<t])" "clear_unlisted st L (map of_nat [f..<t])"
    "unat (pmm_max_page_no st) = M" "f \<le> t" "t \<le> M"
    "\<forall>n\<in>listed L (map of_nat [f..<t]). unat n < t" "t = f \<or> p = Some (of_nat (t - 1))"
  shows "\<exists>st'. fill_single (of_nat t) p st = Inr st' \<and> pmm_rel st' L (map of_nat [f..<M]) \<and>
    clear_unlisted st' L (map of_nat [f..<M]) \<and> geometry st' = geometry st"
  using assms
proof (induction "M - t" arbitrary: t p st)
  case 0
  have "\<not> of_nat t < pmm_max_page_no st"
    using "0.hyps" "0.prems"(3,5) unat_lt_32 [of "pmm_max_page_no st"]
    by (simp add: word_less_nat_alt unat_of_nat_32)
  moreover have "t = M" using "0.hyps" "0.prems"(5) by simp
  ultimately show ?case using "0.prems"(1,2) by (subst fill_single.simps) simp
next
  case (Suc d)
  let ?S = "map of_nat [f..<t] :: uint32 list" and ?t = "of_nat t :: uint32"
  have ut: "unat ?t = t" using Suc.hyps(2) Suc.prems(3) unat_lt_32 [of "pmm_max_page_no st"]
    by (intro unat_of_nat_32) simp
  have lt: "?t < pmm_max_page_no st" using Suc.hyps(2) unfolding word_less_nat_alt ut Suc.prems(3) by simp
  have tl: "?t \<notin> listed L ?S" using Suc.prems(6) ut by (metis less_irrefl)
  have nx: "nextf st ?t = None" using Suc.prems(2) lt tl by (simp add: clear_unlisted_def)
  have S': "map of_nat [f..<Suc t] = ?S @ [?t]" using Suc.prems(4) by simp
  have lst: "listed L (?S @ [?t]) = insert ?t (listed L ?S)" by (auto simp: listed_def)
  have "\<exists>st1. fill_single ?t p st = fill_single (?t + 1) (Some ?t) st1 \<and> pmm_rel st1 L (?S @ [?t]) \<and>
      clear_unlisted st1 L (?S @ [?t]) \<and> geometry st1 = geometry st"
  proof (cases "t = f")
    case True
    have "SINGLE_LINK st = None" using Suc.prems(1) True by (simp add: pmm_rel_def)
    then show ?thesis
      using append_single_rel(1) [OF Suc.prems(1) lt tl nx] True lt Suc.prems(2) lst
      by (intro exI [of _ "st\<lparr>SINGLE_LINK := Some ?t\<rparr>"], subst fill_single.simps)
        (auto simp: clear_unlisted_def)
  next
    case False
    let ?x = "of_nat (t - 1) :: uint32"
    have sp: "?S = map of_nat [f..<t - 1] @ [?x]"
      using False Suc.prems(4) upt_Suc_append [of f "t - 1"] by simp
    have "SINGLE_LINK st \<noteq> None" using Suc.prems(1) sp unfolding pmm_rel_def by (metis chain_None snoc_eq_iff_butlast)
    moreover have "?x \<in> listed L ?S" unfolding sp by (simp add: listed_def)
    moreover have "p = Some ?x" using False Suc.prems(7) by simp
    ultimately show ?thesis
      using append_single_rel(2) [OF Suc.prems(1) lt tl nx sp] lt Suc.prems(2) lst sp
      by (intro exI [of _ "set_next ?x (Some ?t) st"], subst fill_single.simps)
        (auto simp: clear_unlisted_def)
  qed
  then obtain st1 where st1: "fill_single ?t p st = fill_single (?t + 1) (Some ?t) st1"
    "pmm_rel st1 L (?S @ [?t])" "clear_unlisted st1 L (?S @ [?t])" "geometry st1 = geometry st" by blast
  have "\<exists>st'. fill_single (of_nat (Suc t)) (Some ?t) st1 = Inr st' \<and> pmm_rel st' L (map of_nat [f..<M]) \<and>
      clear_unlisted st' L (map of_nat [f..<M]) \<and> geometry st' = geometry st1"
  proof (rule Suc.hyps(1))
    show "d = M - Suc t" "Suc t \<le> M" using Suc.hyps(2) by simp_all
    show "\<forall>n\<in>listed L (map of_nat [f..<Suc t]). unat n < Suc t"
      unfolding S' lst using Suc.prems(6) ut by auto
  qed (use st1 S' Suc.prems(3,4) geometry_max [OF st1(4)] in simp_all)
  moreover have "?t + 1 = of_nat (Suc t)" by simp
  ultimately show ?case unfolding st1(1,4) by (simp only:)
qed

text \<open>The block lists that \<^verbatim>\<open>pmm_page_init\<close> fills, when the single pages start at \<open>f\<close>.\<close>

definition init_lists :: "nat \<Rightarrow> nat \<Rightarrow> uint32 list" where
  "init_lists f c = (if c = 0 then [0, 1] else if c < 10 then [of_nat (2 ^ c)]
     else if c = 10 then map (\<lambda>j. of_nat (1024 * j)) [1..<f div 1024] else [])"

lemma initial_blocks_lists: "fold app_block initial_blocks (\<lambda>_. []) = init_lists 2048"
proof
  fix c :: nat
  have "c \<in> set [0..<11] \<or> 10 < c" by auto
  then show "fold app_block initial_blocks (\<lambda>_. []) c = init_lists 2048 c"
    by (auto simp: initial_blocks_def app_block_def init_lists_def upt_rec)
qed

lemma init_lists_more:
  "2 \<le> f div 1024 \<Longrightarrow>
     (init_lists 2048)(10 := init_lists 2048 10 @ map (\<lambda>j. of_nat (1024 * j)) [2..<f div 1024]) = init_lists f"
proof -
  assume "2 \<le> f div 1024"
  then have "[1..<f div 1024] = 1 # [2..<f div 1024]"
    by (simp add: upt_conv_Cons numeral_2_eq_2)
  moreover have "[1..<2048 div 1024] = [1 :: nat]" by (simp add: upt_rec)
  ultimately show ?thesis by (auto simp: init_lists_def fun_eq_iff simp del: One_nat_def)
qed

lemma init_lists_unat:
  assumes "f \<le> 2 ^ 20"
  shows "n \<in> set (init_lists f c) \<Longrightarrow>
    c = 0 \<and> unat n < 2 \<or> 0 < c \<and> c < 10 \<and> unat n = 2 ^ c \<or>
    c = 10 \<and> (\<exists>j. 1 \<le> j \<and> j < f div 1024 \<and> unat n = 1024 * j)"
proof -
  have p: "unat (of_nat (2 ^ c) :: uint32) = 2 ^ c" if "c < 10"
  proof (rule unat_of_nat_32)
    show "(2 :: nat) ^ c < 2 ^ 32" using that by (intro power_strict_increasing) auto
  qed
  have q: "unat (of_nat (1024 * j) :: uint32) = 1024 * j" if "j < f div 1024" for j
    using that assms by (intro unat_of_nat_32) simp
  show "n \<in> set (init_lists f c) \<Longrightarrow> ?thesis"
    using p q by (auto simp: init_lists_def simp del: of_nat_mult of_nat_power split: if_splits)
qed

text \<open>A page number lies in one initial block only.\<close>

definition init_block_of :: "nat \<Rightarrow> nat \<times> nat" where
  "init_block_of x = (if x < 2 then (0, x) else if x < 1024
     then let c = (GREATEST c. 2 ^ c \<le> x) in (c, 2 ^ c) else (10, 1024 * (x div 1024)))"

lemma init_lists_block_of:
  assumes "f \<le> 2 ^ 20" "n \<in> set (init_lists f c)" "x \<in> blk c n"
  shows "(c, unat n) = init_block_of x"
  using init_lists_unat [OF assms(1,2)]
proof (elim disjE conjE exE)
  assume c: "0 < c" "c < 10" "unat n = 2 ^ c"
  then have x: "2 ^ c \<le> x" "x < 2 ^ Suc c" using assms(3) by (auto simp: blk_def)
  have "(2 :: nat) ^ 1 \<le> 2 ^ c" "(2 :: nat) ^ Suc c \<le> 2 ^ 10" using c by (intro power_increasing; simp)+
  then have b: "2 \<le> x" "x < 1024" using x by auto
  have "(GREATEST c. 2 ^ c \<le> x) = c"
  proof (rule Greatest_equality)
    fix d assume "2 ^ d \<le> x"
    then have "(2 :: nat) ^ d < 2 ^ Suc c" using x(2) by simp
    then show "d \<le> c" by (simp only: power_strict_increasing_iff one_less_numeral_iff semiring_norm less_Suc_eq_le)
  qed (rule x(1))
  then show ?thesis using b c by (simp add: init_block_of_def)
next
  fix j assume "c = 10" "1 \<le> j" "unat n = 1024 * j"
  then show ?thesis using assms(3) by (auto simp: init_block_of_def blk_def)
qed (use assms(3) in \<open>simp add: init_block_of_def blk_def\<close>)

lemma init_lists_buddy:
  assumes f: "f \<le> 2 ^ 20" "f = 1024 * k" "2 \<le> k"
  shows "buddy_ok f (init_lists f)" "buddy_pages (init_lists f) = {..<f}"
proof -
  have in_f: "2 ^ c dvd unat n \<and> unat n + 2 ^ c \<le> f" if "n \<in> set (init_lists f c)" for c n
    using init_lists_unat [OF f(1) that]
  proof (elim disjE conjE exE)
    assume c: "c < 10" "unat n = 2 ^ c"
    have "(2 :: nat) ^ Suc c \<le> 2 ^ 10" using c by (intro power_increasing; simp)
    then show ?thesis using c f by simp
  qed (use f in auto)
  have dj: "blk c n \<inter> blk d m = {}"
    if "n \<in> set (init_lists f c)" "m \<in> set (init_lists f d)" "(c, n) \<noteq> (d, m)" for c d n m
    using init_lists_block_of [OF f(1) that(1)] init_lists_block_of [OF f(1) that(2)] that(3)
    by (metis disjoint_iff prod.inject word_unat_eq_iff)
  have "distinct (init_lists f c)" for c
  proof -
    have "inj_on (\<lambda>j. of_nat (1024 * j) :: uint32) (set [1..<f div 1024])"
      using f by (intro inj_onI, subst (asm) of_nat_inj_32) auto
    then show ?thesis by (simp add: init_lists_def distinct_map)
  qed
  then show "buddy_ok f (init_lists f)" using in_f dj unfolding buddy_ok_def by blast
  show "buddy_pages (init_lists f) = {..<f}"
  proof (intro equalityI subsetI)
    fix x assume "x \<in> buddy_pages (init_lists f)"
    then show "x \<in> {..<f}" using in_f by (fastforce simp: buddy_pages_def blk_def)
  next
    fix x assume x: "x \<in> {..<f}"
    have un: "unat (of_nat y :: uint32) = y" if "y \<le> x" for y
      using that x f by (intro unat_of_nat_32) auto
    consider "x < 2" | "2 \<le> x" "x < 1024" | "1024 \<le> x" by linarith
    then have "\<exists>c<11. \<exists>n\<in>set (init_lists f c). x \<in> blk c n"
    proof cases
      case 1
      then show ?thesis by (intro exI [of _ 0]) (auto simp: init_lists_def blk_def less_2_cases_iff)
    next
      case 2
      then obtain c where c: "2 ^ c \<le> x" "x < 2 ^ Suc c" using between_powers [of x] by auto
      have "(2 :: nat) ^ c < 2 ^ 10" using c 2 by simp
      then have "c < 10" by (simp only: power_strict_increasing_iff one_less_numeral_iff semiring_norm)
      moreover have "c \<noteq> 0" using c 2 by (cases c) auto
      ultimately show ?thesis using un [OF c(1)] c
        by (intro exI [of _ c]) (auto simp: init_lists_def blk_def)
    next
      case 3
      then have "x div 1024 \<in> set [1..<f div 1024]" using x f by auto
      moreover have "unat (of_nat (1024 * (x div 1024)) :: uint32) = 1024 * (x div 1024)" by (rule un) simp
      ultimately show ?thesis
        by (intro exI [of _ 10]) (auto simp: init_lists_def blk_def simp del: of_nat_mult intro!: bexI [of _ "x div 1024"])
    qed
    then show "x \<in> buddy_pages (init_lists f)" by (auto simp: buddy_pages_def)
  qed
qed

lemma listed_bound: "buddy_pages L = {..<f} \<Longrightarrow> n \<in> listed L [] \<Longrightarrow> unat n < f"
  using buddy_pagesI [of _ n L] blk_nonempty [of n] by (auto simp: listed_def)

lemma pmm_page_init_rel:
  assumes "SINGLE_LINK st = None" "unat (pmm_max_page_no st) = M" "2048 \<le> M" "M \<le> 2 ^ 20"
  shows "\<exists>st'. pmm_page_init st = Inr st' \<and>
    pmm_rel st' (init_lists (single_first M)) (map of_nat [single_first M..<M]) \<and>
    clear_unlisted st' (init_lists (single_first M)) (map of_nat [single_first M..<M]) \<and>
    singel_page_first_no st' = of_nat (single_first M) \<and>
    pmm_page_start st' = pmm_page_start st \<and> pmm_max_page_no st' = pmm_max_page_no st"
proof -
  let ?f = "single_first M"
  note fb = single_first_bounds [OF assms(3)]
  let ?st1 = "page_array_init 0 (st\<lparr>MULTI_LINK := (\<lambda>_. None)\<rparr>)"
  have g1: "geometry ?st1 = geometry st" by (simp add: page_array_init_eq geometry_def)
  have m1: "unat (pmm_max_page_no ?st1) = M" using geometry_max [OF g1] assms(2) by simp
  have c1: "clear_unlisted ?st1 (\<lambda>_. []) []" by (simp add: page_array_init_eq clear_unlisted_def nextf_def)
  have bs: "distinct (map fst initial_blocks)" "b \<in> set initial_blocks \<Longrightarrow>
      unat (snd b) < 11 \<and> fst b \<notin> listed (\<lambda>_. []) [] \<and> fst b < pmm_max_page_no ?st1" for b
    using m1 assms(3) by (auto simp: initial_blocks_def listed_def word_less_nat_alt)
  obtain st2 where st2: "foldE (\<lambda>(n, c). append_block n c) initial_blocks ?st1 = Inr st2"
    "pmm_rel st2 (init_lists 2048) []" "clear_unlisted st2 (init_lists 2048) []" "geometry st2 = geometry st"
    using foldE_append_block [OF pmm_rel_blank [OF assms(1)] c1 bs] g1 unfolding initial_blocks_lists by auto
  have m2: "unat (pmm_max_page_no st2) = M" using geometry_max [OF st2(4)] assms(2) by simp
  have l2: "\<forall>n\<in>listed (init_lists 2048) []. unat n < 1024 * 2"
  proof
    have "buddy_pages (init_lists 2048) = {..<2048}" by (rule init_lists_buddy(2) [of 2048 2]) simp_all
    then show "unat n < 1024 * 2" if "n \<in> listed (init_lists 2048) []" for n
      using listed_bound [of "init_lists 2048" 2048 n] that by simp
  qed
  have k2: "2 \<le> ?f div 1024" using fb(1) by simp
  let ?L = "init_lists ?f"
  obtain st3 where st3: "fill_multi 2048 st2 = Some (Inr (of_nat ?f, st3))" "pmm_rel st3 ?L []"
    "clear_unlisted st3 ?L []" "geometry st3 = geometry st"
    using fill_multi_rel [OF st2(2,3) m2 assms(3,4) order_refl k2 l2] st2(4)
    unfolding init_lists_more [OF k2] by auto
  let ?st4 = "st3\<lparr>singel_page_first_no := of_nat ?f\<rparr>"
  have n4: "nextf ?st4 = nextf st3" by (simp add: nextf_def fun_eq_iff)
  have r4: "pmm_rel ?st4 ?L (map of_nat [?f..<?f])" "clear_unlisted ?st4 ?L (map of_nat [?f..<?f])"
    using st3(2,3) by (simp_all add: pmm_rel_def clear_unlisted_def n4)
  have m4: "unat (pmm_max_page_no ?st4) = M" using geometry_max [OF st3(4)] assms(2) by simp
  have bo: "buddy_pages ?L = {..<?f}"
    using init_lists_buddy(2) [of ?f "?f div 1024"] fb assms(4) k2 by (simp add: single_first_def)
  have l4: "\<forall>n\<in>listed ?L (map of_nat [?f..<?f]). unat n < ?f"
    using listed_bound [OF bo] by simp
  obtain st' where "fill_single (of_nat ?f) None ?st4 = Inr st'" "pmm_rel st' ?L (map of_nat [?f..<M])"
    "clear_unlisted st' ?L (map of_nat [?f..<M])" "geometry st' = geometry ?st4"
    using fill_single_rel [OF r4 m4 order_refl fb(2) l4] by auto
  then show ?thesis
    using st2(1) st3(1,4) by (simp add: pmm_page_init_def Let_def geometry_def)
qed

section \<open>Conservation of the free pages\<close>

text \<open>The numbers of all free pages, and the invariant of the page manager.\<close>

definition free_page_nos :: "(nat \<Rightarrow> uint32 list) \<Rightarrow> uint32 list \<Rightarrow> nat set" where
  "free_page_nos L S = buddy_pages L \<union> unat ` set S"

definition pmm_inv :: "pmm \<Rightarrow> (nat \<Rightarrow> uint32 list) \<Rightarrow> uint32 list \<Rightarrow> bool" where
  "pmm_inv st L S \<longleftrightarrow> pmm_rel st L S \<and> buddy_ok (unat (singel_page_first_no st)) L \<and>
     singel_page_first_no st \<le> pmm_max_page_no st \<and> unat (pmm_max_page_no st) \<le> 2 ^ 20 \<and>
     (\<forall>n\<in>set S. singel_page_first_no st \<le> n)"

text \<open>The number of pages that \<^verbatim>\<open>pmm_init\<close> manages.\<close>

definition managed_pages :: "uint32 \<Rightarrow> pm_entry list \<Rightarrow> nat" where
  "managed_pages kern_end mmap =
     unat (drop_bit 12 (push_bit 12 (drop_bit 12 (get_max_pm_addr mmap)) - push_bit 12 (drop_bit 12 kern_end + 1)))"

lemma unat_drop12: "unat (drop_bit 12 (a :: uint32)) < 2 ^ 20"
  using unat_lt_32 [of a] by (simp add: drop_bit_eq_div unat_div)

lemma pmm_init_inv:
  assumes "SINGLE_LINK st = None" "2048 \<le> managed_pages kern_end mmap"
  defines "M \<equiv> managed_pages kern_end mmap"
  defines "L \<equiv> init_lists (single_first M)"
  defines "S \<equiv> map of_nat [single_first M..<M]"
  shows "\<exists>st'. pmm_init kern_end mmap st = Inr st' \<and> pmm_inv st' L S \<and>
    unat (pmm_max_page_no st') = M \<and> unat (singel_page_first_no st') = single_first M \<and>
    free_page_nos L S = {..<M} \<and> unat ` set S = {single_first M..<M} \<and>
    pmm_page_start st' = push_bit 12 (drop_bit 12 kern_end + 1)"
  unfolding M_def L_def S_def
proof -
  let ?M = "managed_pages kern_end mmap"
  let ?f = "single_first ?M" and ?S = "map of_nat [single_first ?M..<?M] :: uint32 list"
  note fb = single_first_bounds [OF assms(2)]
  have M: "?M < 2 ^ 20" unfolding managed_pages_def by (rule unat_drop12)
  define s where "s = push_bit 12 (drop_bit 12 kern_end + 1)"
  define e where "e = push_bit 12 (drop_bit 12 (get_max_pm_addr mmap))"
  define t where "t = st\<lparr>pmm_page_start := s, pmm_page_end := e, pmm_max_page_no := drop_bit 12 (e - s)\<rparr>"
  have t: "SINGLE_LINK t = None" "unat (pmm_max_page_no t) = ?M" "pmm_init kern_end mmap st = pmm_page_init t"
    using assms(1) by (simp_all add: t_def s_def e_def managed_pages_def pmm_init_def pmm_init_to_def Let_def)
  obtain st' where st': "pmm_init kern_end mmap st = Inr st'" "pmm_rel st' (init_lists ?f) ?S"
    "singel_page_first_no st' = of_nat ?f" "unat (pmm_max_page_no st') = ?M"
    "pmm_page_start st' = s"
    using pmm_page_init_rel [OF t(1,2) assms(2)] M t(2,3) by (auto simp: t_def)
  have un: "unat (of_nat n :: uint32) = n" if "n \<le> ?M" for n
    using that M by (intro unat_of_nat_32) simp
  have S: "unat ` set ?S = {?f..<?M}"
    using un by (auto simp: image_iff)
  have b: "buddy_ok ?f (init_lists ?f)" "buddy_pages (init_lists ?f) = {..<?f}"
    using init_lists_buddy [of ?f "?f div 1024"] fb M by (simp_all add: single_first_def)
  have "pmm_inv st' (init_lists ?f) ?S"
    using st' b(1) fb(2) un M by (auto simp: pmm_inv_def word_le_nat_alt)
  moreover have "free_page_nos (init_lists ?f) ?S = {..<?M}"
    unfolding free_page_nos_def S b(2) using fb(2) by auto
  ultimately show "\<exists>st'. pmm_init kern_end mmap st = Inr st' \<and> pmm_inv st' (init_lists ?f) ?S \<and>
      unat (pmm_max_page_no st') = ?M \<and> unat (singel_page_first_no st') = ?f \<and>
      free_page_nos (init_lists ?f) ?S = {..<?M} \<and> unat ` set ?S = {?f..<?M} \<and>
      pmm_page_start st' = push_bit 12 (drop_bit 12 kern_end + 1)"
    using st' S un [OF fb(2)] by (auto simp: s_def)
qed

end
