(* ===== verification/PmmProps.thy ===== *)
theory PmmProps
  imports PmmInit
begin

text \<open>
  What \<^verbatim>\<open>pmm.c\<close> guarantees of the physical pages, and the two defects of its buddy
  lists, as theorems on the operations themselves.
\<close>

section \<open>Bookkeeping\<close>

lemma pmm_invD:
  assumes "pmm_inv st L S"
  shows "pmm_rel st L S" "buddy_ok (unat (singel_page_first_no st)) L"
    "unat (singel_page_first_no st) \<le> unat (pmm_max_page_no st)" "unat (pmm_max_page_no st) \<le> 2 ^ 20"
  using assms by (auto simp: pmm_inv_def word_le_nat_alt)

lemma pmm_invI:
  assumes "pmm_inv st L S" "pmm_rel st' L' S'" "geometry st' = geometry st"
    "buddy_ok (unat (singel_page_first_no st)) L'" "\<forall>n\<in>set S'. singel_page_first_no st \<le> n"
  shows "pmm_inv st' L' S'"
  using assms by (simp add: pmm_inv_def geometry_def)

lemma pmm_inv_single: "pmm_inv st L S \<Longrightarrow> n \<in> set S \<Longrightarrow> singel_page_first_no st \<le> n \<and> n < pmm_max_page_no st"
  by (auto simp: pmm_inv_def pmm_rel_def listed_def)

text \<open>The pages of the block lists lie below the single pages.\<close>

lemma buddy_pages_below: "buddy_ok M L \<Longrightarrow> x \<in> buddy_pages L \<Longrightarrow> x < M"
  by (fastforce simp: buddy_ok_def buddy_pages_def blk_def)

lemma single_not_buddy: "pmm_inv st L S \<Longrightarrow> n \<in> set S \<Longrightarrow> unat n \<notin> buddy_pages L"
  using pmm_inv_single [of st L S n] buddy_pages_below [of "unat (singel_page_first_no st)" L "unat n"]
  by (auto simp: pmm_inv_def word_le_nat_alt)

lemma blk_no_single:
  assumes "pmm_inv st L S" "unat n + 2 ^ c \<le> unat (singel_page_first_no st)" "m \<in> set S"
  shows "unat m \<notin> blk c n"
  using pmm_inv_single [OF assms(1,3)] assms(2) by (auto simp: blk_def word_le_nat_alt)

lemma unlisted_blk:
  assumes "pmm_inv st L S" "unat n + 2 ^ c \<le> unat (singel_page_first_no st)" "blk c n \<inter> buddy_pages L = {}"
  shows "n \<notin> listed L S"
  using assms(3) buddy_pagesI [of _ n L] blk_nonempty [of n] blk_no_single [OF assms(1,2), of n]
  by (fastforce simp: listed_def)

lemma butlast_remove1: "distinct (xs @ [x]) \<Longrightarrow> remove1 x (xs @ [x]) = xs"
  by (simp add: remove1_append)

section \<open>How far a release merges\<close>

text \<open>
  \<open>block_at d n\<close> is the aligned block of \<open>2 ^ d\<close> pages that holds page \<open>n\<close>. The release of a block of size \<open>c\<close> merges up to
  the end when at every size from \<open>c\<close> to 1024 pages the search finds the partner of this block.
\<close>

definition block_at :: "nat \<Rightarrow> uint32 \<Rightarrow> uint32" where
  "block_at d n = of_nat (2 ^ d * (unat n div 2 ^ d))"

definition merges_all :: "(nat \<Rightarrow> uint32 list) \<Rightarrow> uint32 \<Rightarrow> nat \<Rightarrow> bool" where
  "merges_all L n c \<longleftrightarrow> (\<forall>d\<in>{c..<11}. findable (get_partner_page_no (block_at d n) (of_nat d)) (L d))"

lemma block_at_own: "2 ^ d dvd unat n \<Longrightarrow> block_at d n = n"
proof -
  assume "2 ^ d dvd unat n"
  then have "2 ^ d * (unat n div 2 ^ d) = unat n" by (rule dvd_mult_div_cancel)
  then show ?thesis unfolding block_at_def by (simp del: of_nat_mult)
qed

lemma block_at_same:
  assumes "2 ^ c dvd unat m" "unat n \<in> blk c m" "c \<le> d"
  shows "block_at d m = block_at d n"
proof -
  obtain i where i: "unat n = unat m + i" "i < 2 ^ c"
    using assms(2) unfolding blk_def by (metis atLeastLessThan_iff le_Suc_ex add_less_cancel_left)
  obtain j where j: "unat m = 2 ^ c * j" using assms(1) by blast
  have e: "(2 :: nat) ^ d = 2 ^ c * 2 ^ (d - c)" using assms(3) by (simp flip: power_add)
  have "unat n div 2 ^ c = j" using i j by simp
  then have "unat n div 2 ^ d = unat m div 2 ^ d" unfolding e div_mult2_eq j by simp
  then show ?thesis by (simp only: block_at_def)
qed

lemma buddy_free_None:
  assumes "buddy_ok M L" "M \<le> 2 ^ 31" "c < 11" "2 ^ c dvd unat n" "unat n + 2 ^ c \<le> M"
  shows "buddy_free L n c = None \<longleftrightarrow> merges_all L n c"
  using assms
proof (induction L n c rule: buddy_free.induct)
  case (1 L n c)
  let ?q = "get_partner_page_no n (of_nat c)"
  have own: "block_at c n = n" by (rule block_at_own [OF "1.prems"(4)])
  have split: "{c..<11} = insert c {Suc c..<11}" using "1.prems"(3) by auto
  show ?case
  proof (cases "findable ?q (L c)")
    case False
    then have "\<not> merges_all L n c" using own by (simp add: merges_all_def split)
    then show ?thesis using False "1.prems"(3) by (subst buddy_free.simps) (simp add: Let_def)
  next
    case f: True
    let ?L = "L(c := remove1 ?q (L c))" and ?m = "if ?q < n then ?q else n"
    have q: "?q \<in> set (L c)" using f by (rule findable_in)
    have run: "buddy_free L n c = buddy_free ?L ?m (Suc c)"
      using "1.prems"(3) f by (subst buddy_free.simps) (simp add: Let_def)
    have n31: "unat n + 2 ^ c \<le> 2 ^ 31" using "1.prems"(2,5) by simp
    note merge = blk_merge [OF "1.prems"(3,4) n31 refl refl]
    have "unat n \<in> blk (Suc c) ?m" using merge(2) blk_nonempty [of n c] by simp
    then have at: "block_at d ?m = block_at d n" if "Suc c \<le> d" for d by (rule block_at_same [OF merge(1) _ that])
    have all: "merges_all L n c \<longleftrightarrow> merges_all ?L ?m (Suc c)"
      using f own at unfolding merges_all_def split by auto
    show ?thesis
    proof (cases "c = 10")
      case True
      then have "buddy_free ?L ?m (Suc c) = None" by (subst buddy_free.simps) simp
      then show ?thesis using run all True by (simp add: merges_all_def)
    next
      case False
      then have c: "Suc c < 11" using "1.prems"(3) by simp
      have ok: "buddy_ok M ?L" by (rule buddy_ok_remove(1) [OF "1.prems"(1,3) q])
      have bnd: "unat ?m + 2 ^ Suc c \<le> M"
        using merge(5) "1.prems"(5) buddy_okD(3) [OF "1.prems"(1,3) q] by simp
      show ?thesis
        unfolding run all by (rule "1.IH" [OF "1.prems"(3) refl f ok "1.prems"(2) c merge(1) bnd])
    qed
  qed
qed

section \<open>Requests and block sizes\<close>

text \<open>\<open>fits n c\<close>: blocks of size \<open>2 ^ c\<close> are the smallest that hold \<open>n\<close> pages.\<close>

definition fits :: "uint32 \<Rightarrow> nat \<Rightarrow> bool" where
  "fits n c \<longleftrightarrow> 0 < unat n \<and> unat n \<le> 1024 \<and> unat n \<le> 2 ^ c \<and> (\<forall>d<c. 2 ^ d < unat n)"

lemma fits_order:
  assumes "fits n c" shows "order_of n = of_nat c" "c < 11"
proof -
  have n: "0 < unat n" "unat n \<le> 1024" using assms by (auto simp: fits_def)
  obtain d where d: "order_of n = of_nat d" "d < 11" "unat n \<le> 2 ^ d" "\<And>e. e < d \<Longrightarrow> 2 ^ e < unat n"
    using order_of_spec [OF n] by blast
  have "\<not> c < d" using d(4) [of c] assms by (auto simp: fits_def)
  moreover have "\<not> d < c" using d(3) assms unfolding fits_def by (metis not_less)
  ultimately have "c = d" by simp
  then show "order_of n = of_nat c" "c < 11" using d by simp_all
qed

lemma fits_small [simp]: "fits 1 0" "fits 2 1" "fits 4 2"
  by (auto simp: fits_def dest: less_2_cases)

lemma pmm_alloc_exact:
  assumes rel: "pmm_rel st L S" and n: "fits n c" and L: "L c = xs @ [x]"
  shows "\<exists>st'. pmm_alloc_pages n st =
      Inr (\<lparr>a_addr = pmm_page_no_to_addr st x, a_size = of_nat c, a_state = 1\<rparr>, st') \<and>
    pmm_rel st' (L(c := xs)) S \<and> geometry st' = geometry st"
  using pmm_alloc_pages_exact_rel [OF rel _ _ fits_order [OF n] L] n by (simp add: fits_def)

text \<open>A split of a block of the next size, when \<open>x - 1\<close> happens to be a list.\<close>

lemma pmm_alloc_split:
  assumes rel: "pmm_rel st L S" and n: "fits n c" and L: "L c = []" "L (Suc c) = xs @ [x]"
    and x: "unat (x - 1) < 11" and c: "Suc c < 11"
    and y: "y = x + of_nat (2 ^ c)" "y \<notin> listed (L(Suc c := xs)) S" "y < pmm_max_page_no st"
  defines "L1 \<equiv> L(Suc c := xs)"
  shows "\<exists>st'. pmm_alloc_pages n st =
      Inr (\<lparr>a_addr = pmm_page_no_to_addr st x, a_size = of_nat c, a_state = 1\<rparr>, st') \<and>
    pmm_rel st' (L1(unat (x - 1) := L1 (unat (x - 1)) @ [y])) S \<and> geometry st' = geometry st"
proof -
  have e: "all_empty L c (Suc c)" using L(1) by (auto simp: all_empty_def le_less_Suc_eq)
  obtain st1 where st1: "pop_from (of_nat c) ERRO_POP_BLOCK st = Inr (of_nat (Suc c), x, st1)"
    "pmm_rel st1 L1 S" "geometry st1 = geometry st"
    using pop_from_found [OF rel le_SucI [OF order_refl] c e L(2)] unfolding L1_def by blast
  have "x \<noteq> ERRO_POP_BLOCK" using not_erro [OF list_bound [OF rel c, of x]] L by simp
  moreover have ne: "(of_nat (Suc c) :: uint32) \<noteq> of_nat c" using c by (subst of_nat_inj_32) auto
  moreover have half: "c_to_uint32 (of_nat (Suc c)) div 2 = of_nat (2 ^ c)"
  proof -
    have "unat (of_nat (Suc c) :: uint32) = Suc c" using c by (intro unat_of_nat_32) simp
    then have "c_to_uint32 (of_nat (Suc c)) = push_bit (Suc c) 1" by (simp add: c_to_uint32_def)
    moreover have "drop_bit 1 (push_bit (Suc c) 1 :: uint32) = push_bit c 1"
      using c by (intro bit_word_eqI) (auto simp: bit_simps)
    ultimately show ?thesis by (simp add: drop_bit_eq_div push_bit_eq_mult)
  qed
  moreover obtain st2 where st2: "append_block y (x - 1) st1 = Inr st2"
    "pmm_rel st2 (L1(unat (x - 1) := L1 (unat (x - 1)) @ [y])) S" "geometry st2 = geometry st"
    using append_block_rel [OF st1(2) x, of y] y geometry_max [OF st1(3)] st1(3) unfolding L1_def by auto
  moreover have "alloc_helper (of_nat c) (of_nat (Suc c)) x st1 = Inr (x, st2)"
    using alloc_helper_step [OF ne, of x st1] half st2(1) y(1) by (simp del: of_nat_Suc) simp
  ultimately show ?thesis
    using st1 n request_range [of n] fits_order [OF n] geometry_start [OF st2(3)]
    by (simp add: pmm_alloc_pages_def Let_def fits_def)
qed

fun alloc_all :: "uint32 list \<Rightarrow> pmm \<Rightarrow> fault + (pm_alloc list \<times> pmm)" where
  "alloc_all [] st = Inr ([], st)"
| "alloc_all (n # ns) st = bindE (pmm_alloc_pages n st) (\<lambda>(a, st').
     bindE (alloc_all ns st') (\<lambda>(as, st''). Inr (a # as, st'')))"

lemma pmm_free_page_run:
  assumes "pmm_inv st L S" "c < 11" "unat n + 2 ^ c \<le> unat (singel_page_first_no st)"
    "blk c n \<inter> free_page_nos L S = {}"
  shows "case buddy_free L n c of
      None \<Rightarrow> pmm_free_page \<lparr>a_addr = pmm_page_no_to_addr st n, a_size = of_nat c, a_state = z\<rparr> st = Inl Undefined
    | Some L' \<Rightarrow> \<exists>st'. pmm_free_page \<lparr>a_addr = pmm_page_no_to_addr st n, a_size = of_nat c, a_state = z\<rparr> st = Inr (True, st') \<and>
        pmm_rel st' L' S \<and> geometry st' = geometry st"
proof -
  note inv = pmm_invD [OF assms(1)]
  have dj: "blk c n \<inter> buddy_pages L = {}" using assms(4) by (auto simp: free_page_nos_def)
  have nl: "n \<notin> listed L S" using unlisted_blk [OF assms(1,3) dj] .
  have "unat n < unat (singel_page_first_no st)"
    using assms(3) by (metis less_le_trans less_add_same_cancel1 zero_less_numeral zero_less_power)
  then have nm: "n < pmm_max_page_no st" "n < singel_page_first_no st" "unat n < 2 ^ 20"
    using inv(3,4) by (simp_all add: word_less_nat_alt)
  have "c \<le> 11" using assms(2) by simp
  then show ?thesis
    using free_helper_refines [OF inv(1) _ nl nm(1), of c] nm page_no_addr [OF nm(3)]
    by (auto simp: pmm_free_page_def Let_def split: option.splits)
qed

lemma managed_bound: "managed_pages kern_end mmap < 2 ^ 20"
  unfolding managed_pages_def by (rule unat_drop12)

text \<open>
  The elements of \<^verbatim>\<open>page_array\<close> take 12 bytes each, from address 0xC0000100 on, which is the physical address 0x100. The model
  keeps the array apart from all other memory. In the machine this is so only while the array ends below the memory of the
  display adapter at 0xA0000; a larger one overwrites this memory and then the kernel, which is loaded at 0x100000. Nothing
  in the code checks the size.
\<close>

definition page_array_end :: "uint32 \<Rightarrow> pm_entry list \<Rightarrow> nat" where
  "page_array_end kern_end mmap = 0xC0000100 + 12 * managed_pages kern_end mmap"

definition page_array_fits :: "uint32 \<Rightarrow> pm_entry list \<Rightarrow> bool" where
  "page_array_fits kern_end mmap \<longleftrightarrow> page_array_end kern_end mmap \<le> 0xC00A0000"

section \<open>Properties\<close>

text \<open>
  C1. After \<^verbatim>\<open>pmm_init\<close>, on a memory of at least 2048 pages above the kernel and small enough that \<^verbatim>\<open>page_array\<close> ends below
  the display memory (at most 54592 pages, 213 MB), the free
  lists are well formed and every managed page is on exactly one of them: the pages below
  \<^verbatim>\<open>singel_page_first_no\<close> in aligned disjoint blocks, the remaining ones (at most 1024, not
  1023 as the comment says) as single pages.
\<close>

theorem pmm_init_partition:
  assumes "SINGLE_LINK st = None" "2048 \<le> managed_pages kern_end mmap" "page_array_fits kern_end mmap"
  shows "\<exists>st' L S. pmm_init kern_end mmap st = Inr st' \<and> pmm_inv st' L S \<and>
    unat (pmm_max_page_no st') = managed_pages kern_end mmap \<and>
    free_page_nos L S = {..<managed_pages kern_end mmap} \<and>
    buddy_pages L = {..<unat (singel_page_first_no st')} \<and>
    unat ` set S = {unat (singel_page_first_no st')..<managed_pages kern_end mmap} \<and>
    length S \<le> 1024"
proof -
  let ?M = "managed_pages kern_end mmap"
  have M: "?M < 2 ^ 20" by (rule managed_bound)
  note fb = single_first_bounds [OF assms(2)]
  have "buddy_pages (init_lists (single_first ?M)) = {..<single_first ?M}"
    using init_lists_buddy(2) [of "single_first ?M" "single_first ?M div 1024"] fb M
    by (simp add: single_first_def)
  moreover have "length (map of_nat [single_first ?M..<?M] :: uint32 list) \<le> 1024" using fb(3) by simp
  moreover note pmm_init_inv [OF assms(1,2)]
  ultimately show ?thesis by metis
qed

text \<open>
  C3. A request of 1 to 1024 pages that finds a free block of the smallest sufficient size
  returns one: its pages were free, they alone stop being free, and the lists stay well formed.
\<close>

theorem pmm_alloc_pages_exact:
  assumes "pmm_inv st L S" "fits n c" "L c = xs @ [x]"
  shows "\<exists>st'. pmm_alloc_pages n st =
      Inr (\<lparr>a_addr = pmm_page_no_to_addr st x, a_size = of_nat c, a_state = 1\<rparr>, st') \<and>
    pmm_inv st' (L(c := xs)) S \<and> blk c x \<subseteq> free_page_nos L S \<and>
    free_page_nos (L(c := xs)) S = free_page_nos L S - blk c x"
proof -
  note inv = pmm_invD [OF assms(1)]
  have c: "c < 11" using fits_order(2) [OF assms(2)] .
  have x: "x \<in> set (L c)" using assms(3) by simp
  have rm: "remove1 x (L c) = xs" using buddy_okD(1) [OF inv(2) c] butlast_remove1 [of xs x] assms(3) by simp
  note rem = buddy_ok_remove [OF inv(2) c x, unfolded rm]
  have "unat ` set S \<inter> blk c x = {}"
    using blk_no_single [OF assms(1) buddy_okD(3) [OF inv(2) c x]] by auto
  then have "free_page_nos (L(c := xs)) S = free_page_nos L S - blk c x"
    unfolding free_page_nos_def rem(2) by blast
  moreover have "blk c x \<subseteq> free_page_nos L S"
    using buddy_pagesI [of c x L, OF c x] by (auto simp: free_page_nos_def)
  moreover have "\<forall>n\<in>set S. singel_page_first_no st \<le> n" using pmm_inv_single [OF assms(1)] by blast
  ultimately show ?thesis
    using pmm_alloc_exact [OF inv(1) assms(2,3)] pmm_invI [OF assms(1) _ _ rem(1)] by blast
qed

text \<open>
  A request for no page or for more than 1024 pages, and one for which neither a block of
  the size it needs nor a larger one is free, fails: the result has state 0 and nothing changes.
\<close>

theorem pmm_alloc_pages_fails:
  assumes "pmm_inv st L S" "n = 0 \<or> 1024 < n \<or> (\<exists>c. fits n c \<and> (\<forall>d. c \<le> d \<and> d < 11 \<longrightarrow> L d = []))"
  shows "pmm_alloc_pages n st = Inr (\<lparr>a_addr = 0, a_size = 11, a_state = 0\<rparr>, st)"
  using assms(2)
proof (elim disjE exE conjE)
  fix c assume c: "fits n c" "\<forall>d. c \<le> d \<and> d < 11 \<longrightarrow> L d = []"
  then have "all_empty L c 11" by (simp add: all_empty_def)
  then show ?thesis
    using pmm_alloc_pages_none_rel [OF pmm_invD(1) [OF assms(1)] _ _ fits_order [OF c(1)]] c(1)
    by (simp add: fits_def)
qed (simp_all add: pmm_alloc_pages_def)


text \<open>
  C5. A single page: \<^verbatim>\<open>pmm_alloc_one_page\<close> returns the last page of the single-page list and
  takes it off, and releasing it puts the very same list back.
\<close>

theorem pmm_one_page_round_trip:
  assumes "pmm_inv st L (xs @ [x])"
  shows "\<exists>a st1 st2. pmm_alloc_one_page st = Inr (a, st1) \<and> a_state a = 1 \<and>
    a_addr a = pmm_page_no_to_addr st x \<and> pmm_inv st1 L xs \<and>
    free_page_nos L xs = free_page_nos L (xs @ [x]) - {unat x} \<and>
    pmm_free_page a st1 = Inr (True, st2) \<and> pmm_inv st2 L (xs @ [x])"
proof -
  note inv = pmm_invD [OF assms]
  note xb = pmm_inv_single [OF assms, of x, simplified]
  obtain st1 where st1: "pmm_alloc_one_page st =
      Inr (\<lparr>a_addr = pmm_page_no_to_addr st x, a_size = 0, a_state = 1\<rparr>, st1)"
    "pmm_rel st1 L xs" "geometry st1 = geometry st" "nextf st1 x = None"
    using pmm_alloc_one_page_rel [OF inv(1)] by blast
  have geo: "pmm_max_page_no st1 = pmm_max_page_no st" "singel_page_first_no st1 = singel_page_first_no st"
    "pmm_page_no_to_addr st1 = pmm_page_no_to_addr st"
    using st1(3) geometry_start [OF st1(3)] by (simp_all add: geometry_def)
  have d: "distinct (xs @ [x])" using inv(1) unfolding pmm_rel_def using chain_distinct by blast
  have nl: "x \<notin> listed L xs" using single_unlisted [OF inv(1), of x] d by (auto simp: listed_def)
  have "\<not> x < singel_page_first_no st1" "unat x < 2 ^ 20" "x < pmm_max_page_no st1"
    using xb inv(4) geo by (auto simp: word_less_nat_alt word_le_nat_alt)
  then obtain st2 where st2: "pmm_free_page \<lparr>a_addr = pmm_page_no_to_addr st1 x, a_size = 0, a_state = 1\<rparr> st1 =
      Inr (True, st2)" "pmm_rel st2 L (xs @ [x])" "geometry st2 = geometry st1"
    using pmm_free_page_single_rel [OF st1(2) _ nl st1(4)] by blast
  have S: "\<forall>n\<in>set (xs @ [x]). singel_page_first_no st \<le> n" using pmm_inv_single [OF assms] by blast
  have "pmm_inv st1 L xs" using pmm_invI [OF assms st1(2,3) inv(2)] S by simp
  moreover have "pmm_inv st2 L (xs @ [x])" using pmm_invI [OF assms st2(2) _ inv(2) S] st1(3) st2(3) by simp
  moreover have "free_page_nos L xs = free_page_nos L (xs @ [x]) - {unat x}"
    using d single_not_buddy [OF assms, of x] by (auto simp: free_page_nos_def simp flip: word_unat_eq_iff)
  ultimately show ?thesis using st1(1) st2(1) geo(3) by auto
qed

section \<open>Defects of the buddy lists\<close>

text \<open>
  C6. Splitting files the upper half under the page number of the block instead of under the
  next smaller size. From the state that \<^verbatim>\<open>pmm_init\<close> builds, three requests for one page,
  one for two and one for four pages all succeed, and the last two hand out pages 3 to 4
  and pages 4 to 7: page 4 is given to two owners.
\<close>

theorem pmm_alloc_overlap:
  assumes "SINGLE_LINK st = None" "2048 \<le> managed_pages kern_end mmap"
  shows "\<exists>st' as st''. pmm_init kern_end mmap st = Inr st' \<and> alloc_all [1, 1, 1, 2, 4] st' = Inr (as, st'') \<and>
    map a_addr as = map (pmm_page_no_to_addr st') [1, 0, 2, 3, 4] \<and> map a_size as = [0, 0, 0, 1, 2] \<and>
    map a_state as = [1, 1, 1, 1, 1]"
proof -
  let ?M = "managed_pages kern_end mmap"
  let ?f = "single_first ?M"
  let ?L = "init_lists ?f" and ?S = "map of_nat [?f..<?M] :: uint32 list"
  obtain st0 where st0: "pmm_init kern_end mmap st = Inr st0" "pmm_rel st0 ?L ?S"
    "unat (pmm_max_page_no st0) = ?M" "unat ` set ?S = {?f..<?M}"
    using pmm_init_inv [OF assms] by (auto simp: pmm_inv_def)
  have ini: "?L 0 = [0] @ [1]" "?L 1 = [] @ [2]" "?L 2 = [] @ [4]" by (simp_all add: init_lists_def)
  obtain a1 st1 where st1: "pmm_alloc_pages 1 st0 = Inr (\<lparr>a_addr = pmm_page_no_to_addr st0 1, a_size = 0, a_state = 1\<rparr>, st1)"
    "pmm_rel st1 (?L(0 := [0])) ?S" "geometry st1 = geometry st0"
    using pmm_alloc_exact [OF st0(2) fits_small(1) ini(1)] by auto
  obtain st2 where st2: "pmm_alloc_pages 1 st1 = Inr (\<lparr>a_addr = pmm_page_no_to_addr st1 0, a_size = 0, a_state = 1\<rparr>, st2)"
    "pmm_rel st2 (?L(0 := [])) ?S" "geometry st2 = geometry st1"
    using pmm_alloc_exact [OF st1(2) fits_small(1), of "[]" 0] by auto
  have fM: "2048 \<le> ?f" "?f \<le> 2 ^ 20"
    using single_first_bounds [OF assms(2)] managed_bound [of kern_end mmap] by simp_all
  have three: "3 \<notin> listed ((?L(0 := []))(Suc 0 := [])) ?S"
  proof
    assume "3 \<in> listed ((?L(0 := []))(Suc 0 := [])) ?S"
    moreover have "(3 :: uint32) \<notin> set ?S"
    proof
      assume "(3 :: uint32) \<in> set ?S"
      then have "unat (3 :: uint32) \<in> {?f..<?M}" unfolding st0(4) [symmetric] by (rule imageI)
      then show False using fM(1) by simp
    qed
    ultimately obtain c where c: "0 < c" "c \<noteq> 1" "(3 :: uint32) \<in> set (?L c)"
      by (auto simp: listed_def simp del: set_map split: if_splits)
    have "(4 :: nat) \<le> 2 ^ c" using c power_increasing [of 2 c "2 :: nat"] by simp
    moreover have "1024 * j \<noteq> (3 :: nat)" for j :: nat by (cases j) simp_all
    moreover have "unat (3 :: uint32) = 3" by simp
    ultimately show False using init_lists_unat [OF fM(2) c(3)] c(1,2)
      by (elim disjE conjE exE) linarith+
  qed
  obtain st3 where st3: "pmm_alloc_pages 1 st2 = Inr (\<lparr>a_addr = pmm_page_no_to_addr st2 2, a_size = 0, a_state = 1\<rparr>, st3)"
    "pmm_rel st3 (?L(0 := [], 1 := [3])) ?S" "geometry st3 = geometry st2"
    using pmm_alloc_split [OF st2(2) fits_small(1), of "[]" 2 3] three ini(2) st0(3) assms(2)
      geometry_max [OF st1(3)] geometry_max [OF st2(3)] by (auto simp: word_less_nat_alt)
  obtain st4 where st4: "pmm_alloc_pages 2 st3 = Inr (\<lparr>a_addr = pmm_page_no_to_addr st3 3, a_size = 1, a_state = 1\<rparr>, st4)"
    "pmm_rel st4 (?L(0 := [], 1 := [])) ?S" "geometry st4 = geometry st3"
    using pmm_alloc_exact [OF st3(2) fits_small(2), of "[]" 3] by auto
  obtain st5 where st5: "pmm_alloc_pages 4 st4 = Inr (\<lparr>a_addr = pmm_page_no_to_addr st4 4, a_size = 2, a_state = 1\<rparr>, st5)"
    using pmm_alloc_exact [OF st4(2) fits_small(3), of "[]" 4] ini(3) by auto
  have "alloc_all [1, 1, 1, 2, 4] st0 = Inr
      ([\<lparr>a_addr = pmm_page_no_to_addr st0 1, a_size = 0, a_state = 1\<rparr>,
        \<lparr>a_addr = pmm_page_no_to_addr st1 0, a_size = 0, a_state = 1\<rparr>,
        \<lparr>a_addr = pmm_page_no_to_addr st2 2, a_size = 0, a_state = 1\<rparr>,
        \<lparr>a_addr = pmm_page_no_to_addr st3 3, a_size = 1, a_state = 1\<rparr>,
        \<lparr>a_addr = pmm_page_no_to_addr st4 4, a_size = 2, a_state = 1\<rparr>], st5)"
    by (simp add: st1(1) st2(1) st3(1) st4(1) st5)
  then show ?thesis
    using st0(1) geometry_start [OF st1(3)] geometry_start [OF st2(3)] geometry_start [OF st3(3)]
      geometry_start [OF st4(3)] by simp
qed

text \<open>
  Splitting is undefined behaviour for most blocks: whenever no block of the wanted size is
  free and the larger block that is found has a page number above 11, the half is filed under
  a number that is no list and an uninitialised list head is read.
\<close>

theorem pmm_alloc_split_undefined:
  assumes "pmm_inv st L S" "fits n c" "c < d" "d < 11" "\<forall>e. c \<le> e \<and> e < d \<longrightarrow> L e = []"
    "L d = xs @ [x]" "11 < unat x"
  shows "pmm_alloc_pages n st = Inl Undefined"
proof -
  have "unat (x - 1) = unat x - 1" using assms(7) by (intro unat_minus_one) auto
  then have "11 \<le> unat (x - 1)" using assms(7) by simp
  moreover have "all_empty L c d" using assms(5) by (simp add: all_empty_def)
  ultimately show ?thesis
    using pmm_alloc_pages_split_undefined [OF pmm_invD(1) [OF assms(1)] _ _ fits_order(1) [OF assms(2)] assms(3,4) _ assms(6)]
      assms(2) by (simp add: fits_def)
qed

text \<open>
  Releasing a block whose buddy is free does not always merge the two: the search skips
  the first block of a list with two or more blocks, and both buddies stay on the list of
  their size.
\<close>

theorem pmm_free_page_missed_merge:
  assumes "pmm_inv st L S" "c < 11" "2 ^ c dvd unat n" "unat n + 2 ^ c \<le> unat (singel_page_first_no st)"
    "blk c n \<inter> free_page_nos L S = {}" "L c = get_partner_page_no n (of_nat c) # q # qs"
  shows "\<exists>st'. pmm_free_page \<lparr>a_addr = pmm_page_no_to_addr st n, a_size = of_nat c, a_state = 1\<rparr> st = Inr (True, st') \<and>
    pmm_inv st' (L(c := L c @ [n])) S"
proof -
  note inv = pmm_invD [OF assms(1)]
  have dj: "blk c n \<inter> buddy_pages L = {}" using assms(5) by (auto simp: free_page_nos_def)
  have "\<not> findable (get_partner_page_no n (of_nat c)) (L c)"
    using assms(6) buddy_okD(1) [OF inv(2) assms(2)] by (simp add: findable_def)
  then have "buddy_free L n c = Some (L(c := L c @ [n]))"
    using assms(2) by (subst buddy_free.simps) (simp add: Let_def)
  moreover have "\<forall>n\<in>set S. singel_page_first_no st \<le> n" using pmm_inv_single [OF assms(1)] by blast
  ultimately show ?thesis
    using pmm_free_page_run [OF assms(1,2,4,5), of 1] buddy_ok_append(1) [OF inv(2) assms(2-4) dj]
      pmm_invI [OF assms(1)] by auto
qed

text \<open>
  Releasing a block of 1024 pages whose buddy is found on the list merges the two and goes
  on with a size that no list has: an uninitialised list head is read.
\<close>

theorem pmm_free_page_merge_undefined:
  assumes "pmm_inv st L S" "unat n + 1024 \<le> unat (singel_page_first_no st)"
    "blk 10 n \<inter> free_page_nos L S = {}" "get_partner_page_no n 10 \<in> set (tl (L 10))"
  shows "pmm_free_page \<lparr>a_addr = pmm_page_no_to_addr st n, a_size = 10, a_state = 1\<rparr> st = Inl Undefined"
proof -
  have "buddy_free L n 10 = None"
    using assms(4) by (subst buddy_free.simps, subst buddy_free.simps) (simp add: Let_def findable_def)
  then show ?thesis using pmm_free_page_run [OF assms(1) _ _ assms(3), of 1] assms(2) by simp
qed

section \<open>Instances\<close>

text \<open>
  A memory of 8192 pages with a free block of four pages, two of two pages, two of 1024
  pages and two single pages; the other pages are in use.
\<close>

definition demo_lists :: "nat \<Rightarrow> uint32 list" where
  "demo_lists c = (if c = 2 then [4096] else if c = 1 then [4104, 4108] else if c = 10 then [0, 3072] else [])"

definition demo_pmm :: pmm where
  "demo_pmm = \<lparr>page_array = (\<lambda>n. \<lparr>page_no = n, p_next = (if n = 0 then Some 3072 else if n = 4104 then Some 4108
       else if n = 6144 then Some 6145 else None), p_state = 1\<rparr>),
     MULTI_LINK = (\<lambda>c. if c = 2 then Some 4096 else if c = 1 then Some 4104 else if c = 10 then Some 0 else None),
     SINGLE_LINK = Some 6144, pmm_page_start = 0x200000, pmm_page_end = 0x2200000, pmm_max_page_no = 8192,
     singel_page_first_no = 6144, block_count_array = (\<lambda>_. 0)\<rparr>"

lemma demo_nextf: "nextf demo_pmm = (\<lambda>n. if n = 0 then Some 3072 else if n = 4104 then Some 4108
    else if n = 6144 then Some 6145 else None)"
  by (simp add: nextf_def demo_pmm_def fun_eq_iff)

lemma demo_inv: "pmm_inv demo_pmm demo_lists [6144, 6145]"
proof -
  have ch: "chain (nextf demo_pmm) (MULTI_LINK demo_pmm c) (demo_lists c)" for c
    unfolding demo_nextf by (simp add: demo_pmm_def demo_lists_def)
  have "chain (nextf demo_pmm) (SINGLE_LINK demo_pmm) [6144, 6145]"
    unfolding demo_nextf by (simp add: demo_pmm_def)
  then have "pmm_rel demo_pmm demo_lists [6144, 6145]"
    using ch by (auto simp: pmm_rel_def listed_def demo_lists_def demo_pmm_def split: if_splits)
  moreover have "buddy_ok 6144 demo_lists"
    by (auto simp: buddy_ok_def demo_lists_def blk_def split: if_splits)
  ultimately show ?thesis by (auto simp: pmm_inv_def demo_pmm_def)
qed

definition demo_mmap :: "pm_entry list" where
  "demo_mmap = [\<lparr>e_size = 20, base_addr_low = 0, base_addr_high = 0, length_low = 0x9FC00, length_high = 0, e_type = 1\<rparr>,
     \<lparr>e_size = 20, base_addr_low = 0x100000, base_addr_high = 0, length_low = 0x7EE0000, length_high = 0, e_type = 1\<rparr>]"

lemma demo_managed: "managed_pages 0x11F000 demo_mmap = 32448"
  by (simp add: managed_pages_def get_max_pm_addr_def demo_mmap_def)

theorem pmm_init_partition_witness:
  "\<exists>st' L S. pmm_init 0x11F000 demo_mmap (demo_pmm\<lparr>SINGLE_LINK := None\<rparr>) = Inr st' \<and> pmm_inv st' L S \<and>
    unat (pmm_max_page_no st') = 32448 \<and> free_page_nos L S = {..<32448} \<and>
    buddy_pages L = {..<unat (singel_page_first_no st')} \<and>
    unat ` set S = {unat (singel_page_first_no st')..<32448} \<and> length S \<le> 1024"
  using pmm_init_partition [of "demo_pmm\<lparr>SINGLE_LINK := None\<rparr>" "0x11F000" demo_mmap]
  unfolding page_array_fits_def page_array_end_def demo_managed by simp

text \<open>With 512 MB of memory the array reaches the kernel at 0xC0100000.\<close>

lemma page_array_overwrites:
  "\<exists>mmap. get_max_pm_addr mmap = 0x20000000 \<and> 0xC0100000 < page_array_end 0x11F000 mmap"
  by (rule exI [of _ "[\<lparr>e_size = 20, base_addr_low = 0x100000, base_addr_high = 0, length_low = 0x1FF00000, length_high = 0, e_type = 1\<rparr>]"])
    (simp add: page_array_end_def managed_pages_def get_max_pm_addr_def)

theorem pmm_alloc_pages_exact_witness:
  "\<exists>st'. pmm_alloc_pages 4 demo_pmm = Inr (\<lparr>a_addr = 0x1200000, a_size = 2, a_state = 1\<rparr>, st') \<and>
    pmm_inv st' (demo_lists(2 := [])) [6144, 6145]"
  using pmm_alloc_pages_exact [OF demo_inv fits_small(3), of "[]" 4096]
  by (auto simp: demo_lists_def pmm_page_no_to_addr_def demo_pmm_def)

theorem pmm_alloc_pages_fails_witness:
  "pmm_alloc_pages 0 demo_pmm = Inr (\<lparr>a_addr = 0, a_size = 11, a_state = 0\<rparr>, demo_pmm)"
  using pmm_alloc_pages_fails [OF demo_inv, of 0] by simp


theorem pmm_one_page_round_trip_witness:
  "\<exists>a st1 st2. pmm_alloc_one_page demo_pmm = Inr (a, st1) \<and> a_addr a = 0x1A01000 \<and>
    pmm_inv st1 demo_lists [6144] \<and> pmm_free_page a st1 = Inr (True, st2) \<and> pmm_inv st2 demo_lists [6144, 6145]"
  using pmm_one_page_round_trip [of demo_pmm demo_lists "[6144]" 6145] demo_inv
  by (auto simp: pmm_page_no_to_addr_def demo_pmm_def)

theorem pmm_alloc_overlap_witness:
  "\<exists>st' as st''. pmm_init 0x11F000 demo_mmap (demo_pmm\<lparr>SINGLE_LINK := None\<rparr>) = Inr st' \<and>
    alloc_all [1, 1, 1, 2, 4] st' = Inr (as, st'') \<and>
    map a_addr as = map (pmm_page_no_to_addr st') [1, 0, 2, 3, 4] \<and> map a_size as = [0, 0, 0, 1, 2] \<and>
    map a_state as = [1, 1, 1, 1, 1]"
  using pmm_alloc_overlap [of "demo_pmm\<lparr>SINGLE_LINK := None\<rparr>" "0x11F000" demo_mmap]
  unfolding demo_managed by simp

theorem pmm_alloc_split_undefined_witness: "pmm_alloc_pages 1 (demo_pmm) = Inl Undefined"
  using pmm_alloc_split_undefined [OF demo_inv fits_small(1), of 1 "[4104]" 4108]
  by (simp add: demo_lists_def)

theorem pmm_free_page_missed_merge_witness:
  "\<exists>st'. pmm_free_page \<lparr>a_addr = 0x120A000, a_size = of_nat 1, a_state = 1\<rparr> demo_pmm = Inr (True, st') \<and>
    pmm_inv st' (demo_lists(1 := [4104, 4108, 4106])) [6144, 6145]"
proof -
  have "blk 1 4106 \<inter> free_page_nos demo_lists [6144, 6145] = {}"
    by (auto simp: free_page_nos_def buddy_pages_def demo_lists_def blk_def split: if_splits)
  moreover have "demo_lists 1 = get_partner_page_no 4106 (of_nat 1) # 4108 # []"
    by (simp add: get_partner_page_no_def c_to_uint32_def demo_lists_def)
  ultimately show ?thesis
    using pmm_free_page_missed_merge [OF demo_inv, of 1 4106]
    by (simp add: demo_pmm_def pmm_page_no_to_addr_def demo_lists_def)
qed

theorem pmm_free_page_merge_undefined_witness:
  "pmm_free_page \<lparr>a_addr = 0xA00000, a_size = 10, a_state = 1\<rparr> demo_pmm = Inl Undefined"
proof -
  have "blk 10 2048 \<inter> free_page_nos demo_lists [6144, 6145] = {}"
    by (auto simp: free_page_nos_def buddy_pages_def demo_lists_def blk_def split: if_splits)
  moreover have "get_partner_page_no 2048 10 \<in> set (tl (demo_lists 10))"
    by (simp add: get_partner_page_no_def c_to_uint32_def demo_lists_def)
  ultimately show ?thesis
    using pmm_free_page_merge_undefined [OF demo_inv, of 2048]
    by (simp add: demo_pmm_def pmm_page_no_to_addr_def)
qed

end
