(* ===== verification/CString.thy ===== *)
theory CString
  imports Interfaces
begin

text \<open>
  \<^verbatim>\<open>src/libs/string/string.c\<close>: the kernel's memory and string routines, over any byte
  memory (\<open>ld\<close>, \<open>st\<close>). A loop that runs until it meets a NUL byte may never end; it is a
  \<^theory_text>\<open>partial_function\<close> and \<open>joinE\<close> turns its divergence into \<open>Spin\<close>. The
  kernel is built for 32-bit x86 without optimisation, so \<^verbatim>\<open>int\<close> arithmetic wraps and
  plain \<^verbatim>\<open>char\<close> is signed.
\<close>

section \<open>Block operations\<close>

function memcpy :: "(uint32 \<Rightarrow> 's \<Rightarrow> fault + byte) \<Rightarrow> (uint32 \<Rightarrow> byte \<Rightarrow> 's \<Rightarrow> fault + 's) \<Rightarrow>
    uint32 \<Rightarrow> uint32 \<Rightarrow> uint32 \<Rightarrow> 's \<Rightarrow> fault + 's" where
  "memcpy ld st dest src len s =
     (if len \<noteq> 0
      then bindE (ld src s) (\<lambda>b. bindE (st dest b s) (\<lambda>s'.
             memcpy ld st (dest + 1) (src + 1) (len - 1) s'))
      else Inr s)"
  by pat_completeness auto
termination
  by (relation "measure (\<lambda>(ld, st, dest, src, len, s). unat len)")
    (auto simp: unat_gt_0 unat_minus_one)

function memset :: "(uint32 \<Rightarrow> byte \<Rightarrow> 's \<Rightarrow> fault + 's) \<Rightarrow> uint32 \<Rightarrow> byte \<Rightarrow> uint32 \<Rightarrow> 's \<Rightarrow> fault + 's" where
  "memset st dst val len s =
     (if len \<noteq> 0 then bindE (st dst val s) (\<lambda>s'. memset st (dst + 1) val (len - 1) s') else Inr s)"
  by pat_completeness auto
termination
  by (relation "measure (\<lambda>(st, dst, val, len, s). unat len)")
    (auto simp: unat_gt_0 unat_minus_one)

declare memcpy.simps [simp del] memset.simps [simp del]

definition bzero :: "(uint32 \<Rightarrow> byte \<Rightarrow> 's \<Rightarrow> fault + 's) \<Rightarrow> uint32 \<Rightarrow> uint32 \<Rightarrow> 's \<Rightarrow> fault + 's" where
  "bzero st dest len s = memset st dest 0 len s"

lemma memset_0 [simp]: "memset st dst val 0 s = Inr s"
  by (simp add: memset.simps)

lemma memcpy_0 [simp]: "memcpy ld st dst src 0 s = Inr s"
  by (simp add: memcpy.simps)

context byte_memory
begin

lemma memset_ok:
  "ok s \<Longrightarrow> span dst (unat len) \<subseteq> R \<Longrightarrow>
   \<exists>s'. memset st dst val len s = Inr s' \<and> ok s' \<and> rest s' = rest s \<and>
     (\<forall>x\<in>R. mem s' x = (if x \<in> span dst (unat len) then val else mem s x))"
proof (induction "unat len" arbitrary: dst len s)
  case 0
  then show ?case by (auto simp: unat_eq_0)
next
  case (Suc n)
  then have nz: "len \<noteq> 0" and n: "unat (len - 1) = n"
    using unat_pred [of len n] by auto
  have sp: "span dst (unat len) = insert dst (span (dst + 1) n)"
    using Suc.hyps(2) span_Suc by metis
  obtain t where t: "st dst val s = Inr t" "ok t" "rest t = rest s"
    "\<forall>x\<in>R. mem t x = ((mem s)(dst := val)) x"
    using st_ok [OF Suc.prems(1), of dst val] Suc.prems(2) sp by auto
  obtain s' where s': "memset st (dst + 1) val (len - 1) t = Inr s'" "ok s'" "rest s' = rest t"
    "\<forall>x\<in>R. mem s' x = (if x \<in> span (dst + 1) n then val else mem t x)"
    using Suc.hyps(1) [OF _ t(2), of "len - 1" "dst + 1"] n Suc.prems(2) sp by auto
  then show ?case
    using t nz sp by (subst memset.simps) auto
qed

lemma memcpy_ok:
  "ok s \<Longrightarrow> span dst (unat len) \<subseteq> R \<Longrightarrow> span src (unat len) \<subseteq> R \<Longrightarrow>
   span dst (unat len) \<inter> span src (unat len) = {} \<Longrightarrow>
   \<exists>s'. memcpy ld st dst src len s = Inr s' \<and> ok s' \<and> rest s' = rest s \<and>
     (\<forall>i < unat len. mem s' (dst + of_nat i) = mem s (src + of_nat i)) \<and>
     (\<forall>x\<in>R. x \<notin> span dst (unat len) \<longrightarrow> mem s' x = mem s x)"
proof (induction "unat len" arbitrary: dst src len s)
  case 0
  then show ?case by (auto simp: unat_eq_0)
next
  case (Suc n)
  then have nz: "len \<noteq> 0" and n: "unat (len - 1) = n"
    using unat_pred [of len n] by auto
  have sd: "span dst (unat len) = insert dst (span (dst + 1) n)"
    and ss: "span src (unat len) = insert src (span (src + 1) n)"
    using Suc.hyps(2) span_Suc by metis+
  have l: "ld src s = Inr (mem s src)"
    using ld_ok [OF Suc.prems(1)] Suc.prems(3) ss by auto
  obtain t where t: "st dst (mem s src) s = Inr t" "ok t" "rest t = rest s"
    "\<forall>x\<in>R. mem t x = ((mem s)(dst := mem s src)) x"
    using st_ok [OF Suc.prems(1), of dst "mem s src"] Suc.prems(2) sd by auto
  have dnotin: "dst \<notin> span (dst + 1) n"
  proof
    assume "dst \<in> span (dst + 1) n"
    then obtain i where i: "i < n" "(of_nat (Suc i) :: uint32) = of_nat 0"
      by (auto simp: span_def algebra_simps)
    moreover have "Suc i < 2 ^ 32" using i(1) n unat_lt_32 [of "len - 1"] by linarith
    ultimately show False by (subst (asm) of_nat_inj_32) auto
  qed
  have sub: "span (dst + 1) n \<subseteq> R" "span (src + 1) n \<subseteq> R"
    "span (dst + 1) n \<inter> span (src + 1) n = {}"
    using Suc.prems(2-4) sd ss by blast+
  have "\<exists>s'. memcpy ld st (dst + 1) (src + 1) (len - 1) t = Inr s' \<and> ok s' \<and> rest s' = rest t \<and>
      (\<forall>i < n. mem s' (dst + 1 + of_nat i) = mem t (src + 1 + of_nat i)) \<and>
      (\<forall>x\<in>R. x \<notin> span (dst + 1) n \<longrightarrow> mem s' x = mem t x)"
    using Suc.hyps(1) [of "len - 1" t "dst + 1" "src + 1"] n t(2) sub by simp
  then obtain s' where s': "memcpy ld st (dst + 1) (src + 1) (len - 1) t = Inr s'" "ok s'"
    "rest s' = rest t" "\<forall>i < n. mem s' (dst + 1 + of_nat i) = mem t (src + 1 + of_nat i)"
    "\<forall>x\<in>R. x \<notin> span (dst + 1) n \<longrightarrow> mem s' x = mem t x" by blast
  have src_t: "mem t (src + 1 + of_nat i) = mem s (src + 1 + of_nat i)" if "i < n" for i
  proof -
    have "src + 1 + of_nat i \<in> span src (unat len)" using span_mem [OF that, of "src + 1"] ss by simp
    moreover from this have "src + 1 + of_nat i \<noteq> dst" using Suc.prems(4) sd by blast
    ultimately show ?thesis using t(4) Suc.prems(3) by (simp add: subset_iff)
  qed
  have "mem s' (dst + of_nat i) = mem s (src + of_nat i)" if "i < unat len" for i
  proof (cases i)
    case 0
    then show ?thesis using s'(5) t(4) dnotin Suc.prems(2) sd by auto
  next
    case (Suc j)
    then have "j < n" using that \<open>Suc n = unat len\<close> by simp
    then show ?thesis using s'(4) src_t Suc by (simp add: algebra_simps)
  qed
  moreover have "\<forall>x\<in>R. x \<notin> span dst (unat len) \<longrightarrow> mem s' x = mem s x"
    using s'(5) t(4) sd by auto
  ultimately show ?case
    using l t s' nz by (subst memcpy.simps) auto
qed

end

section \<open>Strings\<close>

partial_function (option) strlen_loop ::
  "(uint32 \<Rightarrow> 's \<Rightarrow> fault + byte) \<Rightarrow> uint32 \<Rightarrow> uint32 \<Rightarrow> 's \<Rightarrow> (fault + uint32) option" where
  "strlen_loop ld src i s =
     (case ld (src + i) s of
        Inl e \<Rightarrow> Some (Inl e)
      | Inr b \<Rightarrow> if b \<noteq> 0 then strlen_loop ld src (i + 1) s else Some (Inr i))"

definition strlen :: "(uint32 \<Rightarrow> 's \<Rightarrow> fault + byte) \<Rightarrow> uint32 \<Rightarrow> 's \<Rightarrow> fault + uint32" where
  "strlen ld src s = joinE (strlen_loop ld src 0 s)"

partial_function (option) strcpy_loop ::
  "(uint32 \<Rightarrow> 's \<Rightarrow> fault + byte) \<Rightarrow> (uint32 \<Rightarrow> byte \<Rightarrow> 's \<Rightarrow> fault + 's) \<Rightarrow> uint32 \<Rightarrow> uint32 \<Rightarrow> 's \<Rightarrow> (fault + 's) option" where
  "strcpy_loop ld st dest src s =
     (case ld src s of
        Inl e \<Rightarrow> Some (Inl e)
      | Inr b \<Rightarrow>
          if b \<noteq> 0
          then (case st dest b s of
                  Inl e \<Rightarrow> Some (Inl e)
                | Inr s' \<Rightarrow> strcpy_loop ld st (dest + 1) (src + 1) s')
          else Some (st dest 0 s))"

definition strcpy :: "(uint32 \<Rightarrow> 's \<Rightarrow> fault + byte) \<Rightarrow> (uint32 \<Rightarrow> byte \<Rightarrow> 's \<Rightarrow> fault + 's) \<Rightarrow>
    uint32 \<Rightarrow> uint32 \<Rightarrow> 's \<Rightarrow> fault + (uint32 \<times> 's)" where
  "strcpy ld st dest src s = bindE (joinE (strcpy_loop ld st dest src s)) (\<lambda>s'. Inr (dest, s'))"

partial_function (option) find_nul :: "(uint32 \<Rightarrow> 's \<Rightarrow> fault + byte) \<Rightarrow> uint32 \<Rightarrow> 's \<Rightarrow> (fault + uint32) option" where
  "find_nul ld pointer s =
     (case ld pointer s of
        Inl e \<Rightarrow> Some (Inl e)
      | Inr b \<Rightarrow> if b \<noteq> 0 then find_nul ld (pointer + 1) s else Some (Inr pointer))"

definition strcat :: "(uint32 \<Rightarrow> 's \<Rightarrow> fault + byte) \<Rightarrow> (uint32 \<Rightarrow> byte \<Rightarrow> 's \<Rightarrow> fault + 's) \<Rightarrow>
    uint32 \<Rightarrow> uint32 \<Rightarrow> 's \<Rightarrow> fault + (uint32 \<times> 's)" where
  "strcat ld st dest src s =
     bindE (joinE (find_nul ld dest s)) (\<lambda>pointer.
     bindE (strcpy ld st pointer src s) (\<lambda>(_, s'). Inr (dest, s')))"

text \<open>Characters are compared as signed values; the third test repeats the second one.\<close>

partial_function (option) strcmp_loop ::
  "(uint32 \<Rightarrow> 's \<Rightarrow> fault + byte) \<Rightarrow> uint32 \<Rightarrow> uint32 \<Rightarrow> 's \<Rightarrow> (fault + int) option" where
  "strcmp_loop ld str1 str2 s =
     (case ld str1 s of
        Inl e \<Rightarrow> Some (Inl e)
      | Inr x \<Rightarrow> (case ld str2 s of
          Inl e \<Rightarrow> Some (Inl e)
        | Inr y \<Rightarrow>
            if x = 0 \<and> y = 0 then Some (Inr 0)
            else if sint x > sint y then Some (Inr 1)
            else if sint x > sint y then Some (Inr (- 1))
            else strcmp_loop ld (str1 + 1) (str2 + 1) s))"

definition strcmp :: "(uint32 \<Rightarrow> 's \<Rightarrow> fault + byte) \<Rightarrow> uint32 \<Rightarrow> uint32 \<Rightarrow> 's \<Rightarrow> fault + int" where
  "strcmp ld str1 str2 s = joinE (strcmp_loop ld str1 str2 s)"

text \<open>The indices \<^verbatim>\<open>ptr_h\<close> and \<^verbatim>\<open>ptr_t\<close> are signed: the second is \<open>-1\<close> for the empty string.\<close>

function strrevers_loop :: "(uint32 \<Rightarrow> 's \<Rightarrow> fault + byte) \<Rightarrow> (uint32 \<Rightarrow> byte \<Rightarrow> 's \<Rightarrow> fault + 's) \<Rightarrow>
    uint32 \<Rightarrow> int \<Rightarrow> int \<Rightarrow> 's \<Rightarrow> fault + 's" where
  "strrevers_loop ld st str_head ptr_h ptr_t s =
     (if ptr_h < ptr_t
      then bindE (ld (str_head + of_int ptr_t) s) (\<lambda>temp.
           bindE (ld (str_head + of_int ptr_h) s) (\<lambda>b.
           bindE (st (str_head + of_int ptr_t) b s) (\<lambda>s1.
           bindE (st (str_head + of_int ptr_h) temp s1) (\<lambda>s2.
             strrevers_loop ld st str_head (ptr_h + 1) (ptr_t - 1) s2))))
      else Inr s)"
  by pat_completeness auto
termination
  by (relation "measure (\<lambda>(ld, st, a, h, t, s). nat (t - h))") auto

definition strrevers :: "(uint32 \<Rightarrow> 's \<Rightarrow> fault + byte) \<Rightarrow> (uint32 \<Rightarrow> byte \<Rightarrow> 's \<Rightarrow> fault + 's) \<Rightarrow>
    uint32 \<Rightarrow> 's \<Rightarrow> fault + (uint32 \<times> 's)" where
  "strrevers ld st str s =
     bindE (strlen ld str s) (\<lambda>lenth.
     bindE (strrevers_loop ld st str 0 (sint (lenth - 1)) s) (\<lambda>s'. Inr (str, s')))"

section \<open>Numbers\<close>

text \<open>The tables of digits are constant arrays; every index used is within them.\<close>

definition i2stable :: "byte list" where
  "i2stable = [48, 49, 50, 51, 52, 53, 54, 55, 56, 57]"

definition bit_table :: "byte list" where
  "bit_table = [48, 49, 50, 51, 52, 53, 54, 55, 56, 57, 65, 66, 67, 68, 69, 70]"

function uintTostring_loop :: "(uint32 \<Rightarrow> byte \<Rightarrow> 's \<Rightarrow> fault + 's) \<Rightarrow> uint32 \<Rightarrow> uint32 \<Rightarrow> 's \<Rightarrow> fault + (uint32 \<times> uint32 \<times> 's)" where
  "uintTostring_loop st num str_ptr s =
     (if num \<ge> 10
      then let quot = num div 10; index = num - quot * 10
           in bindE (st str_ptr (i2stable ! unat index) s) (\<lambda>s'. uintTostring_loop st quot (str_ptr + 1) s')
      else Inr (num, str_ptr, s))"
  by pat_completeness auto
termination
  by (relation "measure (\<lambda>(st, num, p, s). unat num)") (auto simp: unat_div word_le_nat_alt)

text \<open>\<open>m\<close> is the address of the static buffer of 32 bytes.\<close>

definition uintTostring :: "(uint32 \<Rightarrow> 's \<Rightarrow> fault + byte) \<Rightarrow> (uint32 \<Rightarrow> byte \<Rightarrow> 's \<Rightarrow> fault + 's) \<Rightarrow>
    uint32 \<Rightarrow> uint32 \<Rightarrow> 's \<Rightarrow> fault + (uint32 \<times> 's)" where
  "uintTostring ld st m num s =
     bindE (uintTostring_loop st num m s) (\<lambda>(num', str_ptr, s1).
     bindE (st str_ptr (i2stable ! unat num') s1) (\<lambda>s2.
     bindE (st (str_ptr + 1) 0 s2) (\<lambda>s3. strrevers ld st m s3)))"

text \<open>
  \<^verbatim>\<open>func\<close>: \<^verbatim>\<open>n/i\<close> and \<^verbatim>\<open>n%i\<close> are unsigned, because \<^verbatim>\<open>i\<close> is. Base 0 divides by zero and base 1
  recurses for ever; the only caller passes 16. \<^verbatim>\<open>strcpy(s,"")\<close> stores a NUL byte.
\<close>

function func_s :: "(uint32 \<Rightarrow> 's \<Rightarrow> fault + byte) \<Rightarrow> (uint32 \<Rightarrow> byte \<Rightarrow> 's \<Rightarrow> fault + 's) \<Rightarrow>
    uint32 \<Rightarrow> uint32 \<Rightarrow> uint32 \<Rightarrow> 's \<Rightarrow> fault + (uint32 \<times> 's)" where
  "func_s ld st str n i s =
     (if n = 0 then bindE (st str 0 s) (\<lambda>s'. Inr (0, s'))
      else if i = 0 then Inl Undefined
      else if i = 1 then Inl Spin
      else bindE (func_s ld st str (n div i) i s) (\<lambda>(_, s1).
           bindE (strlen ld str s1) (\<lambda>len.
           bindE (st (str + len) (bit_table ! unat (n mod i)) s1) (\<lambda>s2.
           bindE (st (str + len + 1) 0 s2) (\<lambda>s3. Inr (1, s3))))))"
  by pat_completeness auto
termination
proof (relation "measure (\<lambda>(ld, st, str, n, i, s). unat n)")
  fix n i :: uint32 and ld st str s
  assume "n \<noteq> 0" "i \<noteq> 0" "i \<noteq> 1"
  then have "1 < unat i" "0 < unat n" by (simp_all add: unat_gt_0 word_unat_eq_iff less_Suc_eq_le flip: Suc_le_eq)
  then show "((ld, st, str, n div i, i, s), ld, st, str, n, i, s) \<in> measure (\<lambda>(ld, st, str, n, i, s). unat n)"
    by (simp add: unat_div)
qed simp

declare strrevers_loop.simps [simp del] uintTostring_loop.simps [simp del] func_s.simps [simp del]

text \<open>
  The addresses \<^verbatim>\<open>num2hexstr\<close> uses: its static buffer, its two local arrays of nine bytes, and the
  two string literals it returns for zero.
\<close>

record hex_addrs =
  static_hexstr :: uint32
  temp_arry :: uint32
  temp_arry2 :: uint32
  lit_0x :: uint32
  lit_0 :: uint32

definition num2hexstr :: "(uint32 \<Rightarrow> 's \<Rightarrow> fault + byte) \<Rightarrow> (uint32 \<Rightarrow> byte \<Rightarrow> 's \<Rightarrow> fault + 's) \<Rightarrow>
    hex_addrs \<Rightarrow> uint32 \<Rightarrow> bool \<Rightarrow> 's \<Rightarrow> fault + (uint32 \<times> 's)" where
  "num2hexstr ld st a number need0x s =
     (if number \<noteq> 0
      then bindE (st (static_hexstr a) 48 s) (\<lambda>s1.
           bindE (st (static_hexstr a + 1) 120 s1) (\<lambda>s2.
           bindE (memset st (temp_arry a) 0 9 s2) (\<lambda>s3.
           bindE (func_s ld st (temp_arry a) number 16 s3) (\<lambda>(_, s4).
           bindE (memset st (temp_arry2 a) 0 9 s4) (\<lambda>s5.
           bindE (strcpy ld st (temp_arry2 a) (temp_arry a) s5) (\<lambda>(_, s6).
           bindE (strlen ld (temp_arry a) s6) (\<lambda>len.
           let offset = 8 - len
           in bindE (strcpy ld st (temp_arry a + offset) (temp_arry2 a) s6) (\<lambda>(_, s7).
              bindE (foldE (\<lambda>i. st (temp_arry a + of_int i) 48) [0..sint offset - 1] s7) (\<lambda>s8.
              bindE (strcpy ld st (static_hexstr a + (if need0x then 2 else 0)) (temp_arry a) s8) (\<lambda>(_, s9).
                Inr (static_hexstr a, s9)))))))))))
      else if need0x then Inr (lit_0x a, s)
      else Inr (lit_0 a, s))"

end
