(* ===== verification/Bitmap.thy ===== *)
theory Bitmap
  imports CString
begin

text \<open>
  \<^verbatim>\<open>src/kernel/modules/bitmap/bitmap.c\<close>: a pool of 4 KB pages, one bit per page, most
  significant bit first, 1 for a free page. The bitmap itself lies in memory at
  \<^verbatim>\<open>vaddr_header\<close> and is reached through the byte memory \<open>ld\<close>, \<open>st\<close>. The abstract view
  is the set \<open>free_pages\<close> of page numbers of the pool.
\<close>

section \<open>The module\<close>

record bitmap =
  vaddr_header :: uint32
  bm_length :: uint32
  target_addr_header :: uint32

abbreviation PAGE_SIZE :: uint32 where "PAGE_SIZE \<equiv> 4096"

abbreviation BITMAP_RETURN_ERRO :: uint32 where "BITMAP_RETURN_ERRO \<equiv> 0xFFFFFFFF"

definition bitmap_init_mem :: "(uint32 \<Rightarrow> byte \<Rightarrow> 's \<Rightarrow> fault + 's) \<Rightarrow> bitmap \<Rightarrow> 's \<Rightarrow> fault + 's" where
  "bitmap_init_mem st bm s = memset st (vaddr_header bm) 255 (bm_length bm) s"

definition bitmap_alloc_one_page ::
  "(uint32 \<Rightarrow> 's \<Rightarrow> fault + byte) \<Rightarrow> (uint32 \<Rightarrow> byte \<Rightarrow> 's \<Rightarrow> fault + 's) \<Rightarrow>
     bitmap \<Rightarrow> uint32 \<Rightarrow> 's \<Rightarrow> fault + (uint32 \<times> 's)" where
  "bitmap_alloc_one_page ld st bm target0 s =
     (let target = page_base target0;
          max_addr = target_addr_header bm - 1 + bm_length bm * 8 * PAGE_SIZE
      in if target \<ge> target_addr_header bm \<and> target < max_addr
         then let page_num = (target - target_addr_header bm) div PAGE_SIZE;
                  i = page_num div 8;
                  j = page_num mod 8;
                  byte_mask = push_bit (7 - unat j) (1 :: byte)
              in bindE (ld (vaddr_header bm + i) s) (\<lambda>target_byte.
                   if target_byte = target_byte OR byte_mask
                   then bindE (ld (vaddr_header bm + i) s) (\<lambda>b.
                        bindE (st (vaddr_header bm + i) (b - byte_mask) s) (\<lambda>s'. Inr (target, s')))
                   else Inr (BITMAP_RETURN_ERRO, s))
         else Inr (BITMAP_RETURN_ERRO, s))"

definition bitmap_release_one_page ::
  "(uint32 \<Rightarrow> 's \<Rightarrow> fault + byte) \<Rightarrow> (uint32 \<Rightarrow> byte \<Rightarrow> 's \<Rightarrow> fault + 's) \<Rightarrow>
     bitmap \<Rightarrow> uint32 \<Rightarrow> 's \<Rightarrow> fault + 's" where
  "bitmap_release_one_page ld st bm target0 s =
     (let target = page_base target0;
          max_addr = target_addr_header bm - 1 + bm_length bm * 8 * PAGE_SIZE
      in if target \<ge> target_addr_header bm \<and> target < max_addr
         then let page_num = (target - target_addr_header bm) div PAGE_SIZE;
                  i = page_num div 8;
                  j = page_num mod 8;
                  byte_mask = push_bit (7 - unat j) (1 :: byte)
              in bindE (ld (vaddr_header bm + i) s) (\<lambda>b. st (vaddr_header bm + i) (b OR byte_mask) s)
         else Inr s)"

text \<open>The inner loop of \<^verbatim>\<open>bitmap_alloc\<close>; \<open>None\<close> leaves \<^verbatim>\<open>pos\<close> uninitialised.\<close>

function bitmap_find_pos :: "nat \<Rightarrow> byte \<Rightarrow> nat option" where
  "bitmap_find_pos j byte_now =
     (if j < 8
      then (let temp_byte = byte_now AND 0x7F
            in if byte_now \<noteq> temp_byte then Some j
               else bitmap_find_pos (j + 1) (push_bit 1 byte_now))
      else None)"
  by pat_completeness auto
termination
  by (relation "measure (\<lambda>(j, byte_now). 8 - j)") auto

function bitmap_alloc_loop ::
  "(uint32 \<Rightarrow> 's \<Rightarrow> fault + byte) \<Rightarrow> (uint32 \<Rightarrow> byte \<Rightarrow> 's \<Rightarrow> fault + 's) \<Rightarrow>
     bitmap \<Rightarrow> uint32 \<Rightarrow> 's \<Rightarrow> fault + (uint32 \<times> 's)" where
  "bitmap_alloc_loop ld st bm i s =
     (if i < bm_length bm
      then bindE (ld (vaddr_header bm + i) s) (\<lambda>byte_now.
             if byte_now \<noteq> 0
             then (case bitmap_find_pos 0 byte_now of
                     None \<Rightarrow> Inl Undefined
                   | Some pos \<Rightarrow>
                       bindE (ld (vaddr_header bm + i) s) (\<lambda>b.
                       bindE (st (vaddr_header bm + i) (b - push_bit (7 - pos) 1) s) (\<lambda>s'.
                       (let page_no = i * 8 + of_nat pos
                        in Inr (page_no * PAGE_SIZE + target_addr_header bm, s')))))
             else bitmap_alloc_loop ld st bm (i + 1) s)
      else Inr (BITMAP_RETURN_ERRO, s))"
  by pat_completeness auto
termination
  by (relation "measure (\<lambda>(ld, st, bm, i, s). unat (bm_length bm) - unat i)")
    (auto simp: word_less_nat_alt unat_Suc_below)

declare bitmap_find_pos.simps [simp del] bitmap_alloc_loop.simps [simp del]

definition bitmap_alloc ::
  "(uint32 \<Rightarrow> 's \<Rightarrow> fault + byte) \<Rightarrow> (uint32 \<Rightarrow> byte \<Rightarrow> 's \<Rightarrow> fault + 's) \<Rightarrow>
     bitmap \<Rightarrow> 's \<Rightarrow> fault + (uint32 \<times> 's)" where
  "bitmap_alloc ld st bm s = bitmap_alloc_loop ld st bm 0 s"

section \<open>The abstract pool\<close>

definition page_free :: "bitmap \<Rightarrow> (uint32 \<Rightarrow> byte) \<Rightarrow> nat \<Rightarrow> bool" where
  "page_free bm h k \<longleftrightarrow> bit (h (vaddr_header bm + of_nat (k div 8))) (7 - k mod 8)"

definition free_pages :: "bitmap \<Rightarrow> (uint32 \<Rightarrow> byte) \<Rightarrow> nat set" where
  "free_pages bm h = {k. k < 8 * unat (bm_length bm) \<and> page_free bm h k}"

definition page_addr :: "bitmap \<Rightarrow> nat \<Rightarrow> uint32" where
  "page_addr bm k = target_addr_header bm + of_nat k * PAGE_SIZE"

definition bitmap_bytes :: "bitmap \<Rightarrow> uint32 set" where
  "bitmap_bytes bm = span (vaddr_header bm) (unat (bm_length bm))"

text \<open>
  A pool is well formed when it manages at least one byte of bits, starts on a page
  boundary and ends within the address space. The pools of the kernel
  (\<open>0xC0000000\<close>, \<open>0x8000\<close> bytes) and of a task (\<open>0\<close>, \<open>0x18000\<close> bytes) are.
\<close>

definition wf_bitmap :: "bitmap \<Rightarrow> bool" where
  "wf_bitmap bm \<longleftrightarrow> bm_length bm \<noteq> 0 \<and> page_base (target_addr_header bm) = target_addr_header bm \<and>
     unat (target_addr_header bm) + unat (bm_length bm) * 32768 \<le> 2 ^ 32"

definition in_pool :: "bitmap \<Rightarrow> uint32 \<Rightarrow> bool" where
  "in_pool bm target \<longleftrightarrow> target_addr_header bm \<le> page_base target \<and>
     unat (page_base target) < unat (target_addr_header bm) + unat (bm_length bm) * 32768"

definition page_index :: "bitmap \<Rightarrow> uint32 \<Rightarrow> nat" where
  "page_index bm target = (unat (page_base target) - unat (target_addr_header bm)) div 4096"

subsection \<open>Bits of a byte\<close>

lemma or_bit_iff: "n < 8 \<Longrightarrow> (b :: byte) = b OR push_bit n 1 \<longleftrightarrow> bit b n"
proof
  assume n: "n < 8" and "b = b OR push_bit n 1"
  then have "bit b n = bit (b OR push_bit n 1) n" by simp
  with n show "bit b n" by (simp add: bit_simps)
next
  assume "n < 8" and "bit b n"
  then show "b = b OR push_bit n 1"
    by (intro bit_word_eqI) (auto simp: bit_simps)
qed

lemma or_bit_set: "(b :: byte) OR push_bit n 1 = set_bit n b"
  by (simp add: set_bit_eq_or)

lemma minus_bit_unset: "n < 8 \<Longrightarrow> bit (b :: byte) n \<Longrightarrow> b - push_bit n 1 = unset_bit n b"
proof -
  assume n: "n < 8" and b: "bit b n"
  have "NOT b AND push_bit n 1 = 0"
    using b by (intro bit_word_eqI) (auto simp: bit_simps)
  then have "b - push_bit n 1 = b AND NOT (push_bit n 1)"
    by (rule disjunctive_diff_eq_and_not)
  then show ?thesis by (simp add: unset_bit_eq_and_not)
qed

lemma top_bit_iff: "(b :: byte) \<noteq> b AND 0x7F \<longleftrightarrow> bit b 7"
proof -
  have m: "(0x7F :: byte) = mask 7" by (simp add: mask_eq_decr_exp)
  show ?thesis
  proof
    assume "b \<noteq> b AND 0x7F"
    then obtain n where "bit b n \<noteq> bit (b AND 0x7F) n" by (auto simp: bit_eq_iff)
    then have "bit b n" "\<not> n < 7" by (auto simp: m bit_simps)
    moreover have "n < 8" using bit_imp_le_length [OF \<open>bit b n\<close>] by simp
    ultimately show "bit b 7" by (cases "n = 7") auto
  next
    assume "bit b 7"
    then show "b \<noteq> b AND 0x7F" by (metis bit_and_iff bit_mask_iff less_irrefl m)
  qed
qed

lemma bitmap_find_pos_find:
  "j \<le> 8 \<Longrightarrow> bitmap_find_pos j (push_bit j b) = find (\<lambda>k. bit b (7 - k)) [j..<8]"
proof (induction "8 - j" arbitrary: j)
  case 0
  then have "j = 8" by simp
  then show ?case by (simp add: bitmap_find_pos.simps)
next
  case (Suc n)
  then have j: "j < 8" by simp
  have top: "push_bit j b \<noteq> push_bit j b AND 0x7F \<longleftrightarrow> bit b (7 - j)"
    using j by (simp only: top_bit_iff) (simp add: bit_simps)
  have "bitmap_find_pos (j + 1) (push_bit (j + 1) b) = find (\<lambda>k. bit b (7 - k)) [j + 1..<8]"
    using Suc.hyps(2) j by (intro Suc.hyps(1)) auto
  with j top show ?case
    by (simp add: bitmap_find_pos.simps [of j] Let_def upt_conv_Cons)
qed

lemma nonzero_byte_has_bit: "(b :: byte) \<noteq> 0 \<Longrightarrow> \<exists>k < 8. bit b (7 - k)"
proof -
  assume "b \<noteq> 0"
  then obtain n where "bit b n" by (auto simp: bit_eq_iff)
  then have "n < 8" using bit_imp_le_length [of b n] by simp
  then show ?thesis using \<open>bit b n\<close> by (intro exI [of _ "7 - n"]) simp
qed

text \<open>The inner loop returns the leftmost set bit of a byte that is not zero.\<close>

lemma bitmap_find_pos_0:
  assumes "b \<noteq> 0"
  obtains p where "bitmap_find_pos 0 b = Some p" "p < 8" "bit b (7 - p)" "\<And>k. k < p \<Longrightarrow> \<not> bit b (7 - k)"
proof -
  have eq: "bitmap_find_pos 0 b = find (\<lambda>k. bit b (7 - k)) [0..<8]"
    using bitmap_find_pos_find [of 0 b] by simp
  obtain p where p: "find (\<lambda>k. bit b (7 - k)) [0..<8] = Some p"
    using nonzero_byte_has_bit [OF assms] by (cases "find (\<lambda>k. bit b (7 - k)) [0..<8]")
      (auto simp: find_None_iff)
  then obtain i where "i < 8" "bit b (7 - p)" "p = i" "\<forall>j < i. \<not> bit b (7 - j)"
    by (auto simp: find_Some_iff)
  with eq p that show ?thesis by auto
qed

subsection \<open>Address arithmetic of a pool\<close>

lemma unat_max_addr:
  assumes "wf_bitmap bm"
  shows "unat (target_addr_header bm - 1 + bm_length bm * 8 * PAGE_SIZE) =
    unat (target_addr_header bm) + unat (bm_length bm) * 32768 - 1"
proof -
  let ?H = "unat (target_addr_header bm)" and ?L = "unat (bm_length bm)"
  have L: "0 < ?L" and le: "?H + ?L * 32768 \<le> 2 ^ 32"
    using assms by (auto simp: wf_bitmap_def unat_gt_0)
  have "(of_nat (?H + ?L * 32768 - 1) :: uint32) = of_nat (?H + ?L * 32768) - 1"
    using L by (simp add: of_nat_diff)
  also have "\<dots> = target_addr_header bm - 1 + bm_length bm * 8 * PAGE_SIZE"
    by (simp add: algebra_simps)
  finally have "target_addr_header bm - 1 + bm_length bm * 8 * PAGE_SIZE = of_nat (?H + ?L * 32768 - 1)"
    by simp
  then show ?thesis
    using le L by (simp only:) (rule unat_of_nat_32, linarith)
qed

lemma header_aligned: "wf_bitmap bm \<Longrightarrow> \<exists>q. unat (target_addr_header bm) = q * 4096"
proof -
  assume "wf_bitmap bm"
  then have "unat (target_addr_header bm) = unat (page_base (target_addr_header bm))"
    by (simp add: wf_bitmap_def)
  then show ?thesis by (auto simp only: unat_page_base)
qed

lemma pool_guard:
  assumes "wf_bitmap bm"
  shows "target_addr_header bm \<le> page_base t \<and>
      page_base t < target_addr_header bm - 1 + bm_length bm * 8 * PAGE_SIZE \<longleftrightarrow> in_pool bm t"
proof -
  obtain q where q: "unat (target_addr_header bm) = q * 4096" using header_aligned [OF assms] by blast
  obtain a where a: "unat (page_base t) = a * 4096" using unat_page_base by blast
  have L: "0 < unat (bm_length bm)" using assms by (auto simp: wf_bitmap_def unat_gt_0)
  have "a * 4096 < q * 4096 + unat (bm_length bm) * 32768 \<longleftrightarrow> a < q + unat (bm_length bm) * 8"
    by linarith
  moreover have "a * 4096 < q * 4096 + unat (bm_length bm) * 32768 - 1 \<longleftrightarrow> a < q + unat (bm_length bm) * 8"
    using L by linarith
  ultimately have "a * 4096 < q * 4096 + unat (bm_length bm) * 32768 - 1 \<longleftrightarrow>
      a * 4096 < q * 4096 + unat (bm_length bm) * 32768"
    by simp
  then show ?thesis
    unfolding in_pool_def word_less_nat_alt unat_max_addr [OF assms] a q by simp
qed

lemma page_index_less: "in_pool bm t \<Longrightarrow> page_index bm t < 8 * unat (bm_length bm)"
  by (auto simp: in_pool_def page_index_def word_le_nat_alt div_less_iff_less_mult)

lemma page_num_index:
  assumes "in_pool bm t"
  shows "unat ((page_base t - target_addr_header bm) div PAGE_SIZE) = page_index bm t"
  using assms by (simp add: in_pool_def page_index_def word_le_nat_alt unat_sub unat_div)

lemma page_addr_index:
  assumes "wf_bitmap bm" "in_pool bm t"
  shows "page_addr bm (page_index bm t) = page_base t"
proof -
  obtain q where q: "unat (target_addr_header bm) = q * 4096" using header_aligned [OF assms(1)] by blast
  obtain a where a: "unat (page_base t) = a * 4096" using unat_page_base by blast
  have qa: "q \<le> a" using assms(2) by (simp add: in_pool_def word_le_nat_alt q a)
  have "page_index bm t = a - q" by (simp add: page_index_def q a flip: diff_mult_distrib)
  then have "unat (target_addr_header bm) + page_index bm t * 4096 = unat (page_base t)"
    using qa by (simp add: q a diff_mult_distrib)
  then have "of_nat (unat (target_addr_header bm) + page_index bm t * 4096) = page_base t"
    by (simp only:) simp
  then show ?thesis by (simp add: page_addr_def)
qed

lemma page_index_addr:
  assumes "wf_bitmap bm" "k < 8 * unat (bm_length bm)"
  shows "page_index bm (page_addr bm k) = k" "in_pool bm (page_addr bm k)"
    "page_base (page_addr bm k) = page_addr bm k"
proof -
  obtain q where q: "unat (target_addr_header bm) = q * 4096" using header_aligned [OF assms(1)] by blast
  have le: "q * 4096 + unat (bm_length bm) * 32768 \<le> 2 ^ 32"
    using assms(1) by (simp add: wf_bitmap_def q)
  have "of_nat (unat (target_addr_header bm)) = target_addr_header bm" by simp
  then have "target_addr_header bm = of_nat (q * 4096)" by (simp only: q)
  then have "page_addr bm k = of_nat (q * 4096 + k * 4096)" by (simp add: page_addr_def)
  then have u: "unat (page_addr bm k) = q * 4096 + k * 4096"
    using le assms(2) by (simp only:) (rule unat_of_nat_32, linarith)
  then have "unat (page_base (page_addr bm k)) = unat (page_addr bm k)"
    by (simp add: unat_page_base)
  then show b: "page_base (page_addr bm k) = page_addr bm k" by (simp only: word_unat_eq_iff)
  show "page_index bm (page_addr bm k) = k" by (simp add: page_index_def b u q)
  show "in_pool bm (page_addr bm k)"
    using assms(2) by (simp add: in_pool_def b word_le_nat_alt u q)
qed

subsection \<open>Marking pages\<close>

definition mark_busy :: "bitmap \<Rightarrow> nat \<Rightarrow> (uint32 \<Rightarrow> byte) \<Rightarrow> uint32 \<Rightarrow> byte" where
  "mark_busy bm k h = h(vaddr_header bm + of_nat (k div 8) :=
     unset_bit (7 - k mod 8) (h (vaddr_header bm + of_nat (k div 8))))"

definition mark_free :: "bitmap \<Rightarrow> nat \<Rightarrow> (uint32 \<Rightarrow> byte) \<Rightarrow> uint32 \<Rightarrow> byte" where
  "mark_free bm k h = h(vaddr_header bm + of_nat (k div 8) :=
     set_bit (7 - k mod 8) (h (vaddr_header bm + of_nat (k div 8))))"

lemma page_bit_unique:
  assumes "k < 8 * unat (n :: uint32)" "x < 8 * unat n"
    and "(of_nat (x div 8) :: uint32) = of_nat (k div 8)" and "7 - k mod 8 = 7 - x mod 8"
  shows "x = k"
proof -
  have "x div 8 = k div 8"
    using assms(1-3) unat_lt_32 [of n] by (simp add: of_nat_inj_32 div_less_iff_less_mult)
  moreover have "x mod 8 = k mod 8"
    using assms(4) mod_less_divisor [of 8 k] mod_less_divisor [of 8 x] by linarith
  ultimately show ?thesis by (metis div_mult_mod_eq)
qed

lemma bit_pos_less [simp]: "7 - k < (8 :: nat)"
  by linarith

lemma byte_addr_in: "k < 8 * unat (bm_length bm) \<Longrightarrow> vaddr_header bm + of_nat (k div 8) \<in> bitmap_bytes bm"
  unfolding bitmap_bytes_def by (rule span_mem) (simp add: div_less_iff_less_mult)

lemma free_pages_mark_busy:
  "k < 8 * unat (bm_length bm) \<Longrightarrow> free_pages bm (mark_busy bm k h) = free_pages bm h - {k}"
  by (auto simp: free_pages_def page_free_def mark_busy_def bit_unset_bit_iff
      dest: page_bit_unique [of k "bm_length bm"])

lemma free_pages_mark_free:
  "k < 8 * unat (bm_length bm) \<Longrightarrow> free_pages bm (mark_free bm k h) = insert k (free_pages bm h)"
proof -
  assume k: "k < 8 * unat (bm_length bm)"
  have "bit (set_bit (7 - k mod 8) b) (7 - k mod 8)" for b :: byte
    by (simp add: bit_set_bit_iff)
  with k show ?thesis
    by (auto simp: free_pages_def page_free_def mark_free_def bit_set_bit_iff
      dest: page_bit_unique [of k "bm_length bm"])
qed

lemma free_pages_cong:
  "(\<And>x. x \<in> bitmap_bytes bm \<Longrightarrow> h x = h' x) \<Longrightarrow> free_pages bm h = free_pages bm h'"
  using byte_addr_in [of _ bm] by (auto simp: free_pages_def page_free_def)

lemma free_pages_finite: "finite (free_pages bm h)"
  by (rule finite_subset [of _ "{..<8 * unat (bm_length bm)}"]) (auto simp: free_pages_def)

lemma word_of_nat_unat_32: "unat (w :: uint32) = n \<Longrightarrow> w = of_nat n"
  by auto

text \<open>The byte and the bit that the C code computes from \<^verbatim>\<open>page_num\<close>.\<close>

lemma page_num_byte:
  assumes "in_pool bm t" and n: "n = (page_base t - target_addr_header bm) div PAGE_SIZE"
  shows "n div 8 = of_nat (page_index bm t div 8)" "unat (n mod 8) = page_index bm t mod 8"
  using page_num_index [OF assms(1)] n
  by (auto intro!: word_of_nat_unat_32 simp: unat_div unat_mod)

section \<open>Contracts over any byte memory\<close>

context byte_memory
begin

lemma bitmap_init_mem_ok:
  assumes "ok s" "bitmap_bytes bm \<subseteq> R"
  shows "\<exists>s'. bitmap_init_mem st bm s = Inr s' \<and> ok s' \<and> rest s' = rest s \<and>
    (\<forall>x\<in>R. mem s' x = (if x \<in> bitmap_bytes bm then 255 else mem s x)) \<and>
    free_pages bm (mem s') = {..<8 * unat (bm_length bm)}"
proof -
  obtain s' where s': "memset st (vaddr_header bm) 255 (bm_length bm) s = Inr s'" "ok s'" "rest s' = rest s"
    "\<forall>x\<in>R. mem s' x = (if x \<in> bitmap_bytes bm then 255 else mem s x)"
    using memset_ok [OF assms(1), of "vaddr_header bm" "bm_length bm" 255] assms(2)
    unfolding bitmap_bytes_def by auto
  have "bit (255 :: byte) (7 - k mod 8)" for k :: nat
  proof -
    have "(255 :: byte) = mask 8" by (simp add: mask_eq_decr_exp)
    then show ?thesis by (simp only: bit_mask_iff) simp
  qed
  then have "free_pages bm (mem s') = {..<8 * unat (bm_length bm)}"
    using s'(4) assms(2) byte_addr_in [of _ bm] by (auto simp: free_pages_def page_free_def subset_iff)
  with s' show ?thesis by (auto simp: bitmap_init_mem_def)
qed

lemma bitmap_alloc_one_page_Some:
  assumes ok: "ok s" and wf: "wf_bitmap bm" and R: "bitmap_bytes bm \<subseteq> R"
    and t: "in_pool bm t" "page_index bm t \<in> free_pages bm (mem s)"
  shows "\<exists>s'. bitmap_alloc_one_page ld st bm t s = Inr (page_base t, s') \<and> ok s' \<and> rest s' = rest s \<and>
    (\<forall>x\<in>R. mem s' x = mark_busy bm (page_index bm t) (mem s) x)"
proof -
  let ?k = "page_index bm t"
  let ?a = "vaddr_header bm + of_nat (?k div 8)"
  have a: "?a \<in> R" using byte_addr_in [OF page_index_less [OF t(1)]] R by blast
  have b: "bit (mem s ?a) (7 - ?k mod 8)" using t(2) by (simp add: free_pages_def page_free_def)
  obtain s' where "st ?a (unset_bit (7 - ?k mod 8) (mem s ?a)) s = Inr s'" "ok s'" "rest s' = rest s"
    "\<forall>x\<in>R. mem s' x = mark_busy bm ?k (mem s) x"
    using st_ok [OF ok a] unfolding mark_busy_def by blast
  then show ?thesis
    using b pool_guard [OF wf, of t] t(1) page_num_byte [OF t(1) refl] ld_ok [OF ok a]
    by (simp add: bitmap_alloc_one_page_def Let_def or_bit_iff minus_bit_unset
        del: push_bit_of_1)
qed

lemma bitmap_alloc_one_page_None:
  assumes ok: "ok s" and wf: "wf_bitmap bm" and R: "bitmap_bytes bm \<subseteq> R"
    and t: "\<not> (in_pool bm t \<and> page_index bm t \<in> free_pages bm (mem s))"
  shows "bitmap_alloc_one_page ld st bm t s = Inr (BITMAP_RETURN_ERRO, s)"
proof (cases "in_pool bm t")
  case True
  let ?k = "page_index bm t"
  let ?a = "vaddr_header bm + of_nat (?k div 8)"
  have a: "?a \<in> R" using byte_addr_in [OF page_index_less [OF True]] R by blast
  have b: "\<not> bit (mem s ?a) (7 - ?k mod 8)"
    using t True page_index_less [OF True] by (simp add: free_pages_def page_free_def)
  show ?thesis
    using b pool_guard [OF wf, of t] True page_num_byte [OF True refl] ld_ok [OF ok a]
    by (simp add: bitmap_alloc_one_page_def Let_def or_bit_iff del: push_bit_of_1)
next
  case False
  with pool_guard [OF wf, of t] show ?thesis
    by (auto simp: bitmap_alloc_one_page_def Let_def)
qed

lemma bitmap_release_one_page_in:
  assumes ok: "ok s" and wf: "wf_bitmap bm" and R: "bitmap_bytes bm \<subseteq> R" and t: "in_pool bm t"
  shows "\<exists>s'. bitmap_release_one_page ld st bm t s = Inr s' \<and> ok s' \<and> rest s' = rest s \<and>
    (\<forall>x\<in>R. mem s' x = mark_free bm (page_index bm t) (mem s) x)"
proof -
  let ?k = "page_index bm t"
  let ?a = "vaddr_header bm + of_nat (?k div 8)"
  have a: "?a \<in> R" using byte_addr_in [OF page_index_less [OF t(1)]] R by blast
  obtain s' where "st ?a (set_bit (7 - ?k mod 8) (mem s ?a)) s = Inr s'" "ok s'" "rest s' = rest s"
    "\<forall>x\<in>R. mem s' x = mark_free bm ?k (mem s) x"
    using st_ok [OF ok a] unfolding mark_free_def by blast
  then show ?thesis
    using pool_guard [OF wf, of t] t(1) page_num_byte [OF t(1) refl] ld_ok [OF ok a]
    by (simp add: bitmap_release_one_page_def Let_def or_bit_set del: push_bit_of_1)
qed

lemma bitmap_release_one_page_out:
  assumes "wf_bitmap bm" "\<not> in_pool bm t"
  shows "bitmap_release_one_page ld st bm t s = Inr s"
  using assms pool_guard [OF assms(1), of t] by (auto simp: bitmap_release_one_page_def Let_def)

lemma page_free_byte:
  assumes "k div 8 = unat (i :: uint32)"
  shows "page_free bm h k \<longleftrightarrow> bit (h (vaddr_header bm + i)) (7 - k mod 8)"
  using assms by (simp add: page_free_def)

lemma bitmap_alloc_loop_None:
  "ok s \<Longrightarrow> bitmap_bytes bm \<subseteq> R \<Longrightarrow> free_pages bm (mem s) = {} \<Longrightarrow>
     bitmap_alloc_loop ld st bm i s = Inr (BITMAP_RETURN_ERRO, s)"
proof (induction "unat (bm_length bm) - unat i" arbitrary: i)
  case 0
  then show ?case by (subst bitmap_alloc_loop.simps) (simp add: word_less_nat_alt)
next
  case (Suc n)
  then have i: "unat i < unat (bm_length bm)" by simp
  have a: "vaddr_header bm + i \<in> R"
    using span_mem [OF i, of "vaddr_header bm"] Suc.prems(2) by (auto simp: bitmap_bytes_def)
  have "mem s (vaddr_header bm + i) = 0"
  proof (rule ccontr)
    assume "mem s (vaddr_header bm + i) \<noteq> 0"
    then obtain p where "p < 8" "bit (mem s (vaddr_header bm + i)) (7 - p)"
      using nonzero_byte_has_bit by blast
    then have "8 * unat i + p \<in> free_pages bm (mem s)"
      using i page_free_byte [of "8 * unat i + p" i] by (simp add: free_pages_def)
    with Suc.prems(3) show False by simp
  qed
  moreover have "bitmap_alloc_loop ld st bm (i + 1) s = Inr (BITMAP_RETURN_ERRO, s)"
    using Suc.hyps(2) unat_Suc_below [OF i] by (intro Suc.hyps(1) Suc.prems) simp
  ultimately show ?case
    using i ld_ok [OF Suc.prems(1) a] by (subst bitmap_alloc_loop.simps) (simp add: word_less_nat_alt)
qed

lemma bitmap_alloc_loop_Some:
  "ok s \<Longrightarrow> bitmap_bytes bm \<subseteq> R \<Longrightarrow> k \<in> free_pages bm (mem s) \<Longrightarrow> 8 * unat i \<le> k \<Longrightarrow>
     \<forall>k' \<in> free_pages bm (mem s). k \<le> k' \<Longrightarrow>
   \<exists>s'. bitmap_alloc_loop ld st bm i s = Inr (page_addr bm k, s') \<and> ok s' \<and> rest s' = rest s \<and>
     (\<forall>x\<in>R. mem s' x = mark_busy bm k (mem s) x)"
proof (induction "unat (bm_length bm) - unat i" arbitrary: i)
  case 0
  then have False by (auto simp: free_pages_def)
  then show ?case ..
next
  case (Suc n)
  then have i: "unat i < unat (bm_length bm)" by simp
  let ?a = "vaddr_header bm + i"
  have a: "?a \<in> R"
    using span_mem [OF i, of "vaddr_header bm"] Suc.prems(2) by (auto simp: bitmap_bytes_def)
  show ?case
  proof (cases "mem s ?a = 0")
    case True
    have "k div 8 \<noteq> unat i"
      using Suc.prems(3) True page_free_byte [of k i] by (auto simp: free_pages_def)
    then have "8 * unat (i + 1) \<le> k"
      using Suc.prems(4) unat_Suc_below [OF i] by auto
    moreover have "n = unat (bm_length bm) - unat (i + 1)" using Suc.hyps(2) unat_Suc_below [OF i] by simp
    ultimately show ?thesis
      using Suc.hyps(1) [of "i + 1"] Suc.prems True i ld_ok [OF Suc.prems(1) a]
      by (subst bitmap_alloc_loop.simps) (simp add: word_less_nat_alt)
  next
    case False
    then obtain p where p: "bitmap_find_pos 0 (mem s ?a) = Some p" "p < 8" "bit (mem s ?a) (7 - p)"
      "\<And>q. q < p \<Longrightarrow> \<not> bit (mem s ?a) (7 - q)"
      using bitmap_find_pos_0 by blast
    have "8 * unat i + p \<in> free_pages bm (mem s)"
      using i p(2,3) page_free_byte [of "8 * unat i + p" i] by (simp add: free_pages_def)
    then have "k \<le> 8 * unat i + p" using Suc.prems(5) by blast
    then obtain q where q: "k = 8 * unat i + q" "q \<le> p" using Suc.prems(4) le_Suc_ex by fastforce
    then have "bit (mem s ?a) (7 - q)"
      using Suc.prems(3) p(2) page_free_byte [of k i] by (simp add: free_pages_def)
    then have qp: "q = p" using p(4) q(2) by (metis le_neq_implies_less)
    have kd: "k div 8 = unat i" "k mod 8 = p" using q qp p(2) by auto
    obtain s' where s': "st ?a (unset_bit (7 - p) (mem s ?a)) s = Inr s'" "ok s'" "rest s' = rest s"
      "\<forall>x\<in>R. mem s' x = mark_busy bm k (mem s) x"
      using st_ok [OF Suc.prems(1) a, of "unset_bit (7 - p) (mem s ?a)"] by (auto simp: mark_busy_def kd)
    have "(of_nat k :: uint32) = i * 8 + of_nat p" using q qp by simp
    then have "(i * 8 + of_nat p) * PAGE_SIZE + target_addr_header bm = page_addr bm k"
      by (simp add: page_addr_def)
    then show ?thesis
      using s' p i False ld_ok [OF Suc.prems(1) a]
      by (subst bitmap_alloc_loop.simps)
        (simp add: word_less_nat_alt minus_bit_unset Let_def del: push_bit_of_1)
  qed
qed

lemma bitmap_alloc_None:
  "ok s \<Longrightarrow> bitmap_bytes bm \<subseteq> R \<Longrightarrow> free_pages bm (mem s) = {} \<Longrightarrow>
     bitmap_alloc ld st bm s = Inr (BITMAP_RETURN_ERRO, s)"
  unfolding bitmap_alloc_def by (rule bitmap_alloc_loop_None)

lemma bitmap_alloc_Some:
  assumes "ok s" "bitmap_bytes bm \<subseteq> R" "free_pages bm (mem s) \<noteq> {}"
  shows "\<exists>s'. bitmap_alloc ld st bm s = Inr (page_addr bm (Min (free_pages bm (mem s))), s') \<and>
    ok s' \<and> rest s' = rest s \<and> (\<forall>x\<in>R. mem s' x = mark_busy bm (Min (free_pages bm (mem s))) (mem s) x)"
  unfolding bitmap_alloc_def
  using assms free_pages_finite [of bm "mem s"] by (intro bitmap_alloc_loop_Some) auto

end

end
