(* ===== verification/BitmapProps.thy ===== *)
theory BitmapProps
  imports Bitmap
begin

text \<open>
  What \<^verbatim>\<open>bitmap.c\<close> promises of a pool of pages, on the flat memory of a C program. The
  contract of a page allocator is interpreted here.
\<close>

section \<open>The pool as a page allocator\<close>

lemma page_addr_not_erro:
  assumes "wf_bitmap bm" "k < 8 * unat (bm_length bm)"
  shows "page_addr bm k \<noteq> BITMAP_RETURN_ERRO"
proof
  assume "page_addr bm k = BITMAP_RETURN_ERRO"
  then have "page_base BITMAP_RETURN_ERRO = BITMAP_RETURN_ERRO"
    using page_index_addr(3) [OF assms] by simp
  then show False by (simp add: page_base_def)
qed

lemma inj_page_addr: "wf_bitmap bm \<Longrightarrow> inj_on (page_addr bm) (free_pages bm h)"
  by (rule inj_on_inverseI [of _ "page_index bm"]) (simp add: page_index_addr free_pages_def)

text \<open>\<^verbatim>\<open>bitmap_alloc\<close> with its error value read as no page.\<close>

definition pool_alloc :: "bitmap \<Rightarrow> flat \<Rightarrow> uint32 option \<times> flat" where
  "pool_alloc bm h = (case bitmap_alloc flat_ld flat_st bm h of
     Inl _ \<Rightarrow> (None, h)
   | Inr (a, h') \<Rightarrow> (if a = BITMAP_RETURN_ERRO then None else Some a, h'))"

definition pool_avail :: "bitmap \<Rightarrow> flat \<Rightarrow> uint32 set" where
  "pool_avail bm h = page_addr bm ` free_pages bm h"

lemma Min_free: "free_pages bm h \<noteq> {} \<Longrightarrow> Min (free_pages bm h) \<in> free_pages bm h"
  by (rule Min_in [OF free_pages_finite])

lemma bitmap_alloc_flat:
  assumes "wf_bitmap bm"
  shows "free_pages bm h = {} \<Longrightarrow> bitmap_alloc flat_ld flat_st bm h = Inr (BITMAP_RETURN_ERRO, h)"
    "free_pages bm h \<noteq> {} \<Longrightarrow> bitmap_alloc flat_ld flat_st bm h =
       Inr (page_addr bm (Min (free_pages bm h)), mark_busy bm (Min (free_pages bm h)) h)"
  using flat.bitmap_alloc_None [of bm h] flat.bitmap_alloc_Some [of bm h] by (auto simp: fun_eq_iff)

interpretation pool: page_source "pool_alloc bm" "pool_avail bm" "\<lambda>_. wf_bitmap bm"
  for bm
proof
  fix s s' :: flat and p
  assume wf: "wf_bitmap bm"
  let ?k = "Min (free_pages bm s)"
  show "finite (pool_avail bm s)" by (simp add: pool_avail_def free_pages_finite)
  show "pool_avail bm s = {} \<and> s' = s" if "pool_alloc bm s = (None, s')"
  proof (cases "free_pages bm s = {}")
    case False
    then have "?k < 8 * unat (bm_length bm)" using Min_free [of bm s] by (simp add: free_pages_def)
    then have False
      using that bitmap_alloc_flat(2) [OF wf False] page_addr_not_erro [OF wf] by (simp add: pool_alloc_def)
    then show ?thesis ..
  qed (use that bitmap_alloc_flat(1) [OF wf] in \<open>simp add: pool_alloc_def pool_avail_def\<close>)
  show "p \<in> pool_avail bm s \<and> pool_avail bm s' = pool_avail bm s - {p} \<and> wf_bitmap bm"
    if run: "pool_alloc bm s = (Some p, s')"
  proof (cases "free_pages bm s = {}")
    case False
    have k: "?k \<in> free_pages bm s" using Min_free [OF False] .
    then have kl: "?k < 8 * unat (bm_length bm)" by (simp add: free_pages_def)
    have eq: "p = page_addr bm ?k" "s' = mark_busy bm ?k s"
      using run bitmap_alloc_flat(2) [OF wf False] page_addr_not_erro [OF wf kl] by (auto simp: pool_alloc_def)
    have "page_addr bm ` (free_pages bm s - {?k}) = page_addr bm ` free_pages bm s - {page_addr bm ?k}"
      using inj_on_image_set_diff [OF inj_page_addr [OF wf, of s], of "free_pages bm s" "{?k}"] k by simp
    then show ?thesis using k eq wf by (simp add: pool_avail_def free_pages_mark_busy [OF kl])
  qed (use run bitmap_alloc_flat(1) [OF wf] in \<open>simp add: pool_alloc_def\<close>)
qed

section \<open>Properties\<close>

text \<open>
  C7. \<^verbatim>\<open>bitmap_alloc\<close> hands out the lowest free page of the pool and marks that page, and no
  other, busy; it answers \<^verbatim>\<open>BITMAP_RETURN_ERRO\<close> and changes nothing exactly when the pool
  is exhausted. It never writes outside the bytes of the bitmap.
\<close>

theorem bitmap_alloc_lowest:
  assumes "wf_bitmap bm"
  shows "\<exists>a h'. bitmap_alloc flat_ld flat_st bm h = Inr (a, h') \<and>
    (a = BITMAP_RETURN_ERRO \<longleftrightarrow> free_pages bm h = {}) \<and>
    (free_pages bm h = {} \<longrightarrow> h' = h) \<and>
    (free_pages bm h \<noteq> {} \<longrightarrow> a = page_addr bm (Min (free_pages bm h)) \<and>
       free_pages bm h' = free_pages bm h - {Min (free_pages bm h)}) \<and>
    (\<forall>x. x \<notin> bitmap_bytes bm \<longrightarrow> h' x = h x)"
proof (cases "free_pages bm h = {}")
  case False
  let ?k = "Min (free_pages bm h)"
  have k: "?k < 8 * unat (bm_length bm)" using Min_free [OF False] by (simp add: free_pages_def)
  have "\<forall>x. x \<notin> bitmap_bytes bm \<longrightarrow> mark_busy bm ?k h x = h x"
    using byte_addr_in [OF k] by (auto simp: mark_busy_def)
  then show ?thesis
    using False bitmap_alloc_flat(2) [OF assms False] page_addr_not_erro [OF assms k] free_pages_mark_busy [OF k]
    by simp
qed (simp add: bitmap_alloc_flat(1) [OF assms])

text \<open>
  \<^verbatim>\<open>bitmap_alloc_one_page\<close> succeeds exactly when the address lies in a free page of the
  pool; it then returns the start of that page and marks it busy. Otherwise it answers
  \<^verbatim>\<open>BITMAP_RETURN_ERRO\<close> and changes nothing.
\<close>

theorem bitmap_alloc_one_page_spec:
  assumes "wf_bitmap bm"
  shows "\<exists>a h'. bitmap_alloc_one_page flat_ld flat_st bm t h = Inr (a, h') \<and>
    (if in_pool bm t \<and> page_index bm t \<in> free_pages bm h
     then a = page_base t \<and> free_pages bm h' = free_pages bm h - {page_index bm t}
     else a = BITMAP_RETURN_ERRO \<and> h' = h)"
proof (cases "in_pool bm t \<and> page_index bm t \<in> free_pages bm h")
  case True
  then have "bitmap_alloc_one_page flat_ld flat_st bm t h = Inr (page_base t, mark_busy bm (page_index bm t) h)"
    using flat.bitmap_alloc_one_page_Some [OF TrueI assms, of t h] by (auto simp: fun_eq_iff)
  then show ?thesis using True free_pages_mark_busy [of "page_index bm t" bm h] page_index_less [of bm t] by auto
qed (use flat.bitmap_alloc_one_page_None [OF TrueI assms, of t h] in auto)

text \<open>
  Round trip of a pool: a page that was allocated by address and is then released is free
  again, and the bitmap is bit for bit what it was.
\<close>

theorem bitmap_alloc_release:
  assumes "wf_bitmap bm" "in_pool bm t" "page_index bm t \<in> free_pages bm h"
  shows "\<exists>a h'. bitmap_alloc_one_page flat_ld flat_st bm t h = Inr (a, h') \<and>
    bitmap_release_one_page flat_ld flat_st bm a h' = Inr h"
proof -
  let ?k = "page_index bm t"
  have k: "?k < 8 * unat (bm_length bm)" by (rule page_index_less [OF assms(2)])
  have b: "page_base t = page_addr bm ?k" using page_addr_index [OF assms(1,2)] by simp
  have a: "bitmap_alloc_one_page flat_ld flat_st bm t h = Inr (page_base t, mark_busy bm ?k h)"
    using flat.bitmap_alloc_one_page_Some [OF TrueI assms(1) _ assms(2,3)] by (auto simp: fun_eq_iff)
  have r: "bitmap_release_one_page flat_ld flat_st bm (page_base t) h' = Inr (mark_free bm ?k h')" for h'
    using flat.bitmap_release_one_page_in [OF TrueI assms(1), of "page_base t" h'] page_index_addr [OF assms(1) k]
    by (auto simp: b fun_eq_iff)
  have "bit (h (vaddr_header bm + of_nat (?k div 8))) (7 - ?k mod 8)"
    using assms(3) by (simp add: free_pages_def page_free_def)
  then have "set_bit (7 - ?k mod 8) (unset_bit (7 - ?k mod 8) (h (vaddr_header bm + of_nat (?k div 8)))) =
      h (vaddr_header bm + of_nat (?k div 8))"
    by (intro bit_word_eqI) (auto simp: bit_simps)
  then have "mark_free bm ?k (mark_busy bm ?k h) = h" by (simp add: mark_free_def mark_busy_def)
  then show ?thesis using a r by simp
qed

text \<open>
  C9. A freshly initialised pool of \<open>n\<close> bytes serves exactly \<open>8 * n\<close> requests: every page
  handed out is a different page of the pool, and none is refused before all are gone.
\<close>

theorem bitmap_pool_serves_all:
  assumes "wf_bitmap bm"
  shows "\<exists>h' ps h''. bitmap_init_mem flat_st bm h = Inr h' \<and> alloc_many (pool_alloc bm) n h' = (ps, h'') \<and>
    distinct ps \<and> set ps \<subseteq> page_addr bm ` {..<8 * unat (bm_length bm)} \<and>
    length ps = min n (8 * unat (bm_length bm))"
proof -
  obtain h' where h': "bitmap_init_mem flat_st bm h = Inr h'" "free_pages bm h' = {..<8 * unat (bm_length bm)}"
    using flat.bitmap_init_mem_ok [of bm h] by auto
  obtain ps h'' where run: "alloc_many (pool_alloc bm) n h' = (ps, h'')" by force
  have "card (pool_avail bm h') = 8 * unat (bm_length bm)"
    using card_image [OF inj_page_addr [OF assms, of h']] by (simp add: pool_avail_def h'(2))
  then show ?thesis
    using h' run pool.alloc_many_spec [OF assms run] by (auto simp: pool_avail_def)
qed

section \<open>Instances\<close>

text \<open>The pool that \<^verbatim>\<open>bitmap_test\<close> builds: four bytes for 32 pages from \<open>0x1000\<close> on.\<close>

definition demo_bitmap :: bitmap where
  "demo_bitmap = \<lparr>vaddr_header = 0xC0300000, bm_length = 4, target_addr_header = 0x1000\<rparr>"

lemma demo_wf: "wf_bitmap demo_bitmap"
  by (simp add: wf_bitmap_def demo_bitmap_def page_base_def)

lemma demo_all_free: "free_pages demo_bitmap (\<lambda>_. 255) = {..<32}"
proof -
  have "bit (255 :: byte) (7 - k mod 8)" for k :: nat
  proof -
    have "(255 :: byte) = mask 8" by (simp add: mask_eq_decr_exp)
    then show ?thesis by (simp only: bit_mask_iff) simp
  qed
  then show ?thesis by (auto simp: free_pages_def page_free_def demo_bitmap_def)
qed

theorem bitmap_alloc_lowest_witness:
  "\<exists>h'. bitmap_alloc flat_ld flat_st demo_bitmap (\<lambda>_. 255) = Inr (0x1000, h') \<and>
    free_pages demo_bitmap h' = {1..<32}"
proof -
  have m: "Min {..<32 :: nat} = 0" by (rule Min_eqI) auto
  have "{..<32} - {0} = {1..<32 :: nat}" by auto
  then show ?thesis
    using bitmap_alloc_lowest [OF demo_wf, of "\<lambda>_. 255"] unfolding demo_all_free m
    by (auto simp: page_addr_def demo_bitmap_def)
qed

theorem bitmap_alloc_one_page_spec_witness:
  "\<exists>h'. bitmap_alloc_one_page flat_ld flat_st demo_bitmap 0x3ABC (\<lambda>_. 255) = Inr (0x3000, h') \<and>
    free_pages demo_bitmap h' = {..<32} - {2}"
  using bitmap_alloc_one_page_spec [OF demo_wf, of "0x3ABC" "\<lambda>_. 255"] unfolding demo_all_free
  by (simp add: in_pool_def page_index_def demo_bitmap_def page_base_def)

theorem bitmap_alloc_release_witness:
  "\<exists>a h'. bitmap_alloc_one_page flat_ld flat_st demo_bitmap 0x3ABC (\<lambda>_. 255) = Inr (a, h') \<and>
    bitmap_release_one_page flat_ld flat_st demo_bitmap a h' = Inr (\<lambda>_. 255)"
  using bitmap_alloc_release [OF demo_wf, of "0x3ABC" "\<lambda>_. 255"] unfolding demo_all_free
  by (simp add: in_pool_def page_index_def demo_bitmap_def page_base_def)

theorem bitmap_pool_serves_all_witness:
  "\<exists>h' ps h''. bitmap_init_mem flat_st demo_bitmap (\<lambda>_. 0) = Inr h' \<and>
    alloc_many (pool_alloc demo_bitmap) 40 h' = (ps, h'') \<and> distinct ps \<and> length ps = 32"
  using bitmap_pool_serves_all [OF demo_wf, of "\<lambda>_. 0" 40] by (auto simp: demo_bitmap_def)

end
