(* ===== verification/BitmapTest.thy ===== *)
theory BitmapTest
  imports BitmapProps
begin

text \<open>
  The self test of \<^verbatim>\<open>bitmap.c\<close>: a pool of 32 pages from which rounds of 24 pages are taken and given back, for ever.
  Its messages are left out.
\<close>

section \<open>The test\<close>

text \<open>The first inner loop; an error message ends in a loop that never ends.\<close>

fun bitmap_test_alloc :: "(uint32 \<Rightarrow> 's \<Rightarrow> fault + byte) \<Rightarrow> (uint32 \<Rightarrow> byte \<Rightarrow> 's \<Rightarrow> fault + 's) \<Rightarrow> nat \<Rightarrow> bitmap \<Rightarrow> uint32 \<Rightarrow> 's \<Rightarrow> fault + 's" where
  "bitmap_test_alloc ld st 0 bm addr_probe s = Inr s"
| "bitmap_test_alloc ld st (Suc n) bm addr_probe s =
     (let addr_probe' = addr_probe + 0x1000
      in bindE (bitmap_alloc_one_page ld st bm addr_probe' s) (\<lambda>(alloc_addr, s').
           if alloc_addr = BITMAP_RETURN_ERRO then Inl Spin else bitmap_test_alloc ld st n bm addr_probe' s'))"

fun bitmap_test_release :: "(uint32 \<Rightarrow> 's \<Rightarrow> fault + byte) \<Rightarrow> (uint32 \<Rightarrow> byte \<Rightarrow> 's \<Rightarrow> fault + 's) \<Rightarrow> nat \<Rightarrow> bitmap \<Rightarrow> uint32 \<Rightarrow> 's \<Rightarrow> fault + 's" where
  "bitmap_test_release ld st 0 bm addr_probe s = Inr s"
| "bitmap_test_release ld st (Suc n) bm addr_probe s =
     bindE (bitmap_release_one_page ld st bm addr_probe s) (bitmap_test_release ld st n bm (addr_probe + 0x1000))"

definition bitmap_test_round :: "(uint32 \<Rightarrow> 's \<Rightarrow> fault + byte) \<Rightarrow> (uint32 \<Rightarrow> byte \<Rightarrow> 's \<Rightarrow> fault + 's) \<Rightarrow> bitmap \<Rightarrow> 's \<Rightarrow> fault + 's" where
  "bitmap_test_round ld st bm s =
     bindE (bitmap_alloc ld st bm s) (\<lambda>(addr_head, s1).
     bindE (bitmap_test_alloc ld st 23 bm addr_head s1) (bitmap_test_release ld st 24 bm addr_head))"

text \<open>The first \<open>n\<close> rounds of the endless loop.\<close>

fun bitmap_test_rounds :: "(uint32 \<Rightarrow> 's \<Rightarrow> fault + byte) \<Rightarrow> (uint32 \<Rightarrow> byte \<Rightarrow> 's \<Rightarrow> fault + 's) \<Rightarrow> nat \<Rightarrow> bitmap \<Rightarrow> 's \<Rightarrow> fault + 's" where
  "bitmap_test_rounds ld st 0 bm s = Inr s"
| "bitmap_test_rounds ld st (Suc n) bm s = bindE (bitmap_test_round ld st bm s) (bitmap_test_rounds ld st n bm)"

definition bitmap_test :: "(uint32 \<Rightarrow> 's \<Rightarrow> fault + byte) \<Rightarrow> (uint32 \<Rightarrow> byte \<Rightarrow> 's \<Rightarrow> fault + 's) \<Rightarrow> nat \<Rightarrow> uint32 \<Rightarrow> 's \<Rightarrow> fault + 's" where
  "bitmap_test ld st n kern_bitmap s =
     (let bm = \<lparr>vaddr_header = kern_bitmap, bm_length = 4, target_addr_header = 0x1000\<rparr>
      in bindE (bitmap_init_mem st bm s) (bitmap_test_rounds ld st n bm))"

section \<open>A round\<close>

lemma same_bitmap:
  assumes "free_pages bm h' = free_pages bm h" "\<And>x. x \<notin> bitmap_bytes bm \<Longrightarrow> h' x = h x"
  shows "h' = h"
proof (rule ext)
  fix x show "h' x = h x"
  proof (cases "x \<in> bitmap_bytes bm")
    case True
    then obtain i where i: "i < unat (bm_length bm)" "x = vaddr_header bm + of_nat i" by (auto simp: bitmap_bytes_def span_def)
    show ?thesis
    proof (rule bit_word_eqI)
      fix n assume "n < LENGTH(8)"
      then have n: "n < 8" by simp
      let ?k = "8 * i + (7 - n)"
      have "?k div 8 = i" "?k mod 8 = 7 - n" "?k < 8 * unat (bm_length bm)" using i(1) by simp_all
      moreover have "?k \<in> free_pages bm h' \<longleftrightarrow> ?k \<in> free_pages bm h" using assms(1) by simp
      ultimately show "bit (h' x) n = bit (h x) n" using n i(2) by (simp add: free_pages_def page_free_def)
    qed
  qed (use assms(2) in simp)
qed

lemma marks_outside:
  assumes "k < 8 * unat (bm_length bm)" "x \<notin> bitmap_bytes bm"
  shows "mark_busy bm k h x = h x" "mark_free bm k h x = h x"
  using byte_addr_in [OF assms(1)] assms(2) by (auto simp: mark_busy_def mark_free_def)

lemma page_addr_next: "page_addr bm m + 0x1000 = page_addr bm (Suc m)"
  by (simp add: page_addr_def algebra_simps)

lemma bitmap_test_alloc_run:
  assumes "wf_bitmap bm" "{Suc m..<Suc m + n} \<subseteq> free_pages bm h"
  shows "\<exists>h'. bitmap_test_alloc flat_ld flat_st n bm (page_addr bm m) h = Inr h' \<and>
    free_pages bm h' = free_pages bm h - {Suc m..<Suc m + n} \<and> (\<forall>x. x \<notin> bitmap_bytes bm \<longrightarrow> h' x = h x)"
  using assms(2)
proof (induction n arbitrary: m h)
  case (Suc n)
  have f: "Suc m \<in> free_pages bm h" using Suc.prems by auto
  then have k: "Suc m < 8 * unat (bm_length bm)" by (simp add: free_pages_def)
  note ix = page_index_addr [OF assms(1) k]
  let ?h = "mark_busy bm (Suc m) h"
  have a: "bitmap_alloc_one_page flat_ld flat_st bm (page_addr bm (Suc m)) h = Inr (page_addr bm (Suc m), ?h)"
    using flat.bitmap_alloc_one_page_Some [OF TrueI assms(1) _ ix(2), of h] f ix(1,3) by (auto simp: fun_eq_iff)
  have "{Suc (Suc m)..<Suc (Suc m) + n} \<subseteq> free_pages bm ?h" using Suc.prems free_pages_mark_busy [OF k, of h] by auto
  from Suc.IH [OF this] obtain h' where h': "bitmap_test_alloc flat_ld flat_st n bm (page_addr bm (Suc m)) ?h = Inr h'"
    "free_pages bm h' = free_pages bm ?h - {Suc (Suc m)..<Suc (Suc m) + n}" "\<forall>x. x \<notin> bitmap_bytes bm \<longrightarrow> h' x = ?h x" by blast
  have "{Suc m..<Suc m + Suc n} = insert (Suc m) {Suc (Suc m)..<Suc (Suc m) + n}" by auto
  then have "free_pages bm h' = free_pages bm h - {Suc m..<Suc m + Suc n}" using h'(2) free_pages_mark_busy [OF k, of h] by auto
  then show ?case using a h'(1,3) page_addr_not_erro [OF assms(1) k] marks_outside(1) [OF k] by (simp add: page_addr_next)
qed simp

lemma bitmap_test_release_run:
  assumes "wf_bitmap bm" "m + n \<le> 8 * unat (bm_length bm)"
  shows "\<exists>h'. bitmap_test_release flat_ld flat_st n bm (page_addr bm m) h = Inr h' \<and>
    free_pages bm h' = free_pages bm h \<union> {m..<m + n} \<and> (\<forall>x. x \<notin> bitmap_bytes bm \<longrightarrow> h' x = h x)"
  using assms(2)
proof (induction n arbitrary: m h)
  case (Suc n)
  have k: "m < 8 * unat (bm_length bm)" using Suc.prems by simp
  note ix = page_index_addr [OF assms(1) k]
  let ?h = "mark_free bm m h"
  have r: "bitmap_release_one_page flat_ld flat_st bm (page_addr bm m) h = Inr ?h"
    using flat.bitmap_release_one_page_in [OF TrueI assms(1) _ ix(2), of h] ix(1) by (auto simp: fun_eq_iff)
  have "Suc m + n \<le> 8 * unat (bm_length bm)" using Suc.prems by simp
  from Suc.IH [OF this] obtain h' where h': "bitmap_test_release flat_ld flat_st n bm (page_addr bm (Suc m)) ?h = Inr h'"
    "free_pages bm h' = free_pages bm ?h \<union> {Suc m..<Suc m + n}" "\<forall>x. x \<notin> bitmap_bytes bm \<longrightarrow> h' x = ?h x" by blast
  have "{m..<m + Suc n} = insert m {Suc m..<Suc m + n}" by auto
  then have "free_pages bm h' = free_pages bm h \<union> {m..<m + Suc n}" using h'(2) free_pages_mark_free [OF k, of h] by auto
  then show ?case using r h'(1,3) marks_outside(2) [OF k] by (simp add: page_addr_next)
qed simp

lemma bitmap_test_round_run:
  assumes "wf_bitmap bm" "m = Min (free_pages bm h)" "{m..<m + 24} \<subseteq> free_pages bm h"
  shows "bitmap_test_round flat_ld flat_st bm h = Inr h"
proof -
  have m: "m \<in> free_pages bm h" "m + 23 \<in> free_pages bm h" using assms(3) by auto
  then have k: "m < 8 * unat (bm_length bm)" "m + 24 \<le> 8 * unat (bm_length bm)" by (auto simp: free_pages_def)
  let ?h = "mark_busy bm m h"
  have a: "bitmap_alloc flat_ld flat_st bm h = Inr (page_addr bm m, ?h)" using bitmap_alloc_flat(2) [OF assms(1), of h] m(1) assms(2) by auto
  have "{Suc m..<Suc m + 23} \<subseteq> free_pages bm ?h" using assms(3) free_pages_mark_busy [OF k(1), of h] by auto
  from bitmap_test_alloc_run [OF assms(1) this] obtain h1 where h1: "bitmap_test_alloc flat_ld flat_st 23 bm (page_addr bm m) ?h = Inr h1"
    "free_pages bm h1 = free_pages bm ?h - {Suc m..<Suc m + 23}" "\<forall>x. x \<notin> bitmap_bytes bm \<longrightarrow> h1 x = ?h x" by blast
  from bitmap_test_release_run [OF assms(1) k(2), of h1] obtain h2 where h2: "bitmap_test_release flat_ld flat_st 24 bm (page_addr bm m) h1 = Inr h2"
    "free_pages bm h2 = free_pages bm h1 \<union> {m..<m + 24}" "\<forall>x. x \<notin> bitmap_bytes bm \<longrightarrow> h2 x = h1 x" by blast
  have "{m..<m + 24} = insert m {Suc m..<Suc m + 23}" by auto
  then have "free_pages bm h2 = free_pages bm h" using h2(2) h1(2) free_pages_mark_busy [OF k(1), of h] assms(3) by auto
  then have "h2 = h" by (rule same_bitmap) (use h1(3) h2(3) marks_outside(1) [OF k(1)] in simp)
  then show ?thesis using a h1(1) h2(1) by (simp add: bitmap_test_round_def)
qed

section \<open>The test never reports an error\<close>

text \<open>
  C8. The self test. Whatever the memory held, every number of rounds of \<^verbatim>\<open>bitmap_test\<close> is completed without the error
  message: the 23 pages behind the one that \<^verbatim>\<open>bitmap_alloc\<close> chose are free, and after the releases the memory is bit for bit
  the freshly initialised one.
\<close>

theorem bitmap_test_passes:
  "bitmap_test flat_ld flat_st n kern_bitmap h = Inr (\<lambda>x. if x \<in> span kern_bitmap 4 then 255 else h x)"
proof -
  let ?bm = "\<lparr>vaddr_header = kern_bitmap, bm_length = 4, target_addr_header = 0x1000\<rparr>"
  let ?h = "\<lambda>x. if x \<in> span kern_bitmap 4 then 255 else h x"
  have wf: "wf_bitmap ?bm" by (simp add: wf_bitmap_def page_base_def)
  obtain h1 where h1: "bitmap_init_mem flat_st ?bm h = Inr h1" "h1 = ?h" "free_pages ?bm h1 = {..<32}"
    using flat.bitmap_init_mem_ok [of ?bm h] by (auto simp: bitmap_bytes_def fun_eq_iff)
  have "Min {..<32 :: nat} = 0" by (rule Min_eqI) auto
  then have "bitmap_test_round flat_ld flat_st ?bm h1 = Inr h1" by (intro bitmap_test_round_run [OF wf, of 0]) (auto simp: h1(3))
  then have "bitmap_test_rounds flat_ld flat_st n ?bm h1 = Inr h1" by (induction n) simp_all
  then show ?thesis using h1(1,2) by (simp add: bitmap_test_def)
qed

end
