(* ===== verification/Machine.thy ===== *)
theory Machine
  imports Bitmap
begin

text \<open>
  The part of the 32-bit x86 machine that the kernel's C code drives directly: physical
  memory, the page directory base \<^verbatim>\<open>cr3\<close>, the interrupt flag of \<^verbatim>\<open>eflags\<close>, and a log of the
  instructions with an effect outside memory (\<^verbatim>\<open>outb\<close>, \<^verbatim>\<open>invlpg\<close>). Virtual accesses walk
  the two-level page table in physical memory. Pages are 4 KB; the kernel runs in
  supervisor mode, so only the P bit can make an access fault. The TLB is not modelled:
  a translation is always read from memory.
\<close>

section \<open>State\<close>

datatype io_event = Outb uint16 byte | Invlpg uint32

record machine =
  pmem :: "uint32 \<Rightarrow> byte"
  cr3 :: uint32
  int_flag :: bool
  io_log :: "io_event list"

definition outb :: "uint16 \<Rightarrow> byte \<Rightarrow> 'a machine_scheme \<Rightarrow> 'a machine_scheme" where
  "outb port value m = m\<lparr>io_log := io_log m @ [Outb port value]\<rparr>"

text \<open>Reading a port: the devices are a parameter, the value that each port delivers.\<close>

definition inb :: "(uint16 \<Rightarrow> byte) \<Rightarrow> uint16 \<Rightarrow> byte" where
  "inb device port = device port"

definition inw :: "(uint16 \<Rightarrow> uint16) \<Rightarrow> uint16 \<Rightarrow> uint16" where
  "inw device port = device port"

definition invlpg :: "uint32 \<Rightarrow> 'a machine_scheme \<Rightarrow> 'a machine_scheme" where
  "invlpg v m = m\<lparr>io_log := io_log m @ [Invlpg v]\<rparr>"

section \<open>Physical 32-bit words\<close>

definition ld32p :: "(uint32 \<Rightarrow> byte) \<Rightarrow> uint32 \<Rightarrow> uint32" where
  "ld32p h a = ucast (h a) OR push_bit 8 (ucast (h (a + 1))) OR
     push_bit 16 (ucast (h (a + 2))) OR push_bit 24 (ucast (h (a + 3)))"

definition st32p :: "(uint32 \<Rightarrow> byte) \<Rightarrow> uint32 \<Rightarrow> uint32 \<Rightarrow> (uint32 \<Rightarrow> byte)" where
  "st32p h a w = h(a := ucast w, a + 1 := ucast (drop_bit 8 w),
     a + 2 := ucast (drop_bit 16 w), a + 3 := ucast (drop_bit 24 w))"

definition aligned4 :: "uint32 \<Rightarrow> bool" where
  "aligned4 a \<longleftrightarrow> unat a mod 4 = 0"

lemma ld32p_st32p_same [simp]: "ld32p (st32p h a w) a = w"
proof (rule bit_word_eqI)
  fix n assume "n < LENGTH(32)"
  then have n: "n < 32" by simp
  then consider "n < 8" | "8 \<le> n" "n < 16" | "16 \<le> n" "n < 24" | "24 \<le> n" "n < 32" by linarith
  then show "bit (ld32p (st32p h a w) a) n = bit w n"
    by cases (auto simp: ld32p_def st32p_def bit_simps)
qed

lemma unat_aligned4_add: "aligned4 a \<Longrightarrow> i < 4 \<Longrightarrow> unat (a + of_nat i) = unat a + i"
proof -
  assume a: "aligned4 a" and i: "i < 4"
  obtain q where q: "unat a = 4 * q" using a unfolding aligned4_def by (metis mod_0_imp_dvd dvdE)
  then have "q < 1073741824" using unat_lt_32 [of a] by simp
  with q i have "unat a + i < 2 ^ 32" by simp
  then have "unat (of_nat (unat a + i) :: uint32) = unat a + i" by (rule unat_of_nat_32)
  then show ?thesis by simp
qed

lemma aligned4_disjoint:
  assumes "aligned4 a" "aligned4 b" "i < 4" "j < 4" "a + of_nat i = b + of_nat j"
  shows "a = b"
proof -
  have "unat a + i = unat b + j"
    using assms unat_aligned4_add by metis
  then have "unat a = unat b"
    using assms(1-4) unfolding aligned4_def by presburger
  then show ?thesis by (simp only: word_unat_eq_iff)
qed

lemma ld32p_cong: "(\<And>i. i < 4 \<Longrightarrow> h (a + of_nat i) = g (a + of_nat i)) \<Longrightarrow> ld32p h a = ld32p g a"
proof -
  assume eq: "\<And>i. i < 4 \<Longrightarrow> h (a + of_nat i) = g (a + of_nat i)"
  show ?thesis
    using eq [of 0] eq [of 1] eq [of 2] eq [of 3] by (simp add: ld32p_def)
qed

lemma st32p_other: "(\<And>i. i < 4 \<Longrightarrow> x \<noteq> a + of_nat i) \<Longrightarrow> st32p h a w x = h x"
proof -
  assume ne: "\<And>i. i < 4 \<Longrightarrow> x \<noteq> a + of_nat i"
  show ?thesis
    using ne [of 0] ne [of 1] ne [of 2] ne [of 3] by (simp add: st32p_def)
qed

lemma ld32p_st32p_other [simp]:
  "aligned4 a \<Longrightarrow> aligned4 b \<Longrightarrow> a \<noteq> b \<Longrightarrow> ld32p (st32p h a w) b = ld32p h b"
  by (rule ld32p_cong, rule st32p_other) (metis aligned4_disjoint)

section \<open>Paging\<close>

definition pde_paddr :: "'a machine_scheme \<Rightarrow> uint32 \<Rightarrow> uint32" where
  "pde_paddr m v = page_base (cr3 m) + drop_bit 22 v * 4"

definition pte_paddr :: "uint32 \<Rightarrow> uint32 \<Rightarrow> uint32" where
  "pte_paddr pde v = page_base pde + (drop_bit 12 v AND 0x3FF) * 4"

definition translate :: "'a machine_scheme \<Rightarrow> uint32 \<Rightarrow> uint32 option" where
  "translate m v =
     (let pde = ld32p (pmem m) (pde_paddr m v)
      in if \<not> bit pde 0 then None
         else let pte = ld32p (pmem m) (pte_paddr pde v)
              in if \<not> bit pte 0 then None else Some (page_base pte OR (v AND 0xFFF)))"

section \<open>Virtual accesses\<close>

definition trE :: "'a machine_scheme \<Rightarrow> uint32 \<Rightarrow> fault + uint32" where
  "trE m v = (case translate m v of None \<Rightarrow> Inl (PageFault v) | Some p \<Rightarrow> Inr p)"

definition load8 :: "uint32 \<Rightarrow> 'a machine_scheme \<Rightarrow> fault + byte" where
  "load8 v m = bindE (trE m v) (\<lambda>p. Inr (pmem m p))"

definition store8 :: "uint32 \<Rightarrow> byte \<Rightarrow> 'a machine_scheme \<Rightarrow> fault + 'a machine_scheme" where
  "store8 v b m = bindE (trE m v) (\<lambda>p. Inr (m\<lparr>pmem := (pmem m)(p := b)\<rparr>))"

text \<open>A 32-bit access resolves its four bytes first and then reads or writes them.\<close>

definition load32 :: "uint32 \<Rightarrow> 'a machine_scheme \<Rightarrow> fault + uint32" where
  "load32 v m =
     bindE (load8 v m) (\<lambda>b0. bindE (load8 (v + 1) m) (\<lambda>b1.
     bindE (load8 (v + 2) m) (\<lambda>b2. bindE (load8 (v + 3) m) (\<lambda>b3.
       Inr (ucast b0 OR push_bit 8 (ucast b1) OR push_bit 16 (ucast b2) OR push_bit 24 (ucast b3))))))"

definition store32 :: "uint32 \<Rightarrow> uint32 \<Rightarrow> 'a machine_scheme \<Rightarrow> fault + 'a machine_scheme" where
  "store32 v w m =
     bindE (trE m v) (\<lambda>p0. bindE (trE m (v + 1)) (\<lambda>p1.
     bindE (trE m (v + 2)) (\<lambda>p2. bindE (trE m (v + 3)) (\<lambda>p3.
       Inr (m\<lparr>pmem := (pmem m)(p0 := ucast w, p1 := ucast (drop_bit 8 w),
              p2 := ucast (drop_bit 16 w), p3 := ucast (drop_bit 24 w))\<rparr>)))))"

section \<open>A window of virtual addresses as a byte memory\<close>

text \<open>
  \<open>stable I R m\<close>: the virtual addresses \<open>R\<close> are mapped, injectively, into the physical
  bytes \<open>I\<close>, and how they are mapped does not depend on what \<open>I\<close> holds (no page table
  lies in \<open>I\<close>). \<open>rest_of I m\<close> is the machine without the contents of \<open>I\<close>.
\<close>

definition stable :: "uint32 set \<Rightarrow> uint32 set \<Rightarrow> 'a machine_scheme \<Rightarrow> bool" where
  "stable I R m \<longleftrightarrow>
     (\<forall>v\<in>R. \<exists>p\<in>I. translate m v = Some p) \<and> inj_on (translate m) R \<and>
     (\<forall>h. (\<forall>a. a \<notin> I \<longrightarrow> h a = pmem m a) \<longrightarrow> (\<forall>v\<in>R. translate (m\<lparr>pmem := h\<rparr>) v = translate m v))"

definition vmem :: "'a machine_scheme \<Rightarrow> uint32 \<Rightarrow> byte" where
  "vmem m v = pmem m (the (translate m v))"

definition rest_of :: "uint32 set \<Rightarrow> 'a machine_scheme \<Rightarrow> 'a machine_scheme" where
  "rest_of I m = m\<lparr>pmem := (\<lambda>a. if a \<in> I then 0 else pmem m a)\<rparr>"

lemma load8_Some: "translate m v = Some p \<Longrightarrow> load8 v m = Inr (pmem m p)"
  by (simp add: load8_def trE_def)

lemma store8_Some: "translate m v = Some p \<Longrightarrow> store8 v b m = Inr (m\<lparr>pmem := (pmem m)(p := b)\<rparr>)"
  by (simp add: store8_def trE_def)

lemma load8_None: "translate m v = None \<Longrightarrow> load8 v m = Inl (PageFault v)"
  by (simp add: load8_def trE_def)

lemma stable_translate: "stable I R m \<Longrightarrow> v \<in> R \<Longrightarrow> \<exists>p\<in>I. translate m v = Some p"
  by (simp add: stable_def)

lemma stable_update:
  assumes "stable I R m" "\<forall>a. a \<notin> I \<longrightarrow> h a = pmem m a"
  shows "stable I R (m\<lparr>pmem := h\<rparr>)" "\<forall>v\<in>R. translate (m\<lparr>pmem := h\<rparr>) v = translate m v"
proof -
  show tr: "\<forall>v\<in>R. translate (m\<lparr>pmem := h\<rparr>) v = translate m v"
    using assms by (simp add: stable_def)
  have "inj_on (translate (m\<lparr>pmem := h\<rparr>)) R"
    using assms(1) tr by (auto simp: stable_def inj_on_def)
  moreover have "translate (m\<lparr>pmem := g\<rparr>) v = translate (m\<lparr>pmem := h\<rparr>) v"
    if "\<forall>a. a \<notin> I \<longrightarrow> g a = h a" "v \<in> R" for g v
    using assms that tr by (simp add: stable_def)
  ultimately show "stable I R (m\<lparr>pmem := h\<rparr>)"
    using assms(1) tr by (simp add: stable_def)
qed

interpretation mmu: byte_memory load8 store8 "stable I R" R vmem "rest_of I"
  for I R
proof
  fix s :: "'a machine_scheme" and a b
  assume s: "stable I R s" and a: "a \<in> R"
  then obtain p where p: "p \<in> I" "translate s a = Some p" using stable_translate by blast
  show "load8 a s = Inr (vmem s a)" using p by (simp add: load8_Some vmem_def)
  let ?s = "s\<lparr>pmem := (pmem s)(p := b)\<rparr>"
  have upd: "\<forall>x. x \<notin> I \<longrightarrow> ((pmem s)(p := b)) x = pmem s x" using p(1) by auto
  have "vmem ?s x = ((vmem s)(a := b)) x" if x: "x \<in> R" for x
  proof -
    have "translate s x = Some p \<longleftrightarrow> x = a"
      using s x a p(2) by (metis inj_onD stable_def)
    moreover have "translate ?s x = translate s x" using stable_update(2) [OF s upd] x by blast
    moreover obtain q where "translate s x = Some q" using stable_translate [OF s x] by blast
    ultimately show ?thesis by (auto simp: vmem_def)
  qed
  moreover have "rest_of I ?s = rest_of I s"
  proof -
    have "(\<lambda>x. if x \<in> I then 0 else ((pmem s)(p := b)) x) = (\<lambda>x. if x \<in> I then 0 else pmem s x)"
      using p(1) by auto
    then show ?thesis by (simp add: rest_of_def cong: if_cong)
  qed
  ultimately show "\<exists>s'. store8 a b s = Inr s' \<and> stable I R s' \<and> rest_of I s' = rest_of I s \<and>
      (\<forall>x\<in>R. vmem s' x = ((vmem s)(a := b)) x)"
    using store8_Some [OF p(2)] stable_update(1) [OF s upd] by blast
qed

end
