(* ===== verification/Kernel.thy ===== *)
theory Kernel
  imports Machine Bitmap Pmm
begin

text \<open>
  The data of the kernel: the thread control block of \<^verbatim>\<open>src/include/threads.h\<close>, the task state
  segment of \<^verbatim>\<open>src/include/tss.h\<close>, and the machine extended by the global variables of the
  modules. C objects that the kernel only reaches through typed pointers (TCBs, the page
  manager, the TSS) are records; memory that it addresses by number (page tables, bitmaps,
  stacks) is the byte memory of the machine.
\<close>

section \<open>Threads\<close>

datatype task_status_t = TASK_RUNNING | TASK_READY | TASK_BLOCKED | TASK_WAITING | TASK_HANGING | TASK_DIED

record context_t =
  c_ebp :: uint32
  c_ebx :: uint32
  c_ecx :: uint32
  c_edx :: uint32
  c_esi :: uint32
  c_edi :: uint32
  c_eflags :: uint32
  c_esp :: uint32

record TCB_t =
  kern_stack_top :: uint32
  task_status :: task_status_t
  time_counter :: uint32
  time_left :: uint32
  t_next :: uint32
  tid :: uint32
  page_counte :: uint32
  page_addr_f :: uint32
  is_kern_thread :: bool
  user_vmm_pool :: bitmap
  pdt_vaddr :: uint32
  t_context :: context_t
  tcb_magic_number :: uint32

abbreviation TCB_MAGIC_NUMBER :: uint32 where "TCB_MAGIC_NUMBER \<equiv> 0xFC0D21AB"

section \<open>The task state segment\<close>

record tss_t =
  tss_backlink :: uint32
  tss_esp0 :: uint32
  tss_ss0 :: uint32
  tss_esp1 :: uint32
  tss_ss1 :: uint32
  tss_esp2 :: uint32
  tss_ss2 :: uint32
  tss_cr3 :: uint32
  tss_eip :: uint32
  tss_eflags :: uint32
  tss_eax :: uint32
  tss_ecx :: uint32
  tss_edx :: uint32
  tss_ebx :: uint32
  tss_esp :: uint32
  tss_ebp :: uint32
  tss_esi :: uint32
  tss_edi :: uint32
  tss_es :: uint32
  tss_cs :: uint32
  tss_ss :: uint32
  tss_ds :: uint32
  tss_fs :: uint32
  tss_gs :: uint32
  tss_ldt :: uint32
  tss_trace :: uint32
  tss_io_base :: uint32

section \<open>The kernel\<close>

text \<open>
  A TCB pointer is the address of the page that holds the TCB, \<open>0\<close> for NULL. \<open>regs\<close> are the
  registers that a context switch saves, other than the flags.
\<close>

record kernel = machine +
  pm :: pmm
  kern_vmm_pool :: bitmap
  kern_bitmap :: uint32
  kern_dir_table_paddr :: uint32
  kern_end :: uint32
  USER_PAGE_DIR_IS_LOADED :: bool
  tcb :: "uint32 \<Rightarrow> TCB_t"
  cur_tcb :: uint32
  tss_cpu0 :: tss_t
  regs :: context_t

text \<open>A call into the page manager.\<close>

definition with_pmm :: "(pmm \<Rightarrow> fault + ('x \<times> pmm)) \<Rightarrow> kernel \<Rightarrow> fault + ('x \<times> kernel)" where
  "with_pmm f k = bindE (f (pm k)) (\<lambda>(x, st). Inr (x, k\<lparr>pm := st\<rparr>))"

text \<open>The update of one TCB through a pointer; a NULL pointer is a fault.\<close>

definition upd_tcb :: "uint32 \<Rightarrow> (TCB_t \<Rightarrow> TCB_t) \<Rightarrow> kernel \<Rightarrow> kernel" where
  "upd_tcb p f k = k\<lparr>tcb := (tcb k)(p := f (tcb k p))\<rparr>"

section \<open>Interrupt flag\<close>

definition cli :: "'a machine_scheme \<Rightarrow> 'a machine_scheme" where
  "cli k = k\<lparr>int_flag := False\<rparr>"

definition sti :: "'a machine_scheme \<Rightarrow> 'a machine_scheme" where
  "sti k = k\<lparr>int_flag := True\<rparr>"

text \<open>
  \<^verbatim>\<open>get_int_flag\<close> reads bit 9 of the flags register; of the flags only that bit is in the
  model.
\<close>

definition get_eflag :: "'a machine_scheme \<Rightarrow> uint32" where
  "get_eflag k = (if int_flag k then 0x202 else 0x002)"

definition get_int_flag :: "'a machine_scheme \<Rightarrow> bool" where
  "get_int_flag k = (drop_bit 9 (get_eflag k) AND 1 = 1)"

definition cli_condition :: "'a machine_scheme \<Rightarrow> bool \<times> 'a machine_scheme" where
  "cli_condition k = (if get_int_flag k then (True, cli k) else (False, k))"

definition sti_condition :: "bool \<Rightarrow> 'a machine_scheme \<Rightarrow> 'a machine_scheme" where
  "sti_condition condition k = (if condition then sti k else cli k)"

lemma get_int_flag [simp]: "get_int_flag k = int_flag k"
  by (simp add: get_int_flag_def get_eflag_def)

lemma cli_condition_eq: "cli_condition k = (int_flag k, cli k)"
  by (simp add: cli_condition_def cli_def)

lemma sti_condition_eq: "sti_condition c k = k\<lparr>int_flag := c\<rparr>"
  by (simp add: sti_condition_def sti_def cli_def)

end
