(* ===== verification/Vmm.thy ===== *)
theory Vmm
  imports Kernel
begin

text \<open>
  \<^verbatim>\<open>src/kernel/modules/vmm/vmm.c\<close>: kernel and user virtual memory. Page tables are written
  through the last page directory entry, which maps the directory itself: the virtual
  address of a page table entry is computed by \<open>get_pte\<close>, that of a directory entry by
  \<open>get_pde\<close>. The precedence of \<^verbatim>\<open>==\<close> over \<^verbatim>\<open>|\<close> in \<^verbatim>\<open>*ptr==(*ptr)|1\<close> is kept: the test
  compares first and is then or-ed with 1.
\<close>

abbreviation PAGE_DESC_P :: uint32 where "PAGE_DESC_P \<equiv> 0x1"
abbreviation PAGE_DESC_RW_W :: uint32 where "PAGE_DESC_RW_W \<equiv> 0x2"
abbreviation PAGE_DESC_US_U :: uint32 where "PAGE_DESC_US_U \<equiv> 0x4"
abbreviation PAGE_DESC_US_S :: uint32 where "PAGE_DESC_US_S \<equiv> 0x0"
abbreviation PAGE_DESC_G :: uint32 where "PAGE_DESC_G \<equiv> 0x100"
abbreviation KERN_VMM_ALLOC_ERRO :: uint32 where "KERN_VMM_ALLOC_ERRO \<equiv> 0xFFFFFFFF"
abbreviation USER_VMM_ALLOC_ERRO :: uint32 where "USER_VMM_ALLOC_ERRO \<equiv> 0xFFFFFFFF"
abbreviation V2P_ERROR :: uint32 where "V2P_ERROR \<equiv> 0xFFFFFFFF"

section \<open>Initialisation\<close>

definition get_kern_used_page_count :: "kernel \<Rightarrow> uint32" where
  "get_kern_used_page_count k = (kern_end k - 0 + PAGE_SIZE - 1) div PAGE_SIZE"

text \<open>The loop that marks the first \<open>n\<close> pages of the pool busy.\<close>

fun alloc_used :: "nat \<Rightarrow> kernel \<Rightarrow> fault + kernel" where
  "alloc_used 0 k = Inr k"
| "alloc_used (Suc n) k =
     bindE (bitmap_alloc load8 store8 (kern_vmm_pool k) k) (\<lambda>(_, k'). alloc_used n k')"

text \<open>The loop that clears the last 128 bytes of the bitmap, downwards from \<open>probe\<close>.\<close>

fun clear_down :: "nat \<Rightarrow> uint32 \<Rightarrow> kernel \<Rightarrow> fault + kernel" where
  "clear_down 0 probe k = Inr k"
| "clear_down (Suc n) probe k = bindE (store8 probe 0 k) (clear_down n (probe - 1))"

definition vmm_kern_init :: "kernel \<Rightarrow> fault + kernel" where
  "vmm_kern_init k =
     (let k1 = k\<lparr>kern_vmm_pool := \<lparr>vaddr_header = kern_bitmap k, bm_length = 0x8000, target_addr_header = 0xC0000000\<rparr>\<rparr>
      in bindE (bitmap_init_mem store8 (kern_vmm_pool k1) k1) (\<lambda>k2.
         let page_used = get_kern_used_page_count k2
         in if sint page_used > 1024 then Inl Stopped
            else bindE (alloc_used (nat (sint page_used)) k2) (clear_down 128 (kern_bitmap k2 + 0x8000 - 1))))"

definition vmm_init :: "kernel \<Rightarrow> fault + kernel" where
  "vmm_init k = vmm_kern_init k"

definition create_kern_page_table :: "uint32 \<Rightarrow> kernel \<Rightarrow> fault + kernel" where
  "create_kern_page_table pde_vaddr k =
     bindE (with_pmm pmm_alloc_one_page k) (\<lambda>(p, k1).
       if a_state p \<noteq> 0 then Inl Stopped
       else bindE (memset store8 (a_addr p) 0 PAGE_SIZE k1) (\<lambda>k2.
            store32 pde_vaddr (page_base (a_addr p) + PAGE_DESC_P + PAGE_DESC_RW_W + PAGE_DESC_US_S) k2))"

text \<open>\<^verbatim>\<open>reload_kern_page_table\<close> (assembly) loads \<^verbatim>\<open>cr3\<close>, masked to a page boundary.\<close>

definition reload_kern_page_table :: "uint32 \<Rightarrow> kernel \<Rightarrow> kernel" where
  "reload_kern_page_table pdt_paddr k = k\<lparr>cr3 := page_base pdt_paddr\<rparr>"

definition vmm_pre_init :: "kernel \<Rightarrow> fault + kernel" where
  "vmm_pre_init k =
     bindE (store32 (kern_dir_table_paddr k + 0xC0000000) 0 k) (\<lambda>k1.
       Inr (reload_kern_page_table (kern_dir_table_paddr k1) k1))"

section \<open>The page table window\<close>

definition get_pte :: "uint32 \<Rightarrow> uint32" where
  "get_pte target0 =
     (let target = page_base target0;
          addr_high10 = push_bit 22 0x3FF;
          addr_middle10 = drop_bit 10 target AND 0x003FF000;
          addr_low12 = ((drop_bit 12 target AND 0x3FF) * 4) AND 0xFFF
      in addr_high10 OR addr_middle10 OR addr_low12)"

definition get_pde :: "uint32 \<Rightarrow> uint32" where
  "get_pde target0 =
     (let target = page_base target0;
          addr_high10 = push_bit 22 0x3FF;
          addr_middle10 = 0x003FF000;
          addr_low12 = ((drop_bit 22 target AND 0x3FF) * 4) AND 0xFFF
      in addr_high10 OR addr_middle10 OR addr_low12)"

text \<open>The C condition \<^verbatim>\<open>*ptr==(*ptr)|0x00000001\<close> as the compiler reads it.\<close>

definition test_p_bit :: "uint32 \<Rightarrow> kernel \<Rightarrow> fault + bool" where
  "test_p_bit ptr k =
     bindE (load32 ptr k) (\<lambda>a. bindE (load32 ptr k) (\<lambda>b.
       Inr ((of_bool (a = b) OR (1 :: uint32)) \<noteq> 0)))"

section \<open>Kernel pages\<close>

text \<open>The check of the page table, common to both allocation functions.\<close>

definition present_page_table :: "uint32 \<Rightarrow> kernel \<Rightarrow> fault + kernel" where
  "present_page_table target k =
     (let ptr = get_pde target
      in bindE (test_p_bit ptr k) (\<lambda>c.
           if c then Inr k
           else bindE (load32 ptr k) (\<lambda>d. bindE (store32 ptr (d OR 1) k) (\<lambda>k'.
                  Inr (invlpg (page_base (get_pte target)) k')))))"

text \<open>The rest of both functions, from the physical page on, error exit included.\<close>

definition kern_map_page :: "uint32 \<Rightarrow> kernel \<Rightarrow> fault + (uint32 \<times> kernel)" where
  "kern_map_page target k =
     bindE (with_pmm pmm_alloc_one_page k) (\<lambda>(phy_page, k1).
       if a_state phy_page = 0
       then bindE (bitmap_release_one_page load8 store8 (kern_vmm_pool k1) target k1) (\<lambda>k2.
              Inr (KERN_VMM_ALLOC_ERRO, k2))
       else bindE (store32 (get_pte target)
                (page_base (a_addr phy_page) + PAGE_DESC_RW_W + PAGE_DESC_US_S + PAGE_DESC_G + PAGE_DESC_P) k1)
              (\<lambda>k2. Inr (target, invlpg (page_base target) k2)))"

definition vmm_kern_alloc_one_page :: "uint32 \<Rightarrow> kernel \<Rightarrow> fault + (uint32 \<times> kernel)" where
  "vmm_kern_alloc_one_page target k =
     bindE (bitmap_alloc_one_page load8 store8 (kern_vmm_pool k) target k) (\<lambda>(vaddr_get, k1).
       if vaddr_get = BITMAP_RETURN_ERRO then Inr (KERN_VMM_ALLOC_ERRO, k1)
       else bindE (present_page_table target k1) (kern_map_page target))"

definition vmm_kern_alloc :: "kernel \<Rightarrow> fault + (uint32 \<times> kernel)" where
  "vmm_kern_alloc k =
     bindE (bitmap_alloc load8 store8 (kern_vmm_pool k) k) (\<lambda>(target, k1).
       if target = BITMAP_RETURN_ERRO then Inr (KERN_VMM_ALLOC_ERRO, k1)
       else bindE (present_page_table target k1) (kern_map_page target))"

text \<open>The record \<^verbatim>\<open>release_page\<close> is filled but the call that would use it is commented out.\<close>

definition vmm_kern_release_one_page :: "uint32 \<Rightarrow> kernel \<Rightarrow> fault + kernel" where
  "vmm_kern_release_one_page target k =
     (if target < 0xC0000000 then Inr k
      else bindE (bitmap_release_one_page load8 store8 (kern_vmm_pool k) target k) (\<lambda>k1.
           let desc_vaddr = get_pte target
           in bindE (load32 desc_vaddr k1) (\<lambda>desc_inf.
              bindE (store32 desc_vaddr (desc_inf AND 0xFFFFFFFE) k1) (\<lambda>k2.
                Inr (invlpg (page_base target) k2)))))"

definition check_vaddr_present :: "uint32 \<Rightarrow> kernel \<Rightarrow> fault + bool" where
  "check_vaddr_present vaddr k =
     bindE (test_p_bit (get_pde vaddr) k) (\<lambda>c.
       if c then bindE (test_p_bit (get_pte vaddr) k) (\<lambda>c'. if c' then Inr True else Inr False)
       else Inr False)"

definition vmm_v2p :: "uint32 \<Rightarrow> kernel \<Rightarrow> fault + uint32" where
  "vmm_v2p vaddr k =
     bindE (check_vaddr_present vaddr k) (\<lambda>c.
       if c then bindE (load32 (get_pte vaddr) k) (\<lambda>e. Inr (page_base e OR (0xFFF AND vaddr)))
       else Inr V2P_ERROR)"

section \<open>User pages\<close>

definition user_get_pde :: "uint32 \<Rightarrow> uint32 \<Rightarrow> uint32" where
  "user_get_pde user_pdt_vaddr target_vaddr =
     (let times = drop_bit 22 target_vaddr AND 0x3FF in user_pdt_vaddr + times * 4)"

definition vmm_user_check_pt_present :: "uint32 \<Rightarrow> uint32 \<Rightarrow> kernel \<Rightarrow> fault + bool" where
  "vmm_user_check_pt_present user_pdt_vaddr target_vaddr k =
     (let times = drop_bit 22 target_vaddr AND 0x3FF;
          ptr = user_pdt_vaddr + times * 4
      in bindE (load32 ptr k) (\<lambda>a. bindE (load32 ptr k) (\<lambda>b.
           if a = b OR 1 then Inr True else Inr False)))"

definition create_user_page_table :: "uint32 \<Rightarrow> kernel \<Rightarrow> fault + (bool \<times> kernel)" where
  "create_user_page_table pde_vaddr k =
     bindE (vmm_kern_alloc k) (\<lambda>(re_vaddr, k1).
       if re_vaddr = KERN_VMM_ALLOC_ERRO then Inr (False, k1)
       else bindE (bzero store8 re_vaddr PAGE_SIZE k1) (\<lambda>k2.
            bindE (vmm_v2p re_vaddr k2) (\<lambda>page_paddr.
              if page_paddr = V2P_ERROR then Inr (False, k2)
              else bindE (store32 pde_vaddr
                      (page_base page_paddr + PAGE_DESC_RW_W + PAGE_DESC_US_U + PAGE_DESC_G + PAGE_DESC_P) k2)
                    (\<lambda>k3. Inr (True, k3)))))"

text \<open>
  \<^verbatim>\<open>clean_bitmap_alloc\<close> releases the page in the pool of the kernel, not in the pool of the
  task it was taken from. The message printed when the page table is present is left out;
  the interrupt flag is set after it.
\<close>

definition user_clean_bitmap_alloc :: "uint32 \<Rightarrow> kernel \<Rightarrow> fault + (uint32 \<times> kernel)" where
  "user_clean_bitmap_alloc vaddr k =
     bindE (bitmap_release_one_page load8 store8 (kern_vmm_pool k) vaddr k) (\<lambda>k'. Inr (USER_VMM_ALLOC_ERRO, k'))"

definition user_map_page :: "uint32 \<Rightarrow> kernel \<Rightarrow> fault + (uint32 \<times> kernel)" where
  "user_map_page vaddr k =
     bindE (with_pmm pmm_alloc_one_page k) (\<lambda>(phy_page, k1).
       if a_state phy_page = 0 then user_clean_bitmap_alloc vaddr k1
       else bindE (store32 (get_pte vaddr)
                (page_base (a_addr phy_page) + PAGE_DESC_RW_W + PAGE_DESC_US_U + PAGE_DESC_G + PAGE_DESC_P) k1)
              (\<lambda>k2. Inr (page_base vaddr, invlpg (page_base vaddr) k2)))"

definition vmm_user_alloc_one_page :: "uint32 \<Rightarrow> uint32 \<Rightarrow> kernel \<Rightarrow> fault + (uint32 \<times> kernel)" where
  "vmm_user_alloc_one_page tcb_ptr vaddr k =
     (if \<not> USER_PAGE_DIR_IS_LOADED k then Inr (USER_VMM_ALLOC_ERRO, k)
      else if is_kern_thread (tcb k tcb_ptr) then Inr (USER_VMM_ALLOC_ERRO, k)
      else let pool = user_vmm_pool (tcb k tcb_ptr);
               user_pdt_vaddr = pdt_vaddr (tcb k tcb_ptr)
           in bindE (bitmap_alloc_one_page load8 store8 pool vaddr k) (\<lambda>(vaddr_get, k1).
                if vaddr_get = BITMAP_RETURN_ERRO then user_clean_bitmap_alloc vaddr k1
                else bindE (vmm_user_check_pt_present user_pdt_vaddr vaddr k1) (\<lambda>c.
                  if c then user_map_page vaddr (sti (cli k1))
                  else bindE (create_user_page_table (user_pdt_vaddr + (drop_bit 22 vaddr AND 0x3FF) * 4) k1) (\<lambda>(created, k2).
                    if created then user_map_page vaddr k2 else user_clean_bitmap_alloc vaddr k2))))"

end
