(* ===== verification/Tss.thy ===== *)
theory Tss
  imports Vmm
begin

text \<open>
  \<^verbatim>\<open>src/kernel/modules/tss/tss.c\<close>: the descriptor of the task state segment in the GDT and the
  ring-0 stack pointer. The addresses of \<^verbatim>\<open>GDT_BASE\<close> and of \<^verbatim>\<open>tss_cpu0\<close> come from the linker
  and are parameters, as is the selector of the kernel data segment. \<^verbatim>\<open>ltr\<close> sets the busy
  bit of the descriptor it loads; \<^verbatim>\<open>lgdt\<close> reloads a table that has not moved and has no
  effect here.
\<close>

section \<open>Descriptors\<close>

record tss_desc_t =
  limit_low_word :: uint16
  base_low_word :: uint16
  base_mid_byte :: byte
  attr_low_byte :: byte
  limit_high_attr_high :: byte
  base_high_byte :: byte

abbreviation GDT_DESC_SIZE :: uint32 where "GDT_DESC_SIZE \<equiv> 8"
abbreviation TSS_ATTR_LOW :: byte where "TSS_ATTR_LOW \<equiv> 0x89"
abbreviation TSS_ATTR_HIGH :: byte where "TSS_ATTR_HIGH \<equiv> 0x80"
abbreviation TSS_CPU0_DESC_POS_ON_GDT :: uint32 where "TSS_CPU0_DESC_POS_ON_GDT \<equiv> 6"

text \<open>The size of \<^verbatim>\<open>tss_t\<close>: 27 packed 32-bit fields.\<close>

abbreviation tss_size :: uint32 where "tss_size \<equiv> 108"

definition get_tss_desc :: "uint32 \<Rightarrow> uint32" where
  "get_tss_desc gdt_base = gdt_base + GDT_DESC_SIZE * TSS_CPU0_DESC_POS_ON_GDT"

definition create_tss_desc :: "uint32 \<Rightarrow> uint32 \<Rightarrow> byte \<Rightarrow> byte \<Rightarrow> tss_desc_t" where
  "create_tss_desc desc_base limit attr_low attr_high =
     \<lparr>limit_low_word = ucast (limit AND 0x0000FFFF),
      base_low_word = ucast (desc_base AND 0x0000FFFF),
      base_mid_byte = ucast (drop_bit 16 (desc_base AND 0x00FF0000)),
      attr_low_byte = attr_low,
      limit_high_attr_high = ucast (drop_bit 16 (limit AND 0x000F0000) + ucast attr_high),
      base_high_byte = ucast (drop_bit 24 desc_base)\<rparr>"

text \<open>The packed bytes of a descriptor, and the assignment of one through a pointer.\<close>

definition desc_bytes :: "tss_desc_t \<Rightarrow> byte list" where
  "desc_bytes d = [ucast (limit_low_word d), ucast (drop_bit 8 (limit_low_word d)),
     ucast (base_low_word d), ucast (drop_bit 8 (base_low_word d)), base_mid_byte d,
     attr_low_byte d, limit_high_attr_high d, base_high_byte d]"

fun store_bytes :: "uint32 \<Rightarrow> byte list \<Rightarrow> kernel \<Rightarrow> fault + kernel" where
  "store_bytes a [] k = Inr k"
| "store_bytes a (b # bs) k = bindE (store8 a b k) (store_bytes (a + 1) bs)"

definition get_TSS_desc_high_word :: "uint32 \<Rightarrow> kernel \<Rightarrow> fault + uint32" where
  "get_TSS_desc_high_word gdt_base k = load32 (get_tss_desc gdt_base + 4) k"

definition ltr :: "uint32 \<Rightarrow> kernel \<Rightarrow> fault + kernel" where
  "ltr desc k = bindE (load8 (desc + 5) k) (\<lambda>b. store8 (desc + 5) (b OR 2) k)"

definition tss_zero :: tss_t where
  "tss_zero = \<lparr>tss_backlink = 0, tss_esp0 = 0, tss_ss0 = 0, tss_esp1 = 0, tss_ss1 = 0, tss_esp2 = 0, tss_ss2 = 0,
     tss_cr3 = 0, tss_eip = 0, tss_eflags = 0, tss_eax = 0, tss_ecx = 0, tss_edx = 0, tss_ebx = 0, tss_esp = 0,
     tss_ebp = 0, tss_esi = 0, tss_edi = 0, tss_es = 0, tss_cs = 0, tss_ss = 0, tss_ds = 0, tss_fs = 0, tss_gs = 0,
     tss_ldt = 0, tss_trace = 0, tss_io_base = 0\<rparr>"

definition tss_init :: "uint32 \<Rightarrow> uint32 \<Rightarrow> uint16 \<Rightarrow> kernel \<Rightarrow> fault + kernel" where
  "tss_init gdt_base tss_addr selector_data k =
     (let d = get_tss_desc gdt_base;
          k1 = k\<lparr>tss_cpu0 := tss_zero\<lparr>tss_io_base := tss_size, tss_ss0 := ucast selector_data AND 0x0000FFFF\<rparr>\<rparr>
      in bindE (store_bytes d (desc_bytes (create_tss_desc tss_addr (tss_size - 1) TSS_ATTR_LOW TSS_ATTR_HIGH)) k1) (\<lambda>k2.
         bindE (get_TSS_desc_high_word gdt_base k2) (\<lambda>before_load_val.
         bindE (ltr d k2) (\<lambda>k3.
         bindE (get_TSS_desc_high_word gdt_base k3) (\<lambda>after_load_val.
           if after_load_val \<noteq> before_load_val then Inr k3 else Inl Stopped)))))"

definition tss_update :: "uint32 \<Rightarrow> kernel \<Rightarrow> kernel" where
  "tss_update tcb_ptr k =
     k\<lparr>tss_cpu0 := (tss_cpu0 k)\<lparr>tss_esp0 := tcb_ptr + page_counte (tcb k tcb_ptr) * PAGE_SIZE\<rparr>\<rparr>"

section \<open>What the processor reads\<close>

text \<open>
  Base, limit and access byte of a segment descriptor, by the layout of the processor. The limit field has 20 bits; when the
  granularity bit is set it counts pages of 4096 bytes, and the offsets up to the end of the last page are in the segment.
\<close>

definition desc_base :: "tss_desc_t \<Rightarrow> uint32" where
  "desc_base d = ucast (base_low_word d) OR push_bit 16 (ucast (base_mid_byte d)) OR push_bit 24 (ucast (base_high_byte d))"

definition limit_field :: "tss_desc_t \<Rightarrow> uint32" where
  "limit_field d = ucast (limit_low_word d) OR push_bit 16 (ucast (limit_high_attr_high d AND 0xF))"

definition desc_granular :: "tss_desc_t \<Rightarrow> bool" where
  "desc_granular d = bit (limit_high_attr_high d) 7"

definition desc_limit :: "tss_desc_t \<Rightarrow> uint32" where
  "desc_limit d = (if desc_granular d then push_bit 12 (limit_field d) OR 0xFFF else limit_field d)"

lemma desc_masks: "(0xFFFF :: uint32) = mask 16" "(0x00FF0000 :: uint32) = push_bit 16 (mask 8)"
  "(0x000F0000 :: uint32) = push_bit 16 (mask 4)" "(0xF :: byte) = mask 4"
  by (simp_all add: mask_eq_decr_exp push_bit_eq_mult)

lemma desc_base_create: "desc_base (create_tss_desc b l al ah) = b"
proof (rule bit_word_eqI)
  fix n assume "n < LENGTH(32)"
  then consider "n < 16" | "16 \<le> n" "n < 24" | "24 \<le> n" "n < 32" by fastforce
  then show "bit (desc_base (create_tss_desc b l al ah)) n = bit b n"
    unfolding desc_base_def create_tss_desc_def desc_masks
    by cases (auto simp: bit_simps)
qed

lemma limit_high_byte:
  fixes l :: uint32 and ah :: byte
  assumes "ah AND 0xF = 0"
  shows "limit_high_attr_high (create_tss_desc b l al ah) = ucast (drop_bit 16 (l AND 0x000F0000)) OR ah"
proof -
  have low: "\<not> bit ah n" if "n < 4" for n
    using arg_cong [OF assms, of "\<lambda>x. bit x n"] that unfolding desc_masks by (simp add: bit_simps)
  have "drop_bit 16 (l AND 0x000F0000) AND ucast ah = 0"
    unfolding desc_masks using low by (intro bit_word_eqI) (auto simp: bit_simps)
  then have "drop_bit 16 (l AND 0x000F0000) + ucast ah = drop_bit 16 (l AND 0x000F0000) OR ucast ah"
    by (rule disjunctive_add_eq_or)
  then have "limit_high_attr_high (create_tss_desc b l al ah) = ucast (drop_bit 16 (l AND 0x000F0000) OR ucast ah)"
    by (simp add: create_tss_desc_def)
  also have "\<dots> = ucast (drop_bit 16 (l AND 0x000F0000)) OR ah"
    by (rule bit_word_eqI) (auto simp: bit_simps)
  finally show ?thesis .
qed

lemma limit_field_create:
  fixes l :: uint32 and ah :: byte
  assumes "l < 0x100000" "ah AND 0xF = 0"
  shows "limit_field (create_tss_desc b l al ah) = l"
proof (rule bit_word_eqI)
  fix n assume "n < LENGTH(32)"
  then consider "n < 16" | "16 \<le> n" "n < 20" | "20 \<le> n" "n < 32" by fastforce
  moreover have high: "\<not> bit l n" if "20 \<le> n" for n
  proof -
    have "l mod 0x100000 = l" using assms(1) by (simp add: word_unat_eq_iff unat_mod word_less_nat_alt)
    then have "take_bit 20 l = l" by (simp add: take_bit_eq_mod)
    then show ?thesis using that by (metis bit_take_bit_iff not_le)
  qed
  moreover have low: "\<not> bit ah n" if "n < 4" for n
    using arg_cong [OF assms(2), of "\<lambda>x. bit x n"] that unfolding desc_masks by (simp add: bit_simps)
  moreover have "limit_low_word (create_tss_desc b l al ah) = ucast (l AND 0xFFFF)" by (simp add: create_tss_desc_def)
  ultimately show "bit (limit_field (create_tss_desc b l al ah)) n = bit l n"
    unfolding limit_field_def limit_high_byte [OF assms(2)] desc_masks
    by cases (auto simp: bit_simps)
qed

text \<open>
  The descriptor encodes its arguments: the processor decodes the given base address and the given attributes from it,
  and as limit the last byte of the segment, counted in pages when the granularity bit is among the attributes.
\<close>

theorem tss_desc_round_trip:
  assumes "l < 0x100000" "ah AND 0xF = 0"
  shows "desc_base (create_tss_desc b l al ah) = b \<and>
    desc_limit (create_tss_desc b l al ah) = (if bit ah 7 then push_bit 12 l OR 0xFFF else l) \<and>
    attr_low_byte (create_tss_desc b l al ah) = al"
proof -
  have "desc_granular (create_tss_desc b l al ah) = bit ah 7"
    unfolding desc_granular_def limit_high_byte [OF assms(2)] desc_masks by (auto simp: bit_simps)
  moreover have "attr_low_byte (create_tss_desc b l al ah) = al" by (simp add: create_tss_desc_def)
  ultimately show ?thesis using desc_base_create limit_field_create [OF assms] by (simp add: desc_limit_def)
qed

section \<open>The port map\<close>

text \<open>
  The processor takes the offset of the port map from the 16 bits at offset 102 of the segment, which is the upper half
  of the field \<^verbatim>\<open>trace\<close>; \<^verbatim>\<open>io_base\<close> is a 32-bit field behind them, at offset 104. A task without
  I/O privilege may use a port when its bit in the map is zero and within the limit of the segment. \<open>port_open\<close> says so for a
  port whose bit lies in the 108 bytes of the structure.
\<close>

definition io_map_base :: "tss_t \<Rightarrow> uint16" where
  "io_map_base t = ucast (drop_bit 16 (tss_trace t))"

definition tss_words :: "tss_t \<Rightarrow> uint32 list" where
  "tss_words t = [tss_backlink t, tss_esp0 t, tss_ss0 t, tss_esp1 t, tss_ss1 t, tss_esp2 t, tss_ss2 t, tss_cr3 t, tss_eip t,
     tss_eflags t, tss_eax t, tss_ecx t, tss_edx t, tss_ebx t, tss_esp t, tss_ebp t, tss_esi t, tss_edi t, tss_es t, tss_cs t,
     tss_ss t, tss_ds t, tss_fs t, tss_gs t, tss_ldt t, tss_trace t, tss_io_base t]"

definition tss_byte :: "tss_t \<Rightarrow> nat \<Rightarrow> byte" where
  "tss_byte t j = ucast (drop_bit (8 * (j mod 4)) (tss_words t ! (j div 4)))"

definition port_open :: "tss_desc_t \<Rightarrow> tss_t \<Rightarrow> nat \<Rightarrow> bool" where
  "port_open d t port =
     (let j = unat (io_map_base t) + port div 8
      in j < unat tss_size \<and> j < unat (desc_limit d) \<and> \<not> bit (tss_byte t j) (port mod 8))"

lemma tss_init_ports:
  fixes d :: tss_desc_t
  assumes "107 \<le> unat (desc_limit d)" "96 \<le> port" "port < 832"
  shows "port_open d (tss_zero\<lparr>tss_io_base := x, tss_ss0 := y\<rparr>) port"
proof -
  let ?t = "tss_zero\<lparr>tss_io_base := x, tss_ss0 := y\<rparr>"
  have "port div 8 < 104" using assms(3) by (simp add: div_less_iff_less_mult)
  have "12 \<le> port div 8" using div_le_mono [OF assms(2), of 8] by simp
  then have "3 \<le> port div 8 div 4" using div_le_mono [of 12 "port div 8" 4] by simp
  moreover have "port div 8 div 4 < 26" using \<open>port div 8 < 104\<close> by (simp add: div_less_iff_less_mult)
  moreover have "tss_words ?t ! i = 0" if "3 \<le> i" "i < 26" for i
  proof -
    have "\<forall>i<26. 3 \<le> i \<longrightarrow> tss_words ?t ! i = 0" unfolding tss_words_def tss_zero_def by (simp add: All_less_Suc numeral_nat)
    then show ?thesis using that by blast
  qed
  ultimately have "tss_byte ?t (port div 8) = 0" by (simp add: tss_byte_def)
  then show ?thesis using \<open>port div 8 < 104\<close> assms(1) by (simp add: port_open_def io_map_base_def tss_zero_def)
qed

end
