(* ===== verification/Threads.thy ===== *)
theory Threads
  imports Tss
begin

text \<open>
  \<^verbatim>\<open>src/kernel/modules/threads/threads.c\<close>, with \<^verbatim>\<open>active_task\<close> of \<^verbatim>\<open>user_task.c\<close> and the
  assembly routine \<^verbatim>\<open>switch_to\<close>. Threads are linked into a ring by their field \<^verbatim>\<open>next\<close>.
  \<open>schedule\<close> returns whether it switched to another thread: the code after a call that
  switched is executed when the thread is resumed.
\<close>

abbreviation TIME_CONT :: uint32 where "TIME_CONT \<equiv> 10"

section \<open>Activation and context switch\<close>

definition active_pdt :: "uint32 \<Rightarrow> kernel \<Rightarrow> kernel" where
  "active_pdt pdt_paddr k = k\<lparr>cr3 := pdt_paddr\<rparr>"

definition active_task :: "uint32 \<Rightarrow> kernel \<Rightarrow> fault + kernel" where
  "active_task tcb_ptr k =
     (if is_kern_thread (tcb k tcb_ptr) then Inr (active_pdt (kern_dir_table_paddr k) k)
      else bindE (vmm_v2p (pdt_vaddr (tcb k tcb_ptr)) k) (\<lambda>user_task_pdt_paddr.
             if user_task_pdt_paddr = V2P_ERROR then Inl Stopped
             else Inr (tss_update tcb_ptr (active_pdt user_task_pdt_paddr k))))"

text \<open>
  \<^verbatim>\<open>switch_to\<close> saves the registers and flags in the first context, loads those of the second,
  and acknowledges the interrupt at both controllers.
\<close>

definition switch_to :: "uint32 \<Rightarrow> uint32 \<Rightarrow> kernel \<Rightarrow> kernel" where
  "switch_to cur nxt k =
     (let k1 = upd_tcb cur (\<lambda>t. t\<lparr>t_context := (regs k)\<lparr>c_eflags := get_eflag k\<rparr>\<rparr>) k;
          ctx = t_context (tcb k1 nxt)
      in outb 0x20 0x20 (outb 0xA0 0x20 (k1\<lparr>regs := ctx, int_flag := bit (c_eflags ctx) 9\<rparr>)))"

section \<open>Thread control blocks\<close>

definition get_running_progress :: "kernel \<Rightarrow> uint32" where
  "get_running_progress k = cur_tcb k"

definition check_kern_stack_overflow :: "uint32 \<Rightarrow> kernel \<Rightarrow> bool" where
  "check_kern_stack_overflow tcb_ptr k = (tcb_magic_number (tcb k tcb_ptr) = TCB_MAGIC_NUMBER)"

definition init_main_thread :: "uint32 \<Rightarrow> kernel \<Rightarrow> kernel" where
  "init_main_thread main_tcb k = upd_tcb main_tcb (\<lambda>t. t\<lparr>tid := 0, time_counter := 0, time_left := TIME_CONT,
     task_status := TASK_RUNNING, page_counte := 0, page_addr_f := 0, t_next := main_tcb, kern_stack_top := 0,
     is_kern_thread := True, tcb_magic_number := TCB_MAGIC_NUMBER\<rparr>) k"

text \<open>\<open>main_TCB\<close> is the address of the static TCB of the main thread.\<close>

definition threads_init :: "uint32 \<Rightarrow> kernel \<Rightarrow> kernel" where
  "threads_init main_TCB k = (init_main_thread main_TCB k)\<lparr>cur_tcb := main_TCB\<rparr>"

definition create_TCB :: "uint32 \<Rightarrow> uint32 \<Rightarrow> uint32 \<Rightarrow> kernel \<Rightarrow> kernel" where
  "create_TCB tid' addr page_counte' k = upd_tcb addr (\<lambda>t. t\<lparr>tid := tid', time_counter := 0,
     time_left := TIME_CONT, task_status := TASK_READY, page_counte := page_counte', page_addr_f := addr,
     kern_stack_top := addr + page_counte' * PAGE_SIZE, tcb_magic_number := TCB_MAGIC_NUMBER\<rparr>) k"

text \<open>The statement \<^verbatim>\<open>*(--tcb->kern_stack_top)=value\<close>.\<close>

definition push_stack :: "uint32 \<Rightarrow> uint32 \<Rightarrow> kernel \<Rightarrow> fault + kernel" where
  "push_stack p value k =
     (let k1 = upd_tcb p (\<lambda>t. t\<lparr>kern_stack_top := kern_stack_top t - 4\<rparr>) k
      in store32 (kern_stack_top (tcb k1 p)) value k1)"

text \<open>The first half of \<^verbatim>\<open>create_thread\<close>: the new TCB behind the current one in the ring.\<close>

definition link_thread :: "uint32 \<Rightarrow> uint32 \<Rightarrow> uint32 \<Rightarrow> bool \<Rightarrow> bitmap \<Rightarrow> uint32 \<Rightarrow> kernel \<Rightarrow> kernel" where
  "link_thread tid' addr page_counte' kern pool pdt k0 =
     (let k = create_TCB tid' addr page_counte' k0;
          temp_next = t_next (tcb k (cur_tcb k));
          k1 = upd_tcb (cur_tcb k) (\<lambda>t. t\<lparr>t_next := addr\<rparr>) k;
          k2 = upd_tcb addr (\<lambda>t. t\<lparr>t_next := temp_next, is_kern_thread := kern\<rparr>) k1
      in if \<not> kern then upd_tcb addr (\<lambda>t. t\<lparr>user_vmm_pool := pool, pdt_vaddr := pdt\<rparr>) k2 else k2)"

text \<open>\<open>exit_addr\<close> is the address of the function \<^verbatim>\<open>exit\<close>.\<close>

definition create_thread ::
  "uint32 \<Rightarrow> uint32 \<Rightarrow> uint32 \<Rightarrow> uint32 \<Rightarrow> uint32 \<Rightarrow> bool \<Rightarrow> bitmap \<Rightarrow> uint32 \<Rightarrow> uint32 \<Rightarrow> kernel \<Rightarrow> fault + kernel" where
  "create_thread tid' func args addr page_counte' kern pool pdt exit_addr k =
     bindE (push_stack addr args (link_thread tid' addr page_counte' kern pool pdt (cli k))) (\<lambda>k4.
     bindE (push_stack addr exit_addr k4) (\<lambda>k5.
     bindE (push_stack addr func k5) (\<lambda>k6.
       Inr (sti (upd_tcb addr (\<lambda>t. t\<lparr>t_context := (t_context t)\<lparr>c_eflags := 0x202, c_esp := kern_stack_top t\<rparr>\<rparr>) k6)))))"

text \<open>The bitmap passed for a kernel thread is an uninitialised local, and not used.\<close>

definition create_kern_thread :: "uint32 \<Rightarrow> uint32 \<Rightarrow> uint32 \<Rightarrow> bitmap \<Rightarrow> uint32 \<Rightarrow> kernel \<Rightarrow> fault + kernel" where
  "create_kern_thread tid' func args default_bitmap exit_addr k =
     bindE (vmm_kern_alloc k) (\<lambda>(TCB_page, k1).
       if TCB_page = KERN_VMM_ALLOC_ERRO then Inl Stopped
       else create_thread tid' func args TCB_page 1 True default_bitmap 0 exit_addr k1)"

section \<open>Scheduling\<close>

text \<open>The search of \<^verbatim>\<open>schedule\<close>: the next ready thread of the ring, or the current one.\<close>

partial_function (option) find_ready ::
  "(uint32 \<Rightarrow> uint32) \<Rightarrow> (uint32 \<Rightarrow> bool) \<Rightarrow> uint32 \<Rightarrow> uint32 \<Rightarrow> uint32 option" where
  "find_ready nx ready cur probe =
     (if nx probe = cur then Some cur
      else if ready (nx probe) then Some (nx probe)
      else find_ready nx ready cur (nx probe))"

definition run_again :: "kernel \<Rightarrow> kernel" where
  "run_again k =
     (if task_status (tcb k (cur_tcb k)) \<noteq> TASK_READY \<and> task_status (tcb k (cur_tcb k)) \<noteq> TASK_RUNNING
      then upd_tcb (cur_tcb k) (\<lambda>t. t\<lparr>time_left := TIME_CONT, task_status := TASK_RUNNING\<rparr>) k
      else upd_tcb (cur_tcb k) (\<lambda>t. t\<lparr>time_left := TIME_CONT\<rparr>) k)"

definition schedule :: "kernel \<Rightarrow> fault + (bool \<times> kernel)" where
  "schedule k =
     (if get_running_progress k = 0 then Inr (False, k)
      else if \<not> check_kern_stack_overflow (get_running_progress k) k then Inl Stopped
      else bindE (loopE (find_ready (\<lambda>p. t_next (tcb k p)) (\<lambda>p. task_status (tcb k p) = TASK_READY) (cur_tcb k) (cur_tcb k)))
        (\<lambda>probe.
          if probe = cur_tcb k then Inr (False, run_again k)
          else let now = cur_tcb k;
                   k1 = (if task_status (tcb k now) = TASK_RUNNING
                         then upd_tcb now (\<lambda>t. t\<lparr>task_status := TASK_READY\<rparr>) k else k);
                   k2 = upd_tcb probe (\<lambda>t. t\<lparr>task_status := TASK_RUNNING, time_left := TIME_CONT\<rparr>) k1;
                   k3 = k2\<lparr>cur_tcb := probe\<rparr>
               in bindE (active_task (cur_tcb k3) k3) (\<lambda>k4. Inr (True, switch_to now probe k4))))"

text \<open>
  \<^verbatim>\<open>thread_block\<close> up to the point where the thread stops running, and the rest of it, which
  restores the interrupt flag and runs at once when no switch took place.
\<close>

definition thread_block :: "kernel \<Rightarrow> fault + (bool \<times> bool \<times> kernel)" where
  "thread_block k =
     (let now = get_running_progress k; (condition, k1) = cli_condition k;
          k2 = upd_tcb now (\<lambda>t. t\<lparr>task_status := TASK_BLOCKED\<rparr>) k1
      in bindE (schedule k2) (\<lambda>(switched, k3).
           Inr (switched, condition, if switched then k3 else sti_condition condition k3)))"

definition thread_wakeup :: "uint32 \<Rightarrow> kernel \<Rightarrow> kernel" where
  "thread_wakeup target_thread k =
     (let (condition, k1) = cli_condition k
      in sti_condition condition (upd_tcb target_thread (\<lambda>t. t\<lparr>task_status := TASK_READY\<rparr>) k1))"

partial_function (option) find_pred :: "(uint32 \<Rightarrow> uint32) \<Rightarrow> uint32 \<Rightarrow> uint32 \<Rightarrow> uint32 option" where
  "find_pred nx cur temp = (if nx temp = cur then Some temp else find_pred nx cur (nx temp))"

definition remove_thread :: "kernel \<Rightarrow> fault + kernel" where
  "remove_thread k0 =
     (let k = cli k0
      in if tid (tcb k (cur_tcb k)) = 0 then Inr k
         else bindE (loopE (find_pred (\<lambda>p. t_next (tcb k p)) (cur_tcb k) (cur_tcb k))) (\<lambda>temp.
                Inr (upd_tcb temp (\<lambda>t. t\<lparr>t_next := t_next (tcb k (cur_tcb k))\<rparr>) k)))"

definition exit :: "kernel \<Rightarrow> fault + kernel" where
  "exit k =
     bindE (remove_thread k) (\<lambda>k1.
       let now = cur_tcb k1; next_tcb = t_next (tcb k1 (cur_tcb k1));
           k2 = upd_tcb next_tcb (\<lambda>t. t\<lparr>time_left := TIME_CONT\<rparr>) k1;
           k3 = k2\<lparr>cur_tcb := t_next (tcb k2 (cur_tcb k2))\<rparr>
       in Inr (switch_to now next_tcb k3))"

section \<open>The clock interrupt\<close>

definition timer_server_func :: "kernel \<Rightarrow> fault + (bool \<times> kernel)" where
  "timer_server_func k =
     (if time_left (tcb k (cur_tcb k)) \<noteq> 0
      then Inr (False, upd_tcb (cur_tcb k) (\<lambda>t. t\<lparr>time_left := time_left t - 1, time_counter := time_counter t + 1\<rparr>) k)
      else schedule k)"

end
