(* ===== verification/ThreadsRing.thy ===== *)
theory ThreadsRing
  imports Threads
begin

text \<open>
  The ring of threads and the scheduler: round robin over the ready threads, bounded waiting,
  and what creation and removal do to the ring.
\<close>

section \<open>Rings\<close>

text \<open>\<open>path nx p xs q\<close>: following \<open>nx\<close> from \<open>p\<close> visits \<open>xs\<close> and arrives at \<open>q\<close>.\<close>

fun path :: "(uint32 \<Rightarrow> uint32) \<Rightarrow> uint32 \<Rightarrow> uint32 list \<Rightarrow> uint32 \<Rightarrow> bool" where
  "path nx p [] q \<longleftrightarrow> p = q"
| "path nx p (x # xs) q \<longleftrightarrow> p = x \<and> path nx (nx x) xs q"

definition ring :: "(uint32 \<Rightarrow> uint32) \<Rightarrow> uint32 \<Rightarrow> uint32 list \<Rightarrow> bool" where
  "ring nx c xs \<longleftrightarrow> path nx (nx c) xs c \<and> distinct (c # xs)"

lemma path_append: "path nx p (xs @ ys) q \<longleftrightarrow> (\<exists>r. path nx p xs r \<and> path nx r ys q)"
  by (induction xs arbitrary: p) auto

lemma path_cong: "(\<And>x. x \<in> set xs \<Longrightarrow> f x = g x) \<Longrightarrow> path f p xs q = path g p xs q"
  by (induction xs arbitrary: p) auto

text \<open>The same ring seen from another thread of it.\<close>

lemma ring_rotate:
  assumes "ring nx c (xs @ p # ys)"
  shows "ring nx p (ys @ c # xs)"
proof -
  have "path nx (nx c) xs p" "path nx (nx p) ys c"
    using assms by (auto simp: ring_def path_append)
  then show ?thesis using assms by (auto simp: ring_def path_append)
qed

lemma find_ready_path:
  "path nx (nx p) xs c \<Longrightarrow> c \<notin> set xs \<Longrightarrow>
     find_ready nx r c p = Some (case List.find r xs of Some q \<Rightarrow> q | None \<Rightarrow> c)"
proof (induction xs arbitrary: p)
  case Nil
  then show ?case by (simp add: find_ready.simps [of nx r c p])
next
  case (Cons x xs)
  then have "nx p = x" "x \<noteq> c" "path nx (nx x) xs c" by auto
  then show ?case using Cons by (simp add: find_ready.simps [of nx r c p])
qed

lemma find_ready_ring:
  "ring nx c xs \<Longrightarrow> find_ready nx r c c = Some (case List.find r xs of Some q \<Rightarrow> q | None \<Rightarrow> c)"
  by (rule find_ready_path) (auto simp: ring_def)

lemma find_pred_path:
  "path nx (nx p) xs c \<Longrightarrow> c \<notin> set xs \<Longrightarrow> find_pred nx c p = Some (last (p # xs))"
proof (induction xs arbitrary: p)
  case Nil
  then show ?case by (simp add: find_pred.simps [of nx c p])
next
  case (Cons x xs)
  then have "nx p = x" "x \<noteq> c" "path nx (nx x) xs c" by auto
  then show ?case using Cons by (simp add: find_pred.simps [of nx c p])
qed

section \<open>Well-formed thread systems\<close>

abbreviation nextt :: "kernel \<Rightarrow> uint32 \<Rightarrow> uint32" where
  "nextt k \<equiv> (\<lambda>p. t_next (tcb k p))"

abbreviation status :: "kernel \<Rightarrow> uint32 \<Rightarrow> task_status_t" where
  "status k p \<equiv> task_status (tcb k p)"

text \<open>
  \<open>threads_ok k xs\<close>: the threads form a ring with \<open>xs\<close> the ones after the current one, no
  stack has overflowed, all are kernel threads, and the current one alone is running.
\<close>

definition threads_ok :: "kernel \<Rightarrow> uint32 list \<Rightarrow> bool" where
  "threads_ok k xs \<longleftrightarrow> cur_tcb k \<noteq> 0 \<and> ring (nextt k) (cur_tcb k) xs \<and>
     (\<forall>p\<in>set (cur_tcb k # xs). check_kern_stack_overflow p k \<and> is_kern_thread (tcb k p) \<and> p \<noteq> 0) \<and>
     status k (cur_tcb k) = TASK_RUNNING \<and> (\<forall>p\<in>set xs. status k p \<noteq> TASK_RUNNING)"

lemma upd_tcb_tcb [simp]: "tcb (upd_tcb p f k) = (tcb k)(p := f (tcb k p))"
  by (simp add: upd_tcb_def)

lemma upd_tcb_cur [simp]: "cur_tcb (upd_tcb p f k) = cur_tcb k"
  by (simp add: upd_tcb_def)

lemma switch_to_frame [simp]:
  "cur_tcb (switch_to a b k) = cur_tcb k" "t_next (tcb (switch_to a b k) p) = t_next (tcb k p)"
  "task_status (tcb (switch_to a b k) p) = task_status (tcb k p)"
  "tcb_magic_number (tcb (switch_to a b k) p) = tcb_magic_number (tcb k p)"
  "is_kern_thread (tcb (switch_to a b k) p) = is_kern_thread (tcb k p)"
  "time_left (tcb (switch_to a b k) p) = time_left (tcb k p)" "tid (tcb (switch_to a b k) p) = tid (tcb k p)"
  by (simp_all add: switch_to_def Let_def outb_def)

lemma switch_to_loads:
  assumes "b \<noteq> a"
  shows "regs (switch_to a b k) = t_context (tcb k b)" "int_flag (switch_to a b k) = bit (c_eflags (t_context (tcb k b))) 9"
  using assms by (simp_all add: switch_to_def Let_def outb_def)

lemma active_task_kern: "is_kern_thread (tcb k p) \<Longrightarrow> active_task p k = Inr (k\<lparr>cr3 := kern_dir_table_paddr k\<rparr>)"
  by (simp add: active_task_def active_pdt_def)

text \<open>The thread that runs next: the first ready one of the ring, else the current one.\<close>

definition next_thread :: "kernel \<Rightarrow> uint32 list \<Rightarrow> uint32" where
  "next_thread k xs = (case List.find (\<lambda>p. status k p = TASK_READY) xs of Some p \<Rightarrow> p | None \<Rightarrow> cur_tcb k)"

lemma find_split:
  assumes "List.find P xs = Some p"
  obtains ys zs where "xs = ys @ p # zs" "P p" "\<forall>y\<in>set ys. \<not> P y"
proof -
  obtain i where i: "i < length xs" "P (xs ! i)" "p = xs ! i" "\<forall>j<i. \<not> P (xs ! j)"
    using assms by (auto simp: find_Some_iff)
  have "xs = take i xs @ p # drop (Suc i) xs" using i(1,3) id_take_nth_drop by blast
  moreover have "\<forall>y\<in>set (take i xs). \<not> P y" using i(1,4) by (auto simp: in_set_conv_nth)
  ultimately show ?thesis using that i(2,3) by blast
qed

text \<open>The state after a call of \<^verbatim>\<open>schedule\<close>, whatever the state of the current thread.\<close>

lemma schedule_to:
  assumes ring: "ring (nextt k) (cur_tcb k) xs" and c0: "cur_tcb k \<noteq> 0"
    and mg: "check_kern_stack_overflow (cur_tcb k) k" and f: "List.find (\<lambda>p. status k p = TASK_READY) xs = Some p"
    and pk: "is_kern_thread (tcb k p)"
  shows "\<exists>k'. schedule k = Inr (True, k') \<and> cur_tcb k' = p \<and> nextt k' = nextt k \<and> time_left (tcb k' p) = TIME_CONT \<and>
    regs k' = t_context (tcb k p) \<and> int_flag k' = bit (c_eflags (t_context (tcb k p))) 9 \<and>
    (\<forall>q. check_kern_stack_overflow q k' = check_kern_stack_overflow q k \<and> is_kern_thread (tcb k' q) = is_kern_thread (tcb k q)) \<and>
    (\<forall>q. q \<noteq> cur_tcb k \<longrightarrow> t_context (tcb k' q) = t_context (tcb k q)) \<and>
    (\<forall>q. status k' q = (if q = p then TASK_RUNNING
       else if q = cur_tcb k \<and> status k q = TASK_RUNNING then TASK_READY else status k q))"
proof -
  let ?c = "cur_tcb k"
  have "p \<in> set xs" using f by (rule find_split) simp
  then have pc: "p \<noteq> ?c" using ring by (auto simp: ring_def)
  define k1 where "k1 = (if status k ?c = TASK_RUNNING then upd_tcb ?c (\<lambda>t. t\<lparr>task_status := TASK_READY\<rparr>) k else k)"
  define k3 where "k3 = (upd_tcb p (\<lambda>t. t\<lparr>task_status := TASK_RUNNING, time_left := TIME_CONT\<rparr>) k1)\<lparr>cur_tcb := p\<rparr>"
  define k' where "k' = switch_to ?c p (k3\<lparr>cr3 := kern_dir_table_paddr k3\<rparr>)"
  have "active_task p k3 = Inr (k3\<lparr>cr3 := kern_dir_table_paddr k3\<rparr>)"
    using pk pc by (intro active_task_kern) (simp add: k3_def k1_def)
  moreover have "find_ready (nextt k) (\<lambda>p. status k p = TASK_READY) ?c ?c = Some p"
    using find_ready_ring [OF ring, of "\<lambda>p. status k p = TASK_READY"] f by simp
  moreover have "cur_tcb k3 = p" by (simp add: k3_def)
  ultimately have sch: "schedule k = Inr (True, k')"
    using c0 mg pc unfolding k'_def
    by (simp only: schedule_def get_running_progress_def Let_def loopE_Some bindE_Inr if_True if_False not_True_eq_False
        simp_thms flip: k1_def k3_def)
  have nx: "nextt k' = nextt k" by (rule ext) (simp add: k'_def k3_def k1_def)
  have st: "status k' q = (if q = p then TASK_RUNNING
      else if q = ?c \<and> status k q = TASK_RUNNING then TASK_READY else status k q)" for q
    using pc by (auto simp: k'_def k3_def k1_def)
  have fr: "check_kern_stack_overflow q k' = check_kern_stack_overflow q k"
    "is_kern_thread (tcb k' q) = is_kern_thread (tcb k q)" for q
    by (simp_all add: k'_def k3_def k1_def check_kern_stack_overflow_def)
  have cx: "\<forall>q. q \<noteq> ?c \<longrightarrow> t_context (tcb k' q) = t_context (tcb k q)"
    by (simp add: k'_def k3_def k1_def switch_to_def Let_def outb_def)
  have "cur_tcb k' = p" "time_left (tcb k' p) = TIME_CONT" by (simp_all add: k'_def k3_def)
  moreover have "t_context (tcb k3 p) = t_context (tcb k p)" using pc by (simp add: k3_def k1_def)
  then have "regs k' = t_context (tcb k p)" "int_flag k' = bit (c_eflags (t_context (tcb k p))) 9"
    using switch_to_loads [of p ?c "k3\<lparr>cr3 := kern_dir_table_paddr k3\<rparr>"] pc by (simp_all add: k'_def)
  ultimately show ?thesis using sch nx st fr cx by blast
qed

lemma schedule_stays:
  assumes ring: "ring (nextt k) (cur_tcb k) xs" and c0: "cur_tcb k \<noteq> 0"
    and mg: "check_kern_stack_overflow (cur_tcb k) k" and f: "List.find (\<lambda>p. status k p = TASK_READY) xs = None"
  shows "schedule k = Inr (False, run_again k)"
  using find_ready_ring [OF ring, of "\<lambda>p. status k p = TASK_READY"] f c0 mg
  by (simp add: schedule_def get_running_progress_def)

lemma schedule_switch:
  assumes ok: "threads_ok k xs" and f: "List.find (\<lambda>p. status k p = TASK_READY) xs = Some p"
    and xs: "xs = ys @ p # zs"
  shows "\<exists>k'. schedule k = Inr (True, k') \<and> cur_tcb k' = p \<and> threads_ok k' (zs @ cur_tcb k # ys) \<and>
    status k' (cur_tcb k) = TASK_READY \<and> time_left (tcb k' p) = TIME_CONT \<and>
    regs k' = t_context (tcb k p) \<and> int_flag k' = bit (c_eflags (t_context (tcb k p))) 9 \<and>
    (\<forall>q. q \<noteq> cur_tcb k \<longrightarrow> t_context (tcb k' q) = t_context (tcb k q)) \<and>
    (\<forall>q. q \<noteq> p \<longrightarrow> q \<noteq> cur_tcb k \<longrightarrow> status k' q = status k q)"
proof -
  let ?c = "cur_tcb k"
  have ring: "ring (nextt k) ?c xs" and run: "status k ?c = TASK_RUNNING" and c0: "?c \<noteq> 0"
    and mg: "check_kern_stack_overflow ?c k" and pk: "is_kern_thread (tcb k p)"
    using ok xs by (auto simp: threads_ok_def)
  have pc: "p \<noteq> ?c" using ring xs by (auto simp: ring_def)
  obtain k' where k': "schedule k = Inr (True, k')" "cur_tcb k' = p" "nextt k' = nextt k" "time_left (tcb k' p) = TIME_CONT"
    "regs k' = t_context (tcb k p)" "int_flag k' = bit (c_eflags (t_context (tcb k p))) 9"
    "\<And>q. check_kern_stack_overflow q k' = check_kern_stack_overflow q k"
    "\<And>q. is_kern_thread (tcb k' q) = is_kern_thread (tcb k q)"
    "\<And>q. status k' q = (if q = p then TASK_RUNNING
       else if q = ?c \<and> status k q = TASK_RUNNING then TASK_READY else status k q)"
    "\<forall>q. q \<noteq> ?c \<longrightarrow> t_context (tcb k' q) = t_context (tcb k q)"
    using schedule_to [OF ring c0 mg f pk] by blast
  have "ring (nextt k') p (zs @ ?c # ys)" unfolding k'(3) using ring unfolding xs by (rule ring_rotate)
  then have "threads_ok k' (zs @ ?c # ys)"
    using ok xs unfolding threads_ok_def k'(2,7,8,9) by (auto simp: ring_def)
  then show ?thesis using k'(1,2,4,5,6,9,10) pc run by auto
qed

lemma schedule_alone:
  assumes ok: "threads_ok k xs" and f: "List.find (\<lambda>p. status k p = TASK_READY) xs = None"
  shows "schedule k = Inr (False, upd_tcb (cur_tcb k) (\<lambda>t. t\<lparr>time_left := TIME_CONT\<rparr>) k)"
  using schedule_stays [of k xs] ok f by (auto simp: threads_ok_def run_again_def)

lemma find_first:
  "P p \<Longrightarrow> \<forall>y\<in>set ys. \<not> P y \<Longrightarrow> List.find P (ys @ p # zs) = Some p"
  by (induction ys) auto

end
