(* ===== verification/VmmWindow.thy ===== *)
theory VmmWindow
  imports Vmm
begin

text \<open>
  The recursive page table window. When the last directory entry points to the directory,
  \<open>get_pte v\<close> and \<open>get_pde v\<close> are virtual addresses of the entries that map \<open>v\<close>, and
  32-bit accesses through them read and write exactly those entries.
\<close>

section \<open>Bit fields of a virtual address\<close>

lemma page_base_bit [simp]: "bit (page_base v) n \<longleftrightarrow> 12 \<le> n \<and> bit v n"
  unfolding page_base_def page_mask_eq by (auto simp: bit_simps dest: bit_imp_le_length)

lemma masks:
  "(0x3FF :: uint32) = mask 10" "(0xFFF :: uint32) = mask 12" "(0x003FF000 :: uint32) = push_bit 12 (mask 10)"
  "(0xFFC00000 :: uint32) = push_bit 22 (mask 10)"
  by (simp_all add: mask_eq_decr_exp push_bit_eq_mult)

lemma and_low: "unat ((x :: uint32) AND 0xFFF) = unat x mod 4096" "unat (x AND 0x3FF) = unat x mod 1024"
proof -
  show "unat (x AND 0xFFF) = unat x mod 4096"
    unfolding masks take_bit_eq_mask [symmetric] unsigned_take_bit_eq by (simp add: take_bit_eq_mod)
  show "unat (x AND 0x3FF) = unat x mod 1024"
    unfolding masks take_bit_eq_mask [symmetric] unsigned_take_bit_eq by (simp add: take_bit_eq_mod)
qed

lemma times4: "(x :: uint32) * 4 = push_bit 2 x"
  by (simp add: push_bit_eq_mult)

lemma high10_bits: "bit (push_bit 22 0x3FF :: uint32) n \<longleftrightarrow> 22 \<le> n \<and> n < 32"
proof -
  have "bit (push_bit 22 (mask 10) :: uint32) n \<longleftrightarrow> 22 \<le> n \<and> n < 32" by (auto simp: bit_simps)
  then show ?thesis by (simp only: masks)
qed

lemma get_pte_bits: "bit (get_pte v) n \<longleftrightarrow>
    22 \<le> n \<and> n < 32 \<or> 12 \<le> n \<and> n < 22 \<and> bit v (n + 10) \<or> 2 \<le> n \<and> n < 12 \<and> bit v (n + 10)"
proof -
  have m: "bit (drop_bit 10 (page_base v) AND 0x003FF000) n \<longleftrightarrow> 12 \<le> n \<and> n < 22 \<and> bit v (n + 10)"
    unfolding masks by (auto simp: bit_simps add.commute)
  have "bit (((drop_bit 12 (page_base v) AND 0x3FF) * 4) AND 0xFFF) n \<longleftrightarrow> 2 \<le> n \<and> n < 12 \<and> bit v (n + 10)"
    unfolding masks times4 by (auto simp: bit_simps add.commute)
  then show ?thesis unfolding get_pte_def Let_def by (simp only: bit_or_iff high10_bits m disj_assoc)
qed

lemma get_pde_bits: "bit (get_pde v) n \<longleftrightarrow> 12 \<le> n \<and> n < 32 \<or> 2 \<le> n \<and> n < 12 \<and> bit v (n + 20)"
proof -
  have m: "bit (0x003FF000 :: uint32) n \<longleftrightarrow> 12 \<le> n \<and> n < 22" unfolding masks by (auto simp: bit_simps)
  have l: "bit (((drop_bit 22 (page_base v) AND 0x3FF) * 4) AND 0xFFF) n \<longleftrightarrow> 2 \<le> n \<and> n < 12 \<and> bit v (n + 20)"
    unfolding masks times4 by (auto simp: bit_simps add.commute)
  show ?thesis unfolding get_pde_def Let_def bit_or_iff high10_bits m l by auto
qed

lemma get_pte_fields:
  "drop_bit 22 (get_pte v) = 0x3FF" "drop_bit 12 (get_pte v) AND 0x3FF = drop_bit 22 v"
  "get_pte v AND 0xFFF = (drop_bit 12 v AND 0x3FF) * 4"
  unfolding masks times4
  by (rule bit_word_eqI; auto simp: bit_simps get_pte_bits add.commute dest: bit_imp_le_length)+

lemma get_pde_fields:
  "drop_bit 22 (get_pde v) = 0x3FF" "drop_bit 12 (get_pde v) AND 0x3FF = 0x3FF"
  "get_pde v AND 0xFFF = drop_bit 22 v * 4"
  unfolding masks times4
  by (rule bit_word_eqI; auto simp: bit_simps get_pde_bits add.commute dest: bit_imp_le_length)+

section \<open>Offsets within a page\<close>

lemma page_or_add: "y AND 0xFFF = y \<Longrightarrow> page_base p OR y = page_base p + (y :: uint32)"
proof -
  assume y: "y AND 0xFFF = y"
  have "page_base p AND y = 0"
  proof (rule bit_word_eqI)
    fix n
    have "\<not> bit y n" if "12 \<le> n"
      using y that bit_and_iff [of y "0xFFF" n] unfolding masks by (auto simp: bit_simps)
    then show "bit (page_base p AND y) n = bit 0 n" by (auto simp: bit_simps)
  qed
  then show ?thesis by (simp add: disjunctive_add_eq_or)
qed

lemma idx4_low: "((x :: uint32) AND 0x3FF) * 4 AND 0xFFF = (x AND 0x3FF) * 4"
  unfolding masks times4 by (rule bit_word_eqI) (auto simp: bit_simps)

lemma dir_idx: "drop_bit 22 (v :: uint32) AND 0x3FF = drop_bit 22 v"
  unfolding masks by (rule bit_word_eqI) (auto simp: bit_simps dest: bit_imp_le_length)

lemma aligned4_bits: "aligned4 w \<longleftrightarrow> \<not> bit w 0 \<and> \<not> bit w 1"
proof -
  have "aligned4 w \<longleftrightarrow> take_bit 2 (unat w) = 0"
    by (simp add: aligned4_def take_bit_eq_mod)
  also have "\<dots> \<longleftrightarrow> (\<forall>n<2. \<not> bit (unat w) n)"
    by (auto simp: bit_eq_iff bit_simps)
  also have "\<dots> \<longleftrightarrow> \<not> bit w 0 \<and> \<not> bit w 1"
    by (auto simp: bit_simps less_Suc_eq numeral_2_eq_2)
  finally show ?thesis .
qed

lemma aligned_entries [simp]:
  "aligned4 (get_pte v)" "aligned4 (get_pde v)" "aligned4 (page_base p + (x AND 0x3FF) * 4)"
  "aligned4 (page_base p + drop_bit 22 (v :: uint32) * 4)"
proof -
  show a: "aligned4 (page_base p + (x AND 0x3FF) * 4)" for x
    unfolding page_or_add [OF idx4_low, symmetric]
    unfolding aligned4_bits times4 by (auto simp: bit_simps)
  show "aligned4 (page_base p + drop_bit 22 v * 4)" using a [of "drop_bit 22 v"] by (simp only: dir_idx)
qed (auto simp: aligned4_bits get_pte_bits get_pde_bits)

lemma small_bits:
  assumes "(i :: uint32) < 4" "bit i n" shows "n < 2"
proof -
  have "i mod 4 = i" using assms(1) by (simp add: word_unat_eq_iff unat_mod word_less_nat_alt)
  then have "take_bit 2 i = i" by (simp add: take_bit_eq_mod)
  then show ?thesis using assms(2) by (metis bit_take_bit_iff)
qed

lemma aligned_add_or:
  assumes "aligned4 w" "(i :: uint32) < 4" shows "w + i = w OR i"
proof -
  have "w AND i = 0"
    using assms small_bits [OF assms(2)] unfolding aligned4_bits
    by (intro bit_word_eqI) (auto simp: bit_simps less_2_cases_iff dest: small_bits)
  then show ?thesis by (simp add: disjunctive_add_eq_or)
qed

lemma aligned_fields:
  assumes "aligned4 w" "(i :: uint32) < 4"
  shows "drop_bit 22 (w + i) = drop_bit 22 w" "drop_bit 12 (w + i) = drop_bit 12 w"
    "(w + i) AND 0xFFF = (w AND 0xFFF) OR i"
  unfolding aligned_add_or [OF assms] masks using small_bits [OF assms(2)]
  by (intro bit_word_eqI; auto simp: bit_simps; fastforce)+

section \<open>Translation\<close>

definition pde_of :: "'a machine_scheme \<Rightarrow> uint32 \<Rightarrow> uint32" where
  "pde_of k v = ld32p (pmem k) (pde_paddr k v)"

definition pte_of :: "'a machine_scheme \<Rightarrow> uint32 \<Rightarrow> uint32" where
  "pte_of k v = ld32p (pmem k) (pte_paddr (pde_of k v) v)"

lemma translate_eq:
  "translate k v = (if bit (pde_of k v) 0 \<and> bit (pte_of k v) 0
     then Some (page_base (pte_of k v) OR (v AND 0xFFF)) else None)"
  by (simp add: translate_def pde_of_def pte_of_def Let_def)

lemma translate_offset:
  assumes "aligned4 w" "(i :: uint32) < 4" "translate k w = Some p"
  shows "translate k (w + i) = Some (p + i)" "aligned4 p"
proof -
  have same: "pde_of k (w + i) = pde_of k w" "pte_of k (w + i) = pte_of k w"
    by (simp_all add: pde_of_def pte_of_def pde_paddr_def pte_paddr_def aligned_fields [OF assms(1,2)])
  have p: "p = page_base (pte_of k w) OR (w AND 0xFFF)" and pres: "bit (pde_of k w) 0" "bit (pte_of k w) 0"
    using assms(3) by (auto simp: translate_eq split: if_splits)
  show al: "aligned4 p" using assms(1) unfolding p aligned4_bits by (auto simp: bit_simps)
  show "translate k (w + i) = Some (p + i)"
    unfolding translate_eq same aligned_fields [OF assms(1,2)] aligned_add_or [OF al assms(2)]
    using pres p by (simp add: or.assoc)
qed

lemma access32:
  assumes "aligned4 w" "translate k w = Some p"
  shows "load32 w k = Inr (ld32p (pmem k) p)" "store32 w x k = Inr (k\<lparr>pmem := st32p (pmem k) p x\<rparr>)" "aligned4 p"
proof -
  have t: "translate k (w + 1) = Some (p + 1)" "translate k (w + 2) = Some (p + 2)" "translate k (w + 3) = Some (p + 3)"
    using translate_offset(1) [OF assms(1) _ assms(2)] by simp_all
  show "load32 w k = Inr (ld32p (pmem k) p)"
    by (simp add: load32_def load8_Some [OF assms(2)] load8_Some [OF t(1)] load8_Some [OF t(2)] load8_Some [OF t(3)] ld32p_def)
  show "store32 w x k = Inr (k\<lparr>pmem := st32p (pmem k) p x\<rparr>)"
    by (simp add: store32_def trE_def assms(2) t st32p_def)
  show "aligned4 p" using translate_offset(2) [OF assms(1) _ assms(2), of 0] by simp
qed

section \<open>The window\<close>

definition self_mapped :: "'a machine_scheme \<Rightarrow> bool" where
  "self_mapped k \<longleftrightarrow> (let e = ld32p (pmem k) (page_base (cr3 k) + 4092)
     in bit e 0 \<and> page_base e = page_base (cr3 k))"

lemma translate_get_pde:
  assumes "self_mapped k"
  shows "translate k (get_pde v) = Some (pde_paddr k v)"
proof -
  let ?e = "ld32p (pmem k) (page_base (cr3 k) + 4092)"
  have e: "bit ?e 0" "page_base ?e = page_base (cr3 k)" using assms by (simp_all add: self_mapped_def Let_def)
  have 1: "pde_of k (get_pde v) = ?e" by (simp add: pde_of_def pde_paddr_def get_pde_fields)
  have 2: "pte_of k (get_pde v) = ?e" by (simp add: pte_of_def pte_paddr_def get_pde_fields 1 e)
  have "page_base (cr3 k) OR drop_bit 22 v * 4 = page_base (cr3 k) + drop_bit 22 v * 4"
    using idx4_low [of "drop_bit 22 v"] by (intro page_or_add) (simp only: dir_idx)
  then show ?thesis by (simp add: translate_eq 1 2 e get_pde_fields pde_paddr_def)
qed

lemma translate_get_pte:
  assumes "self_mapped k" "bit (pde_of k v) 0"
  shows "translate k (get_pte v) = Some (pte_paddr (pde_of k v) v)"
proof -
  let ?e = "ld32p (pmem k) (page_base (cr3 k) + 4092)"
  have e: "bit ?e 0" "page_base ?e = page_base (cr3 k)" using assms(1) by (simp_all add: self_mapped_def Let_def)
  have 1: "pde_of k (get_pte v) = ?e" by (simp add: pde_of_def pde_paddr_def get_pte_fields)
  have 2: "pte_of k (get_pte v) = pde_of k v"
    by (simp add: pte_of_def pte_paddr_def get_pte_fields 1 e pde_of_def pde_paddr_def)
  show ?thesis
    by (simp add: translate_eq 1 2 e assms(2) get_pte_fields pte_paddr_def page_or_add [OF idx4_low])
qed

lemma access_pde:
  assumes "self_mapped k"
  shows "load32 (get_pde v) k = Inr (pde_of k v)"
    "store32 (get_pde v) x k = Inr (k\<lparr>pmem := st32p (pmem k) (pde_paddr k v) x\<rparr>)"
  using access32 [OF aligned_entries(2) translate_get_pde [OF assms]] by (simp_all add: pde_of_def)

lemma access_pte:
  assumes "self_mapped k" "bit (pde_of k v) 0"
  shows "load32 (get_pte v) k = Inr (pte_of k v)"
    "store32 (get_pte v) x k = Inr (k\<lparr>pmem := st32p (pmem k) (pte_paddr (pde_of k v) v) x\<rparr>)"
  using access32 [OF aligned_entries(1) translate_get_pte [OF assms]] by (simp_all add: pte_of_def)

text \<open>The test of the P bit in the source is always true where it does not fault.\<close>

lemma or_one_nonzero: "(x OR (1 :: uint32)) \<noteq> 0"
proof
  assume "x OR 1 = 0"
  then have "bit (x OR 1) 0 = bit (0 :: uint32) 0" by simp
  then show False by (simp add: bit_simps)
qed

lemma test_p_bit_eq: "load32 ptr k = Inr d \<Longrightarrow> test_p_bit ptr k = Inr True"
  by (simp add: test_p_bit_def or_one_nonzero)

end
