(* ===== verification/VmmSpace.thy ===== *)
theory VmmSpace
  imports VmmWindow
begin

text \<open>
  The kernel address space as an invariant, and how it changes when one page table entry or
  one byte of the bitmap is written.
\<close>

section \<open>Entries and frames\<close>

text \<open>A physical byte \<open>x\<close> lies in the page frame \<open>page_base p\<close> when \<open>page_base x = page_base p\<close>.\<close>

lemma page_base_low: "y AND 0xFFF = y \<Longrightarrow> page_base (page_base p + y) = page_base p"
proof -
  assume y: "y AND 0xFFF = y"
  have "bit (y AND 0xFFF) n \<Longrightarrow> n < 12" for n unfolding masks by (auto simp: bit_simps)
  then have "\<not> bit y n" if "12 \<le> n" for n using y that by (metis not_le)
  then show ?thesis
    unfolding page_or_add [OF y, symmetric] by (intro bit_word_eqI) (auto simp: bit_simps)
qed

lemma low_add:
  assumes "aligned4 y" "y AND 0xFFF = y" "(i :: uint32) < 4" shows "(y + i) AND 0xFFF = y + i"
proof -
  have "(y OR i) AND 0xFFF = y OR i"
  proof (rule bit_word_eqI)
    fix n
    have "bit (y AND 0xFFF) n \<Longrightarrow> n < 12" unfolding masks by (auto simp: bit_simps)
    then have "bit y n \<Longrightarrow> n < 12" using assms(2) by simp
    moreover have "bit i n \<Longrightarrow> n < 12" using small_bits [OF assms(3)] by fastforce
    ultimately show "bit ((y OR i) AND 0xFFF) n = bit (y OR i) n"
      unfolding masks by (auto simp: bit_simps)
  qed
  then show ?thesis using aligned_add_or [OF assms(1,3)] by simp
qed

lemma entry_frame:
  assumes "(i :: nat) < 4"
  shows "page_base (page_base p + (x AND 0x3FF) * 4 + of_nat i) = page_base p"
proof -
  have a: "aligned4 ((x AND 0x3FF) * 4)" unfolding aligned4_bits times4 by (auto simp: bit_simps)
  have i: "(of_nat i :: uint32) < 4" using assms by (simp add: word_less_nat_alt unat_of_nat_32)
  have "page_base (page_base p + ((x AND 0x3FF) * 4 + of_nat i)) = page_base p"
    by (rule page_base_low) (rule low_add [OF a idx4_low i])
  then show ?thesis by (simp add: add.assoc)
qed

lemma ld32p_frame:
  assumes "\<And>y. page_base y = page_base p \<Longrightarrow> h y = g y"
  shows "ld32p h (page_base p + (x AND 0x3FF) * 4) = ld32p g (page_base p + (x AND 0x3FF) * 4)"
  using assms entry_frame [of _ p x] by (intro ld32p_cong) blast

lemma entry_neq_frame:
  assumes "page_base p \<noteq> page_base q"
  shows "page_base p + (x AND 0x3FF) * 4 \<noteq> page_base q + (y AND 0x3FF) * 4"
  using assms entry_frame [of 0 p x] entry_frame [of 0 q y] by auto

lemma entry_neq_index:
  assumes "x AND 0x3FF \<noteq> y AND 0x3FF"
  shows "page_base p + (x AND 0x3FF) * 4 \<noteq> page_base p + (y AND 0x3FF) * 4"
proof
  assume "page_base p + (x AND 0x3FF) * 4 = page_base p + (y AND 0x3FF) * 4"
  then have eq: "(x AND 0x3FF) * 4 = (y AND 0x3FF) * 4" by simp
  have "drop_bit 2 ((z AND 0x3FF) * 4) = z AND 0x3FF" for z :: uint32
    unfolding masks times4 by (rule bit_word_eqI) (auto simp: bit_simps)
  then show False using assms eq by metis
qed

lemma pde_paddr_mask: "pde_paddr k v = page_base (cr3 k) + (drop_bit 22 v AND 0x3FF) * 4"
  by (simp add: pde_paddr_def dir_idx)

lemma same_page:
  assumes "drop_bit 22 v = drop_bit 22 w" "drop_bit 12 v AND 0x3FF = drop_bit 12 w AND (0x3FF :: uint32)"
  shows "page_base v = page_base w"
proof (rule bit_word_eqI)
  fix n
  have "bit v n = bit w n" if "22 \<le> n" for n
    using that arg_cong [OF assms(1), of "\<lambda>x. bit x (n - 22)"] by (simp add: bit_simps)
  moreover have "bit v n = bit w n" if "12 \<le> n" "n < 22" for n
    using that arg_cong [OF assms(2), of "\<lambda>x. bit x (n - 12)"] unfolding masks by (auto simp: bit_simps)
  ultimately show "bit (page_base v) n = bit (page_base w) n" by (meson not_le page_base_bit)
qed

lemma page_fields: "page_base v = page_base w \<Longrightarrow> drop_bit 22 v = drop_bit 22 w \<and> drop_bit 12 v = drop_bit 12 w"
proof -
  assume eq: "page_base v = page_base w"
  have "bit v n = bit w n" if "12 \<le> n" for n
    using arg_cong [OF eq, of "\<lambda>x. bit x n"] that by simp
  then show ?thesis by (auto intro!: bit_word_eqI simp: bit_simps)
qed

section \<open>Addresses that share an entry\<close>

text \<open>
  \<^verbatim>\<open>boot.s\<close> gives the 255 directory entries of the kernel only 16 page tables: the product \<^verbatim>\<open>4096*cx\<close> that selects the table
  is cut to 16 bits (see \<open>BootTables\<close>). Kernel addresses below the window that differ by a multiple of 64 MB use the same
  page table entry. \<open>prim v\<close> is the lowest of them; every other address is its own.
\<close>

definition prim :: "uint32 \<Rightarrow> uint32" where
  "prim v = (if 0xC0000000 \<le> v \<and> v < 0xFFC00000 then 0xC0000000 OR (v AND 0x03FFFFFF) else v)"

lemma prim_own [simp]: "v < 0xC0000000 \<Longrightarrow> prim v = v" "0xFFC00000 \<le> v \<Longrightarrow> prim v = v"
  by (auto simp: prim_def dest: leD)

lemma prim_masks: "(0x03FFFFFF :: uint32) = mask 26" "(0xC0000000 :: uint32) = push_bit 30 (mask 2)"
  by (simp_all add: mask_eq_decr_exp push_bit_eq_mult)

lemma prim_bits:
  "bit (prim v) n \<longleftrightarrow> (if 0xC0000000 \<le> v \<and> v < 0xFFC00000 then 30 \<le> n \<and> n < 32 \<or> n < 26 \<and> bit v n else bit v n)"
proof (cases "0xC0000000 \<le> v \<and> v < 0xFFC00000")
  case True
  have "bit (push_bit 30 (mask 2) OR (v AND mask 26)) n \<longleftrightarrow> 30 \<le> n \<and> n < 32 \<or> n < 26 \<and> bit v n" by (auto simp: bit_simps)
  moreover have "prim v = push_bit 30 (mask 2) OR (v AND mask 26)"
    using True unfolding prim_masks [symmetric] by (simp add: prim_def)
  ultimately show ?thesis using True by simp
next
  case False
  then have "prim v = v" unfolding prim_def by (rule if_not_P)
  then show ?thesis using False by (simp only: if_False)
qed

lemma prim_low [simp]: "prim v AND 0xFFF = v AND 0xFFF" "drop_bit 12 (prim v) AND 0x3FF = drop_bit 12 v AND 0x3FF"
  unfolding masks by (rule bit_word_eqI; auto simp: bit_simps prim_bits)+

lemma unat_prim: "0xC0000000 \<le> v \<Longrightarrow> v < 0xFFC00000 \<Longrightarrow> unat (prim v) = 0xC0000000 + unat v mod 0x4000000"
proof -
  assume v: "0xC0000000 \<le> v" "v < 0xFFC00000"
  have m: "unat (v AND 0x03FFFFFF) = unat v mod 0x4000000"
    unfolding prim_masks take_bit_eq_mask [symmetric] unsigned_take_bit_eq by (simp add: take_bit_eq_mod)
  have "(push_bit 30 (mask 2) :: uint32) AND (v AND mask 26) = 0" by (rule bit_word_eqI) (auto simp: bit_simps)
  then have "0xC0000000 AND (v AND 0x03FFFFFF) = 0" by (simp only: prim_masks)
  then have "prim v = 0xC0000000 + (v AND 0x03FFFFFF)" using v by (simp add: prim_def disjunctive_add_eq_or)
  moreover have "unat v mod 0x4000000 < 0x4000000" by simp
  ultimately show ?thesis using m by (simp add: unat_word_ariths)
qed

lemma prim_kernel: "0xC0000000 \<le> v \<Longrightarrow> v < 0xC4000000 \<Longrightarrow> prim v = v"
proof -
  assume v: "0xC0000000 \<le> v" "v < 0xC4000000"
  then have u: "0xC0000000 \<le> unat v" "unat v < 0xC4000000" by (simp_all add: word_le_nat_alt word_less_nat_alt)
  then have "unat v mod 0x4000000 = unat v - 0xC0000000" by (intro mod_nat_eqI) simp_all
  moreover have "v < 0xFFC00000" using v(2) by (simp add: word_less_nat_alt)
  ultimately show ?thesis using unat_prim [OF v(1)] u(1) by (simp add: word_unat_eq_iff)
qed

lemma prim_range: "0xC0000000 \<le> v \<Longrightarrow> v < 0xFFC00000 \<Longrightarrow> 0xC0000000 \<le> prim v \<and> prim v < 0xC4000000"
  using unat_prim [of v] mod_less_divisor [of "0x4000000" "unat v"] by (simp add: word_le_nat_alt word_less_nat_alt)

lemma prim_idem [simp]: "prim (prim v) = prim v"
  using prim_range [of v] prim_kernel [of "prim v"] by (cases "0xC0000000 \<le> v \<and> v < 0xFFC00000") (auto simp: prim_def)

lemma prim_high: "0xC0000000 \<le> prim v \<longleftrightarrow> 0xC0000000 \<le> v"
  using prim_range [of v] by (cases "0xC0000000 \<le> v \<and> v < 0xFFC00000") (auto simp: prim_def)

lemma window_addr: "drop_bit 22 v = 0x3FF \<longleftrightarrow> 0xFFC00000 \<le> (v :: uint32)"
proof -
  have i: "unat (drop_bit 22 v) = unat v div 4194304" by (simp add: drop_bit_eq_div unat_div)
  have l: "unat v div 4194304 < 1024" using unat_lt_32 [of v] by (simp add: div_less_iff_less_mult)
  have "1023 \<le> unat v div 4194304 \<longleftrightarrow> 0xFFC00000 \<le> unat v" using less_eq_div_iff_mult_less_eq [of 4194304 1023 "unat v"] by simp
  then have "unat v div 4194304 = 1023 \<longleftrightarrow> 0xFFC00000 \<le> unat v" using l by linarith
  then show ?thesis by (simp add: word_unat_eq_iff i word_le_nat_alt)
qed

lemma prim_window [simp]: "drop_bit 22 (prim v) = 0x3FF \<longleftrightarrow> drop_bit 22 v = 0x3FF" "drop_bit 22 v = 0x3FF \<Longrightarrow> prim v = v"
proof -
  show w: "drop_bit 22 v = 0x3FF \<Longrightarrow> prim v = v" by (simp add: window_addr)
  show "drop_bit 22 (prim v) = 0x3FF \<longleftrightarrow> drop_bit 22 v = 0x3FF"
  proof (cases "0xC0000000 \<le> v \<and> v < 0xFFC00000")
    case True
    then have "prim v < 0xC4000000" using prim_range by blast
    then show ?thesis using True by (simp add: window_addr word_le_nat_alt word_less_nat_alt)
  qed (auto simp: prim_def)
qed

lemma dir_high: "0xC0000000 \<le> (v :: uint32) \<longleftrightarrow> 768 \<le> unat (drop_bit 22 v)"
proof -
  have i: "unat (drop_bit 22 v) = unat v div 4194304" by (simp add: drop_bit_eq_div unat_div)
  have "768 \<le> unat v div 4194304 \<longleftrightarrow> 0xC0000000 \<le> unat v" using less_eq_div_iff_mult_less_eq [of 4194304 768 "unat v"] by simp
  then show ?thesis unfolding i by (simp add: word_le_nat_alt)
qed

lemma prim_index:
  "unat (drop_bit 22 (prim v)) = (let d = unat (drop_bit 22 v) in if 768 \<le> d \<and> d \<noteq> 1023 then 768 + (d - 768) mod 16 else d)"
proof (cases "0xC0000000 \<le> v \<and> v < 0xFFC00000")
  case True
  let ?d = "unat v div 4194304"
  have i: "unat (drop_bit 22 x) = unat x div 4194304" for x :: uint32 by (simp add: drop_bit_eq_div unat_div)
  have d: "768 \<le> ?d" "?d \<noteq> 1023" using True dir_high [of v] window_addr [of v] i [of v] by (auto simp: word_unat_eq_iff)
  have "unat v mod 0x4000000 = 4194304 * (?d mod 16) + unat v mod 4194304" using mod_mult2_eq [of "unat v" 4194304 16] by simp
  then have "unat (prim v) = (768 + ?d mod 16) * 4194304 + unat v mod 4194304" using unat_prim True by simp
  then have "unat (prim v) div 4194304 = 768 + ?d mod 16" by simp
  moreover have "?d mod 16 = (?d - 768) mod 16"
  proof -
    obtain e where "?d = 768 + e" using d(1) le_Suc_ex by blast
    then show ?thesis by (simp add: mod_add_eq [of 768, symmetric])
  qed
  ultimately show ?thesis using d by (simp add: i Let_def)
next
  case False
  then have "prim v = v" unfolding prim_def by (rule if_not_P)
  moreover have "\<not> (768 \<le> unat (drop_bit 22 v) \<and> unat (drop_bit 22 v) \<noteq> 1023)"
    using False dir_high [of v] window_addr [of v] by (auto simp: word_unat_eq_iff)
  ultimately show ?thesis by (simp only: Let_def if_False)
qed

lemma prim_dir: "drop_bit 22 v = drop_bit 22 w \<Longrightarrow> drop_bit 22 (prim v) = drop_bit 22 (prim w)"
proof -
  assume eq: "drop_bit 22 v = drop_bit 22 w"
  have b: "bit v n = bit w n" if "22 \<le> n" for n
    using that arg_cong [OF eq, of "\<lambda>x. bit x (n - 22)"] by (simp add: bit_simps)
  have "0xC0000000 \<le> v \<longleftrightarrow> 0xC0000000 \<le> w" "v < 0xFFC00000 \<longleftrightarrow> w < 0xFFC00000"
    using dir_high [of v] dir_high [of w] window_addr [of v] window_addr [of w] eq by (simp_all add: not_le [symmetric])
  then show ?thesis by (intro bit_word_eqI) (auto simp: bit_simps prim_bits b)
qed

lemma prim_page: "page_base v = page_base w \<Longrightarrow> page_base (prim v) = page_base (prim w)"
proof (rule same_page)
  assume eq: "page_base v = page_base w"
  note f = page_fields [OF eq]
  show "drop_bit 22 (prim v) = drop_bit 22 (prim w)" using f prim_dir by blast
  show "drop_bit 12 (prim v) AND 0x3FF = drop_bit 12 (prim w) AND 0x3FF" using f by simp
qed

text \<open>A page of the user half or of the first 64 MB of the kernel half shares its entry with no other page of them.\<close>

lemma prim_user_page: "t < 0xC0000000 \<Longrightarrow> page_base (prim v) = page_base t \<longleftrightarrow> page_base v = page_base t"
proof (cases "v < 0xC0000000")
  case False
  assume t: "t < 0xC0000000"
  have "page_base w \<noteq> page_base t" if "0xC0000000 \<le> w" for w
  proof
    assume "page_base w = page_base t"
    then have "drop_bit 22 w = drop_bit 22 t" using page_fields by blast
    then show False using that t dir_high [of w] dir_high [of t] by simp
  qed
  then show ?thesis using False prim_high [of v] by (simp add: not_less)
qed simp

lemma prim_own_page: "prim t = t \<Longrightarrow> page_base v = page_base t \<Longrightarrow> prim v = v"
proof -
  assume t: "prim t = t" and eq: "page_base v = page_base t"
  have "page_base (prim v) = page_base v" using prim_page [OF eq] t eq by simp
  moreover have "x = page_base x OR (x AND 0xFFF)" for x :: uint32 unfolding masks by (rule bit_word_eqI) (auto simp: bit_simps)
  ultimately show ?thesis using prim_low(1) by metis
qed

section \<open>Address spaces\<close>

text \<open>
  The directory maps itself in its last entry. Two present directory entries lead to the same frame exactly when their
  addresses share an entry: the tables of the kernel half come back every 64 MB, all others are separate, and no
  table is the directory.
\<close>

definition mapped_dir :: "'a machine_scheme \<Rightarrow> uint32 \<Rightarrow> bool" where
  "mapped_dir k v \<longleftrightarrow> bit (pde_of k v) 0"

definition shared_tables :: "'a machine_scheme \<Rightarrow> bool" where
  "shared_tables k \<longleftrightarrow> self_mapped k \<and> (\<forall>v. pde_of k v = pde_of k (prim v)) \<and>
     (\<forall>v w. mapped_dir k v \<longrightarrow> mapped_dir k w \<longrightarrow> drop_bit 22 (prim v) \<noteq> drop_bit 22 (prim w) \<longrightarrow>
        page_base (pde_of k v) \<noteq> page_base (pde_of k w))"

definition off_tables :: "uint32 set \<Rightarrow> 'a machine_scheme \<Rightarrow> bool" where
  "off_tables I k \<longleftrightarrow> (\<forall>p\<in>I. page_base p \<noteq> page_base (cr3 k) \<and>
     (\<forall>v. mapped_dir k v \<longrightarrow> page_base p \<noteq> page_base (pde_of k v)))"

lemma window_dir:
  assumes "self_mapped k" "drop_bit 22 v = 0x3FF"
  shows "mapped_dir k v" "page_base (pde_of k v) = page_base (cr3 k)"
  using assms by (auto simp: mapped_dir_def pde_of_def pde_paddr_def self_mapped_def Let_def)

text \<open>Writing outside the tables changes no translation.\<close>

lemma off_tables_write:
  assumes "off_tables I k" "\<forall>a. a \<notin> I \<longrightarrow> h a = pmem k a"
  shows "pde_of (k\<lparr>pmem := h\<rparr>) v = pde_of k v" "mapped_dir (k\<lparr>pmem := h\<rparr>) v = mapped_dir k v"
    "mapped_dir k v \<Longrightarrow> pte_of (k\<lparr>pmem := h\<rparr>) v = pte_of k v"
    "translate (k\<lparr>pmem := h\<rparr>) v = translate k v" "self_mapped (k\<lparr>pmem := h\<rparr>) = self_mapped k"
proof -
  have D: "h y = pmem k y" if "page_base y = page_base (cr3 k)" for y
    using assms that by (metis off_tables_def)
  have ld: "ld32p h (page_base (cr3 k) + (x AND 0x3FF) * 4) = ld32p (pmem k) (page_base (cr3 k) + (x AND 0x3FF) * 4)" for x
    using D by (rule ld32p_frame)
  show pde: "pde_of (k\<lparr>pmem := h\<rparr>) v = pde_of k v" for v
    using ld [of "drop_bit 22 v"] by (simp add: pde_of_def pde_paddr_def dir_idx)
  show "mapped_dir (k\<lparr>pmem := h\<rparr>) v = mapped_dir k v" by (simp add: mapped_dir_def pde)
  show pte: "pte_of (k\<lparr>pmem := h\<rparr>) v = pte_of k v" if "mapped_dir k v"
  proof -
    have "h y = pmem k y" if "page_base y = page_base (pde_of k v)" for y
      using assms that \<open>mapped_dir k v\<close> by (metis off_tables_def)
    then show ?thesis
      using ld32p_frame [of "pde_of k v" h "pmem k" "drop_bit 12 v"] by (simp add: pte_of_def pte_paddr_def pde)
  qed
  show "translate (k\<lparr>pmem := h\<rparr>) v = translate k v"
    using pte by (auto simp: translate_eq pde mapped_dir_def)
  show "self_mapped (k\<lparr>pmem := h\<rparr>) = self_mapped k"
    using ld [of "0x3FF"] by (simp add: self_mapped_def)
qed

lemma prim_pde: "shared_tables k \<Longrightarrow> pde_of k (prim v) = pde_of k v"
  by (simp add: shared_tables_def)

lemma prim_translate: "shared_tables k \<Longrightarrow> translate k (prim v) = translate k v"
  by (simp add: translate_eq pte_of_def pte_paddr_def prim_pde)

lemma table_not_dir:
  assumes "shared_tables k" "mapped_dir k t" "drop_bit 22 t \<noteq> 0x3FF"
  shows "page_base (pde_of k t) \<noteq> page_base (cr3 k)"
proof -
  have self: "self_mapped k" using assms(1) by (simp add: shared_tables_def)
  have w: "drop_bit 22 (get_pde 0) = (0x3FF :: uint32)" by (rule get_pde_fields(1))
  have "drop_bit 22 (prim t) \<noteq> drop_bit 22 (prim (get_pde 0))" using assms(3) w by simp
  then show ?thesis using assms(1,2) window_dir [OF self w] unfolding shared_tables_def by metis
qed

text \<open>Writing the page table entry of \<open>t\<close> changes the translation of its page and of those that share the entry.\<close>

lemma pte_write:
  fixes e :: uint32
  assumes sep: "shared_tables k" and t: "mapped_dir k t" "drop_bit 22 t \<noteq> 0x3FF"
  defines "k' \<equiv> k\<lparr>pmem := st32p (pmem k) (pte_paddr (pde_of k t) t) e\<rparr>"
  shows "pde_of k' v = pde_of k v" "page_base (prim v) \<noteq> page_base (prim t) \<Longrightarrow> mapped_dir k v \<Longrightarrow> pte_of k' v = pte_of k v"
    "page_base (prim v) = page_base (prim t) \<Longrightarrow> pte_of k' v = e" "self_mapped k'"
proof -
  let ?T = "page_base (pde_of k t)"
  have self: "self_mapped k" using sep by (simp add: shared_tables_def)
  have TD: "?T \<noteq> page_base (cr3 k)" by (rule table_not_dir [OF sep t])
  have ne: "pte_paddr (pde_of k t) t \<noteq> page_base (cr3 k) + (x AND 0x3FF) * 4" for x
    unfolding pte_paddr_def using TD by (intro entry_neq_frame) simp
  have al: "aligned4 (pte_paddr (pde_of k u) v)" "aligned4 (page_base (cr3 k) + (x AND 0x3FF) * 4)" for u v x
    by (simp_all add: pte_paddr_def)
  have ld: "ld32p (pmem k') (page_base (cr3 k) + (x AND 0x3FF) * 4) = ld32p (pmem k) (page_base (cr3 k) + (x AND 0x3FF) * 4)" for x
    unfolding k'_def using ne [of x] al by (simp add: ld32p_st32p_other)
  have cr: "cr3 k' = cr3 k" by (simp add: k'_def)
  show pde: "pde_of k' v = pde_of k v" for v
    using ld [of "drop_bit 22 v"] by (simp add: pde_of_def pde_paddr_def dir_idx cr)
  show "self_mapped k'" using self ld [of "0x3FF"] by (simp add: self_mapped_def cr)
  have same: "pde_of k v = pde_of k t" if "drop_bit 22 (prim v) = drop_bit 22 (prim t)" for v
  proof -
    have "pde_of k (prim v) = pde_of k (prim t)" using that by (simp add: pde_of_def pde_paddr_def)
    then show ?thesis by (simp add: prim_pde [OF sep])
  qed
  show "pte_of k' v = e" if "page_base (prim v) = page_base (prim t)"
  proof -
    have f: "drop_bit 22 (prim v) = drop_bit 22 (prim t)" "drop_bit 12 (prim v) = drop_bit 12 (prim t)" using page_fields [OF that] by blast+
    have "drop_bit 12 v AND 0x3FF = drop_bit 12 t AND 0x3FF" using f(2) prim_low(2) by metis
    then have "pte_paddr (pde_of k v) v = pte_paddr (pde_of k t) t" using same [OF f(1)] by (simp add: pte_paddr_def)
    then show ?thesis by (simp only: pte_of_def pde) (simp add: k'_def)
  qed
  show "pte_of k' v = pte_of k v" if v: "page_base (prim v) \<noteq> page_base (prim t)" "mapped_dir k v"
  proof -
    have "pte_paddr (pde_of k t) t \<noteq> pte_paddr (pde_of k v) v"
    proof (cases "drop_bit 22 (prim v) = drop_bit 22 (prim t)")
      case True
      then have "drop_bit 12 t AND 0x3FF \<noteq> drop_bit 12 v AND 0x3FF" using v(1) same_page [of "prim v" "prim t"] by auto
      then show ?thesis unfolding pte_paddr_def same [OF True] by (simp only: entry_neq_index not_False_eq_True)
    next
      case False
      then have "page_base (pde_of k t) \<noteq> page_base (pde_of k v)"
        using sep v(2) t(1) unfolding shared_tables_def by metis
      then show ?thesis unfolding pte_paddr_def by (rule entry_neq_frame)
    qed
    then show ?thesis using al by (simp add: pte_of_def pde) (simp add: k'_def)
  qed
qed

end
