(* ===== verification/VmmKernel.thy ===== *)
theory VmmKernel
  imports VmmSpace
begin

text \<open>
  The kernel virtual pages: the invariant \<open>kspace\<close> that \<^verbatim>\<open>boot.s\<close>, \<^verbatim>\<open>vmm_pre_init\<close> and
  \<^verbatim>\<open>vmm_kern_init\<close> establish, and what allocation, release and address translation do under
  it.
\<close>

section \<open>The invariant\<close>

text \<open>
  \<open>I\<close> are the physical bytes of the kernel bitmap. Every kernel page table is present, the
  tables are shared as \<^verbatim>\<open>boot.s\<close> shares them, the bitmap lies outside them in the first 64 MB of the kernel half,
  and neither the window (the last 1024 pages) nor the pages of the bitmap itself are free.
\<close>

definition kpool :: "uint32 \<Rightarrow> bitmap" where
  "kpool a = \<lparr>vaddr_header = a, bm_length = 0x8000, target_addr_header = 0xC0000000\<rparr>"

definition kspace :: "uint32 set \<Rightarrow> kernel \<Rightarrow> bool" where
  "kspace I k \<longleftrightarrow> shared_tables k \<and> off_tables I k \<and> (\<forall>v\<ge>0xC0000000. mapped_dir k v) \<and>
     kern_vmm_pool k = kpool (kern_bitmap k) \<and>
     (\<forall>v\<in>bitmap_bytes (kpool (kern_bitmap k)). \<exists>p\<in>I. translate k v = Some p) \<and>
     inj_on (translate k) (bitmap_bytes (kpool (kern_bitmap k))) \<and>
     (\<forall>n\<in>free_pages (kpool (kern_bitmap k)) (vmem k). n < 255 * 1024) \<and>
     (\<forall>v\<in>bitmap_bytes (kpool (kern_bitmap k)). 0xC0000000 \<le> v \<and> v < 0xC4000000 \<and>
        page_index (kpool (kern_bitmap k)) v \<notin> free_pages (kpool (kern_bitmap k)) (vmem k))"

abbreviation kbytes :: "kernel \<Rightarrow> uint32 set" where
  "kbytes k \<equiv> bitmap_bytes (kpool (kern_bitmap k))"

abbreviation kfree :: "kernel \<Rightarrow> nat set" where
  "kfree k \<equiv> free_pages (kpool (kern_bitmap k)) (vmem k)"

lemma kpool_fields [simp]:
  "vaddr_header (kpool a) = a" "bm_length (kpool a) = 0x8000" "target_addr_header (kpool a) = 0xC0000000"
  by (simp_all add: kpool_def)

lemma kpool_wf: "wf_bitmap (kpool a)"
  by (simp add: wf_bitmap_def page_base_def)

lemma kspaceD:
  assumes "kspace I k"
  shows "shared_tables k" "off_tables I k" "0xC0000000 \<le> v \<Longrightarrow> mapped_dir k v"
    "kern_vmm_pool k = kpool (kern_bitmap k)" "self_mapped k"
    "n \<in> kfree k \<Longrightarrow> n < 255 * 1024" "v \<in> kbytes k \<Longrightarrow> 0xC0000000 \<le> v"
    "v \<in> kbytes k \<Longrightarrow> page_index (kpool (kern_bitmap k)) v \<notin> kfree k"
    "v \<in> kbytes k \<Longrightarrow> \<exists>p\<in>I. translate k v = Some p" "inj_on (translate k) (kbytes k)"
    "v \<in> kbytes k \<Longrightarrow> v < 0xC4000000" "v \<in> kbytes k \<Longrightarrow> prim v = v"
  using assms by (auto simp: kspace_def shared_tables_def prim_kernel)

text \<open>The bitmap is a window of stable memory.\<close>

lemma kspace_stable:
  assumes "kspace I k" shows "stable I (kbytes k) k"
  unfolding stable_def
  using kspaceD(9,10) [OF assms] off_tables_write(4) [OF kspaceD(2) [OF assms]] by auto

lemma rest_of_eq:
  assumes "rest_of I k' = rest_of I (k :: 'a machine_scheme)"
  shows "k' = k\<lparr>pmem := pmem k'\<rparr>" "\<forall>a. a \<notin> I \<longrightarrow> pmem k' a = pmem k a"
proof -
  show "k' = k\<lparr>pmem := pmem k'\<rparr>" using assms by (cases k; cases k') (simp add: rest_of_def)
  have "(\<lambda>a. if a \<in> I then 0 else pmem k' a) = (\<lambda>a. if a \<in> I then 0 else pmem k a)"
    using arg_cong [OF assms, of pmem] by (simp add: rest_of_def)
  then show "\<forall>a. a \<notin> I \<longrightarrow> pmem k' a = pmem k a" by (metis)
qed

text \<open>A pool address below the window is a kernel address with a present page table.\<close>

lemma pool_target:
  assumes "kspace I k" "in_pool (kpool a) t" "page_index (kpool a) t < 255 * 1024"
  shows "0xC0000000 \<le> t" "mapped_dir k t" "drop_bit 22 t \<noteq> 0x3FF"
proof -
  have b: "0xC0000000 \<le> unat (page_base t)" using assms(2) by (simp add: in_pool_def word_le_nat_alt)
  have "page_base t \<le> t" by (rule page_base_le)
  then show k: "0xC0000000 \<le> t" using b by (simp add: word_le_nat_alt)
  then show "mapped_dir k t" by (rule kspaceD(3) [OF assms(1)])
  have "unat (page_base t) < 0xFFC00000" using assms(3) b by (simp add: page_index_def)
  then have "unat t div 4096 < 0xFFC00" by (simp add: unat_page_base)
  then have "unat (drop_bit 22 t) < 0x3FF"
    by (simp add: drop_bit_eq_div unat_div div_less_iff_less_mult)
  then show "drop_bit 22 t \<noteq> 0x3FF" by auto
qed

text \<open>The first 16384 pages of the pool are the ones that no lower page shares its entry with.\<close>

lemma pool_primary:
  assumes "in_pool (kpool a) t" "page_index (kpool a) t < 16384"
  shows "0xC0000000 \<le> t" "t < 0xC4000000" "prim t = t"
proof -
  have b: "0xC0000000 \<le> unat (page_base t)" using assms(1) by (simp add: in_pool_def word_le_nat_alt)
  have "unat (page_base t) < 0xC4000000" using assms(2) b by (simp add: page_index_def)
  then have "unat t div 4096 < 0xC4000" by (simp add: unat_page_base)
  then show u: "t < 0xC4000000" by (simp add: word_less_nat_alt div_less_iff_less_mult)
  have "page_base t \<le> t" by (rule page_base_le)
  then show l: "0xC0000000 \<le> t" using b by (simp add: word_le_nat_alt)
  show "prim t = t" by (rule prim_kernel [OF l u])
qed

lemma page_addr_primary:
  assumes "n < 16384"
  shows "0xC0000000 \<le> page_addr (kpool a) n" "page_addr (kpool a) n < 0xC4000000" "prim (page_addr (kpool a) n) = page_addr (kpool a) n"
    "page_base (page_addr (kpool a) n) = page_addr (kpool a) n"
proof -
  have "n < 8 * unat (bm_length (kpool a))" using assms by simp
  note ix = page_index_addr [OF kpool_wf this]
  have "page_index (kpool a) (page_addr (kpool a) n) < 16384" unfolding ix(1) by (rule assms)
  note p = pool_primary [OF ix(2) this]
  show "0xC0000000 \<le> page_addr (kpool a) n" "page_addr (kpool a) n < 0xC4000000" "prim (page_addr (kpool a) n) = page_addr (kpool a) n"
    using p by simp_all
  show "page_base (page_addr (kpool a) n) = page_addr (kpool a) n" by (rule ix(3))
qed

section \<open>Changes of the bitmap\<close>

text \<open>The state after an operation that only wrote bytes of the bitmap.\<close>

lemma kspace_bitmap_step:
  assumes k: "kspace I k" and st: "rest_of I k' = rest_of I k"
    and mem: "\<forall>x\<in>kbytes k. vmem k' x = h x"
    and free: "\<forall>n\<in>free_pages (kpool (kern_bitmap k)) h. n < 255 * 1024"
      "\<forall>v\<in>kbytes k. page_index (kpool (kern_bitmap k)) v \<notin> free_pages (kpool (kern_bitmap k)) h"
  shows "kspace I k'" "translate k' v = translate k v" "pm k' = pm k" "kern_bitmap k' = kern_bitmap k"
    "kfree k' = free_pages (kpool (kern_bitmap k)) h" "kern_vmm_pool k' = kern_vmm_pool k"
proof -
  note eq = rest_of_eq [OF st]
  have g: "pm k' = pm k" "kern_bitmap k' = kern_bitmap k" "kern_vmm_pool k' = kern_vmm_pool k" "cr3 k' = cr3 k"
    by (subst eq(1); simp)+
  then show "pm k' = pm k" "kern_bitmap k' = kern_bitmap k" "kern_vmm_pool k' = kern_vmm_pool k" by simp_all
  note w = off_tables_write [OF kspaceD(2) [OF k] eq(2), folded eq(1)]
  show "translate k' v = translate k v" for v by (rule w(4))
  then have tr: "translate k' = translate k" by (rule ext)
  show fr: "kfree k' = free_pages (kpool (kern_bitmap k)) h"
    unfolding g using mem by (intro free_pages_cong) auto
  have "shared_tables k'" using kspaceD(1) [OF k] w by (simp add: shared_tables_def)
  moreover have "off_tables I k'" using kspaceD(2) [OF k] w g by (simp add: off_tables_def)
  ultimately show "kspace I k'"
    using kspaceD [OF k] free fr unfolding kspace_def g tr by (simp add: w(2))
qed

lemma free_mark_busy_sub: "k < 8 * unat (bm_length bm) \<Longrightarrow> free_pages bm (mark_busy bm k h) \<subseteq> free_pages bm h"
  by (auto simp: free_pages_mark_busy)

lemma same_mmu:
  fixes k k' :: kernel
  assumes "pmem k' = pmem k" "cr3 k' = cr3 k"
  shows "pde_of k' = pde_of k" "pte_of k' = pte_of k" "translate k' = translate k" "mapped_dir k' = mapped_dir k"
    "vmem k' = vmem k" "self_mapped k' = self_mapped k"
proof -
  show 1: "pde_of k' = pde_of k" and 2: "pte_of k' = pte_of k"
    by (intro ext; simp add: assms pde_of_def pte_of_def pde_paddr_def)+
  show 3: "translate k' = translate k" by (intro ext) (simp add: translate_eq 1 2)
  show "mapped_dir k' = mapped_dir k" by (intro ext) (simp add: mapped_dir_def 1)
  show "vmem k' = vmem k" by (intro ext) (simp add: assms vmem_def 3)
  show "self_mapped k' = self_mapped k" using assms by (simp add: self_mapped_def)
qed

lemma kspace_cong:
  assumes "pmem k' = pmem k" "cr3 k' = cr3 k" "kern_vmm_pool k' = kern_vmm_pool k" "kern_bitmap k' = kern_bitmap k"
  shows "kspace I k' = kspace I k"
  using assms same_mmu [OF assms(1,2)] by (simp add: kspace_def shared_tables_def off_tables_def)

section \<open>Changes of a page table entry\<close>

lemma kspace_pte_step:
  fixes e :: uint32
  assumes k: "kspace I k" and t: "mapped_dir k t" "drop_bit 22 t \<noteq> 0x3FF"
    and nb: "\<forall>v\<in>kbytes k. page_base (prim v) \<noteq> page_base (prim t)"
  defines "k' \<equiv> k\<lparr>pmem := st32p (pmem k) (pte_paddr (pde_of k t) t) e\<rparr>"
  shows "kspace I k'" "kfree k' = kfree k"
    "translate k' v = (if page_base (prim v) = page_base (prim t)
       then if bit e 0 then Some (page_base e OR (v AND 0xFFF)) else None else translate k v)"
proof -
  note w = pte_write [OF kspaceD(1) [OF k] t, where e = e, folded k'_def]
  have g: "kern_bitmap k' = kern_bitmap k" "cr3 k' = cr3 k" "kern_vmm_pool k' = kern_vmm_pool k"
    by (simp_all add: k'_def)
  have dir: "mapped_dir k' v = mapped_dir k v" for v by (simp add: mapped_dir_def w(1))
  have tdir: "mapped_dir k v" if "page_base (prim v) = page_base (prim t)" for v
  proof -
    have "pde_of k (prim v) = pde_of k (prim t)"
      using page_fields [OF that] by (simp add: pde_of_def pde_paddr_def)
    then show ?thesis using t(1) by (simp add: mapped_dir_def prim_pde [OF kspaceD(1) [OF k]])
  qed
  show tr: "translate k' v = (if page_base (prim v) = page_base (prim t)
       then if bit e 0 then Some (page_base e OR (v AND 0xFFF)) else None else translate k v)" for v
    using w(1) w(2) [of v] w(3) [of v] tdir [of v]
    by (cases "page_base (prim v) = page_base (prim t)") (auto simp: translate_eq mapped_dir_def)
  have byte: "translate k' v = translate k v" "vmem k' v = vmem k v" if v: "v \<in> kbytes k" for v
  proof -
    show same: "translate k' v = translate k v" using tr [of v] nb v by simp
    obtain p where p: "p \<in> I" "translate k v = Some p" using kspaceD(9) [OF k v] by blast
    have "page_base p \<noteq> page_base (pde_of k t)" using kspaceD(2) [OF k] p(1) t(1) by (auto simp: off_tables_def)
    then have "p \<noteq> pte_paddr (pde_of k t) t + of_nat i" if "i < 4" for i
      using entry_frame [OF that, of "pde_of k t" "drop_bit 12 t"] by (auto simp: pte_paddr_def)
    then have "pmem k' p = pmem k p" unfolding k'_def by (simp add: st32p_other)
    then show "vmem k' v = vmem k v" using p(2) same by (simp add: vmem_def)
  qed
  show fr: "kfree k' = kfree k" unfolding g using byte(2) by (rule free_pages_cong)
  have "shared_tables k'"
    using kspaceD(1) [OF k] w(1) w(4) dir by (simp add: shared_tables_def)
  moreover have "off_tables I k'" using kspaceD(2) [OF k] g(2) dir w(1) by (simp add: off_tables_def)
  moreover have "inj_on (translate k') (kbytes k)"
    using kspaceD(10) [OF k] byte(1) by (simp add: inj_on_def)
  ultimately show "kspace I k'"
    using kspaceD [OF k] fr byte(1) dir unfolding kspace_def g by simp
qed

section \<open>Mapping a page\<close>

lemma entry_value:
  fixes y :: uint32
  assumes "y AND 0xFFF = y"
  shows "page_base (page_base a + y) = page_base a" "bit (page_base a + y) 0 = bit y 0"
  using page_base_low [OF assms] unfolding page_or_add [OF assms, symmetric] by (simp_all add: bit_simps)

text \<open>The common end of the functions that map a page: take a physical page and write the entry.\<close>

lemma map_entry_ok:
  assumes k: "kspace I k" and t: "mapped_dir k t" "drop_bit 22 t \<noteq> 0x3FF"
    and nb: "\<forall>v\<in>kbytes k. page_base (prim v) \<noteq> page_base (prim t)" and e: "bit e 0"
  shows "\<exists>k2 k'. store32 (get_pte t) e (k\<lparr>pm := st'\<rparr>) = Inr k2 \<and> k' = invlpg (page_base t) k2 \<and> kspace I k' \<and> pm k' = st' \<and>
    kern_bitmap k' = kern_bitmap k \<and> kfree k' = kfree k \<and> pde_of k' = pde_of k \<and>
    (\<forall>q. page_base q \<noteq> page_base (pde_of k t) \<longrightarrow> pmem k' q = pmem k q) \<and>
    (\<forall>v. translate k' v = (if page_base (prim v) = page_base (prim t) then Some (page_base e OR (v AND 0xFFF)) else translate k v))"
proof -
  define k1 where "k1 = k\<lparr>pm := st'\<rparr>"
  have k1: "kspace I k1" unfolding k1_def using k by (subst kspace_cong [of _ k]) simp_all
  have mm: "pde_of k1 = pde_of k" "translate k1 = translate k" "mapped_dir k1 = mapped_dir k" "vmem k1 = vmem k"
    using same_mmu [of k1 k] by (simp_all add: k1_def)
  define k2 where "k2 = k1\<lparr>pmem := st32p (pmem k1) (pte_paddr (pde_of k1 t) t) e\<rparr>"
  have t1: "mapped_dir k1 t" using t(1) mm by simp
  have nb1: "\<forall>v\<in>kbytes k1. page_base (prim v) \<noteq> page_base (prim t)" using nb by (simp add: k1_def)
  note st = kspace_pte_step [OF k1 t1 t(2) nb1, where e = e, folded k2_def]
  have run: "store32 (get_pte t) e k1 = Inr k2"
    unfolding k2_def using t1 by (intro access_pte(2) kspaceD(5) [OF k1]) (simp add: mapped_dir_def)
  let ?k' = "invlpg (page_base t) k2"
  have inv: "kspace I ?k'" using st(1) by (subst kspace_cong [of _ k2]) (simp_all add: invlpg_def)
  have tr: "translate ?k' = translate k2" "vmem ?k' = vmem k2" "pde_of ?k' = pde_of k2"
    using same_mmu [of ?k' k2] by (simp_all add: invlpg_def)
  have g: "pm ?k' = st'" "kern_bitmap ?k' = kern_bitmap k" "kern_bitmap k1 = kern_bitmap k" "kern_bitmap k2 = kern_bitmap k"
    by (simp_all add: invlpg_def k2_def k1_def)
  have "kfree ?k' = kfree k" using st(2) unfolding g(2-) tr(2) mm(4) .
  moreover have "pde_of ?k' = pde_of k"
    unfolding tr(3) using pte_write(1) [OF kspaceD(1) [OF k1] t1 t(2), where e = e, folded k2_def] mm(1) by auto
  moreover have "pmem ?k' q = pmem k q" if "page_base q \<noteq> page_base (pde_of k t)" for q
  proof -
    have "q \<noteq> pte_paddr (pde_of k t) t + of_nat i" if "i < 4" for i
      using \<open>page_base q \<noteq> _\<close> entry_frame [OF that, of "pde_of k t" "drop_bit 12 t"] by (auto simp: pte_paddr_def)
    then show ?thesis by (simp add: invlpg_def k2_def mm(1) st32p_other) (simp add: k1_def)
  qed
  moreover have "translate ?k' v = (if page_base (prim v) = page_base (prim t) then Some (page_base e OR (v AND 0xFFF)) else translate k v)" for v
    unfolding tr(1) st(3) mm(2) using e by simp
  ultimately show ?thesis using run inv g(1,2) unfolding k1_def by blast
qed

lemma kern_map_page_ok:
  assumes k: "kspace I k" and t: "mapped_dir k t" "drop_bit 22 t \<noteq> 0x3FF"
    and nb: "\<forall>v\<in>kbytes k. page_base (prim v) \<noteq> page_base (prim t)"
    and pmm: "pmm_alloc_one_page (pm k) = Inr (a, st')" "a_state a \<noteq> 0"
  shows "\<exists>k'. kern_map_page t k = Inr (t, k') \<and> kspace I k' \<and> pm k' = st' \<and> kern_bitmap k' = kern_bitmap k \<and>
    kfree k' = kfree k \<and> pde_of k' = pde_of k \<and> (\<forall>q. page_base q \<noteq> page_base (pde_of k t) \<longrightarrow> pmem k' q = pmem k q) \<and>
    (\<forall>v. translate k' v = (if page_base (prim v) = page_base (prim t) then Some (page_base (a_addr a) OR (v AND 0xFFF))
       else translate k v))"
proof -
  let ?e = "page_base (a_addr a) + PAGE_DESC_RW_W + PAGE_DESC_US_S + PAGE_DESC_G + PAGE_DESC_P"
  have e: "page_base ?e = page_base (a_addr a)" "bit ?e 0"
    using entry_value [of "0x103" "a_addr a"] by (simp_all add: add.assoc)
  obtain k2 k' where "store32 (get_pte t) ?e (k\<lparr>pm := st'\<rparr>) = Inr k2" "k' = invlpg (page_base t) k2"
    "kspace I k'" "pm k' = st'" "kern_bitmap k' = kern_bitmap k" "kfree k' = kfree k" "pde_of k' = pde_of k"
    "\<forall>q. page_base q \<noteq> page_base (pde_of k t) \<longrightarrow> pmem k' q = pmem k q"
    "\<forall>v. translate k' v = (if page_base (prim v) = page_base (prim t) then Some (page_base (a_addr a) OR (v AND 0xFFF)) else translate k v)"
    using map_entry_ok [OF k t nb e(2), of st'] unfolding e(1) by blast
  moreover have "kern_map_page t k = Inr (t, k')" using pmm calculation(1,2) by (simp add: kern_map_page_def with_pmm_def)
  ultimately show ?thesis by blast
qed

lemma present_page_table_ok: "kspace I k \<Longrightarrow> present_page_table t k = Inr k"
  using access_pde(1) [OF kspaceD(5)] by (auto simp: present_page_table_def Let_def test_p_bit_eq)

lemma busy_not_bitmap:
  assumes k: "kspace I k" and t: "page_index (kpool (kern_bitmap k)) t \<in> kfree k" "prim t = t"
  shows "\<forall>v\<in>kbytes k. page_base (prim v) \<noteq> page_base (prim t)"
proof (intro ballI notI)
  fix v assume v: "v \<in> kbytes k" and "page_base (prim v) = page_base (prim t)"
  then have "page_base v = page_base t" using kspaceD(12) [OF k v] t(2) by simp
  then have "page_index (kpool (kern_bitmap k)) v = page_index (kpool (kern_bitmap k)) t"
    by (simp add: page_index_def)
  then show False using kspaceD(8) [OF k v] t(1) by simp
qed

text \<open>Marking a free page busy keeps the invariant.\<close>

lemma kspace_mark_busy:
  assumes k: "kspace I k" and n: "n \<in> kfree k"
    and st: "rest_of I k' = rest_of I k" "\<forall>x\<in>kbytes k. vmem k' x = mark_busy (kpool (kern_bitmap k)) n (vmem k) x"
  shows "kspace I k'" "translate k' = translate k" "pm k' = pm k" "kern_bitmap k' = kern_bitmap k"
    "kfree k' = kfree k - {n}"
proof -
  have "n < 8 * unat (bm_length (kpool (kern_bitmap k)))" using n by (simp add: free_pages_def)
  then have fr: "free_pages (kpool (kern_bitmap k)) (mark_busy (kpool (kern_bitmap k)) n (vmem k)) = kfree k - {n}"
    by (rule free_pages_mark_busy)
  have "\<forall>n\<in>kfree k - {n}. n < 255 * 1024" "\<forall>v\<in>kbytes k. page_index (kpool (kern_bitmap k)) v \<notin> kfree k - {n}"
    using kspaceD(6,8) [OF k] by auto
  note step = kspace_bitmap_step [OF k st, unfolded fr, OF this]
  show "kspace I k'" "pm k' = pm k" "kern_bitmap k' = kern_bitmap k" "kfree k' = kfree k - {n}" by (fact step)+
  show "translate k' = translate k" using step(2) by (rule ext)
qed

text \<open>The common tail of both allocation functions: page \<open>t\<close> was free and is now marked.\<close>

lemma alloc_tail:
  assumes k: "kspace I k" and t: "in_pool (kpool (kern_bitmap k)) t" "page_index (kpool (kern_bitmap k)) t \<in> kfree k"
    and st: "rest_of I k1 = rest_of I k"
      "\<forall>x\<in>kbytes k. vmem k1 x = mark_busy (kpool (kern_bitmap k)) (page_index (kpool (kern_bitmap k)) t) (vmem k) x"
    and nb: "\<forall>v\<in>kbytes k. page_base (prim v) \<noteq> page_base (prim t)"
    and pmm: "pmm_alloc_one_page (pm k) = Inr (a, st')" "a_state a \<noteq> 0"
  shows "\<exists>k'. bindE (present_page_table t k1) (kern_map_page t) = Inr (t, k') \<and> kspace I k' \<and> pm k' = st' \<and>
    kern_bitmap k' = kern_bitmap k \<and> kfree k' = kfree k - {page_index (kpool (kern_bitmap k)) t} \<and>
    (\<forall>v. translate k' v = (if page_base (prim v) = page_base (prim t) then Some (page_base (a_addr a) OR (v AND 0xFFF))
       else translate k v))"
proof -
  note b = kspace_mark_busy [OF k t(2) st]
  note tgt = pool_target [OF b(1) t(1) kspaceD(6) [OF k t(2)]]
  have nb1: "\<forall>v\<in>kbytes k1. page_base (prim v) \<noteq> page_base (prim t)" using nb b(4) by simp
  have pmm1: "pmm_alloc_one_page (pm k1) = Inr (a, st')" using pmm(1) b(3) by simp
  have "bindE (present_page_table t k1) (kern_map_page t) = kern_map_page t k1"
    using present_page_table_ok [OF b(1), of t] by simp
  then show ?thesis
    using kern_map_page_ok [OF b(1) tgt(2,3) nb1 pmm1 pmm(2)] unfolding b(5) unfolding b(2,4) by (simp only:) blast
qed

lemma alloc_tail_fails:
  assumes k: "kspace I k" and t: "in_pool (kpool (kern_bitmap k)) t" "page_index (kpool (kern_bitmap k)) t \<in> kfree k"
    and st: "rest_of I k1 = rest_of I k"
      "\<forall>x\<in>kbytes k. vmem k1 x = mark_busy (kpool (kern_bitmap k)) (page_index (kpool (kern_bitmap k)) t) (vmem k) x"
    and pmm: "pmm_alloc_one_page (pm k) = Inr (a, st')" "a_state a = 0"
  shows "\<exists>k'. bindE (present_page_table t k1) (kern_map_page t) = Inr (KERN_VMM_ALLOC_ERRO, k') \<and> kspace I k' \<and>
    pm k' = st' \<and> kern_bitmap k' = kern_bitmap k \<and> kfree k' = kfree k \<and> translate k' = translate k"
proof -
  let ?bm = "kpool (kern_bitmap k)" and ?n = "page_index (kpool (kern_bitmap k)) t"
  note b = kspace_mark_busy [OF k t(2) st]
  define k2 where "k2 = k1\<lparr>pm := st'\<rparr>"
  have k2: "kspace I k2" unfolding k2_def using b(1) by (subst kspace_cong [of _ k1]) simp_all
  have mm: "translate k2 = translate k1" "vmem k2 = vmem k1" "kern_bitmap k2 = kern_bitmap k"
    using same_mmu [of k2 k1] b(4) by (simp_all add: k2_def)
  have pool: "kern_vmm_pool k2 = ?bm" using kspaceD(4) [OF k2] mm(3) by simp
  obtain k3 where k3: "bitmap_release_one_page load8 store8 ?bm t k2 = Inr k3" "rest_of I k3 = rest_of I k2"
    "\<forall>x\<in>kbytes k2. vmem k3 x = mark_free ?bm ?n (vmem k2) x"
    using mmu.bitmap_release_one_page_in [OF kspace_stable [OF k2] kpool_wf, of "kern_bitmap k2" t] t(1) mm(3) by auto
  have n: "?n < 8 * unat (bm_length ?bm)" using t(2) by (simp add: free_pages_def)
  have fr: "free_pages (kpool (kern_bitmap k2)) (mark_free ?bm ?n (vmem k2)) = kfree k"
    using free_pages_mark_free [OF n, of "vmem k2"] b(5) t(2) mm b(4) by auto
  have c: "\<forall>n\<in>kfree k. n < 255 * 1024" "\<forall>v\<in>kbytes k2. page_index (kpool (kern_bitmap k2)) v \<notin> kfree k"
    using kspaceD(6,8) [OF k] mm(3) by auto
  note step = kspace_bitmap_step [OF k2 k3(2,3), unfolded fr, OF c]
  have run: "kern_map_page t k1 = Inr (KERN_VMM_ALLOC_ERRO, k3)"
    using pmm k3(1) pool b(3) by (simp add: kern_map_page_def with_pmm_def flip: k2_def)
  have "translate k3 = translate k" using step(2) mm(1) b(2) by (intro ext) simp
  moreover have "pm k3 = st'" using step(3) by (simp add: k2_def)
  moreover have "kfree k3 = kfree k" using step(5) .
  moreover have "kern_bitmap k3 = kern_bitmap k" using step(4) mm(3) by simp
  ultimately show ?thesis using step(1) run present_page_table_ok [OF b(1), of t] by simp
qed

section \<open>Allocation and release\<close>

lemma kern_alloc_one_page_run:
  assumes k: "kspace I k" and t: "in_pool (kpool (kern_bitmap k)) t" "page_index (kpool (kern_bitmap k)) t \<in> kfree k"
  obtains k1 where "vmm_kern_alloc_one_page t k = bindE (present_page_table t k1) (kern_map_page t)"
    "rest_of I k1 = rest_of I k"
    "\<forall>x\<in>kbytes k. vmem k1 x = mark_busy (kpool (kern_bitmap k)) (page_index (kpool (kern_bitmap k)) t) (vmem k) x"
proof -
  let ?bm = "kpool (kern_bitmap k)"
  obtain k1 where k1: "bitmap_alloc_one_page load8 store8 ?bm t k = Inr (page_base t, k1)" "rest_of I k1 = rest_of I k"
    "\<forall>x\<in>kbytes k. vmem k1 x = mark_busy ?bm (page_index ?bm t) (vmem k) x"
    using mmu.bitmap_alloc_one_page_Some [OF kspace_stable [OF k] kpool_wf subset_refl t] by blast
  have "page_base t \<noteq> BITMAP_RETURN_ERRO"
  proof
    assume "page_base t = BITMAP_RETURN_ERRO"
    then have "page_base BITMAP_RETURN_ERRO = BITMAP_RETURN_ERRO" by (metis page_base_idem)
    then show False by (simp add: page_base_def)
  qed
  then have "vmm_kern_alloc_one_page t k = bindE (present_page_table t k1) (kern_map_page t)"
    using k1(1) kspaceD(4) [OF k] by (simp add: vmm_kern_alloc_one_page_def)
  with k1(2,3) that show ?thesis by blast
qed

lemma kern_alloc_run:
  assumes k: "kspace I k" and ne: "kfree k \<noteq> {}"
  defines "t \<equiv> page_addr (kpool (kern_bitmap k)) (Min (kfree k))"
  obtains k1 where "vmm_kern_alloc k = bindE (present_page_table t k1) (kern_map_page t)"
    "rest_of I k1 = rest_of I k"
    "\<forall>x\<in>kbytes k. vmem k1 x = mark_busy (kpool (kern_bitmap k)) (page_index (kpool (kern_bitmap k)) t) (vmem k) x"
    "in_pool (kpool (kern_bitmap k)) t" "page_index (kpool (kern_bitmap k)) t = Min (kfree k)"
    "page_base t = t" "Min (kfree k) \<in> kfree k"
proof -
  let ?bm = "kpool (kern_bitmap k)"
  have mf: "Min (kfree k) \<in> kfree k" using ne by (intro Min_in free_pages_finite)
  then have n: "Min (kfree k) < 8 * unat (bm_length ?bm)" by (simp add: free_pages_def)
  note ix = page_index_addr [OF kpool_wf n, folded t_def]
  obtain k1 where k1: "bitmap_alloc load8 store8 ?bm k = Inr (t, k1)" "rest_of I k1 = rest_of I k"
    "\<forall>x\<in>kbytes k. vmem k1 x = mark_busy ?bm (Min (kfree k)) (vmem k) x"
    using mmu.bitmap_alloc_Some [OF kspace_stable [OF k] subset_refl ne] unfolding t_def by blast
  have "t \<noteq> BITMAP_RETURN_ERRO"
  proof
    assume "t = BITMAP_RETURN_ERRO"
    then show False using ix(3) by (simp add: page_base_def)
  qed
  then have "vmm_kern_alloc k = bindE (present_page_table t k1) (kern_map_page t)"
    using k1(1) kspaceD(4) [OF k] by (simp add: vmm_kern_alloc_def)
  then show ?thesis using that [of k1] k1(2,3) ix mf by simp
qed

lemma kern_release_run:
  assumes k: "kspace I k" and t: "in_pool (kpool (kern_bitmap k)) t" "page_index (kpool (kern_bitmap k)) t < 255 * 1024"
    and nb: "\<forall>v\<in>kbytes k. page_base (prim v) \<noteq> page_base (prim t)"
  shows "\<exists>k'. vmm_kern_release_one_page t k = Inr k' \<and> kspace I k' \<and> pm k' = pm k \<and> kern_bitmap k' = kern_bitmap k \<and>
    kfree k' = insert (page_index (kpool (kern_bitmap k)) t) (kfree k) \<and> pde_of k' = pde_of k \<and> cr3 k' = cr3 k \<and>
    (\<forall>v. translate k' v = (if page_base (prim v) = page_base (prim t) then None else translate k v))"
proof -
  let ?bm = "kpool (kern_bitmap k)" and ?n = "page_index (kpool (kern_bitmap k)) t"
  obtain k1 where k1: "bitmap_release_one_page load8 store8 ?bm t k = Inr k1" "rest_of I k1 = rest_of I k"
    "\<forall>x\<in>kbytes k. vmem k1 x = mark_free ?bm ?n (vmem k) x"
    using mmu.bitmap_release_one_page_in [OF kspace_stable [OF k] kpool_wf subset_refl t(1)] by blast
  have fr: "free_pages ?bm (mark_free ?bm ?n (vmem k)) = insert ?n (kfree k)"
    by (rule free_pages_mark_free [OF page_index_less [OF t(1)]])
  have c: "\<forall>n\<in>insert ?n (kfree k). n < 255 * 1024" "\<forall>v\<in>kbytes k. page_index ?bm v \<notin> insert ?n (kfree k)"
  proof -
    show "\<forall>n\<in>insert ?n (kfree k). n < 255 * 1024" using kspaceD(6) [OF k] t(2) by auto
    have "page_index ?bm v \<noteq> ?n" if v: "v \<in> kbytes k" for v
    proof
      assume eq: "page_index ?bm v = ?n"
      have "in_pool ?bm v"
      proof -
        have "0xC0000000 \<le> unat v" using kspaceD(7) [OF k v] by (simp add: word_le_nat_alt)
        then have "0xC0000000 div 4096 \<le> unat v div 4096" by (rule div_le_mono)
        then have "0xC0000000 \<le> unat (page_base v)" unfolding unat_page_base by simp
        then show ?thesis using unat_lt_32 [of "page_base v"] by (simp add: in_pool_def word_le_nat_alt)
      qed
      then have "page_base v = page_base t"
        using page_addr_index [OF kpool_wf t(1)] page_addr_index [OF kpool_wf, of "kern_bitmap k" v] eq by simp
      then show False using nb v prim_page by blast
    qed
    then show "\<forall>v\<in>kbytes k. page_index ?bm v \<notin> insert ?n (kfree k)" using kspaceD(8) [OF k] by auto
  qed
  note b = kspace_bitmap_step [OF k k1(2,3), unfolded fr, OF c]
  note tgt = pool_target [OF b(1) t]
  let ?e = "pte_of k1 t AND 0xFFFFFFFE"
  define k2 where "k2 = k1\<lparr>pmem := st32p (pmem k1) (pte_paddr (pde_of k1 t) t) ?e\<rparr>"
  have nb1: "\<forall>v\<in>kbytes k1. page_base (prim v) \<noteq> page_base (prim t)" using nb b(4) by simp
  note w = kspace_pte_step [OF b(1) tgt(2,3) nb1, where e = ?e, folded k2_def]
  note acc = access_pte [OF kspaceD(5) [OF b(1)] tgt(2) [unfolded mapped_dir_def]]
  have run: "vmm_kern_release_one_page t k = Inr (invlpg (page_base t) k2)"
    using k1(1) tgt(1) acc kspaceD(4) [OF k]
    by (simp add: vmm_kern_release_one_page_def not_less [symmetric] k2_def Let_def)
  have e0: "\<not> bit ?e 0"
  proof -
    have "(0xFFFFFFFE :: uint32) = NOT 1" by simp
    then show ?thesis by (simp only: bit_and_iff bit_not_iff) (simp add: bit_simps)
  qed
  let ?k3 = "invlpg (page_base t) k2"
  have mm: "translate ?k3 = translate k2" "vmem ?k3 = vmem k2" "kern_bitmap ?k3 = kern_bitmap k" "pm ?k3 = pm k"
    using same_mmu [of ?k3 k2] b(3,4) by (simp_all add: invlpg_def k2_def)
  have "kspace I ?k3" using w(1) by (subst kspace_cong [of _ k2]) (simp_all add: invlpg_def)
  moreover have "kfree ?k3 = insert ?n (kfree k)"
  proof -
    have "kern_bitmap k2 = kern_bitmap k" using b(4) by (simp add: k2_def)
    then show ?thesis using w(2) b(5) unfolding mm b(4) by simp
  qed
  moreover have "translate ?k3 v = (if page_base (prim v) = page_base (prim t) then None else translate k v)" for v
    unfolding mm(1) w(3) b(2) using e0 by simp
  moreover have "cr3 ?k3 = cr3 k"
  proof -
    have "cr3 k1 = cr3 k" by (subst rest_of_eq(1) [OF k1(2)]) simp
    then show ?thesis by (simp add: invlpg_def k2_def)
  qed
  moreover have "pde_of ?k3 = pde_of k"
  proof -
    have "pde_of ?k3 = pde_of k2" using same_mmu(1) [of ?k3 k2] by (simp add: invlpg_def)
    also have "\<dots> = pde_of k1" using pte_write(1) [OF kspaceD(1) [OF b(1)] tgt(2,3), where e = ?e, folded k2_def] by auto
    also have "\<dots> = pde_of k"
      using off_tables_write(1) [OF kspaceD(2) [OF k] rest_of_eq(2) [OF k1(2)], folded rest_of_eq(1) [OF k1(2)]] by auto
    finally show ?thesis .
  qed
  ultimately show ?thesis using run mm(3,4) by blast
qed

end
