(* ===== verification/ThreadsLife.thy ===== *)
theory ThreadsLife
  imports ThreadsRing VmmKernel
begin

text \<open>
  Creation and termination of threads, and the clock interrupt: lemmas on the ring, on the
  initial stack of a thread and on its time slice.
\<close>

section \<open>Ring updates\<close>

lemma ring_insert:
  assumes "ring nx c xs" "a \<notin> set (c # xs)"
  shows "ring (nx(c := a, a := nx c)) c (a # xs)"
proof -
  have "path (nx(c := a, a := nx c)) (nx c) xs c = path nx (nx c) xs c"
    using assms by (intro path_cong) (auto simp: ring_def)
  then show ?thesis using assms by (auto simp: ring_def)
qed

lemma ring_remove:
  assumes "ring nx c (x # xs)"
  shows "ring (nx(last (x # xs) := nx c)) x xs"
proof -
  have p: "path nx (nx c) (x # xs) c" and d: "distinct (c # x # xs)" using assms by (auto simp: ring_def)
  have nx: "nx c = x" using p by simp
  show ?thesis
  proof (cases xs rule: rev_cases)
    case Nil
    then show ?thesis using nx by (simp add: ring_def)
  next
    case (snoc ys y)
    have "path nx (nx x) ys y" using p snoc by (auto simp: path_append)
    moreover have "path (nx(y := x)) (nx x) ys y = path nx (nx x) ys y"
      using d snoc by (intro path_cong) auto
    moreover have "x \<noteq> y" using d snoc by auto
    ultimately have "path (nx(y := x)) (nx x) (ys @ [y]) x" by (auto simp: path_append)
    then show ?thesis using d snoc nx \<open>x \<noteq> y\<close> by (auto simp: ring_def)
  qed
qed

section \<open>The initial stack\<close>

lemma push_stack_run:
  assumes "w = kern_stack_top (tcb k p) - 4" "aligned4 w" "translate k w = Some a"
  shows "push_stack p v k = Inr ((upd_tcb p (\<lambda>t. t\<lparr>kern_stack_top := w\<rparr>) k)\<lparr>pmem := st32p (pmem k) a v\<rparr>)"
proof -
  define k1 where "k1 = upd_tcb p (\<lambda>t. t\<lparr>kern_stack_top := w\<rparr>) k"
  have "translate k1 = translate k" by (rule same_mmu(3)) (simp_all add: k1_def upd_tcb_def)
  then have "translate k1 w = Some a" using assms(3) by simp
  then have "store32 w v k1 = Inr (k1\<lparr>pmem := st32p (pmem k1) a v\<rparr>)" by (rule access32(2) [OF assms(2)])
  moreover have "pmem k1 = pmem k" by (simp add: k1_def upd_tcb_def)
  moreover have "upd_tcb p (\<lambda>t. t\<lparr>kern_stack_top := kern_stack_top t - 4\<rparr>) k = k1"
    by (simp add: k1_def upd_tcb_def assms(1))
  moreover have "kern_stack_top (tcb k1 p) = w" by (simp add: k1_def)
  ultimately show ?thesis by (simp add: push_stack_def Let_def k1_def)
qed

text \<open>
  \<open>stack_page I k sp p\<close>: the three words below \<open>sp\<close> are mapped to the different words \<open>p 1\<close>,
  \<open>p 2\<close>, \<open>p 3\<close>, away from the page tables.
\<close>

definition stack_page :: "uint32 set \<Rightarrow> kernel \<Rightarrow> uint32 \<Rightarrow> (nat \<Rightarrow> uint32) \<Rightarrow> bool" where
  "stack_page I k sp p \<longleftrightarrow> aligned4 sp \<and> off_tables I k \<and>
     (\<forall>i\<in>{1, 2, 3}. translate k (sp - 4 * of_nat i) = Some (p i) \<and> (\<forall>j<4. p i + of_nat j \<in> I)) \<and>
     p 1 \<noteq> p 2 \<and> p 1 \<noteq> p 3 \<and> p 2 \<noteq> p 3"

lemma aligned4_minus4: "aligned4 w \<Longrightarrow> aligned4 (w - 4)"
proof -
  assume "aligned4 w"
  then have w: "unat w mod 4 = 0" by (simp add: aligned4_def)
  have "unat (w - 4) mod 4 = 0"
  proof (cases "4 \<le> unat w")
    case True
    then have "unat (w - 4) = unat w - 4" by (simp add: unat_sub word_le_nat_alt)
    then show ?thesis using True w by presburger
  next
    case False
    then have "unat w = 0" using w by presburger
    then show ?thesis by (simp add: unat_eq_0)
  qed
  then show ?thesis by (simp add: aligned4_def)
qed

lemma st32p_in:
  assumes "\<forall>j<4. a + of_nat j \<in> I" "\<forall>x. x \<notin> I \<longrightarrow> h x = g x"
  shows "\<forall>x. x \<notin> I \<longrightarrow> st32p h a v x = g x"
proof (intro allI impI)
  fix x assume "x \<notin> I"
  then have "x \<noteq> a + of_nat j" if "j < 4" for j using assms(1) that by blast
  then show "st32p h a v x = g x" using assms(2) \<open>x \<notin> I\<close> by (simp add: st32p_other)
qed

lemma thread_fields:
  "(upd_tcb p f k)\<lparr>tcb := t, int_flag := b, pmem := h\<rparr> = k\<lparr>tcb := t, int_flag := b, pmem := h\<rparr>"
  "(k\<lparr>pmem := g\<rparr>)\<lparr>tcb := t, int_flag := b, pmem := h\<rparr> = k\<lparr>tcb := t, int_flag := b, pmem := h\<rparr>"
  "(sti k)\<lparr>tcb := t, int_flag := b, pmem := h\<rparr> = k\<lparr>tcb := t, int_flag := b, pmem := h\<rparr>"
  "(cli k)\<lparr>tcb := t, int_flag := b, pmem := h\<rparr> = k\<lparr>tcb := t, int_flag := b, pmem := h\<rparr>"
  "(link_thread i a n kern pool pdt k)\<lparr>tcb := t, int_flag := b, pmem := h\<rparr> = k\<lparr>tcb := t, int_flag := b, pmem := h\<rparr>"
proof -
  show u: "(upd_tcb p f k)\<lparr>tcb := t, int_flag := b, pmem := h\<rparr> = k\<lparr>tcb := t, int_flag := b, pmem := h\<rparr>" for p f k
    by (simp add: upd_tcb_def)
  show "(link_thread i a n kern pool pdt k)\<lparr>tcb := t, int_flag := b, pmem := h\<rparr> = k\<lparr>tcb := t, int_flag := b, pmem := h\<rparr>"
    by (cases kern) (simp_all only: link_thread_def Let_def create_TCB_def u if_True if_False simp_thms)
qed (simp_all add: sti_def cli_def)

lemma create_thread_run:
  assumes ring: "ring (nextt k) (cur_tcb k) xs" and a: "addr \<notin> set (cur_tcb k # xs)"
    and sp: "sp = addr + n * PAGE_SIZE" and st: "stack_page I k sp p"
  shows "\<exists>k'. create_thread t func args addr n kern pool pdt exit_addr k = Inr k' \<and>
    ring (nextt k') (cur_tcb k') (addr # xs) \<and> cur_tcb k' = cur_tcb k \<and> int_flag k' \<and>
    (\<forall>q. q \<noteq> addr \<longrightarrow> q \<noteq> cur_tcb k \<longrightarrow> tcb k' q = tcb k q) \<and> tcb k' (cur_tcb k) = (tcb k (cur_tcb k))\<lparr>t_next := addr\<rparr> \<and>
    status k' addr = TASK_READY \<and> tid (tcb k' addr) = t \<and> time_left (tcb k' addr) = TIME_CONT \<and>
    is_kern_thread (tcb k' addr) = kern \<and> check_kern_stack_overflow addr k' \<and>
    c_eflags (t_context (tcb k' addr)) = 0x202 \<and> c_esp (t_context (tcb k' addr)) = sp - 12 \<and>
    load32 (sp - 12) k' = Inr func \<and> load32 (sp - 8) k' = Inr exit_addr \<and> load32 (sp - 4) k' = Inr args \<and>
    page_counte (tcb k' addr) = n \<and> (\<not> kern \<longrightarrow> user_vmm_pool (tcb k' addr) = pool \<and> pdt_vaddr (tcb k' addr) = pdt) \<and>
    rest_of I (k'\<lparr>tcb := tcb k, int_flag := int_flag k\<rparr>) = rest_of I k"
proof -
  let ?c = "cur_tcb k"
  have ac: "addr \<noteq> ?c" using a by auto
  have al: "aligned4 sp" "aligned4 (sp - 4)" "aligned4 (sp - 8)" "aligned4 (sp - 12)"
    using st aligned4_minus4 [of sp] aligned4_minus4 [of "sp - 4"] aligned4_minus4 [of "sp - 8"]
    by (simp_all add: stack_page_def)
  have tr: "translate k (sp - 4) = Some (p 1)" "translate k (sp - 8) = Some (p 2)" "translate k (sp - 12) = Some (p 3)"
    and off: "off_tables I k" and ne: "p 1 \<noteq> p 2" "p 1 \<noteq> p 3" "p 2 \<noteq> p 3"
    and I: "\<forall>j<4. p 1 + of_nat j \<in> I" "\<forall>j<4. p 2 + of_nat j \<in> I" "\<forall>j<4. p 3 + of_nat j \<in> I"
    using st by (auto simp: stack_page_def)
  define k3 where "k3 = link_thread t addr n kern pool pdt (cli k)"
  have f3: "pmem k3 = pmem k" "cr3 k3 = cr3 k" "cur_tcb k3 = ?c"
    by (simp_all add: k3_def link_thread_def Let_def create_TCB_def upd_tcb_def cli_def)
  have q3: "tcb k3 q = tcb k q" if "q \<noteq> addr" "q \<noteq> ?c" for q
    using that by (simp add: k3_def link_thread_def Let_def create_TCB_def cli_def)
  have c3: "tcb k3 ?c = (tcb k ?c)\<lparr>t_next := addr\<rparr>"
    using ac by (simp add: k3_def link_thread_def Let_def create_TCB_def cli_def)
  have a3: "t_next (tcb k3 addr) = t_next (tcb k ?c)" "status k3 addr = TASK_READY" "tid (tcb k3 addr) = t"
    "time_left (tcb k3 addr) = TIME_CONT" "is_kern_thread (tcb k3 addr) = kern" "check_kern_stack_overflow addr k3"
    "kern_stack_top (tcb k3 addr) = sp" "page_counte (tcb k3 addr) = n"
    "\<not> kern \<longrightarrow> user_vmm_pool (tcb k3 addr) = pool \<and> pdt_vaddr (tcb k3 addr) = pdt"
    using ac by (simp_all add: k3_def link_thread_def Let_def create_TCB_def cli_def check_kern_stack_overflow_def sp)
  define h1 where "h1 = st32p (pmem k) (p 1) args"
  define h2 where "h2 = st32p h1 (p 2) exit_addr"
  define h3 where "h3 = st32p h2 (p 3) func"
  have agree: "\<forall>x. x \<notin> I \<longrightarrow> h1 x = pmem k x" "\<forall>x. x \<notin> I \<longrightarrow> h2 x = pmem k x" "\<forall>x. x \<notin> I \<longrightarrow> h3 x = pmem k x"
    unfolding h1_def h2_def h3_def using I by (simp_all add: st32p_in)
  have trh: "translate k'' v = translate k v" if "pmem k'' = h" "cr3 k'' = cr3 k" "\<forall>x. x \<notin> I \<longrightarrow> h x = pmem k x"
    for k'' :: kernel and h v
    using off_tables_write(4) [OF off that(3), of v] same_mmu(3) [of k'' "k\<lparr>pmem := h\<rparr>"] that(1,2) by simp
  define k4 where "k4 = (upd_tcb addr (\<lambda>t. t\<lparr>kern_stack_top := sp - 4\<rparr>) k3)\<lparr>pmem := h1\<rparr>"
  define k5 where "k5 = (upd_tcb addr (\<lambda>t. t\<lparr>kern_stack_top := sp - 8\<rparr>) k4)\<lparr>pmem := h2\<rparr>"
  define k6 where "k6 = (upd_tcb addr (\<lambda>t. t\<lparr>kern_stack_top := sp - 12\<rparr>) k5)\<lparr>pmem := h3\<rparr>"
  define k7 where "k7 = sti (upd_tcb addr (\<lambda>t. t\<lparr>t_context := (t_context t)\<lparr>c_eflags := 0x202, c_esp := kern_stack_top t\<rparr>\<rparr>) k6)"
  have m: "pmem k4 = h1" "pmem k5 = h2" "pmem k6 = h3" "pmem k7 = h3" "cr3 k4 = cr3 k" "cr3 k5 = cr3 k" "cr3 k6 = cr3 k"
    "cr3 k7 = cr3 k"
    by (simp_all add: k7_def k6_def k5_def k4_def upd_tcb_def sti_def f3)
  have "push_stack addr args k3 = Inr k4"
    using push_stack_run [of "sp - 4" k3 addr "p 1" args] a3(7) al(2) tr(1) same_mmu(3) [of k3 k] f3
    by (simp add: k4_def h1_def)
  moreover have "push_stack addr exit_addr k4 = Inr k5"
    using push_stack_run [of "sp - 8" k4 addr "p 2" exit_addr] al(3) tr(2) trh [OF m(1,5) agree(1)]
    by (simp add: k5_def h2_def m(1)) (simp add: k4_def)
  moreover have "push_stack addr func k5 = Inr k6"
    using push_stack_run [of "sp - 12" k5 addr "p 3" func] al(4) tr(3) trh [OF m(2,6) agree(2)]
    by (simp add: k6_def h3_def m(2)) (simp add: k5_def)
  ultimately have run: "create_thread t func args addr n kern pool pdt exit_addr k = Inr k7"
    by (simp add: create_thread_def k7_def flip: k3_def)
  have tc: "tcb k7 q = (if q = addr then (tcb k3 addr)\<lparr>kern_stack_top := sp - 12,
      t_context := (t_context (tcb k3 addr))\<lparr>c_eflags := 0x202, c_esp := sp - 12\<rparr>\<rparr> else tcb k3 q)" for q
    by (simp add: k7_def k6_def k5_def k4_def sti_def)
  have cur: "cur_tcb k7 = ?c" by (simp add: k7_def k6_def k5_def k4_def sti_def f3)
  have "nextt k7 = (nextt k)(?c := addr, addr := nextt k ?c)"
    using ac a3(1) c3 q3 by (auto simp: fun_eq_iff tc)
  then have ring7: "ring (nextt k7) (cur_tcb k7) (addr # xs)" using ring_insert [OF ring a] cur by simp
  have tr7: "translate k7 v = translate k v" for v by (rule trh [OF m(4,8) agree(3)])
  have al_p: "aligned4 (p 1)" "aligned4 (p 2)" "aligned4 (p 3)"
    using access32(3) [OF al(2) tr(1)] access32(3) [OF al(3) tr(2)] access32(3) [OF al(4) tr(3)] by simp_all
  have ld: "load32 (sp - 4) k7 = Inr (ld32p h3 (p 1))" "load32 (sp - 8) k7 = Inr (ld32p h3 (p 2))"
    "load32 (sp - 12) k7 = Inr (ld32p h3 (p 3))"
    using access32(1) [OF al(2), of k7 "p 1"] access32(1) [OF al(3), of k7 "p 2"] access32(1) [OF al(4), of k7 "p 3"]
      tr tr7 m(4) by simp_all
  have v: "ld32p h3 (p 1) = args" "ld32p h3 (p 2) = exit_addr" "ld32p h3 (p 3) = func"
    unfolding h3_def h2_def h1_def using al_p ne by simp_all
  have "k7\<lparr>tcb := tcb k, int_flag := int_flag k\<rparr> = k\<lparr>pmem := h3\<rparr>"
  proof -
    have "k7\<lparr>tcb := tcb k, int_flag := int_flag k, pmem := h3\<rparr> = k\<lparr>tcb := tcb k, int_flag := int_flag k, pmem := h3\<rparr>"
      unfolding k7_def k6_def k5_def k4_def k3_def by (simp only: thread_fields)
    moreover have "x = x\<lparr>pmem := h3\<rparr>" if "pmem x = h3" for x :: kernel using that by (cases x) simp
    then have "k7\<lparr>tcb := tcb k, int_flag := int_flag k\<rparr> = k7\<lparr>tcb := tcb k, int_flag := int_flag k\<rparr>\<lparr>pmem := h3\<rparr>" using m(4) by simp
    ultimately show ?thesis by simp
  qed
  moreover have "(\<lambda>x. if x \<in> I then 0 else h3 x) = (\<lambda>x. if x \<in> I then 0 else pmem k x)" using agree(3) by auto
  then have "rest_of I (k\<lparr>pmem := h3\<rparr>) = rest_of I k" by (simp add: rest_of_def cong: if_cong)
  ultimately have "rest_of I (k7\<lparr>tcb := tcb k, int_flag := int_flag k\<rparr>) = rest_of I k" by (simp only:)
  then show ?thesis
    using run ring7 cur ac q3 c3 a3 ld v
    by (intro exI [of _ k7]) (simp add: tc check_kern_stack_overflow_def, simp add: k7_def sti_def)
qed

section \<open>Blocking\<close>

lemma cli_frame [simp]: "tcb (cli k) = tcb k" "cur_tcb (cli k) = cur_tcb k" "tcb (k\<lparr>int_flag := b\<rparr>) = tcb k"
  "cur_tcb (k\<lparr>int_flag := b\<rparr>) = cur_tcb k"
  by (simp_all add: cli_def)

lemma thread_block_to:
  assumes "threads_ok k (ys @ p # zs)" "status k p = TASK_READY" "\<forall>q\<in>set ys. status k q \<noteq> TASK_READY"
  shows "\<exists>k'. thread_block k = Inr (True, int_flag k, k') \<and> cur_tcb k' = p \<and> threads_ok k' (zs @ cur_tcb k # ys) \<and>
    int_flag k' = bit (c_eflags (t_context (tcb k p))) 9 \<and>
    (\<forall>q. q \<noteq> cur_tcb k \<longrightarrow> t_context (tcb k' q) = t_context (tcb k q)) \<and>
    (\<forall>q. status k' q = (if q = p then TASK_RUNNING else if q = cur_tcb k then TASK_BLOCKED else status k q))"
proof -
  let ?c = "cur_tcb k" and ?xs = "ys @ p # zs"
  define k2 where "k2 = upd_tcb ?c (\<lambda>t. t\<lparr>task_status := TASK_BLOCKED\<rparr>) (cli k)"
  have ring: "ring (nextt k) ?c ?xs" and c0: "?c \<noteq> 0" and mg: "check_kern_stack_overflow ?c k"
    and pk: "is_kern_thread (tcb k p)"
    using assms(1) by (auto simp: threads_ok_def)
  have pc: "p \<noteq> ?c" "\<forall>q\<in>set ys. q \<noteq> ?c" using ring by (auto simp: ring_def)
  have nx: "nextt k2 = nextt k" by (rule ext) (simp add: k2_def)
  have st2: "status k2 q = (if q = ?c then TASK_BLOCKED else status k q)" for q by (simp add: k2_def)
  have f: "List.find (\<lambda>q. status k2 q = TASK_READY) ?xs = Some p"
    using assms(2,3) pc by (intro find_first) (auto simp: st2)
  have c2: "cur_tcb k2 = ?c" "check_kern_stack_overflow ?c k2" "is_kern_thread (tcb k2 p)"
    using mg pk pc by (simp_all add: k2_def check_kern_stack_overflow_def)
  obtain k' where k': "schedule k2 = Inr (True, k')" "cur_tcb k' = p"
    "\<And>q. status k' q = (if q = p then TASK_RUNNING
       else if q = ?c \<and> status k2 q = TASK_RUNNING then TASK_READY else status k2 q)"
    "nextt k' = nextt k2" "\<And>q. check_kern_stack_overflow q k' = check_kern_stack_overflow q k2"
    "\<And>q. is_kern_thread (tcb k' q) = is_kern_thread (tcb k2 q)"
    "int_flag k' = bit (c_eflags (t_context (tcb k2 p))) 9" "\<And>q. q \<noteq> ?c \<Longrightarrow> t_context (tcb k' q) = t_context (tcb k2 q)"
    using schedule_to [of k2 ?xs p] ring c0 c2 f unfolding nx by auto
  have "thread_block k = Inr (True, int_flag k, k')"
    using k'(1) by (simp add: thread_block_def get_running_progress_def cli_condition_eq Let_def flip: k2_def)
  moreover have st': "status k' q = (if q = p then TASK_RUNNING else if q = ?c then TASK_BLOCKED else status k q)" for q
    unfolding k'(3) st2 by simp
  moreover have "threads_ok k' (zs @ ?c # ys)"
  proof -
    have "ring (nextt k') p (zs @ ?c # ys)" unfolding k'(4) nx using ring by (rule ring_rotate)
    moreover have "check_kern_stack_overflow q k' = check_kern_stack_overflow q k"
      "is_kern_thread (tcb k' q) = is_kern_thread (tcb k q)" for q
      unfolding k'(5,6) by (simp_all add: k2_def check_kern_stack_overflow_def)
    ultimately show ?thesis using assms(1) unfolding threads_ok_def k'(2) st' by (auto simp: ring_def)
  qed
  moreover have "int_flag k' = bit (c_eflags (t_context (tcb k p))) 9"
    "\<And>q. q \<noteq> ?c \<Longrightarrow> t_context (tcb k' q) = t_context (tcb k q)"
    using k'(7,8) pc(1) by (simp_all add: k2_def)
  ultimately show ?thesis using k'(2) by blast
qed

lemma thread_block_stays:
  assumes "threads_ok k xs" "\<forall>q\<in>set xs. status k q \<noteq> TASK_READY"
  shows "\<exists>k'. thread_block k = Inr (False, int_flag k, k') \<and> cur_tcb k' = cur_tcb k \<and> threads_ok k' xs \<and>
    int_flag k' = int_flag k \<and> (\<forall>q. status k' q = status k q)"
proof -
  let ?c = "cur_tcb k"
  define k2 where "k2 = upd_tcb ?c (\<lambda>t. t\<lparr>task_status := TASK_BLOCKED\<rparr>) (cli k)"
  have ring: "ring (nextt k) ?c xs" and c0: "?c \<noteq> 0" and mg: "check_kern_stack_overflow ?c k"
    using assms(1) by (auto simp: threads_ok_def)
  have xc: "\<forall>q\<in>set xs. q \<noteq> ?c" using ring by (auto simp: ring_def)
  have nx: "nextt k2 = nextt k" by (rule ext) (simp add: k2_def)
  have c2: "cur_tcb k2 = ?c" "check_kern_stack_overflow ?c k2" using mg by (simp_all add: k2_def check_kern_stack_overflow_def)
  have "List.find (\<lambda>q. status k2 q = TASK_READY) xs = None"
    using assms(2) xc by (auto simp: find_None_iff k2_def)
  then have sch: "schedule k2 = Inr (False, run_again k2)"
    using schedule_stays [of k2 xs] ring c0 c2 unfolding nx by simp
  define k' where "k' = sti_condition (int_flag k) (run_again k2)"
  have "thread_block k = Inr (False, int_flag k, k')"
    using sch by (simp add: thread_block_def get_running_progress_def cli_condition_eq Let_def k'_def flip: k2_def)
  moreover have cur: "cur_tcb k' = ?c" and fl: "int_flag k' = int_flag k"
    by (simp_all add: k'_def run_again_def k2_def sti_condition_eq)
  moreover have st: "status k' q = status k q" for q
    using assms(1) by (simp add: k'_def run_again_def k2_def sti_condition_eq threads_ok_def)
  moreover have "threads_ok k' xs"
  proof -
    have "nextt k' = nextt k" by (rule ext) (simp add: k'_def run_again_def k2_def sti_condition_eq)
    moreover have "check_kern_stack_overflow q k' = check_kern_stack_overflow q k"
      "is_kern_thread (tcb k' q) = is_kern_thread (tcb k q)" for q
      by (simp_all add: k'_def run_again_def k2_def sti_condition_eq check_kern_stack_overflow_def)
    ultimately show ?thesis using assms(1) cur st by (simp add: threads_ok_def)
  qed
  ultimately show ?thesis by blast
qed


end
