(* ===== verification/Sync.thy ===== *)
theory Sync
  imports ThreadsLife
begin

text \<open>
  \<^verbatim>\<open>src/kernel/modules/sync/sync.c\<close>: the wait queue, semaphores and locks. A queue node is a
  local variable of \<^verbatim>\<open>sem_P\<close>, on the stack of the waiting thread; \<open>nodes\<close> is the heap of such
  nodes, by address. \<^verbatim>\<open>sem_P\<close> runs with interrupts closed, so that the only point where another
  thread can run is the context switch inside \<^verbatim>\<open>thread_block\<close>: the operation is split there,
  into the part up to the switch and the part that the thread runs when it is resumed.
\<close>

section \<open>The wait queue\<close>

record sync_tool_sem_queue_node_t =
  n_thread :: uint32
  n_next :: "uint32 option"

record sync_tool_sem_queue_t =
  q_head :: "uint32 option"

type_synonym nodes = "uint32 \<Rightarrow> sync_tool_sem_queue_node_t"

definition sync_tool_sem_init_queue :: "sync_tool_sem_queue_t \<Rightarrow> sync_tool_sem_queue_t" where
  "sync_tool_sem_init_queue queue = queue\<lparr>q_head := None\<rparr>"

definition sync_tool_get ::
  "sync_tool_sem_queue_t \<Rightarrow> nodes \<Rightarrow> uint32 option \<times> sync_tool_sem_queue_t \<times> nodes" where
  "sync_tool_get queue h =
     (case q_head queue of None \<Rightarrow> (None, queue, h)
      | Some probe \<Rightarrow> (Some probe, queue\<lparr>q_head := n_next (h probe)\<rparr>, h(probe := (h probe)\<lparr>n_next := None\<rparr>)))"

definition sync_tool_add ::
  "sync_tool_sem_queue_t \<Rightarrow> uint32 \<Rightarrow> nodes \<Rightarrow> fault + (sync_tool_sem_queue_t \<times> nodes)" where
  "sync_tool_add queue node h0 =
     (let h = h0(node := (h0 node)\<lparr>n_next := None\<rparr>)
      in case q_head queue of None \<Rightarrow> Inr (queue\<lparr>q_head := Some node\<rparr>, h)
         | Some p \<Rightarrow> bindE (loopE (last_node (\<lambda>n. n_next (h n)) p)) (\<lambda>probe.
             Inr (queue, h(probe := (h probe)\<lparr>n_next := Some node\<rparr>))))"

definition sync_tool_is_empty :: "sync_tool_sem_queue_t \<Rightarrow> bool" where
  "sync_tool_is_empty queue = (q_head queue = None)"

section \<open>Semaphores\<close>

record sem_t =
  s_val :: uint32
  wait_queue :: sync_tool_sem_queue_t

definition sem_init :: "uint32 \<Rightarrow> sem_t \<Rightarrow> sem_t" where
  "sem_init val sem = sem\<lparr>wait_queue := sync_tool_sem_init_queue (wait_queue sem), s_val := val\<rparr>"

text \<open>
  How \<^verbatim>\<open>sem_P\<close> ends: the value was taken, or the thread was switched away inside
  \<^verbatim>\<open>thread_block\<close>, which will restore the interrupt flag \<open>b\<close> (\<open>P_wait b\<close>).
\<close>

datatype p_result = P_done | P_wait bool

text \<open>The loop of \<^verbatim>\<open>sem_P\<close>, from its test; \<open>node\<close> is the address of the local variable.\<close>

partial_function (option) sem_P_loop ::
  "uint32 \<Rightarrow> sem_t \<Rightarrow> nodes \<Rightarrow> kernel \<Rightarrow> (fault + (p_result \<times> sem_t \<times> nodes \<times> kernel)) option" where
  "sem_P_loop node sem h k =
     (if s_val sem = 0
      then (case sync_tool_add (wait_queue sem) node (h(node := (h node)\<lparr>n_thread := get_running_progress k\<rparr>)) of
              Inl e \<Rightarrow> Some (Inl e)
            | Inr r \<Rightarrow> (case thread_block k of
                Inl e \<Rightarrow> Some (Inl e)
              | Inr b \<Rightarrow> if fst b then Some (Inr (P_wait (fst (snd b)), sem\<lparr>wait_queue := fst r\<rparr>, snd r, snd (snd b)))
                         else sem_P_loop node (sem\<lparr>wait_queue := fst r\<rparr>) (snd r) (snd (snd b))))
      else Some (Inr (P_done, sem\<lparr>s_val := s_val sem - 1\<rparr>, h, k)))"

text \<open>The statements behind the loop; \<open>condition\<close> is the flag saved at the entry.\<close>

definition sem_P_end ::
  "bool \<Rightarrow> p_result \<times> sem_t \<times> nodes \<times> kernel \<Rightarrow> p_result \<times> bool \<times> sem_t \<times> nodes \<times> kernel" where
  "sem_P_end condition r = (case r of (res, sem, h, k) \<Rightarrow>
     (res, condition, sem, h, if res = P_done then sti_condition condition k else k))"

definition sem_P ::
  "uint32 \<Rightarrow> sem_t \<Rightarrow> nodes \<Rightarrow> kernel \<Rightarrow> fault + (p_result \<times> bool \<times> sem_t \<times> nodes \<times> kernel)" where
  "sem_P node sem h k =
     (let (condition, k1) = cli_condition k
      in bindE (joinE (sem_P_loop node sem h k1)) (\<lambda>r. Inr (sem_P_end condition r)))"

text \<open>The thread runs again: the end of \<^verbatim>\<open>thread_block\<close>, then the test of the loop.\<close>

definition sem_P_resume ::
  "bool \<Rightarrow> bool \<Rightarrow> uint32 \<Rightarrow> sem_t \<Rightarrow> nodes \<Rightarrow> kernel \<Rightarrow> fault + (p_result \<times> bool \<times> sem_t \<times> nodes \<times> kernel)" where
  "sem_P_resume b condition node sem h k =
     bindE (joinE (sem_P_loop node sem h (sti_condition b k))) (\<lambda>r. Inr (sem_P_end condition r))"

definition sem_V :: "sem_t \<Rightarrow> nodes \<Rightarrow> kernel \<Rightarrow> sem_t \<times> nodes \<times> kernel" where
  "sem_V sem h k =
     (let (condition, k1) = cli_condition k;
          (sem1, h1, k2) =
            (if sync_tool_is_empty (wait_queue sem) then (sem, h, k1)
             else let (node, q, h') = sync_tool_get (wait_queue sem) h
                  in case node of
                       None \<Rightarrow> (sem\<lparr>wait_queue := q\<rparr>, h', k1)
                     | Some n \<Rightarrow> (sem\<lparr>wait_queue := q\<rparr>, h', thread_wakeup (n_thread (h' n)) k1))
      in (sem1\<lparr>s_val := s_val sem1 + 1\<rparr>, h1, sti_condition condition k2))"

section \<open>Locks\<close>

record lock_t =
  holder :: uint32
  l_sem :: sem_t

definition lock_init :: "lock_t \<Rightarrow> lock_t" where
  "lock_init lock = lock\<lparr>l_sem := sem_init 1 (l_sem lock), holder := 0\<rparr>"

text \<open>
  \<^verbatim>\<open>lock_acquire\<close> returns \<open>None\<close> when the thread has the lock, and otherwise the flags that the
  suspended calls of \<^verbatim>\<open>thread_block\<close>, \<^verbatim>\<open>sem_P\<close> and \<^verbatim>\<open>lock_acquire\<close> will restore.
\<close>

datatype wait_flags = Flags bool bool bool

definition lock_acquire_end ::
  "bool \<Rightarrow> lock_t \<Rightarrow> p_result \<times> bool \<times> sem_t \<times> nodes \<times> kernel \<Rightarrow> wait_flags option \<times> lock_t \<times> nodes \<times> kernel" where
  "lock_acquire_end condition lock r = (case r of (res, c, sem, h, k) \<Rightarrow>
     (case res of
        P_done \<Rightarrow> (None, lock\<lparr>l_sem := sem, holder := get_running_progress k\<rparr>, h, sti_condition condition k)
      | P_wait b \<Rightarrow> (Some (Flags b c condition), lock\<lparr>l_sem := sem\<rparr>, h, k)))"

definition lock_acquire ::
  "uint32 \<Rightarrow> lock_t \<Rightarrow> nodes \<Rightarrow> kernel \<Rightarrow> fault + (wait_flags option \<times> lock_t \<times> nodes \<times> kernel)" where
  "lock_acquire node lock h k =
     (let (condition, k1) = cli_condition k
      in if holder lock \<noteq> get_running_progress k1
         then bindE (sem_P node (l_sem lock) h k1) (\<lambda>r. Inr (lock_acquire_end condition lock r))
         else Inr (None, lock, h, sti_condition condition k1))"

definition lock_acquire_resume ::
  "wait_flags \<Rightarrow> uint32 \<Rightarrow> lock_t \<Rightarrow> nodes \<Rightarrow> kernel \<Rightarrow>
    fault + (wait_flags option \<times> lock_t \<times> nodes \<times> kernel)" where
  "lock_acquire_resume fl node lock h k = (case fl of Flags b c condition \<Rightarrow>
     bindE (sem_P_resume b c node (l_sem lock) h k) (\<lambda>r. Inr (lock_acquire_end condition lock r)))"

definition lock_release :: "lock_t \<Rightarrow> nodes \<Rightarrow> kernel \<Rightarrow> lock_t \<times> nodes \<times> kernel" where
  "lock_release lock h k =
     (let (condition, k1) = cli_condition k
      in if holder lock = get_running_progress k1
         then let (sem, h', k2) = sem_V (l_sem lock) h k1
              in (lock\<lparr>holder := 0, l_sem := sem\<rparr>, h', sti_condition condition k2)
         else (lock, h, sti_condition condition k1))"

end
