(* ===== verification/SyncLock.thy ===== *)
theory SyncLock
  imports Sync
begin

text \<open>
  Locks under all interleavings: the wait queue is a first-in first-out queue, \<^verbatim>\<open>sem_P\<close> and
  \<^verbatim>\<open>sem_V\<close> on it, the system of threads that share one lock as a step relation, and its
  invariant.
\<close>

section \<open>The wait queue\<close>

abbreviation node_next :: "nodes \<Rightarrow> uint32 \<Rightarrow> uint32 option" where
  "node_next h \<equiv> (\<lambda>n. n_next (h n))"

definition waiting :: "sync_tool_sem_queue_t \<Rightarrow> nodes \<Rightarrow> uint32 list \<Rightarrow> bool" where
  "waiting q h ns \<longleftrightarrow> chain (node_next h) (q_head q) ns"

lemma node_next_upd: "node_next (h(n := (h n)\<lparr>n_next := p\<rparr>)) = (node_next h)(n := p)"
  by auto

lemma sync_tool_add_waiting:
  assumes "waiting q h ns" "n \<notin> set ns"
  shows "\<exists>q' h'. sync_tool_add q n h = Inr (q', h') \<and> waiting q' h' (ns @ [n]) \<and> (\<forall>m. n_thread (h' m) = n_thread (h m))"
proof -
  define h1 where "h1 = h(n := (h n)\<lparr>n_next := None\<rparr>)"
  have nx: "node_next h1 = (node_next h)(n := None)" unfolding h1_def by (rule node_next_upd)
  have ch: "chain (node_next h1) (q_head q) ns" using assms unfolding nx waiting_def by simp
  show ?thesis
  proof (cases "q_head q")
    case None
    then show ?thesis using ch
      by (intro exI [of _ "q\<lparr>q_head := Some n\<rparr>"] exI [of _ h1]) (auto simp: sync_tool_add_def waiting_def h1_def)
  next
    case (Some p)
    then obtain ms m where ns: "ns = ms @ [m]" using ch by (cases ns rule: rev_cases) auto
    define h2 where "h2 = h1(m := (h1 m)\<lparr>n_next := Some n\<rparr>)"
    have "last_node (node_next h1) p = Some m" using last_node_chain [of "node_next h1" p ns] ch Some ns by simp
    then have run: "sync_tool_add q n h = Inr (q, h2)" using Some by (simp add: sync_tool_add_def h2_def flip: h1_def)
    have "node_next h2 = (node_next h1)(m := Some n)" unfolding h2_def by (rule node_next_upd)
    moreover have "node_next h1 n = None" by (simp add: h1_def)
    ultimately have "waiting q h2 (ns @ [n])"
      using chain_snoc [of "node_next h1" "q_head q" ms m n] ch assms(2) ns unfolding waiting_def by simp
    moreover have "\<forall>x. n_thread (h2 x) = n_thread (h x)" by (simp add: h2_def h1_def)
    ultimately show ?thesis using run by blast
  qed
qed

lemma sync_tool_get_waiting:
  assumes "waiting q h (n # ns)"
  shows "\<exists>q' h'. sync_tool_get q h = (Some n, q', h') \<and> waiting q' h' ns \<and> (\<forall>m. n_thread (h' m) = n_thread (h m))"
proof -
  define h' where "h' = h(n := (h n)\<lparr>n_next := None\<rparr>)"
  have ch: "q_head q = Some n" "chain (node_next h) (n_next (h n)) ns" using assms by (simp_all add: waiting_def)
  then have "n \<notin> set ns" using chain_not_in_tail by metis
  then have "waiting (q\<lparr>q_head := n_next (h n)\<rparr>) h' ns"
    using ch(2) unfolding waiting_def h'_def node_next_upd by simp
  moreover have "\<forall>m. n_thread (h' m) = n_thread (h m)" by (simp add: h'_def)
  ultimately show ?thesis using ch(1) by (auto simp: sync_tool_get_def h'_def)
qed

interpretation wq: fifo_queue
  "\<lambda>n (q, h). sync_tool_add q n h" "\<lambda>(q, h). sync_tool_get q h" "\<lambda>(q, h) ns. waiting q h ns"
proof (unfold_locales, goal_cases)
  case (1 s ns n)
  then show ?case using sync_tool_add_waiting [of "fst s" "snd s" ns n] by (auto split: prod.splits)
next
  case (2 s n ns)
  then show ?case using sync_tool_get_waiting [of "fst s" "snd s" n ns] by (auto split: prod.splits)
next
  case (3 s)
  then show ?case by (auto simp: waiting_def sync_tool_get_def split: prod.splits)
qed

section \<open>Taking and giving\<close>

lemma sem_P_loop_free: "s_val sem \<noteq> 0 \<Longrightarrow> sem_P_loop node sem h k = Some (Inr (P_done, sem\<lparr>s_val := s_val sem - 1\<rparr>, h, k))"
  by (simp add: sem_P_loop.simps)

text \<open>The value is zero and another thread is ready: the thread waits in the queue, blocked.\<close>

lemma sem_P_loop_waits:
  assumes "s_val sem = 0" "threads_ok k (ys @ p # zs)" "status k p = TASK_READY" "\<forall>q\<in>set ys. status k q \<noteq> TASK_READY"
    and "waiting (wait_queue sem) h ns" "node \<notin> set ns"
  shows "\<exists>sem' h' k'. sem_P_loop node sem h k = Some (Inr (P_wait (int_flag k), sem', h', k')) \<and> s_val sem' = 0 \<and>
    waiting (wait_queue sem') h' (ns @ [node]) \<and> n_thread (h' node) = cur_tcb k \<and>
    (\<forall>m. m \<noteq> node \<longrightarrow> n_thread (h' m) = n_thread (h m)) \<and> cur_tcb k' = p \<and> threads_ok k' (zs @ cur_tcb k # ys) \<and>
    int_flag k' = bit (c_eflags (t_context (tcb k p))) 9 \<and>
    (\<forall>q. q \<noteq> cur_tcb k \<longrightarrow> t_context (tcb k' q) = t_context (tcb k q)) \<and>
    (\<forall>q. status k' q = (if q = p then TASK_RUNNING else if q = cur_tcb k then TASK_BLOCKED else status k q))"
proof -
  define h1 where "h1 = h(node := (h node)\<lparr>n_thread := get_running_progress k\<rparr>)"
  have "node_next h1 = node_next h" by (auto simp: h1_def)
  then have "waiting (wait_queue sem) h1 ns" using assms(5) by (simp add: waiting_def)
  then obtain q' h' where q': "sync_tool_add (wait_queue sem) node h1 = Inr (q', h')" "waiting q' h' (ns @ [node])"
    "\<forall>m. n_thread (h' m) = n_thread (h1 m)"
    using sync_tool_add_waiting assms(6) by blast
  obtain k' where k': "thread_block k = Inr (True, int_flag k, k')" "cur_tcb k' = p" "threads_ok k' (zs @ cur_tcb k # ys)"
    "\<forall>q. status k' q = (if q = p then TASK_RUNNING else if q = cur_tcb k then TASK_BLOCKED else status k q)"
    "int_flag k' = bit (c_eflags (t_context (tcb k p))) 9" "\<forall>q. q \<noteq> cur_tcb k \<longrightarrow> t_context (tcb k' q) = t_context (tcb k q)"
    using thread_block_to [OF assms(2-4)] by blast
  have "sem_P_loop node sem h k = Some (Inr (P_wait (int_flag k), sem\<lparr>wait_queue := q'\<rparr>, h', k'))"
    using assms(1) q'(1) k'(1) by (simp add: sem_P_loop.simps flip: h1_def)
  moreover have "n_thread (h' node) = cur_tcb k" "\<forall>m. m \<noteq> node \<longrightarrow> n_thread (h' m) = n_thread (h m)"
    using q'(3) by (simp_all add: h1_def get_running_progress_def)
  ultimately show ?thesis using assms(1) q'(2) k'(2-6) by auto
qed

lemma sync_tool_add_fault: "sync_tool_add q n h = Inl e \<Longrightarrow> e = Spin"
  by (auto simp: sync_tool_add_def Let_def loopE_def split: option.splits)

text \<open>The value is zero and no other thread is ready: the loop never ends.\<close>

lemma sem_P_loop_stuck:
  assumes "sem_P_loop node sem h k = Some y"
  shows "(\<exists>xs. threads_ok k xs \<and> (\<forall>q\<in>set xs. status k q \<noteq> TASK_READY)) \<longrightarrow> s_val sem = 0 \<longrightarrow> y = Inl Spin"
  (is "?P node sem h k y")
proof (rule sem_P_loop.raw_induct [where P = ?P, OF _ assms])
  fix f node sem h k y
  assume IH: "\<And>node sem h k y. f node sem h k = Some y \<Longrightarrow> ?P node sem h k y"
    and run: "(if s_val sem = 0
      then (case sync_tool_add (wait_queue sem) node (h(node := (h node)\<lparr>n_thread := get_running_progress k\<rparr>)) of
              Inl e \<Rightarrow> Some (Inl e)
            | Inr r \<Rightarrow> (case thread_block k of
                Inl e \<Rightarrow> Some (Inl e)
              | Inr b \<Rightarrow> if fst b then Some (Inr (P_wait (fst (snd b)), sem\<lparr>wait_queue := fst r\<rparr>, snd r, snd (snd b)))
                         else f node (sem\<lparr>wait_queue := fst r\<rparr>) (snd r) (snd (snd b))))
      else Some (Inr (P_done, sem\<lparr>s_val := s_val sem - 1\<rparr>, h, k))) = Some y"
  show "?P node sem h k y"
  proof (intro impI)
    assume "\<exists>xs. threads_ok k xs \<and> (\<forall>q\<in>set xs. status k q \<noteq> TASK_READY)" and v: "s_val sem = 0"
    then obtain xs where xs: "threads_ok k xs" "\<forall>q\<in>set xs. status k q \<noteq> TASK_READY" by blast
    obtain k' where k': "thread_block k = Inr (False, int_flag k, k')" "threads_ok k' xs" "\<forall>q. status k' q = status k q"
      using thread_block_stays [OF xs] by blast
    show "y = Inl Spin"
    proof (cases "sync_tool_add (wait_queue sem) node (h(node := (h node)\<lparr>n_thread := get_running_progress k\<rparr>))")
      case (Inl e)
      then show ?thesis using run v sync_tool_add_fault [OF Inl] by simp
    next
      case (Inr r)
      then have "f node (sem\<lparr>wait_queue := fst r\<rparr>) (snd r) k' = Some y" using run v k'(1) by simp
      then have "?P node (sem\<lparr>wait_queue := fst r\<rparr>) (snd r) k' y" by (rule IH)
      then show ?thesis using k'(2,3) xs(2) v by auto
    qed
  qed
qed

lemma sem_P_loop_spins:
  assumes "threads_ok k xs" "\<forall>q\<in>set xs. status k q \<noteq> TASK_READY" "s_val sem = 0"
  shows "joinE (sem_P_loop node sem h k) = Inl Spin"
  using sem_P_loop_stuck [of node sem h k] assms by (cases "sem_P_loop node sem h k") auto

lemma sem_V_empty: "waiting (wait_queue sem) h [] \<Longrightarrow> sem_V sem h k = (sem\<lparr>s_val := s_val sem + 1\<rparr>, h, k)"
  by (simp add: sem_V_def waiting_def sync_tool_is_empty_def cli_condition_eq sti_condition_eq cli_def)

lemma sem_V_wakes:
  assumes "waiting (wait_queue sem) h (n # ns)"
  shows "\<exists>q' h'. sem_V sem h k = (sem\<lparr>wait_queue := q', s_val := s_val sem + 1\<rparr>, h',
      upd_tcb (n_thread (h n)) (\<lambda>t. t\<lparr>task_status := TASK_READY\<rparr>) k) \<and>
    waiting q' h' ns \<and> (\<forall>m. n_thread (h' m) = n_thread (h m))"
proof -
  obtain q' h' where g: "sync_tool_get (wait_queue sem) h = (Some n, q', h')" "waiting q' h' ns"
    "\<forall>m. n_thread (h' m) = n_thread (h m)"
    using sync_tool_get_waiting [OF assms] by blast
  have "\<not> sync_tool_is_empty (wait_queue sem)" using assms by (simp add: waiting_def sync_tool_is_empty_def)
  then have "sem_V sem h k = (sem\<lparr>wait_queue := q', s_val := s_val sem + 1\<rparr>, h',
      upd_tcb (n_thread (h n)) (\<lambda>t. t\<lparr>task_status := TASK_READY\<rparr>) k)"
    using g by (simp add: sem_V_def cli_condition_eq sti_condition_eq thread_wakeup_def upd_tcb_def cli_def)
  then show ?thesis using g(2,3) by blast
qed

section \<open>A lock that nobody holds\<close>

definition lock_free :: "lock_t \<Rightarrow> nodes \<Rightarrow> kernel \<Rightarrow> bool" where
  "lock_free l h k \<longleftrightarrow> holder l = 0 \<and> s_val (l_sem l) = 1 \<and> waiting (wait_queue (l_sem l)) h [] \<and> cur_tcb k \<noteq> 0"

definition lock_taken :: "lock_t \<Rightarrow> kernel \<Rightarrow> lock_t" where
  "lock_taken l k = l\<lparr>l_sem := (l_sem l)\<lparr>s_val := 0\<rparr>, holder := cur_tcb k\<rparr>"

text \<open>Acquiring it takes effect at once, and releasing it afterwards restores it.\<close>

lemma lock_free_cycle:
  assumes "lock_free l h k"
  shows "lock_acquire wn l h k = Inr (None, lock_taken l k, h, k)"
    "cur_tcb k' = cur_tcb k \<Longrightarrow> lock_release (lock_taken l k) h k' = (l, h, k')"
proof -
  note l = assms [unfolded lock_free_def]
  show "lock_acquire wn l h k = Inr (None, lock_taken l k, h, k)"
    using l by (simp add: lock_acquire_def lock_acquire_end_def sem_P_def sem_P_end_def sem_P_loop_free cli_condition_eq
        sti_condition_eq cli_def get_running_progress_def lock_taken_def)
  show "lock_release (lock_taken l k) h k' = (l, h, k')" if "cur_tcb k' = cur_tcb k"
    using l that by (simp add: lock_release_def sem_V_empty cli_condition_eq sti_condition_eq cli_def get_running_progress_def
        lock_taken_def)
qed

end
