(* ===== verification/LockSystem.thy ===== *)
theory LockSystem
  imports SyncLock
begin

text \<open>
  The threads of the kernel sharing one lock, as a step relation. A step is a maximal piece of
  code that runs with interrupts closed: \<^verbatim>\<open>lock_acquire\<close> up to its end or to the context
  switch inside \<^verbatim>\<open>thread_block\<close>, its continuation when the thread is resumed, \<^verbatim>\<open>lock_release\<close>,
  or a clock interrupt.
\<close>

section \<open>Steps\<close>

text \<open>
  \<open>sys_frames\<close> has, for a thread inside \<^verbatim>\<open>lock_acquire\<close>, the address of its queue node and the
  saved interrupt flags; \<open>sys_inside\<close> is the set of threads between \<^verbatim>\<open>lock_acquire\<close> and
  \<^verbatim>\<open>lock_release\<close>; \<open>sys_intr\<close> is the set of threads that a clock interrupt suspended, whose next
  instructions are the end of the handler and its \<^verbatim>\<open>iret\<close>.
\<close>

record lock_sys =
  sys_k :: kernel
  sys_nodes :: nodes
  sys_lock :: lock_t
  sys_frames :: "uint32 \<Rightarrow> (uint32 \<times> wait_flags) option"
  sys_inside :: "uint32 set"
  sys_intr :: "uint32 set"

definition after_acquire ::
  "uint32 \<Rightarrow> uint32 \<Rightarrow> wait_flags option \<times> lock_t \<times> nodes \<times> kernel \<Rightarrow> lock_sys \<Rightarrow> lock_sys" where
  "after_acquire t node res s = (case res of (r, l, h, k) \<Rightarrow>
     s\<lparr>sys_k := k, sys_nodes := h, sys_lock := l,
       sys_frames := (sys_frames s)(t := map_option (\<lambda>fl. (node, fl)) r),
       sys_inside := (if r = None then insert t (sys_inside s) else sys_inside s)\<rparr>)"

text \<open>
  The clock interrupt enters through an interrupt gate, which closes the interrupts and saves the flags. A thread that
  the handler suspended goes on, whoever switches to it, with the rest of the handler and \<^verbatim>\<open>iret\<close>,
  which restores the saved flags; interrupts were open in them, for the interrupt was taken.
\<close>

definition handler_return :: "lock_sys \<Rightarrow> lock_sys" where
  "handler_return s =
     (if cur_tcb (sys_k s) \<in> sys_intr s
      then s\<lparr>sys_k := sti (sys_k s), sys_intr := sys_intr s - {cur_tcb (sys_k s)}\<rparr> else s)"

text \<open>
  The threads run any code between the calls, with one restriction: they do not nest, a thread calls \<^verbatim>\<open>lock_acquire\<close>
  only when it is not already inside. A thread that was never suspended in these ways, a new one, starts with the
  flags of its context.
\<close>

inductive lock_step :: "lock_sys \<Rightarrow> lock_sys \<Rightarrow> bool" where
  acquire: "sys_frames s (cur_tcb (sys_k s)) = None \<Longrightarrow> cur_tcb (sys_k s) \<notin> sys_inside s \<Longrightarrow> \<forall>u fl. sys_frames s u \<noteq> Some (node, fl) \<Longrightarrow>
    lock_acquire node (sys_lock s) (sys_nodes s) (sys_k s) = Inr res \<Longrightarrow>
    lock_step s (handler_return (after_acquire (cur_tcb (sys_k s)) node res s))"
| resume: "sys_frames s (cur_tcb (sys_k s)) = Some (node, fl) \<Longrightarrow>
    lock_acquire_resume fl node (sys_lock s) (sys_nodes s) (sys_k s) = Inr res \<Longrightarrow>
    lock_step s (handler_return (after_acquire (cur_tcb (sys_k s)) node res s))"
| release: "sys_frames s (cur_tcb (sys_k s)) = None \<Longrightarrow>
    lock_release (sys_lock s) (sys_nodes s) (sys_k s) = (l, h, k) \<Longrightarrow>
    lock_step s (s\<lparr>sys_k := k, sys_nodes := h, sys_lock := l, sys_inside := sys_inside s - {cur_tcb (sys_k s)}\<rparr>)"
| tick: "int_flag (sys_k s) \<Longrightarrow> timer_server_func (cli (sys_k s)) = Inr (sw, k) \<Longrightarrow>
    lock_step s (handler_return (s\<lparr>sys_k := k, sys_intr := insert (cur_tcb (sys_k s)) (sys_intr s)\<rparr>))"

inductive_cases lock_stepE: "lock_step s s'"

text \<open>
  The start: a fresh lock, and a ring of threads that run with interrupts open; each ready thread was suspended by the
  clock, or its context has the interrupt flag, as \<^verbatim>\<open>create_thread\<close> sets it.
\<close>

abbreviation saved_if :: "kernel \<Rightarrow> uint32 \<Rightarrow> bool" where
  "saved_if k p \<equiv> bit (c_eflags (t_context (tcb k p))) 9"

definition lock_start :: "lock_sys \<Rightarrow> bool" where
  "lock_start s \<longleftrightarrow> (\<exists>xs l. threads_ok (sys_k s) xs \<and> sys_lock s = lock_init l \<and>
       (\<forall>q\<in>set xs. status (sys_k s) q = TASK_READY \<longrightarrow> q \<in> sys_intr s \<or> saved_if (sys_k s) q)) \<and>
     sys_frames s = (\<lambda>_. None) \<and> sys_inside s = {} \<and> int_flag (sys_k s) \<and> cur_tcb (sys_k s) \<notin> sys_intr s"

section \<open>The invariant\<close>

text \<open>
  A thread inside \<^verbatim>\<open>lock_acquire\<close> is a thread of the ring, does not hold the lock, and is blocked
  exactly while its node is in the queue.
\<close>

definition frame_ok :: "kernel \<Rightarrow> nodes \<Rightarrow> uint32 \<Rightarrow> uint32 list \<Rightarrow> uint32 list \<Rightarrow> uint32 \<Rightarrow> uint32 \<Rightarrow> bool" where
  "frame_ok k h own ns xs t n \<longleftrightarrow> t \<in> set (cur_tcb k # xs) \<and> t \<noteq> own \<and> n_thread (h n) = t \<and>
     (if n \<in> set ns then status k t = TASK_BLOCKED else status k t \<in> {TASK_READY, TASK_RUNNING})"

definition lock_wf ::
  "kernel \<Rightarrow> nodes \<Rightarrow> lock_t \<Rightarrow> (uint32 \<Rightarrow> (uint32 \<times> wait_flags) option) \<Rightarrow> uint32 list \<Rightarrow> uint32 list \<Rightarrow> bool" where
  "lock_wf k h l fr ns xs \<longleftrightarrow> threads_ok k xs \<and> waiting (wait_queue (l_sem l)) h ns \<and>
     (\<forall>n\<in>set ns. \<exists>t fl. fr t = Some (n, fl)) \<and>
     (\<forall>t n fl. fr t = Some (n, fl) \<longrightarrow> frame_ok k h (holder l) ns xs t n) \<and>
     s_val (l_sem l) = (if holder l = 0 then 1 else 0) \<and>
     (holder l = 0 \<longrightarrow> ns \<noteq> [] \<longrightarrow> (\<exists>t n fl. fr t = Some (n, fl) \<and> n \<notin> set ns))"

lemma lock_wfD:
  assumes "lock_wf k h l fr ns xs"
  shows "threads_ok k xs" "waiting (wait_queue (l_sem l)) h ns" "n \<in> set ns \<Longrightarrow> \<exists>t fl. fr t = Some (n, fl)"
    "fr t = Some (n, fl) \<Longrightarrow> frame_ok k h (holder l) ns xs t n"
    "s_val (l_sem l) = (if holder l = 0 then 1 else 0)"
    "holder l = 0 \<Longrightarrow> ns \<noteq> [] \<Longrightarrow> \<exists>t n fl. fr t = Some (n, fl) \<and> n \<notin> set ns"
    "status k (cur_tcb k) = TASK_RUNNING" "cur_tcb k \<noteq> 0"
proof -
  show "threads_ok k xs" "waiting (wait_queue (l_sem l)) h ns" "n \<in> set ns \<Longrightarrow> \<exists>t fl. fr t = Some (n, fl)"
    "fr t = Some (n, fl) \<Longrightarrow> frame_ok k h (holder l) ns xs t n"
    "s_val (l_sem l) = (if holder l = 0 then 1 else 0)"
    "holder l = 0 \<Longrightarrow> ns \<noteq> [] \<Longrightarrow> \<exists>t n fl. fr t = Some (n, fl) \<and> n \<notin> set ns"
    using assms unfolding lock_wf_def by blast+
  show "status k (cur_tcb k) = TASK_RUNNING" "cur_tcb k \<noteq> 0" using assms by (simp_all add: lock_wf_def threads_ok_def)
qed

text \<open>
  Interrupts will be open in every thread outside \<^verbatim>\<open>lock_acquire\<close>: a ready one comes back by \<^verbatim>\<open>iret\<close> or
  has the flag in its context, and one inside \<^verbatim>\<open>lock_acquire\<close> restores it at the end.
\<close>

fun restores :: "wait_flags \<Rightarrow> bool" where
  "restores (Flags b c cond) = cond"

definition waits_open ::
  "kernel \<Rightarrow> (uint32 \<Rightarrow> (uint32 \<times> wait_flags) option) \<Rightarrow> uint32 set \<Rightarrow> uint32 list \<Rightarrow> bool" where
  "waits_open k fr intr xs \<longleftrightarrow>
     (\<forall>q\<in>set xs. status k q = TASK_READY \<longrightarrow> fr q = None \<longrightarrow> q \<in> intr \<or> saved_if k q) \<and>
     (\<forall>t n fl. fr t = Some (n, fl) \<longrightarrow> restores fl)"

lemma waits_open_flag [simp]: "waits_open (k\<lparr>int_flag := b\<rparr>) fr intr xs = waits_open k fr intr xs"
  by (simp add: waits_open_def)

text \<open>The current thread is in no queue.\<close>

lemma lock_wf_cur:
  assumes "lock_wf k h l fr ns xs" "fr (cur_tcb k) = Some (n, fl)" shows "n \<notin> set ns"
  using lock_wfD(4) [OF assms] lock_wfD(7) [OF assms(1)] by (auto simp: frame_ok_def)

lemma lock_wf_queued:
  assumes "lock_wf k h l fr ns xs" "n \<in> set ns"
  obtains t fl where "fr t = Some (n, fl)" "t \<noteq> cur_tcb k" "n_thread (h n) = t" "status k t = TASK_BLOCKED"
proof -
  obtain t fl where t: "fr t = Some (n, fl)" using lock_wfD(3) [OF assms] by blast
  have ok: "frame_ok k h (holder l) ns xs t n" using lock_wfD(4) [OF assms(1) t] .
  then have "status k t = TASK_BLOCKED" "n_thread (h n) = t" using assms(2) by (simp_all add: frame_ok_def)
  moreover from this have "t \<noteq> cur_tcb k" using lock_wfD(7) [OF assms(1)] by auto
  ultimately show ?thesis using that [OF t] by blast
qed

lemma threads_ok_flag [simp]: "threads_ok (k\<lparr>int_flag := b\<rparr>) xs = threads_ok k xs"
  by (simp add: threads_ok_def check_kern_stack_overflow_def)

lemma lock_wf_flag [simp]: "lock_wf (k\<lparr>int_flag := b\<rparr>) h l fr ns xs = lock_wf k h l fr ns xs"
  by (simp add: lock_wf_def frame_ok_def)

lemma lock_wf_take:
  assumes wf: "lock_wf k h l fr ns xs" and free: "holder l = 0"
  shows "lock_wf k h (l\<lparr>l_sem := (l_sem l)\<lparr>s_val := 0\<rparr>, holder := cur_tcb k\<rparr>) (fr(cur_tcb k := None)) ns xs"
proof -
  let ?fr = "fr(cur_tcb k := None)"
  have "\<exists>t fl. ?fr t = Some (n, fl)" if n: "n \<in> set ns" for n
    using lock_wf_queued [OF wf n] by (metis fun_upd_other)
  moreover have "frame_ok k h (cur_tcb k) ns xs t n" if t: "?fr t = Some (n, fl)" for t n fl
  proof -
    have "fr t = Some (n, fl)" "t \<noteq> cur_tcb k" using t by (auto split: if_splits)
    then show ?thesis using lock_wfD(4) [OF wf, of t n fl] by (auto simp: frame_ok_def)
  qed
  ultimately show ?thesis unfolding lock_wf_def using lock_wfD(1,2,8) [OF wf] by auto
qed

lemma lock_wf_wait:
  assumes wf: "lock_wf k h l fr ns xs" and held: "holder l \<noteq> 0" "holder l \<noteq> cur_tcb k"
    and xs: "xs = ys @ p # zs" "status k p = TASK_READY"
    and fresh: "\<forall>u fl'. u \<noteq> cur_tcb k \<longrightarrow> fr u \<noteq> Some (node, fl')"
    and s': "s_val sem' = 0" "waiting (wait_queue sem') h' (ns @ [node])" "n_thread (h' node) = cur_tcb k"
      "\<forall>m. m \<noteq> node \<longrightarrow> n_thread (h' m) = n_thread (h m)"
    and k': "cur_tcb k' = p" "threads_ok k' (zs @ cur_tcb k # ys)"
      "\<forall>q. status k' q = (if q = p then TASK_RUNNING else if q = cur_tcb k then TASK_BLOCKED else status k q)"
  shows "lock_wf k' h' (l\<lparr>l_sem := sem'\<rparr>) (fr(cur_tcb k := Some (node, fl))) (ns @ [node]) (zs @ cur_tcb k # ys)"
proof -
  let ?fr = "fr(cur_tcb k := Some (node, fl))"
  have pc: "p \<noteq> cur_tcb k" using lock_wfD(1) [OF wf] xs by (auto simp: threads_ok_def ring_def)
  have q: "\<exists>t fl. ?fr t = Some (n, fl)" if n: "n \<in> set (ns @ [node])" for n
  proof (cases "n = node")
    case False
    then have "n \<in> set ns" using n by simp
    then show ?thesis using lock_wf_queued [OF wf] by (metis fun_upd_other)
  qed auto
  have f: "frame_ok k' h' (holder l) (ns @ [node]) (zs @ cur_tcb k # ys) t n" if t: "?fr t = Some (n, fl')" for t n fl'
  proof (cases "t = cur_tcb k")
    case True
    then show ?thesis using t s'(3) held(2) k'(3) pc by (auto simp: frame_ok_def)
  next
    case False
    then have t: "fr t = Some (n, fl')" and n: "n \<noteq> node" using t fresh by auto
    have ok: "frame_ok k h (holder l) ns xs t n" using lock_wfD(4) [OF wf t] .
    moreover have "t = p \<Longrightarrow> n \<notin> set ns" using ok xs(2) by (auto simp: frame_ok_def)
    ultimately show ?thesis using False k'(1,3) n s'(4) xs(1) by (auto simp: frame_ok_def)
  qed
  have "\<forall>n\<in>set (ns @ [node]). \<exists>t fl. ?fr t = Some (n, fl)" using q by blast
  moreover have "\<forall>t n fl'. ?fr t = Some (n, fl') \<longrightarrow> frame_ok k' h' (holder l) (ns @ [node]) (zs @ cur_tcb k # ys) t n"
    using f by blast
  ultimately show ?thesis unfolding lock_wf_def using k'(2) s'(1,2) held(1) by simp
qed

lemma threads_ok_wake:
  assumes "threads_ok k xs" "t \<noteq> cur_tcb k"
  shows "threads_ok (upd_tcb t (\<lambda>t. t\<lparr>task_status := TASK_READY\<rparr>) k) xs"
proof -
  let ?k = "upd_tcb t (\<lambda>t. t\<lparr>task_status := TASK_READY\<rparr>) k"
  have "nextt ?k = nextt k" by (rule ext) simp
  then show ?thesis using assms by (auto simp: threads_ok_def check_kern_stack_overflow_def)
qed

lemma lock_wf_give:
  assumes wf: "lock_wf k h l fr ns xs" and mine: "holder l = cur_tcb k"
  shows "\<exists>sem' h' k' ns'. sem_V (l_sem l) h k = (sem', h', k') \<and> cur_tcb k' = cur_tcb k \<and>
    (\<forall>q. (status k' q = status k q \<or> fr q \<noteq> None) \<and> t_context (tcb k' q) = t_context (tcb k q)) \<and>
    lock_wf k' h' (l\<lparr>holder := 0, l_sem := sem'\<rparr>) fr ns' xs"
proof (cases ns)
  case Nil
  then have "sem_V (l_sem l) h k = ((l_sem l)\<lparr>s_val := s_val (l_sem l) + 1\<rparr>, h, k)"
    using lock_wfD(2) [OF wf] by (intro sem_V_empty) simp
  moreover have "frame_ok k h 0 ns xs t n" if "fr t = Some (n, fl)" for t n fl
    using lock_wfD(4) [OF wf that] lock_wfD(1) [OF wf] by (auto simp: frame_ok_def threads_ok_def)
  then have "lock_wf k h (l\<lparr>holder := 0, l_sem := (l_sem l)\<lparr>s_val := s_val (l_sem l) + 1\<rparr>\<rparr>) fr ns xs"
    using Nil mine lock_wfD(1,2,5,8) [OF wf] unfolding lock_wf_def by auto
  ultimately show ?thesis by blast
next
  case (Cons n ms)
  obtain q' h' where v: "sem_V (l_sem l) h k = ((l_sem l)\<lparr>wait_queue := q', s_val := s_val (l_sem l) + 1\<rparr>, h',
      upd_tcb (n_thread (h n)) (\<lambda>t. t\<lparr>task_status := TASK_READY\<rparr>) k)"
    "waiting q' h' ms" "\<forall>m. n_thread (h' m) = n_thread (h m)"
    using sem_V_wakes [of "l_sem l" h n ms k] lock_wfD(2) [OF wf] Cons by auto
  obtain t fl where t: "fr t = Some (n, fl)" "t \<noteq> cur_tcb k" "n_thread (h n) = t"
    using lock_wf_queued [OF wf, of n] Cons list.set_intros(1) by metis
  have nn: "n \<notin> set ms" using lock_wfD(2) [OF wf] chain_distinct Cons unfolding waiting_def by fastforce
  let ?k = "upd_tcb t (\<lambda>t. t\<lparr>task_status := TASK_READY\<rparr>) k"
  have "frame_ok ?k h' 0 ms xs u m" if u: "fr u = Some (m, fl')" for u m fl'
  proof -
    have ok: "frame_ok k h (holder l) ns xs u m" using lock_wfD(4) [OF wf u] .
    then have "n_thread (h m) = u" by (simp add: frame_ok_def)
    then have "u = t \<longleftrightarrow> m = n" using t(1,3) u by (metis option.inject prod.inject)
    moreover have "u \<noteq> 0" using ok lock_wfD(1) [OF wf] by (auto simp: frame_ok_def threads_ok_def)
    ultimately show ?thesis using ok v(3) Cons nn by (auto simp: frame_ok_def)
  qed
  moreover have "\<exists>t fl. fr t = Some (m, fl)" if "m \<in> set ms" for m using lock_wfD(3) [OF wf] Cons that by simp
  ultimately have "lock_wf ?k h' (l\<lparr>holder := 0, l_sem := (l_sem l)\<lparr>wait_queue := q', s_val := s_val (l_sem l) + 1\<rparr>\<rparr>) fr ms xs"
    using threads_ok_wake [OF lock_wfD(1) [OF wf] t(2)] v(2) lock_wfD(5,8) [OF wf] mine t(1) nn
    unfolding lock_wf_def by auto
  then show ?thesis using v(1) t(1,3) by auto
qed

section \<open>Every step keeps the invariant\<close>

lemma lock_attempt:
  assumes wf: "lock_wf k h l fr ns xs" and op: "waits_open k fr intr xs" and cond: "cond"
    and other: "holder l \<noteq> cur_tcb k" and node: "node \<notin> set ns"
    and fresh: "\<forall>u fl'. u \<noteq> cur_tcb k \<longrightarrow> fr u \<noteq> Some (node, fl')"
    and run: "joinE (sem_P_loop node (l_sem l) h k) = Inr r"
    and res: "lock_acquire_end cond l (sem_P_end c r) = (r', l', h', k')"
  shows "\<exists>fr' ns' xs'. fr' = fr(cur_tcb k := map_option (\<lambda>fl. (node, fl)) r') \<and> lock_wf k' h' l' fr' ns' xs' \<and>
    waits_open k' fr' intr xs' \<and> (fr' (cur_tcb k') = None \<longrightarrow> int_flag k' \<or> cur_tcb k' \<in> intr) \<and>
    (if r' = None then holder l = 0 \<and> holder l' = cur_tcb k else holder l \<noteq> 0 \<and> holder l' = holder l)"
proof (cases "holder l = 0")
  case True
  then have v: "s_val (l_sem l) = 1" using lock_wfD(5) [OF wf] by simp
  then have "r = (P_done, (l_sem l)\<lparr>s_val := 0\<rparr>, h, k)" using run sem_P_loop_free [of "l_sem l"] by simp
  then have "r' = None" "l' = l\<lparr>l_sem := (l_sem l)\<lparr>s_val := 0\<rparr>, holder := cur_tcb k\<rparr>" "h' = h" "k' = k\<lparr>int_flag := cond\<rparr>"
    using res by (auto simp: lock_acquire_end_def sem_P_end_def sti_condition_eq get_running_progress_def)
  moreover have "waits_open k (fr(cur_tcb k := None)) intr xs"
    using op lock_wfD(1) [OF wf] by (auto simp: waits_open_def threads_ok_def ring_def)
  ultimately show ?thesis using lock_wf_take [OF wf True] True cond by auto
next
  case False
  then have v: "s_val (l_sem l) = 0" using lock_wfD(5) [OF wf] by simp
  obtain p where "List.find (\<lambda>q. status k q = TASK_READY) xs = Some p"
  proof (cases "List.find (\<lambda>q. status k q = TASK_READY) xs")
    case None
    then show ?thesis
      using run sem_P_loop_spins [OF lock_wfD(1) [OF wf] _ v, of node h] by (auto simp: find_None_iff)
  qed
  then obtain ys zs where xs: "xs = ys @ p # zs" "status k p = TASK_READY" "\<forall>q\<in>set ys. status k q \<noteq> TASK_READY"
    by (rule find_split)
  obtain sem' h1 k1 where w: "sem_P_loop node (l_sem l) h k = Some (Inr (P_wait (int_flag k), sem', h1, k1))"
    "s_val sem' = 0" "waiting (wait_queue sem') h1 (ns @ [node])" "n_thread (h1 node) = cur_tcb k"
    "\<forall>m. m \<noteq> node \<longrightarrow> n_thread (h1 m) = n_thread (h m)" "cur_tcb k1 = p" "threads_ok k1 (zs @ cur_tcb k # ys)"
    "\<forall>q. status k1 q = (if q = p then TASK_RUNNING else if q = cur_tcb k then TASK_BLOCKED else status k q)"
    "int_flag k1 = saved_if k p" "\<forall>q. q \<noteq> cur_tcb k \<longrightarrow> t_context (tcb k1 q) = t_context (tcb k q)"
    using sem_P_loop_waits [OF v _ xs(2,3) lock_wfD(2) [OF wf] node] lock_wfD(1) [OF wf] xs(1) by blast
  then have r: "r' = Some (Flags (int_flag k) c cond)" "l' = l\<lparr>l_sem := sem'\<rparr>" "h' = h1" "k' = k1"
    using run res by (auto simp: lock_acquire_end_def sem_P_end_def)
  let ?fr = "fr(cur_tcb k := Some (node, Flags (int_flag k) c cond))"
  have "p \<noteq> cur_tcb k" "\<forall>q\<in>set (zs @ ys). q \<noteq> cur_tcb k" using lock_wfD(1) [OF wf] xs(1) by (auto simp: threads_ok_def ring_def)
  then have "waits_open k1 ?fr intr (zs @ cur_tcb k # ys)" "?fr p = None \<longrightarrow> int_flag k1 \<or> p \<in> intr"
    using op cond w(8-10) xs(1,2) by (auto simp: waits_open_def split: if_splits)
  then show ?thesis using lock_wf_wait [OF wf False other xs(1,2) fresh w(2-8)] False r w(6) by auto
qed

text \<open>A clock interrupt exchanges running and ready, and no other state.\<close>

lemma tick_ok:
  assumes ok: "threads_ok k xs" and run: "timer_server_func k = Inr (sw, k')"
  shows "\<exists>ys. threads_ok k' ys \<and> set (cur_tcb k' # ys) = set (cur_tcb k # xs) \<and>
    (\<forall>q. q \<noteq> cur_tcb k \<longrightarrow> t_context (tcb k' q) = t_context (tcb k q)) \<and>
    (cur_tcb k' = cur_tcb k \<or> status k (cur_tcb k') = TASK_READY \<and> int_flag k' = saved_if k (cur_tcb k')) \<and>
    (\<forall>q. status k' q = status k q \<or> {status k q, status k' q} \<subseteq> {TASK_READY, TASK_RUNNING})"
proof (cases "time_left (tcb k (cur_tcb k)) = 0")
  case False
  then have k': "k' = upd_tcb (cur_tcb k) (\<lambda>t. t\<lparr>time_left := time_left t - 1, time_counter := time_counter t + 1\<rparr>) k"
    using run by (simp add: timer_server_func_def)
  have "nextt k' = nextt k" by (rule ext) (simp add: k')
  then have "threads_ok k' xs" using ok by (auto simp: threads_ok_def check_kern_stack_overflow_def k')
  moreover have "status k' q = status k q" "cur_tcb k' = cur_tcb k" "t_context (tcb k' q) = t_context (tcb k q)" for q by (simp_all add: k')
  ultimately show ?thesis by auto
next
  case True
  then have sch: "schedule k = Inr (sw, k')" using run by (simp add: timer_server_func_def)
  show ?thesis
  proof (cases "List.find (\<lambda>p. status k p = TASK_READY) xs")
    case None
    have k': "k' = upd_tcb (cur_tcb k) (\<lambda>t. t\<lparr>time_left := TIME_CONT\<rparr>) k" using schedule_alone [OF ok None] sch by simp
    have "nextt k' = nextt k" by (rule ext) (simp add: k')
    then have "threads_ok k' xs" using ok by (auto simp: threads_ok_def check_kern_stack_overflow_def k')
    moreover have "status k' q = status k q" "cur_tcb k' = cur_tcb k" "t_context (tcb k' q) = t_context (tcb k q)" for q by (simp_all add: k')
    ultimately show ?thesis by auto
  next
    case (Some p)
    then obtain ys zs where xs: "xs = ys @ p # zs" "status k p = TASK_READY" by (rule find_split)
    have st: "cur_tcb k' = p" "threads_ok k' (zs @ cur_tcb k # ys)" "status k' (cur_tcb k) = TASK_READY"
      "\<forall>q. q \<noteq> p \<longrightarrow> q \<noteq> cur_tcb k \<longrightarrow> status k' q = status k q"
      "\<forall>q. q \<noteq> cur_tcb k \<longrightarrow> t_context (tcb k' q) = t_context (tcb k q)" "int_flag k' = saved_if k p"
      using schedule_switch [OF ok Some xs(1)] sch by auto
    have "status k' p = TASK_RUNNING" "status k (cur_tcb k) = TASK_RUNNING" using st(1,2) ok by (simp_all add: threads_ok_def)
    then have "status k' q = status k q \<or> {status k q, status k' q} \<subseteq> {TASK_READY, TASK_RUNNING}" for q
      using xs(2) st(3,4) by (cases "q = p"; cases "q = cur_tcb k") simp_all
    moreover have "set (p # zs @ cur_tcb k # ys) = set (cur_tcb k # xs)" using xs(1) by auto
    ultimately show ?thesis using st(1,2,5,6) xs(2) by blast
  qed
qed

lemma lock_wf_tick:
  assumes wf: "lock_wf k h l fr ns xs" and op: "waits_open k fr intr xs" and run: "timer_server_func k = Inr (sw, k')"
  shows "\<exists>ys. lock_wf k' h l fr ns ys \<and> waits_open k' fr (insert (cur_tcb k) intr) ys \<and>
    (fr (cur_tcb k') = None \<longrightarrow> int_flag k' \<or> cur_tcb k' \<in> insert (cur_tcb k) intr)"
proof -
  obtain ys where ys: "threads_ok k' ys" "set (cur_tcb k' # ys) = set (cur_tcb k # xs)"
    "\<forall>q. status k' q = status k q \<or> {status k q, status k' q} \<subseteq> {TASK_READY, TASK_RUNNING}"
    "\<forall>q. q \<noteq> cur_tcb k \<longrightarrow> t_context (tcb k' q) = t_context (tcb k q)"
    "cur_tcb k' = cur_tcb k \<or> status k (cur_tcb k') = TASK_READY \<and> int_flag k' = saved_if k (cur_tcb k')"
    using tick_ok [OF lock_wfD(1) [OF wf] run] by blast
  have "frame_ok k' h (holder l) ns ys t n" if "fr t = Some (n, fl)" for t n fl
  proof -
    have "frame_ok k h (holder l) ns xs t n" using lock_wfD(4) [OF wf that] .
    then show ?thesis using ys(2) spec [OF ys(3), of t] unfolding frame_ok_def by (auto split: if_splits)
  qed
  then have "\<forall>t n fl. fr t = Some (n, fl) \<longrightarrow> frame_ok k' h (holder l) ns ys t n" by blast
  then have w: "lock_wf k' h l fr ns ys" using wf ys(1) unfolding lock_wf_def by blast
  have run: "\<forall>q\<in>set xs. status k q \<noteq> TASK_RUNNING" using lock_wfD(1) [OF wf] by (simp add: threads_ok_def)
  have "q \<in> insert (cur_tcb k) intr \<or> saved_if k' q" if q: "q \<in> set ys" "status k' q = TASK_READY" "fr q = None" for q
  proof (cases "q = cur_tcb k")
    case False
    then have "q \<in> set xs" using q(1) ys(2) by auto
    then have "status k q = TASK_READY" using run q(2) spec [OF ys(3), of q] by auto
    then show ?thesis using op \<open>q \<in> set xs\<close> q(3) ys(4) False by (auto simp: waits_open_def)
  qed simp
  then have o: "waits_open k' fr (insert (cur_tcb k) intr) ys" using op by (auto simp: waits_open_def)
  have "fr (cur_tcb k') = None \<longrightarrow> int_flag k' \<or> cur_tcb k' \<in> insert (cur_tcb k) intr"
  proof (cases "cur_tcb k' = cur_tcb k")
    case False
    then have "cur_tcb k' \<in> set xs" "status k (cur_tcb k') = TASK_READY" "int_flag k' = saved_if k (cur_tcb k')"
      using ys(2,5) by auto
    then show ?thesis using op unfolding waits_open_def by blast
  qed simp
  then show ?thesis by (intro exI [of _ ys] conjI w o)
qed

text \<open>The invariant of the system, before and after the return from a handler.\<close>

definition lock_pre :: "lock_sys \<Rightarrow> bool" where
  "lock_pre s \<longleftrightarrow> (\<exists>ns xs. lock_wf (sys_k s) (sys_nodes s) (sys_lock s) (sys_frames s) ns xs \<and>
       waits_open (sys_k s) (sys_frames s) (sys_intr s) xs) \<and>
     (sys_frames s (cur_tcb (sys_k s)) = None \<longrightarrow> int_flag (sys_k s) \<or> cur_tcb (sys_k s) \<in> sys_intr s) \<and>
     sys_inside s = (if holder (sys_lock s) = 0 then {} else {holder (sys_lock s)})"

definition lock_inv :: "lock_sys \<Rightarrow> bool" where
  "lock_inv s \<longleftrightarrow> lock_pre s \<and> cur_tcb (sys_k s) \<notin> sys_intr s"

lemma lock_invD:
  assumes "lock_inv s"
  obtains ns xs where "lock_wf (sys_k s) (sys_nodes s) (sys_lock s) (sys_frames s) ns xs"
    "waits_open (sys_k s) (sys_frames s) (sys_intr s) xs"
    "sys_frames s (cur_tcb (sys_k s)) = None \<longrightarrow> int_flag (sys_k s)" "cur_tcb (sys_k s) \<notin> sys_intr s"
    "sys_inside s = (if holder (sys_lock s) = 0 then {} else {holder (sys_lock s)})"
proof -
  have s: "lock_pre s" "cur_tcb (sys_k s) \<notin> sys_intr s" using assms by (simp_all add: lock_inv_def)
  obtain ns xs where "lock_wf (sys_k s) (sys_nodes s) (sys_lock s) (sys_frames s) ns xs"
    "waits_open (sys_k s) (sys_frames s) (sys_intr s) xs"
    using s(1) unfolding lock_pre_def by blast
  moreover have "sys_frames s (cur_tcb (sys_k s)) = None \<longrightarrow> int_flag (sys_k s)"
    "sys_inside s = (if holder (sys_lock s) = 0 then {} else {holder (sys_lock s)})"
    using s unfolding lock_pre_def by blast+
  ultimately show ?thesis by (intro that [OF _ _ _ s(2)])
qed

lemma handler_return_inv:
  assumes "lock_pre s" shows "lock_inv (handler_return s)"
proof (cases "cur_tcb (sys_k s) \<in> sys_intr s")
  case True
  obtain ns xs where s: "lock_wf (sys_k s) (sys_nodes s) (sys_lock s) (sys_frames s) ns xs"
    "waits_open (sys_k s) (sys_frames s) (sys_intr s) xs"
    using assms by (auto simp: lock_pre_def)
  have "cur_tcb (sys_k s) \<notin> set xs" using lock_wfD(1) [OF s(1)] by (auto simp: threads_ok_def ring_def)
  then have "waits_open (sys_k s) (sys_frames s) (sys_intr s - {cur_tcb (sys_k s)}) xs"
    using s(2) by (auto simp: waits_open_def)
  then show ?thesis using s(1) True assms by (auto simp: handler_return_def lock_inv_def lock_pre_def sti_def)
qed (use assms in \<open>simp add: handler_return_def lock_inv_def\<close>)

lemma lock_start_inv: "lock_start s \<Longrightarrow> lock_inv s"
proof -
  assume "lock_start s"
  then obtain xs l where s: "threads_ok (sys_k s) xs" "sys_lock s = lock_init l" "sys_frames s = (\<lambda>_. None)" "sys_inside s = {}"
    "\<forall>q\<in>set xs. status (sys_k s) q = TASK_READY \<longrightarrow> q \<in> sys_intr s \<or> saved_if (sys_k s) q"
    "int_flag (sys_k s)" "cur_tcb (sys_k s) \<notin> sys_intr s"
    by (auto simp: lock_start_def)
  then have "lock_wf (sys_k s) (sys_nodes s) (sys_lock s) (sys_frames s) [] xs"
    by (simp add: lock_wf_def lock_init_def sem_init_def sync_tool_sem_init_queue_def waiting_def)
  then show "lock_inv s" using s by (auto simp: lock_inv_def lock_pre_def waits_open_def lock_init_def)
qed

lemma lock_inv_attempt:
  assumes inv: "lock_inv s" and k1: "k1 = (sys_k s)\<lparr>int_flag := b\<rparr>" and cond: "cond" and other: "holder (sys_lock s) \<noteq> cur_tcb (sys_k s)"
    and old: "sys_frames s (cur_tcb (sys_k s)) = None \<or> (\<exists>fl. sys_frames s (cur_tcb (sys_k s)) = Some (node, fl))"
    and fresh: "\<forall>u fl'. u \<noteq> cur_tcb (sys_k s) \<longrightarrow> sys_frames s u \<noteq> Some (node, fl')"
    and run: "joinE (sem_P_loop node (l_sem (sys_lock s)) (sys_nodes s) k1) = Inr r"
  shows "lock_inv (handler_return (after_acquire (cur_tcb (sys_k s)) node (lock_acquire_end cond (sys_lock s) (sem_P_end c r)) s))"
proof -
  let ?c = "cur_tcb (sys_k s)"
  obtain ns xs where wf: "lock_wf (sys_k s) (sys_nodes s) (sys_lock s) (sys_frames s) ns xs"
    and op: "waits_open (sys_k s) (sys_frames s) (sys_intr s) xs"
    and ins: "sys_inside s = (if holder (sys_lock s) = 0 then {} else {holder (sys_lock s)})"
    using inv by (rule lock_invD)
  have node: "node \<notin> set ns"
  proof
    assume n: "node \<in> set ns"
    then obtain t fl where "sys_frames s t = Some (node, fl)" "t \<noteq> ?c" using lock_wf_queued [OF wf] by metis
    then show False using fresh by blast
  qed
  obtain r' l' h' k' where res: "lock_acquire_end cond (sys_lock s) (sem_P_end c r) = (r', l', h', k')"
    by (metis prod_cases4)
  have wf1: "lock_wf k1 (sys_nodes s) (sys_lock s) (sys_frames s) ns xs" "waits_open k1 (sys_frames s) (sys_intr s) xs"
    and c1: "cur_tcb k1 = ?c" using wf op k1 by simp_all
  obtain fr' ns' xs' where a: "fr' = (sys_frames s)(?c := map_option (\<lambda>fl. (node, fl)) r')" "lock_wf k' h' l' fr' ns' xs'"
    "waits_open k' fr' (sys_intr s) xs'" "fr' (cur_tcb k') = None \<longrightarrow> int_flag k' \<or> cur_tcb k' \<in> sys_intr s"
    "if r' = None then holder (sys_lock s) = 0 \<and> holder l' = ?c else holder (sys_lock s) \<noteq> 0 \<and> holder l' = holder (sys_lock s)"
    using lock_attempt [OF wf1 cond, unfolded c1, OF other node fresh run res] by (elim exE conjE) (rule that)
  let ?s = "after_acquire ?c node (r', l', h', k') s"
  have f: "sys_k ?s = k'" "sys_nodes ?s = h'" "sys_lock ?s = l'" "sys_frames ?s = fr'" "sys_intr ?s = sys_intr s"
    by (simp_all add: after_acquire_def a(1))
  have "sys_inside ?s = (if holder l' = 0 then {} else {holder l'})"
    using a(5) lock_wfD(8) [OF wf] ins by (cases r') (simp_all add: after_acquire_def)
  then have "lock_pre ?s" unfolding lock_pre_def f using a(2-4) by blast
  then have "lock_pre (after_acquire ?c node (lock_acquire_end cond (sys_lock s) (sem_P_end c r)) s)" by (simp only: res)
  then show ?thesis by (rule handler_return_inv)
qed

end
