(* ===== verification/VmmInit.thy ===== *)
theory VmmInit
  imports VmmKernel
begin

text \<open>
  \<^verbatim>\<open>vmm_kern_init\<close> and \<^verbatim>\<open>vmm_pre_init\<close>: the pool of kernel pages after start-up, and the
  removal of the identity mapping of the first 4 MB.
\<close>

section \<open>The kernel pool\<close>

lemma stable_steps:
  assumes "stable I R k" "rest_of I k' = rest_of I (k :: kernel)"
  shows "kern_vmm_pool k' = kern_vmm_pool k" "kern_bitmap k' = kern_bitmap k" "kern_end k' = kern_end k" "pm k' = pm k"
  by (subst rest_of_eq(1) [OF assms(2)]; simp)+

lemma alloc_used_ok:
  assumes "stable I R k" "bitmap_bytes bm \<subseteq> R" "kern_vmm_pool k = bm" "free_pages bm (vmem k) = {m..<M}" "m + n \<le> M"
  shows "\<exists>k'. alloc_used n k = Inr k' \<and> stable I R k' \<and> rest_of I k' = rest_of I k \<and>
    free_pages bm (vmem k') = {m + n..<M}"
  using assms
proof (induction n arbitrary: k m)
  case (Suc n)
  have ne: "free_pages bm (vmem k) \<noteq> {}" using Suc.prems(4,5) by simp
  have mn: "Min (free_pages bm (vmem k)) = m" unfolding Suc.prems(4) using Suc.prems(5) by (intro Min_eqI) auto
  have "m \<in> free_pages bm (vmem k)" using Suc.prems(4,5) by simp
  then have m: "m < 8 * unat (bm_length bm)" by (simp add: free_pages_def)
  obtain k1 where k1: "bitmap_alloc load8 store8 bm k = Inr (page_addr bm m, k1)" "stable I R k1" "rest_of I k1 = rest_of I k"
    "\<forall>x\<in>R. vmem k1 x = mark_busy bm m (vmem k) x"
    using mmu.bitmap_alloc_Some [OF Suc.prems(1,2) ne] unfolding mn by blast
  have "free_pages bm (vmem k1) = free_pages bm (mark_busy bm m (vmem k))"
    using k1(4) Suc.prems(2) by (intro free_pages_cong) auto
  also have "\<dots> = {Suc m..<M}" unfolding free_pages_mark_busy [OF m] Suc.prems(4) by auto
  finally obtain k2 where "alloc_used n k1 = Inr k2" "stable I R k2" "rest_of I k2 = rest_of I k1"
    "free_pages bm (vmem k2) = {Suc m + n..<M}"
    using Suc.IH [OF k1(2) Suc.prems(2), of "Suc m"] stable_steps(1) [OF Suc.prems(1) k1(3)] Suc.prems(3,5) by auto
  then show ?case using k1(1,3) Suc.prems(3) by simp
qed simp

lemma clear_down_ok:
  assumes "stable I R k" "\<forall>i<n. probe - of_nat i \<in> R"
  shows "\<exists>k'. clear_down n probe k = Inr k' \<and> stable I R k' \<and> rest_of I k' = rest_of I k \<and>
    (\<forall>x\<in>R. vmem k' x = (if x \<in> (\<lambda>i. probe - of_nat i) ` {..<n} then 0 else vmem k x))"
  using assms
proof (induction n arbitrary: probe k)
  case (Suc n)
  have p: "probe \<in> R" using Suc.prems(2) [rule_format, of 0] by simp
  obtain k1 where k1: "store8 probe 0 k = Inr k1" "stable I R k1" "rest_of I k1 = rest_of I k"
    "\<forall>x\<in>R. vmem k1 x = ((vmem k)(probe := 0)) x"
    using mmu.st_ok [OF Suc.prems(1) p, of 0] by blast
  have eq: "probe - 1 - of_nat i = probe - of_nat (Suc i)" for i by (simp add: algebra_simps)
  have "\<forall>i<n. probe - 1 - of_nat i \<in> R" using Suc.prems(2) unfolding eq by auto
  then obtain k2 where k2: "clear_down n (probe - 1) k1 = Inr k2" "stable I R k2" "rest_of I k2 = rest_of I k1"
    "\<forall>x\<in>R. vmem k2 x = (if x \<in> (\<lambda>i. probe - 1 - of_nat i) ` {..<n} then 0 else vmem k1 x)"
    using Suc.IH [OF k1(2)] by blast
  have "{..<Suc n} = insert 0 (Suc ` {..<n})" by (auto simp: image_iff less_Suc_eq_0_disj)
  then have "(\<lambda>i. probe - of_nat i) ` {..<Suc n} = insert probe ((\<lambda>i. probe - 1 - of_nat i) ` {..<n})"
    unfolding eq by (simp add: image_image)
  then show ?case using k1 k2 by auto
qed simp

lemma top_bytes:
  "free_pages (kpool a) h = {m..<8 * 0x8000} \<Longrightarrow> m \<le> 255 * 1024 \<Longrightarrow>
   (\<And>x. x \<in> bitmap_bytes (kpool a) \<Longrightarrow> g x = (if x \<in> (\<lambda>i. a + 0x7FFF - of_nat i) ` {..<128} then 0 else h x)) \<Longrightarrow>
   free_pages (kpool a) g = {m..<255 * 1024}"
proof -
  assume h: "free_pages (kpool a) h = {m..<8 * 0x8000}" and m: "m \<le> 255 * 1024"
    and g: "\<And>x. x \<in> bitmap_bytes (kpool a) \<Longrightarrow> g x = (if x \<in> (\<lambda>i. a + 0x7FFF - of_nat i) ` {..<128} then 0 else h x)"
  have top: "a + of_nat j \<in> (\<lambda>i. a + 0x7FFF - of_nat i) ` {..<128} \<longleftrightarrow> 32640 \<le> j" if j: "j < 32768" for j
  proof
    assume "a + of_nat j \<in> (\<lambda>i. a + 0x7FFF - of_nat i) ` {..<128}"
    then obtain i where i: "i < 128" "a + of_nat j = a + 0x7FFF - of_nat i" by auto
    then have "(of_nat (j + i) :: uint32) = of_nat 0x7FFF" by (simp add: algebra_simps)
    then have "j + i = 0x7FFF" using i(1) j by (subst (asm) of_nat_inj_32) auto
    then show "32640 \<le> j" using i(1) by simp
  next
    assume "32640 \<le> j"
    then have "(of_nat (j + (0x7FFF - j)) :: uint32) = of_nat 0x7FFF" using j by simp
    then have "(of_nat j :: uint32) = 0x7FFF - of_nat (0x7FFF - j)"
      unfolding of_nat_add by (simp add: algebra_simps)
    then have "a + of_nat j = a + 0x7FFF - of_nat (0x7FFF - j)" by (simp only: add_diff_eq)
    then show "a + of_nat j \<in> (\<lambda>i. a + 0x7FFF - of_nat i) ` {..<128}"
      using \<open>32640 \<le> j\<close> by (intro image_eqI [of _ _ "0x7FFF - j"]) auto
  qed
  have "n \<in> free_pages (kpool a) g \<longleftrightarrow> n \<in> free_pages (kpool a) h \<and> n < 255 * 1024" for n
  proof (cases "n < 8 * unat (bm_length (kpool a))")
    case True
    then have j: "n div 8 < 32768" by (simp add: div_less_iff_less_mult)
    have ge: "32640 \<le> n div 8 \<longleftrightarrow> \<not> n < 255 * 1024" by (simp add: less_eq_div_iff_mult_less_eq not_less)
    show ?thesis
      using g [OF byte_addr_in [OF True]] top [OF j] ge True by (simp add: free_pages_def page_free_def)
  qed (auto simp: free_pages_def)
  then have "free_pages (kpool a) g = {n \<in> {m..<8 * 0x8000}. n < 255 * 1024}" unfolding h by blast
  also have "\<dots> = {m..<255 * 1024}" by auto
  finally show ?thesis .
qed

lemma kern_init_ok:
  assumes st: "stable I (kbytes k) k" and ke: "unat (kern_end k) \<le> 1024 * 4096"
  shows "\<exists>k'. vmm_init k = Inr k' \<and> stable I (kbytes k) k' \<and> pm k' = pm k \<and> kern_bitmap k' = kern_bitmap k \<and>
    kern_vmm_pool k' = kpool (kern_bitmap k) \<and> kfree k' = {(unat (kern_end k) + 4095) div 4096..<255 * 1024} \<and>
    rest_of I k' = rest_of I (k\<lparr>kern_vmm_pool := kpool (kern_bitmap k)\<rparr>)"
proof -
  let ?bm = "kpool (kern_bitmap k)"
  define k1 where "k1 = k\<lparr>kern_vmm_pool := ?bm\<rparr>"
  have st1: "stable I (kbytes k) k1"
  proof -
    have "translate (k1\<lparr>pmem := h\<rparr>) = translate (k\<lparr>pmem := h\<rparr>)" for h
      by (rule same_mmu(3)) (simp_all add: k1_def)
    moreover have "translate k1 = translate k" by (rule same_mmu(3)) (simp_all add: k1_def)
    ultimately show ?thesis using st by (simp add: stable_def k1_def)
  qed
  obtain k2 where k2: "bitmap_init_mem store8 ?bm k1 = Inr k2" "stable I (kbytes k) k2" "rest_of I k2 = rest_of I k1"
    "free_pages ?bm (vmem k2) = {..<8 * unat (bm_length ?bm)}"
    using mmu.bitmap_init_mem_ok [OF st1 subset_refl] by blast
  note g2 = stable_steps [OF st1 k2(3)]
  let ?u = "(unat (kern_end k) + 4095) div 4096"
  have uu: "?u \<le> 1024" using ke by (simp add: div_le_mono [of _ "1024 * 4096 + 4095", THEN order_trans])
  have "get_kern_used_page_count k2 = of_nat ?u"
  proof -
    have "unat (4095 + kern_end k) = unat (kern_end k) + 4095"
      using ke by (simp add: unat_word_ariths)
    then have "unat (get_kern_used_page_count k2) = ?u"
      using g2(3) by (simp add: get_kern_used_page_count_def unat_div k1_def)
    then show ?thesis by (rule word_of_nat_unat_32)
  qed
  moreover have "sint (of_nat ?u :: uint32) = int ?u" using uu by (simp add: signed_of_nat signed_take_bit_int_eq_self)
  ultimately have cnt: "sint (get_kern_used_page_count k2) = int ?u" by simp
  have "free_pages ?bm (vmem k2) = {0..<8 * 0x8000}" by (simp add: k2(4) lessThan_atLeast0)
  then obtain k3 where k3: "alloc_used ?u k2 = Inr k3" "stable I (kbytes k) k3" "rest_of I k3 = rest_of I k2"
    "free_pages ?bm (vmem k3) = {0 + ?u..<8 * 0x8000}"
    using alloc_used_ok [OF k2(2) subset_refl, of 0 "8 * 0x8000" ?u] uu g2(1) by (auto simp: k1_def)
  have inR: "\<forall>i<128. kern_bitmap k + 0x7FFF - of_nat i \<in> kbytes k"
  proof (intro allI impI)
    fix i :: nat assume i: "i < 128"
    have "kern_bitmap k + of_nat (0x7FFF - i) \<in> kbytes k"
      unfolding bitmap_bytes_def using span_mem [of "0x7FFF - i" "unat (bm_length ?bm)" "kern_bitmap k"] by simp
    moreover have "kern_bitmap k + of_nat (0x7FFF - i) = kern_bitmap k + 0x7FFF - of_nat i"
      using i by (simp add: of_nat_diff)
    ultimately show "kern_bitmap k + 0x7FFF - of_nat i \<in> kbytes k" by simp
  qed
  obtain k4 where k4: "clear_down 128 (kern_bitmap k + 0x7FFF) k3 = Inr k4" "stable I (kbytes k) k4" "rest_of I k4 = rest_of I k3"
    "\<forall>x\<in>kbytes k. vmem k4 x = (if x \<in> (\<lambda>i. kern_bitmap k + 0x7FFF - of_nat i) ` {..<128} then 0 else vmem k3 x)"
    using clear_down_ok [OF k3(2) inR] by blast
  have fr: "free_pages ?bm (vmem k4) = {?u..<255 * 1024}"
    by (rule top_bytes [of "kern_bitmap k" "vmem k3"]) (use k3(4) k4(4) uu in auto)
  note g3 = stable_steps [OF k2(2) k3(3)] and g4 = stable_steps [OF k3(2) k4(3)]
  have cd: "clear_down 128 (kern_bitmap k2 + 0x8000 - 1) k3 = Inr k4"
  proof -
    have "kern_bitmap k2 + 0x8000 - 1 = kern_bitmap k + 0x7FFF" using g2(2) by (simp add: k1_def)
    then show ?thesis using k4(1) by (simp only:)
  qed
  have "kern_vmm_pool k1 = ?bm" by (simp add: k1_def)
  then have "vmm_init k = Inr k4"
    using k2(1) k3(1) cd cnt uu unfolding vmm_init_def vmm_kern_init_def
    by (simp add: Let_def flip: kpool_def k1_def)
  moreover have "rest_of I k4 = rest_of I (k\<lparr>kern_vmm_pool := ?bm\<rparr>)" using k4(3) k3(3) k2(3) by (simp add: k1_def)
  ultimately show ?thesis using k4(2) fr g2 g3 g4 by (auto simp: k1_def)
qed

end
