(* ===== verification/VmmProps.thy ===== *)
theory VmmProps
  imports VmmInit
begin

text \<open>
  The properties of the kernel virtual memory manager, with a concrete address space that
  satisfies the invariant.
\<close>

section \<open>Removing the boot mapping\<close>

text \<open>
  The address space that \<^verbatim>\<open>boot.s\<close> sets up (\<open>BootTables\<close> derives it from the code): the first directory entry, which
  \<^verbatim>\<open>vmm_pre_init\<close> clears, has a table of the kernel half, the others share tables as in \<open>shared_tables\<close>.
\<close>

definition boot_space :: "kernel \<Rightarrow> bool" where
  "boot_space k \<longleftrightarrow> page_base (kern_dir_table_paddr k) = kern_dir_table_paddr k \<and>
     cr3 k = kern_dir_table_paddr k \<and> self_mapped k \<and>
     translate k (kern_dir_table_paddr k + 0xC0000000) = Some (kern_dir_table_paddr k) \<and>
     (\<forall>v. drop_bit 22 v \<noteq> 0 \<longrightarrow> pde_of k v = pde_of k (prim v)) \<and>
     (\<forall>v w. mapped_dir k v \<longrightarrow> mapped_dir k w \<longrightarrow> drop_bit 22 v \<noteq> 0 \<longrightarrow> drop_bit 22 w \<noteq> 0 \<longrightarrow>
        drop_bit 22 (prim v) \<noteq> drop_bit 22 (prim w) \<longrightarrow> page_base (pde_of k v) \<noteq> page_base (pde_of k w))"

lemma aligned4_page: "page_base d = d \<Longrightarrow> aligned4 (d + 0xC0000000)"
proof -
  assume "page_base d = d"
  then have "unat d = unat d div 4096 * 4096" using unat_page_base [of d] by simp
  then obtain q where "unat d = q * 4096" by blast
  then have "unat (d + 0xC0000000) = (q * 4096 + 0xC0000000) mod 2 ^ 32" by (simp add: unat_word_ariths)
  then show ?thesis unfolding aligned4_def by (simp add: mod_mod_cancel)
qed

lemma pre_init_run:
  assumes b: "boot_space k"
  defines "D \<equiv> kern_dir_table_paddr k"
  defines "k' \<equiv> k\<lparr>pmem := st32p (pmem k) D 0, cr3 := D\<rparr>"
  shows "vmm_pre_init k = Inr k'"
    "pde_of k' v = (if drop_bit 22 v = 0 then 0 else pde_of k v)"
    "drop_bit 22 v \<noteq> 0 \<Longrightarrow> drop_bit 22 v \<noteq> 0x3FF \<Longrightarrow> mapped_dir k v \<Longrightarrow> pte_of k' v = pte_of k v"
    "self_mapped k'"
proof -
  have d: "page_base D = D" "cr3 k = D" "translate k (D + 0xC0000000) = Some D" "self_mapped k"
    using b by (simp_all add: boot_space_def D_def)
  have al: "aligned4 (page_base D + (x AND 0x3FF) * 4)" for x by simp
  note acc = access32 [OF aligned4_page [OF d(1)] d(3)]
  show "vmm_pre_init k = Inr k'"
    using acc(2) d(1) by (simp add: vmm_pre_init_def D_def k'_def reload_kern_page_table_def)
  have ld: "ld32p (pmem k') (D + (x AND 0x3FF) * 4) = (if x AND 0x3FF = 0 then 0 else ld32p (pmem k) (D + (x AND 0x3FF) * 4))" for x
  proof (cases "x AND 0x3FF = 0")
    case False
    then have "page_base D + (0 AND 0x3FF) * 4 \<noteq> page_base D + (x AND 0x3FF) * 4" by (intro entry_neq_index) simp
    then have "D \<noteq> D + (x AND 0x3FF) * 4" using d(1) by simp
    then show ?thesis using False al [of x] acc(3) d(1) by (simp add: k'_def)
  qed (simp add: k'_def)
  show pde: "pde_of k' v = (if drop_bit 22 v = 0 then 0 else pde_of k v)" for v
    using ld [of "drop_bit 22 v"] d by (simp add: pde_of_def pde_paddr_def dir_idx k'_def)
  show "self_mapped k'"
    using ld [of "0x3FF"] d by (simp add: self_mapped_def k'_def)
  show "pte_of k' v = pte_of k v" if v: "drop_bit 22 v \<noteq> 0" "drop_bit 22 v \<noteq> 0x3FF" "mapped_dir k v"
  proof -
    have w: "drop_bit 22 (get_pde 0) = (0x3FF :: uint32)" by (rule get_pde_fields(1))
    have sep: "mapped_dir k u \<Longrightarrow> mapped_dir k x \<Longrightarrow> drop_bit 22 u \<noteq> 0 \<Longrightarrow> drop_bit 22 x \<noteq> 0 \<Longrightarrow>
        drop_bit 22 (prim u) \<noteq> drop_bit 22 (prim x) \<Longrightarrow> page_base (pde_of k u) \<noteq> page_base (pde_of k x)" for u x
      using b unfolding boot_space_def by blast
    have "page_base (pde_of k v) \<noteq> page_base (pde_of k (get_pde 0))"
      by (rule sep) (use v w window_dir(1) [OF d(4) w] in simp_all)
    then have "page_base (pde_of k v) \<noteq> page_base D" using window_dir(2) [OF d(4) w] d(1,2) by simp
    then have "page_base D + (0 AND 0x3FF) * 4 \<noteq> page_base (pde_of k v) + (drop_bit 12 v AND 0x3FF) * 4"
      by (intro entry_neq_frame) simp
    then have "D \<noteq> pte_paddr (pde_of k v) v" using d(1) by (simp add: pte_paddr_def)
    moreover have "aligned4 (pte_paddr (pde_of k v) v)" by (simp add: pte_paddr_def)
    ultimately show ?thesis using acc(3) v(1) by (simp add: pte_of_def pde) (simp add: k'_def)
  qed
qed

lemma prim_zero: "drop_bit 22 (prim v) = 0 \<longleftrightarrow> drop_bit 22 v = 0"
  using prim_high [of v] dir_high [of v] dir_high [of "prim v"] by (cases "0xC0000000 \<le> v") auto

lemma pre_init_shared:
  assumes "boot_space k"
  shows "shared_tables (k\<lparr>pmem := st32p (pmem k) (kern_dir_table_paddr k) 0, cr3 := kern_dir_table_paddr k\<rparr>)"
  (is "shared_tables ?k")
proof -
  note r = pre_init_run [OF assms]
  have m: "mapped_dir ?k v \<longleftrightarrow> mapped_dir k v \<and> drop_bit 22 v \<noteq> 0" for v by (simp add: mapped_dir_def r(2))
  have "pde_of ?k v = pde_of ?k (prim v)" for v
    using assms unfolding r(2) prim_zero boot_space_def by auto
  moreover have "page_base (pde_of ?k v) \<noteq> page_base (pde_of ?k w)"
    if "mapped_dir ?k v" "mapped_dir ?k w" "drop_bit 22 (prim v) \<noteq> drop_bit 22 (prim w)" for v w
  proof -
    have sep: "mapped_dir k v \<Longrightarrow> mapped_dir k w \<Longrightarrow> drop_bit 22 v \<noteq> 0 \<Longrightarrow> drop_bit 22 w \<noteq> 0 \<Longrightarrow>
        drop_bit 22 (prim v) \<noteq> drop_bit 22 (prim w) \<Longrightarrow> page_base (pde_of k v) \<noteq> page_base (pde_of k w)"
      using assms unfolding boot_space_def by blast
    then show ?thesis using that unfolding m r(2) by simp
  qed
  ultimately show ?thesis using r(4) unfolding shared_tables_def by blast
qed

section \<open>Properties\<close>

text \<open>
  C10. The page table window: when the last directory entry maps the directory, the virtual
  addresses computed by \<^verbatim>\<open>get_pde\<close> and \<^verbatim>\<open>get_pte\<close> translate to the physical addresses of the
  directory entry and of the page table entry that the processor uses for the address.
\<close>

theorem window_translates:
  assumes "self_mapped k" "mapped_dir k v"
  shows "translate k (get_pde v) = Some (pde_paddr k v) \<and>
    translate k (get_pte v) = Some (pte_paddr (ld32p (pmem k) (pde_paddr k v)) v)"
  using translate_get_pde [OF assms(1)] translate_get_pte [OF assms(1)] assms(2)
  by (simp_all add: mapped_dir_def pde_of_def)

text \<open>
  \<^verbatim>\<open>vmm_pre_init\<close> unmaps the first 4 MB, keeps every other translation outside the
  window, and leaves page tables that are shared only within the kernel half.
\<close>

theorem vmm_pre_init_unmaps:
  assumes "boot_space k"
  shows "\<exists>k'. vmm_pre_init k = Inr k' \<and> (\<forall>v. drop_bit 22 v = 0 \<longrightarrow> translate k' v = None) \<and>
    (\<forall>v. drop_bit 22 v \<noteq> 0 \<longrightarrow> drop_bit 22 v \<noteq> 0x3FF \<longrightarrow> translate k' v = translate k v) \<and> shared_tables k'"
proof -
  let ?k = "k\<lparr>pmem := st32p (pmem k) (kern_dir_table_paddr k) 0, cr3 := kern_dir_table_paddr k\<rparr>"
  note r = pre_init_run [OF assms]
  have "translate ?k v = None" if "drop_bit 22 v = 0" for v using r(2) [of v] that by (simp add: translate_eq)
  moreover have "translate ?k v = translate k v" if "drop_bit 22 v \<noteq> 0" "drop_bit 22 v \<noteq> 0x3FF" for v
    using r(2) [of v] r(3) [of v] that by (auto simp: translate_eq mapped_dir_def)
  moreover have "shared_tables ?k" by (rule pre_init_shared [OF assms])
  ultimately show ?thesis using r(1) by blast
qed

text \<open>
  After \<^verbatim>\<open>vmm_init\<close> the free kernel pages are exactly those above the kernel image and
  below the page table window.
\<close>

theorem vmm_init_pool:
  assumes "stable I (bitmap_bytes (kpool (kern_bitmap k))) k" "unat (kern_end k) \<le> 1024 * 4096"
  shows "\<exists>k'. vmm_init k = Inr k' \<and> kern_vmm_pool k' = kpool (kern_bitmap k) \<and>
    free_pages (kern_vmm_pool k') (vmem k') = {(unat (kern_end k) + 4095) div 4096..<255 * 1024}"
  using kern_init_ok [OF assms] by auto

text \<open>
  Allocation of a given kernel page, whatever its address: if the page is free, a physical page is available and the bitmap
  does not lie in a page that shares the entry, the call succeeds, and every page that shares the entry of \<open>t\<close> now translates
  to that physical page.
\<close>

lemma kern_alloc_one_page_entry:
  assumes "kspace I k" "in_pool (kern_vmm_pool k) t" "page_index (kern_vmm_pool k) t \<in> kfree k"
    "\<forall>v\<in>kbytes k. page_base (prim v) \<noteq> page_base (prim t)"
    "pmm_alloc_one_page (pm k) = Inr (a, st')" "a_state a \<noteq> 0"
  shows "\<exists>k'. vmm_kern_alloc_one_page t k = Inr (t, k') \<and> kspace I k' \<and> pm k' = st' \<and>
    kfree k' = kfree k - {page_index (kern_vmm_pool k) t} \<and>
    (\<forall>v. translate k' v = (if page_base (prim v) = page_base (prim t) then Some (page_base (a_addr a) OR (v AND 0xFFF))
       else translate k v))"
proof -
  have pool: "kern_vmm_pool k = kpool (kern_bitmap k)" by (rule kspaceD(4) [OF assms(1)])
  obtain k1 where k1: "vmm_kern_alloc_one_page t k = bindE (present_page_table t k1) (kern_map_page t)"
    "rest_of I k1 = rest_of I k"
    "\<forall>x\<in>kbytes k. vmem k1 x = mark_busy (kpool (kern_bitmap k)) (page_index (kpool (kern_bitmap k)) t) (vmem k) x"
    using kern_alloc_one_page_run [OF assms(1)] assms(2,3) unfolding pool by blast
  show ?thesis
    using alloc_tail [OF assms(1) assms(2,3) [unfolded pool] k1(2,3) assms(4-6)] unfolding pool k1(1)
    by (elim exE conjE) (intro exI conjI)
qed

text \<open>
  Below 0xC4000000 the pages that share the entry are \<open>t\<close> itself and its aliases a multiple of 64 MB above it: no other
  address changes its translation, the page is no longer free, and the invariant of the address space holds again.
\<close>

theorem vmm_kern_alloc_one_page_maps:
  assumes "kspace I k" "in_pool (kern_vmm_pool k) t" "page_index (kern_vmm_pool k) t \<in> kfree k" "t < 0xC4000000"
    "pmm_alloc_one_page (pm k) = Inr (a, st')" "a_state a \<noteq> 0"
  shows "\<exists>k'. vmm_kern_alloc_one_page t k = Inr (t, k') \<and> kspace I k' \<and> pm k' = st' \<and>
    kfree k' = kfree k - {page_index (kern_vmm_pool k) t} \<and>
    (\<forall>v. translate k' v = (if page_base (prim v) = page_base t then Some (page_base (a_addr a) OR (v AND 0xFFF))
       else translate k v))"
proof -
  have pool: "kern_vmm_pool k = kpool (kern_bitmap k)" by (rule kspaceD(4) [OF assms(1)])
  have t: "prim t = t"
    using prim_kernel [OF pool_target(1) assms(4)] assms(1-3) kspaceD(6) [OF assms(1)] unfolding pool by blast
  show ?thesis
    using kern_alloc_one_page_entry [OF assms(1-3) busy_not_bitmap [OF assms(1) _ t] assms(5,6)] assms(3)
    unfolding pool t by blast
qed

text \<open>
  C21. The page tables that \<^verbatim>\<open>boot.s\<close> builds make kernel pages interfere: when a free page at or above 0xC4000000 is
  allocated by its address, the page of the first 64 MB with which it shares its entry, in use or not, is moved to the new
  physical page as well. The bitmap still describes that page as before; what it held is no longer reachable there.
\<close>

theorem kern_alloc_moves_alias:
  assumes "kspace I k" "in_pool (kern_vmm_pool k) t" "page_index (kern_vmm_pool k) t \<in> kfree k" "0xC4000000 \<le> t"
    "\<forall>v\<in>bitmap_bytes (kern_vmm_pool k). page_base v \<noteq> page_base (prim t)"
    "pmm_alloc_one_page (pm k) = Inr (a, st')" "a_state a \<noteq> 0"
  shows "prim t < 0xC4000000 \<and> page_base (prim t) \<noteq> page_base t \<and> translate k t = translate k (prim t) \<and>
    (\<exists>k'. vmm_kern_alloc_one_page t k = Inr (t, k') \<and>
      (\<forall>v. page_base v = page_base (prim t) \<longrightarrow> translate k' v = Some (page_base (a_addr a) OR (v AND 0xFFF))) \<and>
      (page_index (kern_vmm_pool k) (prim t) \<in> kfree k' \<longleftrightarrow> page_index (kern_vmm_pool k) (prim t) \<in> kfree k))"
proof -
  have pool: "kern_vmm_pool k = kpool (kern_bitmap k)" by (rule kspaceD(4) [OF assms(1)])
  note tgt = pool_target [OF assms(1) assms(2) [unfolded pool] kspaceD(6) [OF assms(1) assms(3) [unfolded pool]]]
  have "t < 0xFFC00000" using tgt(3) by (simp add: window_addr not_le)
  then have p: "0xC0000000 \<le> prim t" "prim t < 0xC4000000" using prim_range [OF tgt(1)] by simp_all
  have ne: "page_base (prim t) \<noteq> page_base t"
  proof
    assume "page_base (prim t) = page_base t"
    then have "drop_bit 12 (prim t) = drop_bit 12 t" using page_fields by blast
    then have "unat (prim t) div 4096 = unat t div 4096" by (simp add: drop_bit_eq_div word_unat_eq_iff unat_div)
    moreover have "0xC4000000 div 4096 \<le> unat t div 4096" using assms(4) by (intro div_le_mono) (simp add: word_le_nat_alt)
    moreover have "unat (prim t) div 4096 < 0xC4000" using p(2) by (simp add: word_less_nat_alt div_less_iff_less_mult)
    ultimately show False by simp
  qed
  have nb: "\<forall>v\<in>kbytes k. page_base (prim v) \<noteq> page_base (prim t)"
    using assms(5) kspaceD(12) [OF assms(1)] unfolding pool by simp
  obtain k' where k': "vmm_kern_alloc_one_page t k = Inr (t, k')" "kfree k' = kfree k - {page_index (kern_vmm_pool k) t}"
    "\<forall>v. translate k' v = (if page_base (prim v) = page_base (prim t) then Some (page_base (a_addr a) OR (v AND 0xFFF))
       else translate k v)"
    using kern_alloc_one_page_entry [OF assms(1-3) nb assms(6,7)] by blast
  have "translate k' v = Some (page_base (a_addr a) OR (v AND 0xFFF))" if "page_base v = page_base (prim t)" for v
    using k'(3) prim_page [OF that] by simp
  moreover have "page_index (kern_vmm_pool k) (prim t) \<noteq> page_index (kern_vmm_pool k) t"
  proof -
    have b: "0xC0000000 \<le> unat (page_base x)" if "0xC0000000 \<le> x" for x
    proof -
      have "0xC0000000 div 4096 \<le> unat x div 4096" using that by (intro div_le_mono) (simp add: word_le_nat_alt)
      then show ?thesis by (simp add: unat_page_base)
    qed
    have "0xC0000000 \<le> unat (page_base (prim t))" "0xC0000000 \<le> unat (page_base t)" by (rule b, rule p(1), rule b, rule tgt(1))
    moreover have "(x * 4096 - 3221225472) div 4096 = x - 786432" for x :: nat
    proof -
      have "x * 4096 - 3221225472 = (x - 786432) * 4096" by (simp add: diff_mult_distrib)
      then show ?thesis by simp
    qed
    ultimately have "page_index (kern_vmm_pool k) (prim t) = page_index (kern_vmm_pool k) t \<Longrightarrow>
        unat (page_base (prim t)) = unat (page_base t)"
      unfolding page_index_def pool kpool_fields by (simp add: unat_page_base)
    then show ?thesis using ne by (auto simp: word_unat_eq_iff)
  qed
  moreover have "translate k t = translate k (prim t)" by (simp add: prim_translate [OF kspaceD(1) [OF assms(1)]])
  ultimately show ?thesis using k'(1,2) p(2) ne by auto
qed

lemma vmm_kern_alloc_run:
  assumes "kspace I k" "kfree k \<noteq> {}" "Min (kfree k) < 16384" "pmm_alloc_one_page (pm k) = Inr (a, st')" "a_state a \<noteq> 0"
  shows "\<exists>k'. vmm_kern_alloc k = Inr (page_addr (kern_vmm_pool k) (Min (kfree k)), k') \<and> kspace I k' \<and> pm k' = st' \<and>
    kfree k' = kfree k - {Min (kfree k)} \<and>
    (\<forall>v. translate k' v = (if page_base (prim v) = page_addr (kern_vmm_pool k) (Min (kfree k))
       then Some (page_base (a_addr a) OR (v AND 0xFFF)) else translate k v))"
proof -
  have pool: "kern_vmm_pool k = kpool (kern_bitmap k)" by (rule kspaceD(4) [OF assms(1)])
  let ?t = "page_addr (kpool (kern_bitmap k)) (Min (kfree k))"
  obtain k1 where k1: "vmm_kern_alloc k = bindE (present_page_table ?t k1) (kern_map_page ?t)"
    "rest_of I k1 = rest_of I k"
    "\<forall>x\<in>kbytes k. vmem k1 x = mark_busy (kpool (kern_bitmap k)) (page_index (kpool (kern_bitmap k)) ?t) (vmem k) x"
    and t: "in_pool (kpool (kern_bitmap k)) ?t" "page_index (kpool (kern_bitmap k)) ?t = Min (kfree k)"
      "page_base ?t = ?t" "Min (kfree k) \<in> kfree k"
    by (rule kern_alloc_run [OF assms(1,2)])
  have tf: "page_index (kpool (kern_bitmap k)) ?t \<in> kfree k" using t(2,4) by simp
  have pt: "prim ?t = ?t" by (rule page_addr_primary(3) [OF assms(3)])
  note nb = busy_not_bitmap [OF assms(1) tf pt]
  show ?thesis
    using alloc_tail [OF assms(1) t(1) tf k1(2,3) nb assms(4,5)] k1(1) unfolding pool t(2) pt t(3) by auto
qed


text \<open>
  When no physical page is left, allocation reports an error and undoes its reservation: the
  same pages are free as before and no translation has changed.
\<close>

theorem vmm_kern_alloc_no_memory:
  assumes "kspace I k" "kfree k \<noteq> {}" "pmm_alloc_one_page (pm k) = Inr (a, st')" "a_state a = 0"
  shows "\<exists>k'. vmm_kern_alloc k = Inr (0xFFFFFFFF, k') \<and> kspace I k' \<and> kfree k' = kfree k \<and> translate k' = translate k"
proof -
  let ?t = "page_addr (kpool (kern_bitmap k)) (Min (kfree k))"
  obtain k1 where k1: "vmm_kern_alloc k = bindE (present_page_table ?t k1) (kern_map_page ?t)"
    "rest_of I k1 = rest_of I k"
    "\<forall>x\<in>kbytes k. vmem k1 x = mark_busy (kpool (kern_bitmap k)) (page_index (kpool (kern_bitmap k)) ?t) (vmem k) x"
    and t: "in_pool (kpool (kern_bitmap k)) ?t" "page_index (kpool (kern_bitmap k)) ?t = Min (kfree k)"
      "page_base ?t = ?t" "Min (kfree k) \<in> kfree k"
    by (rule kern_alloc_run [OF assms(1,2)])
  have tf: "page_index (kpool (kern_bitmap k)) ?t \<in> kfree k" using t(2,4) by simp
  show ?thesis using alloc_tail_fails [OF assms(1) t(1) tf k1(2,3) assms(3,4)] k1(1) by auto
qed

text \<open>
  Releasing a kernel page below the window that does not hold the bitmap and does not share an entry with it unmaps the page
  and those that share its entry, and only them, and makes it free for the next allocation. The physical page is not given back: the
  state of the page manager does not change.
\<close>

theorem vmm_kern_release_unmaps:
  assumes "kspace I k" "in_pool (kern_vmm_pool k) t" "page_index (kern_vmm_pool k) t < 255 * 1024"
    "\<forall>v\<in>bitmap_bytes (kern_vmm_pool k). page_base v \<noteq> page_base (prim t)"
  shows "\<exists>k'. vmm_kern_release_one_page t k = Inr k' \<and> kspace I k' \<and> pm k' = pm k \<and>
    kfree k' = insert (page_index (kern_vmm_pool k) t) (kfree k) \<and>
    (\<forall>v. translate k' v = (if page_base (prim v) = page_base (prim t) then None else translate k v))"
proof -
  have "\<forall>v\<in>kbytes k. page_base (prim v) \<noteq> page_base (prim t)"
    using assms(4) kspaceD(12) [OF assms(1)] unfolding kspaceD(4) [OF assms(1)] by simp
  then show ?thesis using kern_release_run [OF assms(1)] assms(2,3) unfolding kspaceD(4) [OF assms(1)] by blast
qed

lemma vmm_v2p_run:
  assumes "self_mapped k" "mapped_dir k v"
  shows "check_vaddr_present v k = Inr True \<and>
    vmm_v2p v k = Inr (page_base (pte_of k v) OR (v AND 0xFFF)) \<and>
    (\<forall>p. translate k v = Some p \<longrightarrow> vmm_v2p v k = Inr p)"
proof -
  have "load32 (get_pde v) k = Inr (pde_of k v)" "load32 (get_pte v) k = Inr (pte_of k v)"
    using access_pde(1) [OF assms(1)] access_pte(1) [OF assms(1)] assms(2) by (simp_all add: mapped_dir_def)
  then have c: "check_vaddr_present v k = Inr True"
    and r: "vmm_v2p v k = Inr (page_base (pte_of k v) OR (v AND 0xFFF))"
    by (simp_all add: check_vaddr_present_def vmm_v2p_def test_p_bit_eq and.commute)
  then show ?thesis by (auto simp: translate_eq split: if_splits)
qed

text \<open>
  C15. \<^verbatim>\<open>vmm_v2p\<close> agrees with the translation of the processor for a mapped address, but it never
  reports \<^verbatim>\<open>V2P_ERROR\<close>: where the page is not present (its page table being present) it
  answers with the frame left in the entry, because the test of the P bit is always true.
\<close>

theorem vmm_v2p_reads_entry:
  assumes "self_mapped k" "mapped_dir k v"
  shows "check_vaddr_present v k = Inr True \<and>
    vmm_v2p v k = Inr (page_base (pte_of k v) OR (v AND 0xFFF)) \<and>
    (\<forall>p. translate k v = Some p \<longrightarrow> vmm_v2p v k = Inr p)"
  by (rule vmm_v2p_run [OF assms])

end
