(* ===== verification/VmmInstance.thy ===== *)
theory VmmInstance
  imports VmmProps PmmProps
begin

text \<open>
  A concrete address space as \<^verbatim>\<open>boot.s\<close>, \<^verbatim>\<open>vmm_pre_init\<close> and \<^verbatim>\<open>vmm_init\<close> leave it: the
  directory at \<open>0x100000\<close>, the 16 kernel page tables behind it, the first 4 MB mapped at
  \<open>0xC0000000\<close>, the bitmap at \<open>0xC0300000\<close>. The properties of the virtual memory manager are
  applied to it.
\<close>

section \<open>The machine\<close>

definition demo_word :: "uint32 \<Rightarrow> uint32" where
  "demo_word a = (let d = unat (a AND 0xFFF) div 4
     in if page_base a = 0x100000
        then if d = 1023 then 0x100003 else if 768 \<le> d then of_nat (0x101003 + (d - 768) mod 16 * 0x1000) else 0
        else if page_base a = 0x101000 then of_nat (d * 0x1000 + 3)
        else if 0x300080 \<le> a \<and> a < 0x307F80 then 0xFFFFFFFF else 0)"

definition demo_mem :: "uint32 \<Rightarrow> byte" where
  "demo_mem x = ucast (drop_bit (8 * unat (x AND 3)) (demo_word (x AND NOT 3)))"

definition demo_kernel :: kernel where
  "demo_kernel = \<lparr>pmem = demo_mem, cr3 = 0x100000, int_flag = False, io_log = [], pm = demo_pmm,
     kern_vmm_pool = kpool 0xC0300000, kern_bitmap = 0xC0300000, kern_dir_table_paddr = 0x100000,
     kern_end = 0x400000, USER_PAGE_DIR_IS_LOADED = True, tcb = (\<lambda>_. undefined), cur_tcb = 0,
     tss_cpu0 = undefined, regs = undefined\<rparr>"

lemma demo_fields [simp]:
  "pmem demo_kernel = demo_mem" "cr3 demo_kernel = 0x100000" "kern_bitmap demo_kernel = 0xC0300000"
  "kern_vmm_pool demo_kernel = kpool 0xC0300000" "pm demo_kernel = demo_pmm" "kern_end demo_kernel = 0x400000"
  "kern_dir_table_paddr demo_kernel = 0x100000"
  by (simp_all add: demo_kernel_def)

lemma three_mask: "(3 :: uint32) = mask 2"
  by (simp add: mask_eq_decr_exp)

lemma small_unat:
  assumes "(i :: uint32) < 4" shows "unat (i :: uint32) < 4"
  using assms by (simp add: word_less_nat_alt)

lemma aligned_split:
  assumes "aligned4 a" "(i :: uint32) < 4"
  shows "(a + i) AND 3 = i" "(a + i) AND NOT 3 = a"
proof -
  have a: "\<not> bit a n" if "n < 2" for n using assms(1) that by (auto simp: aligned4_bits less_2_cases_iff)
  show "(a + i) AND 3 = i" "(a + i) AND NOT 3 = a"
    unfolding aligned_add_or [OF assms] three_mask
    by (rule bit_word_eqI; use a in \<open>force simp: bit_simps not_less dest: small_bits [OF assms(2)]\<close>)+
qed

lemma demo_byte:
  assumes "aligned4 a" "(i :: uint32) < 4"
  shows "demo_mem (a + i) = ucast (drop_bit (8 * unat i) (demo_word a))"
  by (simp only: demo_mem_def aligned_split [OF assms])

lemma word_of_bytes:
  "(w :: uint32) = ucast (ucast w :: byte) OR push_bit 8 (ucast (ucast (drop_bit 8 w) :: byte)) OR
     push_bit 16 (ucast (ucast (drop_bit 16 w) :: byte)) OR push_bit 24 (ucast (ucast (drop_bit 24 w) :: byte))"
proof (rule bit_word_eqI)
  fix n assume "n < LENGTH(32)"
  then have "n < 32" by simp
  then consider "n < 8" | "8 \<le> n" "n < 16" | "16 \<le> n" "n < 24" | "24 \<le> n" "n < 32" by linarith
  then show "bit w n = bit (ucast (ucast w :: byte) OR push_bit 8 (ucast (ucast (drop_bit 8 w) :: byte)) OR
     push_bit 16 (ucast (ucast (drop_bit 16 w) :: byte)) OR push_bit 24 (ucast (ucast (drop_bit 24 w) :: byte)) :: uint32) n"
    by cases (auto simp: bit_simps)
qed

lemma ld32p_demo: "aligned4 a \<Longrightarrow> ld32p demo_mem a = demo_word a"
  using demo_byte [of a 0] demo_byte [of a 1] demo_byte [of a 2] demo_byte [of a 3] word_of_bytes [of "demo_word a"]
  by (simp add: ld32p_def)

text \<open>The entries of the directory and of the page tables.\<close>

lemma entry_index:
  "((page_base p + (x AND 0x3FF) * 4) AND 0xFFF) = (x AND 0x3FF) * (4 :: uint32)"
proof -
  have "(page_base p OR (x AND 0x3FF) * 4) AND 0xFFF = (x AND 0x3FF) * 4"
    unfolding masks times4 by (rule bit_word_eqI) (auto simp: bit_simps)
  then show ?thesis by (simp only: page_or_add [OF idx4_low])
qed

lemma index_unat: "unat ((x AND 0x3FF) * (4 :: uint32)) div 4 = unat (x AND 0x3FF)"
proof -
  have "unat (x AND 0x3FF) < 1024"
  proof -
    have "x AND 0x3FF \<le> 0x3FF" by (rule word_and_le1)
    then show ?thesis by (simp add: word_le_nat_alt)
  qed
  then have "unat ((x AND 0x3FF) * 4) = unat (x AND 0x3FF) * 4" by (simp add: unat_word_ariths)
  then show ?thesis by simp
qed

lemma demo_entry:
  "demo_word (page_base p + (x AND 0x3FF) * 4) = (let d = unat (x AND 0x3FF)
     in if page_base p = 0x100000
        then if d = 1023 then 0x100003 else if 768 \<le> d then of_nat (0x101003 + (d - 768) mod 16 * 0x1000) else 0
        else if page_base p = 0x101000 then of_nat (d * 0x1000 + 3)
        else if 0x300080 \<le> page_base p + (x AND 0x3FF) * 4 \<and> page_base p + (x AND 0x3FF) * 4 < 0x307F80
        then 0xFFFFFFFF else 0)"
  using entry_frame [of 0 p x] by (simp only: demo_word_def Let_def entry_index index_unat) simp

lemma demo_pde:
  "pde_of demo_kernel v = (let d = unat (drop_bit 22 v)
     in if d = 1023 then 0x100003 else if 768 \<le> d then of_nat (0x101003 + (d - 768) mod 16 * 0x1000) else 0)"
proof -
  have b: "page_base 0x100000 = (0x100000 :: uint32)" by (simp add: page_base_def)
  have "pde_of demo_kernel v = demo_word (page_base 0x100000 + (drop_bit 22 v AND 0x3FF) * 4)"
    unfolding pde_of_def pde_paddr_mask by (simp add: ld32p_demo)
  then show ?thesis unfolding demo_entry unfolding dir_idx b by simp
qed

lemma demo_dir: "mapped_dir demo_kernel v \<longleftrightarrow> 768 \<le> unat (drop_bit 22 v)"
proof -
  have "bit (of_nat (0x101003 + j * 0x1000) :: uint32) 0" for j :: nat by (simp add: bit_0)
  then show ?thesis by (simp add: mapped_dir_def demo_pde Let_def del: of_nat_add of_nat_mult)
qed

lemma dir_less: "unat (drop_bit 22 (v :: uint32)) < 1024"
  using unat_lt_32 [of v] by (simp add: drop_bit_eq_div unat_div)

lemma demo_table:
  assumes "768 \<le> unat (drop_bit 22 v)"
  shows "unat (page_base (pde_of demo_kernel v)) =
    (if unat (drop_bit 22 v) = 1023 then 0x100000 else 0x101000 + (unat (drop_bit 22 v) - 768) mod 16 * 0x1000)"
proof (cases "unat (drop_bit 22 v) = 1023")
  case False
  let ?j = "(unat (drop_bit 22 v) - 768) mod 16"
  have "?j < 16" by simp
  have "unat (of_nat (0x101003 + ?j * 0x1000) :: uint32) = 0x101003 + ?j * 0x1000"
    using \<open>?j < 16\<close> by (intro unat_of_nat_32) (simp del: mod_less_divisor)
  then have "unat (pde_of demo_kernel v) = 0x101003 + ?j * 0x1000"
    using False assms by (simp add: demo_pde Let_def del: of_nat_add of_nat_mult)
  then show ?thesis using False by (simp add: unat_page_base)
qed (simp add: unat_page_base demo_pde)

lemma demo_shared: "shared_tables demo_kernel"
proof -
  have "ld32p demo_mem 0x100FFC = 0x100003"
    by (subst ld32p_demo) (simp_all add: aligned4_def demo_word_def page_base_def)
  then have "self_mapped demo_kernel" by (simp add: self_mapped_def page_base_def bit_0)
  moreover have "pde_of demo_kernel v = pde_of demo_kernel (prim v)" for v
    unfolding demo_pde prim_index using dir_less [of v] by (auto simp: Let_def)
  moreover have "page_base (pde_of demo_kernel v) \<noteq> page_base (pde_of demo_kernel w)"
    if "768 \<le> unat (drop_bit 22 v)" "768 \<le> unat (drop_bit 22 w)" "drop_bit 22 (prim v) \<noteq> drop_bit 22 (prim w)" for v w
  proof -
    have "unat (drop_bit 22 (prim v)) \<noteq> unat (drop_bit 22 (prim w))" using that(3) by (simp add: word_unat_eq_iff)
    then show ?thesis using demo_table [OF that(1)] demo_table [OF that(2)] that(1,2)
      unfolding prim_index by (auto simp: Let_def word_unat_eq_iff split: if_splits)
  qed
  ultimately show ?thesis by (simp add: shared_tables_def demo_dir)
qed

definition demo_bytes :: "uint32 set" where
  "demo_bytes = {p. 0x300000 \<le> p \<and> p < 0x308000}"

lemma demo_d: "unat (page_base (cr3 demo_kernel)) = 0x100000"
  by (simp add: page_base_def)

lemma demo_off: "off_tables demo_bytes demo_kernel"
  unfolding off_tables_def
proof (intro ballI conjI allI impI)
  fix p assume "p \<in> demo_bytes"
  then have p: "0x300000 \<le> unat p" by (simp add: demo_bytes_def word_le_nat_alt)
  then have "0x300000 div 4096 \<le> unat p div 4096" by (rule div_le_mono)
  then have b: "0x300000 \<le> unat (page_base p)" by (simp add: unat_page_base)
  then show "page_base p \<noteq> page_base (cr3 demo_kernel)" using demo_d by auto
  fix v assume "mapped_dir demo_kernel v"
  then have "unat (page_base (pde_of demo_kernel v)) < 0x300000"
    using demo_table [of v] dir_less [of v] by (auto simp: demo_dir)
  then show "page_base p \<noteq> page_base (pde_of demo_kernel v)" using b by auto
qed

lemma demo_translate:
  assumes "0xC0000000 \<le> v" "v < 0xC0400000"
  shows "translate demo_kernel v = Some (v - 0xC0000000)"
proof -
  have v: "0xC0000000 \<le> unat v" "unat v < 0xC0400000" using assms by (simp_all add: word_le_nat_alt word_less_nat_alt)
  then have d: "unat (drop_bit 22 v) = 768" by (simp add: drop_bit_eq_div unat_div)
  have T: "page_base (pde_of demo_kernel v) = 0x101000" using demo_table [of v] d by (simp add: word_unat_eq_iff)
  let ?m = "unat (drop_bit 12 v AND 0x3FF)"
  have m: "?m = unat v div 4096 mod 1024" unfolding and_low by (simp add: drop_bit_eq_div unat_div)
  have pe: "pte_of demo_kernel v = of_nat (?m * 0x1000 + 3)"
    unfolding pte_of_def pte_paddr_def demo_fields ld32p_demo [OF aligned_entries(3)] demo_entry
    unfolding T by (simp add: Let_def)
  then have pte: "unat (pte_of demo_kernel v) = ?m * 0x1000 + 3"
    using m by (simp only:) (intro unat_of_nat_32, simp)
  have p: "bit (pte_of demo_kernel v) 0" unfolding pe by (simp add: bit_0)
  have pb: "unat (page_base (pte_of demo_kernel v)) = ?m * 4096" by (simp add: unat_page_base pte)
  have "unat v mod 0x400000 = unat v - 0xC0000000" using v by (simp add: mod_nat_eqI)
  then have split: "?m * 4096 + unat v mod 4096 = unat v - 0xC0000000"
    unfolding m using mod_mult2_eq [of "unat v" 4096 1024] by simp
  have low: "(v AND 0xFFF) AND 0xFFF = v AND 0xFFF" by (simp add: and.assoc)
  have "unat (page_base (pte_of demo_kernel v) + (v AND 0xFFF)) = unat (v - 0xC0000000)"
    using pb and_low(1) [of v] split v m by (simp add: unat_word_ariths unat_sub word_le_nat_alt) (rule mod_less, linarith)
  then have "page_base (pte_of demo_kernel v) OR (v AND 0xFFF) = v - 0xC0000000"
    unfolding page_or_add [OF low] by (simp only: word_unat_eq_iff)
  then show ?thesis using p d by (simp add: translate_eq demo_dir [unfolded mapped_dir_def])
qed

lemma low2_clear: "x AND NOT 3 = push_bit 2 (drop_bit 2 (x :: uint32))"
proof (rule bit_word_eqI)
  fix n
  show "bit (x AND NOT 3) n = bit (push_bit 2 (drop_bit 2 x)) n"
    unfolding three_mask by (cases "2 \<le> n") (auto simp: bit_simps dest!: le_Suc_ex)
qed

lemma full_byte: "m < 4 \<Longrightarrow> ucast (drop_bit (8 * m) (0xFFFFFFFF :: uint32)) = (255 :: byte)"
proof -
  assume "m < 4"
  then consider "m = 0" | "m = 1" | "m = 2" | "m = 3" by linarith
  then show ?thesis by cases simp_all
qed

lemma demo_bitmap_byte:
  assumes "j < 32768"
  shows "vmem demo_kernel (0xC0300000 + of_nat j) = (if 128 \<le> j \<and> j < 32640 then 255 else 0)"
proof -
  let ?x = "0x300000 + of_nat j :: uint32"
  have uj: "unat (of_nat j :: uint32) = j" using assms by (intro unat_of_nat_32) simp
  have x: "unat ?x = 0x300000 + j" using assms uj by (simp add: unat_word_ariths)
  have "0xC0300000 + of_nat j - 0xC0000000 = ?x" by simp
  moreover have "0xC0000000 \<le> (0xC0300000 + of_nat j :: uint32)" "(0xC0300000 + of_nat j :: uint32) < 0xC0400000"
    using assms uj by (simp_all add: word_le_nat_alt word_less_nat_alt unat_word_ariths)
  ultimately have v: "vmem demo_kernel (0xC0300000 + of_nat j) = demo_mem ?x" by (simp add: vmem_def demo_translate)
  let ?a = "?x AND NOT 3"
  have a4: "?a = push_bit 2 (drop_bit 2 ?x)" by (rule low2_clear)
  have ua: "unat ?a = 0x300000 + j div 4 * 4"
  proof -
    have "(j + 4 * 786432) div 4 = 786432 + j div 4" by (rule div_mult_self2) simp
    then have d: "(0x300000 + j) div 4 * 4 = 0x300000 + j div 4 * 4" by (simp add: add.commute)
    have "unat ?a = unat ?x div 4 * 4 mod 2 ^ 32"
      unfolding a4 by (simp only: push_bit_eq_mult drop_bit_eq_div unat_word_ariths unat_div) simp
    then show ?thesis unfolding x d using assms by simp
  qed
  have "0x300000 div 4096 \<le> unat ?a div 4096" unfolding ua by (rule div_le_mono) simp
  then have b: "0x300000 \<le> unat (page_base ?a)" by (simp add: unat_page_base)
  have "0x300080 \<le> ?a \<and> ?a < 0x307F80 \<longleftrightarrow> 128 \<le> j \<and> j < 32640"
    unfolding word_le_nat_alt word_less_nat_alt ua by auto
  then have "demo_word ?a = (if 128 \<le> j \<and> j < 32640 then 0xFFFFFFFF else 0)"
    using b by (auto simp: demo_word_def Let_def)
  moreover have "unat (?x AND 3) < 4"
  proof -
    have "?x AND 3 \<le> 3" by (rule word_and_le1)
    then show ?thesis by (simp add: word_le_nat_alt)
  qed
  ultimately show ?thesis unfolding v demo_mem_def using full_byte by simp
qed

section \<open>The invariant holds\<close>

lemma demo_kbytes: "bitmap_bytes (kpool 0xC0300000) = (\<lambda>j. 0xC0300000 + of_nat j) ` {..<32768}"
  by (simp add: bitmap_bytes_def span_def)

lemma demo_free: "free_pages (kpool 0xC0300000) (vmem demo_kernel) = {1024..<255 * 1024}"
proof -
  have "n \<in> free_pages (kpool 0xC0300000) (vmem demo_kernel) \<longleftrightarrow> 1024 \<le> n \<and> n < 255 * 1024" for n
  proof (cases "n < 262144")
    case True
    then have j: "n div 8 < 32768" by (simp add: div_less_iff_less_mult)
    have r: "128 \<le> n div 8 \<longleftrightarrow> 1024 \<le> n" "n div 8 < 32640 \<longleftrightarrow> n < 255 * 1024"
      by (simp_all add: less_eq_div_iff_mult_less_eq div_less_iff_less_mult)
    have "bit (255 :: byte) (7 - n mod 8)"
    proof -
      have "(255 :: byte) = mask 8" by (simp add: mask_eq_decr_exp)
      then show ?thesis by (simp only: bit_mask_iff) simp
    qed
    then show ?thesis using demo_bitmap_byte [OF j] r True by (simp add: free_pages_def page_free_def)
  qed (simp add: free_pages_def)
  then show ?thesis by (intro set_eqI) (simp only: atLeastLessThan_iff)
qed

lemma demo_range:
  assumes "v \<in> bitmap_bytes (kpool 0xC0300000)"
  shows "0xC0300000 \<le> unat v" "unat v < 0xC0308000"
proof -
  obtain j where j: "j < 32768" "v = 0xC0300000 + of_nat j" using assms unfolding demo_kbytes by auto
  have "unat (of_nat j :: uint32) = j" using j(1) by (intro unat_of_nat_32) simp
  then have "unat v = 0xC0300000 + j" using j by (simp add: unat_word_ariths)
  then show "0xC0300000 \<le> unat v" "unat v < 0xC0308000" using j(1) by simp_all
qed

lemma demo_kspace: "kspace demo_bytes demo_kernel"
proof -
  have tr: "translate demo_kernel v = Some (v - 0xC0000000)" "0xC0000000 \<le> v" "v - 0xC0000000 \<in> demo_bytes"
    "page_index (kpool 0xC0300000) v \<notin> {1024..<255 * 1024}"
    if "v \<in> bitmap_bytes (kpool 0xC0300000)" for v
  proof -
    note r = demo_range [OF that]
    show "translate demo_kernel v = Some (v - 0xC0000000)" "0xC0000000 \<le> v"
      using r demo_translate [of v] by (simp_all add: word_le_nat_alt word_less_nat_alt)
    show "v - 0xC0000000 \<in> demo_bytes"
      using r by (simp add: demo_bytes_def word_le_nat_alt word_less_nat_alt unat_sub) linarith
    have "unat v div 4096 \<le> 0xC0308000 div 4096" using r(2) by (intro div_le_mono) simp
    then have "unat (page_base v) \<le> 0xC0308000" by (simp add: unat_page_base)
    then have "(unat (page_base v) - 0xC0000000) div 4096 \<le> 0x308000 div 4096" by (intro div_le_mono) simp
    then show "page_index (kpool 0xC0300000) v \<notin> {1024..<255 * 1024}" by (simp add: page_index_def)
  qed
  have up: "v < 0xC4000000" if "v \<in> bitmap_bytes (kpool 0xC0300000)" for v
    using demo_range(2) [OF that] by (simp add: word_less_nat_alt)
  have "mapped_dir demo_kernel v" if "0xC0000000 \<le> v" for v
  proof -
    have "0xC0000000 div 4194304 \<le> unat v div 4194304" using that by (intro div_le_mono) (simp add: word_le_nat_alt)
    then show ?thesis by (simp add: demo_dir drop_bit_eq_div unat_div)
  qed
  moreover have "inj_on (translate demo_kernel) (bitmap_bytes (kpool 0xC0300000))"
    by (rule inj_onI) (simp add: tr(1))
  ultimately show ?thesis
    unfolding kspace_def using demo_shared demo_off tr up by (simp add: demo_free)
qed

section \<open>Instances of the properties\<close>

lemma demo_min: "Min (kfree demo_kernel) = 1024" "kfree demo_kernel \<noteq> {}"
proof -
  have "Min {a..<b} = a" if "a < b" for a b :: nat using that by (intro Min_eqI) auto
  then show "Min (kfree demo_kernel) = 1024" using demo_free by simp
  have "(1024 :: nat) \<in> {1024..<255 * 1024}" by simp
  then show "kfree demo_kernel \<noteq> {}" using demo_free by (metis demo_fields(3) empty_iff)
qed

lemma demo_one_page:
  "\<exists>st'. pmm_alloc_one_page demo_pmm = Inr (\<lparr>a_addr = 0x1A01000, a_size = 0, a_state = 1\<rparr>, st')"
proof -
  have "pmm_rel demo_pmm demo_lists ([6144] @ [6145])" using pmm_invD(1) [OF demo_inv] by simp
  then show ?thesis using pmm_alloc_one_page_rel [of demo_pmm demo_lists "[6144]" 6145]
    by (auto simp: pmm_page_no_to_addr_def demo_pmm_def)
qed

lemma page_base_exact: "page_base 0xC0400000 = 0xC0400000" "page_base 0x1A01000 = 0x1A01000"
  "page_base 0xC0500000 = 0xC0500000"
  by (simp_all add: page_base_def)

lemma prim_exact: "prim 0xC0500123 = 0xC0500123" "prim 0xC0400123 = 0xC0400123" "prim 0xC8400123 = 0xC0400123"
  "prim 0xC4200000 = 0xC0200000" "prim 0xC0000000 = 0xC0000000"
  by (simp_all add: prim_def)

lemma demo_bytes_page:
  assumes "unat (page_base t) < 0xC0300000" shows "\<forall>v\<in>bitmap_bytes (kpool 0xC0300000). page_base v \<noteq> page_base t"
proof
  fix v assume "v \<in> bitmap_bytes (kpool 0xC0300000)"
  then have "0xC0300000 div 4096 \<le> unat v div 4096" using demo_range(1) by (intro div_le_mono)
  then have "0xC0300000 \<le> unat (page_base v)" by (simp add: unat_page_base)
  then show "page_base v \<noteq> page_base t" using assms by auto
qed

theorem window_translates_witness:
  "translate demo_kernel (get_pde 0xC0400000) = Some 0x100C04 \<and>
   translate demo_kernel (get_pte 0xC0400000) = Some 0x102000"
proof -
  have "mapped_dir demo_kernel 0xC0400000" by (simp add: demo_dir)
  moreover have "pde_paddr demo_kernel 0xC0400000 = 0x100C04" by (simp add: pde_paddr_def page_base_def)
  moreover have "ld32p (pmem demo_kernel) 0x100C04 = 0x102003"
    unfolding demo_fields by (subst ld32p_demo) (simp_all add: aligned4_def demo_word_def page_base_def)
  ultimately show ?thesis
    using window_translates [OF kspaceD(5) [OF demo_kspace], of "0xC0400000"] by (simp add: pte_paddr_def page_base_def)
qed

theorem vmm_pre_init_unmaps_witness:
  "\<exists>k'. vmm_pre_init demo_kernel = Inr k' \<and> translate k' 0x1000 = None \<and> translate k' 0xC0001000 = Some 0x1000"
proof -
  have "translate demo_kernel 0xC0100000 = Some 0x100000" "translate demo_kernel 0xC0001000 = Some 0x1000"
    using demo_translate [of "0xC0100000"] demo_translate [of "0xC0001000"] by simp_all
  moreover have "boot_space demo_kernel"
    using demo_shared calculation(1) unfolding boot_space_def shared_tables_def
    by (auto simp: page_base_def)
  ultimately show ?thesis using vmm_pre_init_unmaps [of demo_kernel] by auto
qed

theorem vmm_init_pool_witness:
  "\<exists>k'. vmm_init demo_kernel = Inr k' \<and> free_pages (kern_vmm_pool k') (vmem k') = {1024..<255 * 1024}"
  using vmm_init_pool [of demo_bytes demo_kernel] kspace_stable [OF demo_kspace] by auto

theorem vmm_kern_alloc_one_page_maps_witness:
  "\<exists>k'. vmm_kern_alloc_one_page 0xC0500000 demo_kernel = Inr (0xC0500000, k') \<and> kspace demo_bytes k' \<and>
    translate k' 0xC0500123 = Some 0x1A01123"
proof -
  obtain st' where "pmm_alloc_one_page demo_pmm = Inr (\<lparr>a_addr = 0x1A01000, a_size = 0, a_state = 1\<rparr>, st')"
    using demo_one_page by blast
  then show ?thesis
    using vmm_kern_alloc_one_page_maps [OF demo_kspace, of "0xC0500000" "\<lparr>a_addr = 0x1A01000, a_size = 0, a_state = 1\<rparr>" st']
    by (auto simp: demo_free in_pool_def page_index_def page_base_def prim_exact)
qed

text \<open>The page at 0xC0200000 is in use and holds the memory at 0x200000; allocating 0xC4200000 moves it to 0x1A01000.\<close>

theorem kern_alloc_moves_alias_witness:
  "translate demo_kernel 0xC0200000 = Some 0x200000 \<and> page_index (kpool 0xC0300000) 0xC0200000 \<notin> kfree demo_kernel \<and>
   (\<exists>k'. vmm_kern_alloc_one_page 0xC4200000 demo_kernel = Inr (0xC4200000, k') \<and> translate k' 0xC0200000 = Some 0x1A01000)"
proof -
  obtain st' where pm: "pmm_alloc_one_page demo_pmm = Inr (\<lparr>a_addr = 0x1A01000, a_size = 0, a_state = 1\<rparr>, st')"
    using demo_one_page by blast
  have t: "in_pool (kern_vmm_pool demo_kernel) 0xC4200000" "page_index (kern_vmm_pool demo_kernel) 0xC4200000 \<in> kfree demo_kernel"
    "(0xC4000000 :: uint32) \<le> 0xC4200000" "\<forall>v\<in>bitmap_bytes (kern_vmm_pool demo_kernel). page_base v \<noteq> page_base (prim 0xC4200000)"
    using demo_bytes_page [of "0xC0200000"] by (simp_all add: demo_free in_pool_def page_index_def page_base_def prim_exact)
  have "page_index (kpool 0xC0300000) 0xC0200000 \<notin> kfree demo_kernel"
    by (simp add: demo_free page_index_def page_base_def)
  then show ?thesis
    using kern_alloc_moves_alias [OF demo_kspace t, of "\<lparr>a_addr = 0x1A01000, a_size = 0, a_state = 1\<rparr>" st'] pm
      demo_translate [of "0xC0200000"] by (auto simp: prim_exact page_base_def)
qed


definition empty_pmm :: pmm where
  "empty_pmm = demo_pmm\<lparr>MULTI_LINK := (\<lambda>_. None), SINGLE_LINK := None\<rparr>"

lemma empty_fails: "pmm_alloc_one_page empty_pmm = Inr (\<lparr>a_addr = 0, a_size = 11, a_state = 0\<rparr>, empty_pmm)"
proof -
  have rel: "pmm_rel empty_pmm (\<lambda>_. []) []" by (simp add: pmm_rel_def empty_pmm_def listed_def demo_pmm_def)
  then have "pmm_alloc_pages 1 empty_pmm = Inr (\<lparr>a_addr = 0, a_size = 11, a_state = 0\<rparr>, empty_pmm)"
    using pmm_alloc_pages_none_rel [OF rel _ _ fits_order [OF fits_small(1)]] by (simp add: all_empty_def)
  then show ?thesis by (simp add: pmm_alloc_one_page_def empty_pmm_def)
qed

theorem vmm_kern_alloc_no_memory_witness:
  "\<exists>k'. vmm_kern_alloc (demo_kernel\<lparr>pm := empty_pmm\<rparr>) = Inr (0xFFFFFFFF, k') \<and> kfree k' = {1024..<255 * 1024}"
proof -
  let ?k = "demo_kernel\<lparr>pm := empty_pmm\<rparr>"
  have "kspace demo_bytes ?k" using demo_kspace by (subst kspace_cong [of _ demo_kernel]) simp_all
  moreover have "kfree ?k = {1024..<255 * 1024}" using same_mmu(5) [of ?k demo_kernel] demo_free by simp
  ultimately show ?thesis using vmm_kern_alloc_no_memory [of demo_bytes ?k] empty_fails by auto
qed

theorem vmm_kern_release_unmaps_witness:
  "\<exists>k'. vmm_kern_release_one_page 0xC0000000 demo_kernel = Inr k' \<and> pm k' = demo_pmm \<and>
    translate k' 0xC0000000 = None"
proof -
  have "\<forall>v\<in>bitmap_bytes (kpool 0xC0300000). page_base v \<noteq> page_base 0xC0000000"
    by (rule demo_bytes_page) (simp add: page_base_def)
  then show ?thesis
    using vmm_kern_release_unmaps [OF demo_kspace, of "0xC0000000"]
    by (auto simp: in_pool_def page_index_def page_base_def prim_exact)
qed

theorem vmm_v2p_reads_entry_witness:
  "vmm_v2p 0xC0012345 demo_kernel = Inr 0x12345 \<and> check_vaddr_present 0xC0800000 demo_kernel = Inr True \<and>
   translate demo_kernel 0xC0800000 = None"
proof -
  have m: "mapped_dir demo_kernel 0xC0012345" "mapped_dir demo_kernel 0xC0800000" by (simp_all add: demo_dir)
  have "translate demo_kernel 0xC0012345 = Some 0x12345" using demo_translate [of "0xC0012345"] by simp
  moreover have "pte_of demo_kernel 0xC0800000 = 0"
  proof -
    have "pte_paddr (pde_of demo_kernel 0xC0800000) 0xC0800000 = 0x103000"
      by (simp add: demo_pde Let_def pte_paddr_def page_base_def)
    then show ?thesis unfolding pte_of_def demo_fields
      by (simp only:) (subst ld32p_demo, simp_all add: aligned4_def demo_word_def page_base_def)
  qed
  then have "translate demo_kernel 0xC0800000 = None" by (simp add: translate_eq)
  ultimately show ?thesis
    using vmm_v2p_reads_entry [OF kspaceD(5) [OF demo_kspace] m(1)] vmm_v2p_reads_entry [OF kspaceD(5) [OF demo_kspace] m(2)]
    by blast
qed

end
