(* ===== verification/ThreadsProps.thy ===== *)
theory ThreadsProps
  imports ThreadsLife VmmInstance
begin

text \<open>The properties of the thread module.\<close>

section \<open>Scheduling\<close>

text \<open>
  C22. One call of \<^verbatim>\<open>schedule\<close>: it returns, the first ready thread of the ring after the current
  one runs next with a full time slice (the current one when no other is ready), the ring
  still holds the same threads, and exactly the current thread is running.
\<close>

theorem schedule_round_robin:
  assumes "threads_ok k xs"
  shows "\<exists>sw k' ys. schedule k = Inr (sw, k') \<and> cur_tcb k' = next_thread k xs \<and> threads_ok k' ys \<and>
    set (cur_tcb k' # ys) = set (cur_tcb k # xs) \<and> length ys = length xs \<and>
    time_left (tcb k' (cur_tcb k')) = TIME_CONT"
proof (cases "List.find (\<lambda>p. status k p = TASK_READY) xs")
  case None
  let ?k = "upd_tcb (cur_tcb k) (\<lambda>t. t\<lparr>time_left := TIME_CONT\<rparr>) k"
  have "nextt ?k = nextt k" by (rule ext) simp
  then have "threads_ok ?k xs" using assms by (auto simp: threads_ok_def check_kern_stack_overflow_def)
  then show ?thesis using schedule_alone [OF assms None] None by (auto simp: next_thread_def)
next
  case (Some p)
  then obtain ys zs where xs: "xs = ys @ p # zs" by (rule find_split)
  obtain k' where k': "schedule k = Inr (True, k')" "cur_tcb k' = p" "threads_ok k' (zs @ cur_tcb k # ys)"
    "time_left (tcb k' p) = TIME_CONT"
    using schedule_switch [OF assms Some xs] by blast
  have "set (p # zs @ cur_tcb k # ys) = set (cur_tcb k # xs)" "length (zs @ cur_tcb k # ys) = length xs"
    using xs by auto
  then show ?thesis using k' Some unfolding next_thread_def by (metis option.simps(5))
qed

text \<open>The kernel after \<open>n\<close> clock interrupts.\<close>

fun ticks :: "nat \<Rightarrow> kernel \<Rightarrow> fault + kernel" where
  "ticks 0 k = Inr k"
| "ticks (Suc n) k = bindE (timer_server_func k) (\<lambda>(_, k'). ticks n k')"

lemma ticks_add: "ticks (m + n) k = bindE (ticks m k) (ticks n)"
proof (induction m arbitrary: k)
  case (Suc m)
  show ?case by (cases "timer_server_func k") (auto simp: Suc)
qed simp

text \<open>A time slice is used up one tick at a time, and the next tick calls the scheduler.\<close>

lemma ticks_slice:
  assumes "threads_ok k xs" "unat (time_left (tcb k (cur_tcb k))) = n"
  shows "\<exists>k'. ticks n k = Inr k' \<and> cur_tcb k' = cur_tcb k \<and> threads_ok k' xs \<and> (\<forall>q. status k' q = status k q) \<and>
    time_left (tcb k' (cur_tcb k)) = 0 \<and> time_counter (tcb k' (cur_tcb k)) = time_counter (tcb k (cur_tcb k)) + of_nat n"
  using assms
proof (induction n arbitrary: k)
  case 0
  then show ?case by (simp add: unat_eq_0)
next
  case (Suc n)
  let ?c = "cur_tcb k"
  define k1 where "k1 = upd_tcb ?c (\<lambda>t. t\<lparr>time_left := time_left t - 1, time_counter := time_counter t + 1\<rparr>) k"
  have tl: "time_left (tcb k ?c) \<noteq> 0" "unat (time_left (tcb k ?c) - 1) = n" using unat_pred [OF Suc.prems(2)] by auto
  have step: "timer_server_func k = Inr (False, k1)" using tl by (simp add: timer_server_func_def k1_def)
  have "nextt k1 = nextt k" by (rule ext) (simp add: k1_def)
  moreover have "cur_tcb k1 = ?c" "status k1 q = status k q" "is_kern_thread (tcb k1 q) = is_kern_thread (tcb k q)"
    "check_kern_stack_overflow q k1 = check_kern_stack_overflow q k" for q
    by (simp_all add: k1_def check_kern_stack_overflow_def)
  ultimately have "threads_ok k1 xs" "cur_tcb k1 = ?c" "\<And>q. status k1 q = status k q"
    using Suc.prems(1) by (simp_all add: threads_ok_def)
  moreover have "time_left (tcb k1 ?c) = time_left (tcb k ?c) - 1" "time_counter (tcb k1 ?c) = time_counter (tcb k ?c) + 1"
    by (simp_all add: k1_def)
  ultimately show ?case using Suc.IH [of k1] tl(2) step by (auto simp: add.assoc)
qed

lemma tick_schedules: "time_left (tcb k (cur_tcb k)) = 0 \<Longrightarrow> ticks 1 k = bindE (schedule k) (\<lambda>(_, k'). Inr k')"
  by (cases "schedule k") (auto simp: timer_server_func_def)

text \<open>One time slice later, the first ready thread of the ring runs.\<close>

lemma slice_switch:
  assumes ok: "threads_ok k xs" and f: "List.find (\<lambda>p. status k p = TASK_READY) xs = Some p" and xs: "xs = ys @ p # zs"
  shows "\<exists>k'. ticks (unat (time_left (tcb k (cur_tcb k))) + 1) k = Inr k' \<and> cur_tcb k' = p \<and>
    threads_ok k' (zs @ cur_tcb k # ys) \<and> time_left (tcb k' p) = TIME_CONT \<and>
    (\<forall>q. q \<noteq> p \<longrightarrow> q \<noteq> cur_tcb k \<longrightarrow> status k' q = status k q)"
proof -
  obtain k1 where k1: "ticks (unat (time_left (tcb k (cur_tcb k)))) k = Inr k1" "cur_tcb k1 = cur_tcb k" "threads_ok k1 xs"
    "\<And>q. status k1 q = status k q" "time_left (tcb k1 (cur_tcb k)) = 0"
    using ticks_slice [OF ok refl] by blast
  have "List.find (\<lambda>p. status k1 p = TASK_READY) xs = Some p" using f k1(4) by simp
  then obtain k' where "schedule k1 = Inr (True, k')" "cur_tcb k' = p" "threads_ok k' (zs @ cur_tcb k # ys)"
    "time_left (tcb k' p) = TIME_CONT" "\<forall>q. q \<noteq> p \<longrightarrow> q \<noteq> cur_tcb k \<longrightarrow> status k' q = status k q"
    using schedule_switch [OF k1(3) _ xs] k1(2,4) by auto
  moreover from this have "ticks 1 k1 = Inr k'" using k1(2,5) tick_schedules [of k1] by simp
  then have "ticks (unat (time_left (tcb k (cur_tcb k))) + 1) k = Inr k'"
    unfolding ticks_add using k1(1) by (simp del: ticks.simps)
  ultimately show ?thesis by blast
qed

lemma prefix_before:
  assumes "ys @ p # zs = us @ q # vs" "p \<notin> set us" "q \<noteq> p"
  obtains ws where "ys = us @ q # ws" "vs = ws @ p # zs"
proof -
  consider ws where "ys = us @ ws" "ws @ p # zs = q # vs" | ws where "us = ys @ ws" "p # zs = ws @ q # vs"
    using assms(1) by (auto simp: append_eq_append_conv2)
  then show ?thesis
  proof cases
    case (1 ws)
    then show ?thesis using assms(3) that by (cases ws) auto
  next
    case (2 ws)
    then show ?thesis using assms(2,3) by (cases ws) auto
  qed
qed

lemma ticks_reach:
  assumes "threads_ok k (ys @ p # zs)" "status k p = TASK_READY"
  shows "\<exists>m k'. m \<le> unat (time_left (tcb k (cur_tcb k))) + 1 + 11 * length ys \<and> ticks m k = Inr k' \<and> cur_tcb k' = p"
  using assms
proof (induction "length ys" arbitrary: k ys zs rule: less_induct)
  case less
  let ?f = "\<lambda>q. status k q = TASK_READY" and ?n = "unat (time_left (tcb k (cur_tcb k))) + 1"
  have "List.find ?f (ys @ p # zs) \<noteq> None" using less.prems(2) by (auto simp: find_None_iff)
  then obtain q where q: "List.find ?f (ys @ p # zs) = Some q" by blast
  then obtain us vs where us: "ys @ p # zs = us @ q # vs" "?f q" "\<forall>u\<in>set us. \<not> ?f u" by (rule find_split)
  obtain k1 where k1: "ticks ?n k = Inr k1" "cur_tcb k1 = q" "threads_ok k1 (vs @ cur_tcb k # us)"
    "time_left (tcb k1 q) = TIME_CONT" "\<forall>r. r \<noteq> q \<longrightarrow> r \<noteq> cur_tcb k \<longrightarrow> status k1 r = status k r"
    using slice_switch [OF less.prems(1) q us(1)] by blast
  show ?case
  proof (cases "q = p")
    case True
    then show ?thesis using k1(1,2) by (intro exI [of _ ?n]) simp
  next
    case False
    have "p \<notin> set us" using us(3) less.prems(2) by blast
    then obtain ws where ws: "ys = us @ q # ws" "vs = ws @ p # zs" using prefix_before [OF us(1)] False by blast
    have "p \<noteq> cur_tcb k" using less.prems(1) by (auto simp: threads_ok_def ring_def)
    then have ready: "status k1 p = TASK_READY" using k1(5) False less.prems(2) by simp
    have ok1: "threads_ok k1 (ws @ p # (zs @ cur_tcb k # us))" using k1(3) ws(2) by simp
    have "unat (time_left (tcb k1 (cur_tcb k1))) = 10" using k1(2,4) by simp
    then obtain m k' where m: "m \<le> 11 + 11 * length ws" "ticks m k1 = Inr k'" "cur_tcb k' = p"
      using less.hyps [OF _ ok1 ready] ws by auto
    have "ticks (?n + m) k = Inr k'"
      unfolding ticks_add [of ?n m] using k1(1) m(2) by (simp only: bindE_Inr)
    moreover have "?n + m \<le> ?n + 11 * length ys" using m(1) ws(1) by simp
    ultimately show ?thesis using m(3) by blast
  qed
qed

text \<open>
  C23. Bounded waiting: while no thread changes its state by itself, a ready thread with \<open>i\<close>
  threads of the ring before it runs after the rest of the current time slice and at most \<open>i\<close>
  more time slices of 11 clock interrupts.
\<close>

theorem clock_bounded_waiting:
  assumes "threads_ok k xs" "i < length xs" "status k (xs ! i) = TASK_READY"
  shows "\<exists>m k'. m \<le> unat (time_left (tcb k (cur_tcb k))) + 1 + 11 * i \<and> ticks m k = Inr k' \<and> cur_tcb k' = xs ! i"
proof -
  have "xs = take i xs @ xs ! i # drop (Suc i) xs" using assms(2) id_take_nth_drop by blast
  then show ?thesis
    using ticks_reach [of k "take i xs" "xs ! i" "drop (Suc i) xs"] assms by simp
qed

section \<open>Blocking and waking\<close>

text \<open>
  C26. A thread that blocks while another one is ready stops running: it is blocked, the ready
  thread that is next in the ring runs, and waking it later makes it ready again.
\<close>

theorem thread_block_switches:
  assumes "threads_ok k (ys @ p # zs)" "status k p = TASK_READY" "\<forall>q\<in>set ys. status k q \<noteq> TASK_READY"
  shows "\<exists>k'. thread_block k = Inr (True, int_flag k, k') \<and> cur_tcb k' = p \<and> status k' p = TASK_RUNNING \<and>
    status k' (cur_tcb k) = TASK_BLOCKED \<and> status (thread_wakeup (cur_tcb k) k') (cur_tcb k) = TASK_READY"
proof -
  obtain k' where "thread_block k = Inr (True, int_flag k, k')" "cur_tcb k' = p" "threads_ok k' (zs @ cur_tcb k # ys)"
    "\<And>q. status k' q = (if q = p then TASK_RUNNING else if q = cur_tcb k then TASK_BLOCKED else status k q)"
    using thread_block_to [OF assms] by blast
  moreover have "p \<noteq> cur_tcb k" using assms(1) by (auto simp: threads_ok_def ring_def)
  ultimately show ?thesis by (auto simp: thread_wakeup_def cli_condition_eq sti_condition_eq)
qed

text \<open>
  When no other thread is ready, blocking does not block: the thread keeps running with a
  fresh time slice, and its interrupt flag is restored.
\<close>

theorem thread_block_alone:
  assumes "threads_ok k xs" "\<forall>q\<in>set xs. status k q \<noteq> TASK_READY"
  shows "\<exists>k'. thread_block k = Inr (False, int_flag k, k') \<and> cur_tcb k' = cur_tcb k \<and>
    status k' (cur_tcb k) = TASK_RUNNING \<and> threads_ok k' xs \<and> int_flag k' = int_flag k"
  using thread_block_stays [OF assms] assms(1) by (auto simp: threads_ok_def)

section \<open>Creation and termination\<close>

lemma create_thread_keeps:
  assumes "threads_ok k xs" "addr \<notin> set (cur_tcb k # xs)" "addr \<noteq> 0" "stack_page I k (addr + n * PAGE_SIZE) p"
  shows "\<exists>k'. create_thread t func args addr n True pool pdt exit_addr k = Inr k' \<and> threads_ok k' (addr # xs) \<and>
    cur_tcb k' = cur_tcb k \<and> int_flag k' \<and> status k' addr = TASK_READY \<and> tid (tcb k' addr) = t \<and> time_left (tcb k' addr) = TIME_CONT \<and>
    c_eflags (t_context (tcb k' addr)) = 0x202 \<and> c_esp (t_context (tcb k' addr)) = addr + n * PAGE_SIZE - 12 \<and>
    load32 (addr + n * PAGE_SIZE - 12) k' = Inr func \<and> load32 (addr + n * PAGE_SIZE - 8) k' = Inr exit_addr \<and>
    load32 (addr + n * PAGE_SIZE - 4) k' = Inr args \<and>
    rest_of I (k'\<lparr>tcb := tcb k, int_flag := int_flag k\<rparr>) = rest_of I k"
proof -
  let ?sp = "addr + n * PAGE_SIZE" and ?c = "cur_tcb k"
  have ring: "ring (nextt k) ?c xs" using assms(1) by (simp add: threads_ok_def)
  obtain k' where k': "create_thread t func args addr n True pool pdt exit_addr k = Inr k'"
    "ring (nextt k') (cur_tcb k') (addr # xs)" "cur_tcb k' = ?c" "int_flag k'"
    "\<forall>q. q \<noteq> addr \<longrightarrow> q \<noteq> ?c \<longrightarrow> tcb k' q = tcb k q" "tcb k' ?c = (tcb k ?c)\<lparr>t_next := addr\<rparr>"
    "status k' addr = TASK_READY" "tid (tcb k' addr) = t" "time_left (tcb k' addr) = TIME_CONT"
    "is_kern_thread (tcb k' addr)" "check_kern_stack_overflow addr k'"
    "c_eflags (t_context (tcb k' addr)) = 0x202" "c_esp (t_context (tcb k' addr)) = ?sp - 12"
    "load32 (?sp - 12) k' = Inr func" "load32 (?sp - 8) k' = Inr exit_addr" "load32 (?sp - 4) k' = Inr args"
    "rest_of I (k'\<lparr>tcb := tcb k, int_flag := int_flag k\<rparr>) = rest_of I k"
    using create_thread_run [OF ring assms(2) refl assms(4)] by blast
  have ne: "\<forall>q\<in>set xs. q \<noteq> addr \<and> q \<noteq> ?c" using ring assms(2) by (auto simp: ring_def)
  then have old: "\<forall>q\<in>set xs. tcb k' q = tcb k q" using k'(5) by blast
  have "threads_ok k' (addr # xs)"
    unfolding threads_ok_def
    using assms(1,3) k'(2,3,6,7,10,11) old by (auto simp: threads_ok_def check_kern_stack_overflow_def)
  then show ?thesis using k' by blast
qed

text \<open>
  C24. Creating a kernel thread: it is linked behind the current one and ready, its stack holds
  the entry point above the return address \<^verbatim>\<open>exit\<close> and the argument, the interrupts are open
  again, and the next call of the scheduler starts it with that stack and interrupts open.
\<close>

theorem create_thread_starts:
  assumes "threads_ok k xs" "addr \<notin> set (cur_tcb k # xs)" "addr \<noteq> 0" "stack_page I k (addr + n * PAGE_SIZE) p"
  shows "\<exists>k' k''. create_thread t func args addr n True pool pdt exit_addr k = Inr k' \<and> threads_ok k' (addr # xs) \<and>
    int_flag k' \<and> tid (tcb k' addr) = t \<and> time_left (tcb k' addr) = TIME_CONT \<and>
    load32 (addr + n * PAGE_SIZE - 12) k' = Inr func \<and> load32 (addr + n * PAGE_SIZE - 8) k' = Inr exit_addr \<and>
    load32 (addr + n * PAGE_SIZE - 4) k' = Inr args \<and>
    schedule k' = Inr (True, k'') \<and> cur_tcb k'' = addr \<and> c_esp (regs k'') = addr + n * PAGE_SIZE - 12 \<and> int_flag k''"
proof -
  let ?sp = "addr + n * PAGE_SIZE"
  obtain k' where k': "create_thread t func args addr n True pool pdt exit_addr k = Inr k'" "threads_ok k' (addr # xs)" "int_flag k'"
    "status k' addr = TASK_READY" "tid (tcb k' addr) = t" "time_left (tcb k' addr) = TIME_CONT"
    "c_eflags (t_context (tcb k' addr)) = 0x202" "c_esp (t_context (tcb k' addr)) = ?sp - 12"
    "load32 (?sp - 12) k' = Inr func" "load32 (?sp - 8) k' = Inr exit_addr" "load32 (?sp - 4) k' = Inr args"
    using create_thread_keeps [OF assms] by blast
  obtain k'' where "schedule k' = Inr (True, k'')" "cur_tcb k'' = addr" "regs k'' = t_context (tcb k' addr)"
    "int_flag k'' = bit (c_eflags (t_context (tcb k' addr))) 9"
    using schedule_switch [OF k'(2), of addr "[]" xs] k'(4) by auto
  then show ?thesis using k' by auto
qed

text \<open>
  C25. A thread that ends leaves the ring, and the thread behind it continues with a full time
  slice; but nothing looks at the state of that thread, which is resumed even when it is
  blocked and is never marked as running.
\<close>

theorem exit_resumes_next:
  assumes "threads_ok k (x # xs)" "tid (tcb k (cur_tcb k)) \<noteq> 0"
  shows "\<exists>k'. exit k = Inr k' \<and> cur_tcb k' = x \<and> ring (nextt k') x xs \<and> regs k' = t_context (tcb k x) \<and>
    time_left (tcb k' x) = TIME_CONT \<and> (\<forall>q. status k' q = status k q) \<and> status k' x \<noteq> TASK_RUNNING"
proof -
  let ?c = "cur_tcb k" and ?l = "last (x # xs)"
  have ring: "ring (nextt k) ?c (x # xs)" using assms(1) by (simp add: threads_ok_def)
  have nx: "nextt k ?c = x" and xc: "x \<noteq> ?c" using ring by (auto simp: ring_def)
  have lc: "?l \<noteq> ?c" using ring last_in_set [of "x # xs"] by (auto simp: ring_def simp del: last.simps)
  define k1 where "k1 = upd_tcb ?l (\<lambda>t. t\<lparr>t_next := x\<rparr>) (cli k)"
  define k3 where "k3 = (upd_tcb x (\<lambda>t. t\<lparr>time_left := TIME_CONT\<rparr>) k1)\<lparr>cur_tcb := x\<rparr>"
  have "find_pred (nextt k) ?c ?c = Some ?l"
    using find_pred_path [of "nextt k" ?c "x # xs" ?c] ring by (auto simp: ring_def)
  then have "remove_thread k = Inr k1"
    using assms(2) nx by (simp add: remove_thread_def Let_def k1_def)
  moreover have f1: "cur_tcb k1 = ?c" "nextt k1 ?c = x" using lc nx by (simp_all add: k1_def)
  moreover have "nextt (upd_tcb x (\<lambda>t. t\<lparr>time_left := TIME_CONT\<rparr>) k1) ?c = x" using f1 xc by simp
  ultimately have run: "exit k = Inr (switch_to ?c x k3)" using xc by (auto simp: exit_def Let_def k3_def)
  have "nextt k3 = (nextt k)(?l := nextt k ?c)" unfolding nx by (rule ext) (simp add: k3_def k1_def)
  then have r: "ring (nextt k3) x xs" using ring_remove [OF ring] by simp
  have "t_context (tcb k3 x) = t_context (tcb k x)" by (simp add: k3_def k1_def)
  then have "regs (switch_to ?c x k3) = t_context (tcb k x)" using switch_to_loads(1) [OF xc] by simp
  moreover have "status k3 q = status k q" for q by (simp add: k3_def k1_def)
  moreover have "status k x \<noteq> TASK_RUNNING" using assms(1) by (simp add: threads_ok_def)
  moreover have "cur_tcb k3 = x" "time_left (tcb k3 x) = TIME_CONT" by (simp_all add: k3_def)
  ultimately show ?thesis using run r by (intro exI [of _ "switch_to ?c x k3"]) simp
qed

end
