(* ===== verification/ThreadsInstance.thy ===== *)
theory ThreadsInstance
  imports ThreadsProps
begin

text \<open>
  A concrete ring of three threads in the address space of \<open>demo_kernel\<close>: the current one at
  \<open>0xC0310000\<close>, a ready one at \<open>0xC0320000\<close> and a blocked one at \<open>0xC0330000\<close>. The properties
  of the thread module are applied to it.
\<close>

definition demo_tcb :: "uint32 \<Rightarrow> uint32 \<Rightarrow> task_status_t \<Rightarrow> TCB_t" where
  "demo_tcb t nxt st = \<lparr>kern_stack_top = 0, task_status = st, time_counter = 0, time_left = TIME_CONT, t_next = nxt,
     tid = t, page_counte = 1, page_addr_f = 0, is_kern_thread = True, user_vmm_pool = kpool 0, pdt_vaddr = 0,
     t_context = \<lparr>c_ebp = 0, c_ebx = 0, c_ecx = 0, c_edx = 0, c_esi = 0, c_edi = 0, c_eflags = 0x202, c_esp = t\<rparr>,
     tcb_magic_number = TCB_MAGIC_NUMBER\<rparr>"

definition demo_threads :: kernel where
  "demo_threads = demo_kernel\<lparr>cur_tcb := 0xC0310000, tcb := (\<lambda>_. demo_tcb 0 0 TASK_DIED)
     (0xC0310000 := demo_tcb 7 0xC0320000 TASK_RUNNING,
      0xC0320000 := demo_tcb 8 0xC0330000 TASK_READY,
      0xC0330000 := demo_tcb 9 0xC0310000 TASK_BLOCKED)\<rparr>"

lemma demo_threads_fields [simp]:
  "cur_tcb demo_threads = 0xC0310000" "pmem demo_threads = demo_mem" "cr3 demo_threads = 0x100000"
  "tcb demo_threads 0xC0310000 = demo_tcb 7 0xC0320000 TASK_RUNNING"
  "tcb demo_threads 0xC0320000 = demo_tcb 8 0xC0330000 TASK_READY"
  "tcb demo_threads 0xC0330000 = demo_tcb 9 0xC0310000 TASK_BLOCKED"
  "int_flag demo_threads = False"
  by (simp_all add: demo_threads_def demo_kernel_def)

lemma demo_tcb_fields [simp]:
  "task_status (demo_tcb t n st) = st" "t_next (demo_tcb t n st) = n" "tid (demo_tcb t n st) = t"
  "time_left (demo_tcb t n st) = TIME_CONT" "is_kern_thread (demo_tcb t n st)"
  "tcb_magic_number (demo_tcb t n st) = TCB_MAGIC_NUMBER" "c_esp (t_context (demo_tcb t n st)) = t"
  by (simp_all add: demo_tcb_def)

lemma demo_threads_ok: "threads_ok demo_threads [0xC0320000, 0xC0330000]"
  by (simp add: threads_ok_def ring_def check_kern_stack_overflow_def)

theorem schedule_round_robin_witness:
  "\<exists>k' ys. schedule demo_threads = Inr (True, k') \<and> cur_tcb k' = 0xC0320000 \<and> threads_ok k' ys"
proof -
  obtain sw k' ys where "schedule demo_threads = Inr (sw, k')" "cur_tcb k' = 0xC0320000" "threads_ok k' ys"
    using schedule_round_robin [OF demo_threads_ok] by (auto simp: next_thread_def)
  moreover from this have sw
    using schedule_switch [OF demo_threads_ok, of "0xC0320000" "[]" "[0xC0330000]"] by auto
  ultimately show ?thesis by auto
qed

theorem clock_bounded_waiting_witness:
  "\<exists>m k'. m \<le> 11 \<and> ticks m demo_threads = Inr k' \<and> cur_tcb k' = 0xC0320000"
  using clock_bounded_waiting [OF demo_threads_ok, of 0] by simp

theorem thread_block_switches_witness:
  "\<exists>k'. thread_block demo_threads = Inr (True, False, k') \<and> cur_tcb k' = 0xC0320000 \<and>
    status k' 0xC0310000 = TASK_BLOCKED"
  using thread_block_switches [of demo_threads "[]" "0xC0320000" "[0xC0330000]"] demo_threads_ok by auto

text \<open>The same ring with both other threads blocked.\<close>

definition demo_lonely :: kernel where
  "demo_lonely = demo_threads\<lparr>tcb := (tcb demo_threads)(0xC0320000 := demo_tcb 8 0xC0330000 TASK_BLOCKED)\<rparr>"

lemma demo_lonely_ok: "threads_ok demo_lonely [0xC0320000, 0xC0330000]"
  by (simp add: threads_ok_def ring_def check_kern_stack_overflow_def demo_lonely_def)

theorem thread_block_alone_witness:
  "\<exists>k'. thread_block demo_lonely = Inr (False, False, k') \<and> cur_tcb k' = 0xC0310000 \<and>
    status k' 0xC0310000 = TASK_RUNNING"
  using thread_block_alone [OF demo_lonely_ok] by (auto simp: demo_lonely_def)

text \<open>The physical words of the stack of a thread at \<open>0xC0340000\<close>.\<close>

definition demo_words :: "uint32 set" where
  "demo_words = {p. 0x300000 \<le> p \<and> p < 0x3FF000}"

lemma demo_words_off: "off_tables demo_words demo_kernel"
  unfolding off_tables_def
proof (intro ballI conjI allI impI)
  fix p assume "p \<in> demo_words"
  then have p: "0x300000 \<le> unat p" by (simp add: demo_words_def word_le_nat_alt)
  then have "0x300000 div 4096 \<le> unat p div 4096" by (rule div_le_mono)
  then have b: "0x300000 \<le> unat (page_base p)" by (simp add: unat_page_base)
  then show "page_base p \<noteq> page_base (cr3 demo_kernel)" using demo_d by auto
  fix v assume "mapped_dir demo_kernel v"
  then have "unat (page_base (pde_of demo_kernel v)) < 0x300000"
    using demo_table [of v] dir_less [of v] by (auto simp: demo_dir)
  then show "page_base p \<noteq> page_base (pde_of demo_kernel v)" using b by auto
qed

lemma demo_stack_page:
  "stack_page demo_words demo_threads (0xC0340000 + 1 * PAGE_SIZE) (\<lambda>i. 0x341000 - 4 * of_nat i)"
proof -
  note mmu = same_mmu [of demo_threads demo_kernel]
  have off: "off_tables demo_words demo_threads"
    using demo_words_off mmu by (simp add: off_tables_def)
  have tr: "translate demo_threads v = Some (v - 0xC0000000)" if "0xC0000000 \<le> v" "v < 0xC0400000" for v
    using demo_translate [OF that] mmu by simp
  have w: "\<forall>j<4. a + of_nat j \<in> demo_words" if "a = 0x340FFC \<or> a = 0x340FF8 \<or> a = 0x340FF4" for a :: uint32
  proof (intro allI impI)
    fix j :: nat assume "j < 4"
    then consider "j = 0" | "j = 1" | "j = 2" | "j = 3" by linarith
    then show "a + of_nat j \<in> demo_words" using that by cases (auto simp: demo_words_def)
  qed
  show ?thesis
    using off tr [of "0xC0340FFC"] tr [of "0xC0340FF8"] tr [of "0xC0340FF4"] w
    by (simp add: stack_page_def aligned4_def)
qed

theorem create_thread_starts_witness:
  "\<exists>k' k''. create_thread 5 0xC0100100 0 0xC0340000 1 True (kpool 0) 0 0xC0100200 demo_threads = Inr k' \<and>
    threads_ok k' [0xC0340000, 0xC0320000, 0xC0330000] \<and> load32 0xC0340FF4 k' = Inr 0xC0100100 \<and>
    schedule k' = Inr (True, k'') \<and> cur_tcb k'' = 0xC0340000 \<and> c_esp (regs k'') = 0xC0340FF4"
  using create_thread_starts [OF demo_threads_ok _ _ demo_stack_page, of 5 "0xC0100100" 0 "kpool 0" 0 "0xC0100200"]
  by auto

theorem exit_resumes_next_witness:
  "\<exists>k'. exit (demo_lonely) = Inr k' \<and> cur_tcb k' = 0xC0320000 \<and> status k' 0xC0320000 = TASK_BLOCKED"
proof -
  have "tid (tcb demo_lonely (cur_tcb demo_lonely)) \<noteq> 0" "status demo_lonely 0xC0320000 = TASK_BLOCKED"
    by (simp_all add: demo_lonely_def)
  then show ?thesis using exit_resumes_next [OF demo_lonely_ok] by auto
qed

end
