(* ===== verification/SyncProps.thy ===== *)
theory SyncProps
  imports LockSystem ThreadsInstance
begin

text \<open>The properties of semaphores and locks.\<close>

section \<open>The wait queue and the semaphore\<close>

text \<open>
  C32. The wait queue is first in, first out: nodes added one after the other to an empty queue
  are taken out in the same order, and the queue is empty again.
\<close>

theorem wait_queue_fifo:
  assumes "q_head q = None" "distinct ns"
  shows "\<exists>s s'. foldE (\<lambda>n (q, h). sync_tool_add q n h) ns (q, h) = Inr s \<and>
    alloc_many (\<lambda>(q, h). sync_tool_get q h) (length ns) s = (ns, s') \<and> sync_tool_is_empty (fst s')"
  using wq.first_in_first_out [of "(q, h)" ns] assms by (force simp: waiting_def sync_tool_is_empty_def)

theorem wait_queue_fifo_witness:
  "\<exists>s s'. foldE (\<lambda>n (q, h). sync_tool_add q n h) [7, 3, 9] (\<lparr>q_head = None\<rparr>, \<lambda>_. \<lparr>n_thread = 0, n_next = None\<rparr>) = Inr s \<and>
    alloc_many (\<lambda>(q, h). sync_tool_get q h) (length [7 :: uint32, 3, 9]) s = ([7, 3, 9], s')"
proof -
  have "distinct [7 :: uint32, 3, 9]" by simp
  from wait_queue_fifo [OF _ this, of "\<lparr>q_head = None\<rparr>"] show ?thesis
    unfolding sync_tool_sem_queue_t.simps by blast
qed

text \<open>
  C31. \<^verbatim>\<open>sem_V\<close> wakes the thread that waits longest: it becomes ready, the others keep their place
  and their state, and the value grows by one, modulo \<open>2 ^ 32\<close>.
\<close>

theorem sem_V_wakes_oldest:
  assumes "waiting (wait_queue sem) h (n # ns)"
  shows "\<exists>sem' h' k'. sem_V sem h k = (sem', h', k') \<and> waiting (wait_queue sem') h' ns \<and>
    unat (s_val sem') = (unat (s_val sem) + 1) mod 2 ^ 32 \<and> int_flag k' = int_flag k \<and>
    (\<forall>q. status k' q = (if q = n_thread (h n) then TASK_READY else status k q))"
proof -
  obtain q' h' where v: "sem_V sem h k = (sem\<lparr>wait_queue := q', s_val := s_val sem + 1\<rparr>, h',
      upd_tcb (n_thread (h n)) (\<lambda>t. t\<lparr>task_status := TASK_READY\<rparr>) k)" "waiting q' h' ns"
    using sem_V_wakes [OF assms] by blast
  moreover have "unat (s_val sem + 1) = (unat (s_val sem) + 1) mod 2 ^ 32" by (simp add: unat_word_ariths)
  ultimately show ?thesis by (auto simp: upd_tcb_def)
qed

theorem sem_V_wakes_oldest_witness:
  "\<exists>sem' h' k'. sem_V \<lparr>s_val = 0, wait_queue = \<lparr>q_head = Some 16\<rparr>\<rparr> (\<lambda>_. \<lparr>n_thread = 0xC0330000, n_next = None\<rparr>) demo_threads =
     (sem', h', k') \<and> unat (s_val sem') = 1 \<and> status k' 0xC0330000 = TASK_READY"
  using sem_V_wakes_oldest [of "\<lparr>s_val = 0, wait_queue = \<lparr>q_head = Some 16\<rparr>\<rparr>"
    "\<lambda>_. \<lparr>n_thread = 0xC0330000, n_next = None\<rparr>" 16 "[]" demo_threads]
  by (auto simp: waiting_def)

text \<open>
  C30. A thread that needs a semaphore of value zero while no other thread is ready never comes
  back: the scheduler wakes it again at once, it finds the value still zero, and so on, with
  interrupts closed so that nothing can ever raise the value.
\<close>

theorem sem_P_alone_spins:
  assumes "threads_ok k xs" "\<forall>q\<in>set xs. status k q \<noteq> TASK_READY" "s_val sem = 0"
  shows "sem_P node sem h k = Inl Spin"
  using sem_P_loop_spins [of "cli k" xs sem node h] assms
  by (simp add: sem_P_def cli_condition_eq cli_def)

theorem sem_P_alone_spins_witness:
  "sem_P 16 (sem_init 0 \<lparr>s_val = 5, wait_queue = \<lparr>q_head = None\<rparr>\<rparr>) (\<lambda>_. \<lparr>n_thread = 0, n_next = None\<rparr>) demo_lonely = Inl Spin"
  by (rule sem_P_alone_spins [OF demo_lonely_ok]) (simp_all add: demo_lonely_def sem_init_def)

section \<open>Locks\<close>

text \<open>
  C29. Nested sections. A thread that acquires a lock it already holds goes on at once, but nothing counts the
  acquisition: the first release opens the lock while the thread is still in its outer section, and the
  release at the end of that section does nothing.
\<close>

theorem lock_nested_release:
  assumes "holder lock = cur_tcb k" "cur_tcb k \<noteq> 0" "waiting (wait_queue (l_sem lock)) h []"
  shows "\<exists>lock'. lock_acquire node lock h k = Inr (None, lock, h, k) \<and> lock_release lock h k = (lock', h, k) \<and>
    holder lock' = 0 \<and> s_val (l_sem lock') = s_val (l_sem lock) + 1 \<and> lock_release lock' h k = (lock', h, k)"
proof -
  have e: "k\<lparr>int_flag := int_flag k\<rparr> = k" by simp
  have "lock_acquire node lock h k = Inr (None, lock, h, k)"
    using assms(1) e by (simp add: lock_acquire_def cli_condition_eq sti_condition_eq cli_def get_running_progress_def)
  moreover have "lock_release lock h k = (lock\<lparr>holder := 0, l_sem := (l_sem lock)\<lparr>s_val := s_val (l_sem lock) + 1\<rparr>\<rparr>, h, k)"
    using assms(1) e sem_V_empty [OF assms(3)]
    by (simp add: lock_release_def cli_condition_eq sti_condition_eq cli_def get_running_progress_def)
  moreover have "lock_release (lock\<lparr>holder := 0, l_sem := x\<rparr>) h k = (lock\<lparr>holder := 0, l_sem := x\<rparr>, h, k)" for x
    using assms(2) e by (simp add: lock_release_def cli_condition_eq sti_condition_eq cli_def get_running_progress_def)
  ultimately show ?thesis
    by (intro exI [of _ "lock\<lparr>holder := 0, l_sem := (l_sem lock)\<lparr>s_val := s_val (l_sem lock) + 1\<rparr>\<rparr>"]) simp
qed

theorem lock_nested_release_witness:
  "\<exists>lock'. lock_release \<lparr>holder = 0xC0310000, l_sem = \<lparr>s_val = 0, wait_queue = \<lparr>q_head = None\<rparr>\<rparr>\<rparr> (\<lambda>_. \<lparr>n_thread = 0, n_next = None\<rparr>) demo_threads =
      (lock', \<lambda>_. \<lparr>n_thread = 0, n_next = None\<rparr>, demo_threads) \<and> holder lock' = 0 \<and> s_val (l_sem lock') = 1"
  using lock_nested_release [of "\<lparr>holder = 0xC0310000, l_sem = \<lparr>s_val = 0, wait_queue = \<lparr>q_head = None\<rparr>\<rparr>\<rparr>" demo_threads
      "\<lambda>_. \<lparr>n_thread = 0, n_next = None\<rparr>" 16] by (auto simp: waiting_def)

lemma lock_step_inv:
  assumes "lock_step s s'" "lock_inv s"
  shows "lock_inv s'"
  using assms(1)
proof (cases rule: lock_step.cases)
  case (acquire node res)
  obtain ns xs where wf: "lock_wf (sys_k s) (sys_nodes s) (sys_lock s) (sys_frames s) ns xs" and io: "int_flag (sys_k s)"
    and ins: "sys_inside s = (if holder (sys_lock s) = 0 then {} else {holder (sys_lock s)})"
    using assms(2) acquire(2) by (auto elim: lock_invD)
  have other: "holder (sys_lock s) \<noteq> cur_tcb (sys_k s)" using acquire(3) ins lock_wfD(8) [OF wf] by auto
  then obtain r where r: "joinE (sem_P_loop node (l_sem (sys_lock s)) (sys_nodes s) ((sys_k s)\<lparr>int_flag := False\<rparr>)) = Inr r"
    "res = lock_acquire_end True (sys_lock s) (sem_P_end False r)"
    using acquire(5) io by (auto simp: lock_acquire_def sem_P_def cli_condition_eq get_running_progress_def cli_def bindE_eq_Inr)
  then show ?thesis
    using acquire(2,4) lock_inv_attempt [OF assms(2) refl TrueI other _ _ r(1), of False] unfolding acquire(1) by blast
next
  case (resume node fl res)
  obtain b c cond where fl: "fl = Flags b c cond" by (cases fl)
  obtain ns xs where wf: "lock_wf (sys_k s) (sys_nodes s) (sys_lock s) (sys_frames s) ns xs"
    and op: "waits_open (sys_k s) (sys_frames s) (sys_intr s) xs"
    using assms(2) by (rule lock_invD)
  have fr: "frame_ok (sys_k s) (sys_nodes s) (holder (sys_lock s)) ns xs (cur_tcb (sys_k s)) node"
    using lock_wfD(4) [OF wf resume(2)] .
  then have other: "holder (sys_lock s) \<noteq> cur_tcb (sys_k s)" by (auto simp: frame_ok_def)
  have fresh: "\<forall>u fl'. u \<noteq> cur_tcb (sys_k s) \<longrightarrow> sys_frames s u \<noteq> Some (node, fl')"
    using lock_wfD(4) [OF wf] fr unfolding frame_ok_def by metis
  have cond: cond using op resume(2) unfolding fl waits_open_def by fastforce
  obtain r where r: "joinE (sem_P_loop node (l_sem (sys_lock s)) (sys_nodes s) ((sys_k s)\<lparr>int_flag := b\<rparr>)) = Inr r"
    "res = lock_acquire_end cond (sys_lock s) (sem_P_end c r)"
    using resume(3) fl by (auto simp: lock_acquire_resume_def sem_P_resume_def sti_condition_eq bindE_eq_Inr)
  show ?thesis
    unfolding resume(1) r(2) using resume(2) by (intro lock_inv_attempt [OF assms(2) refl cond other _ fresh r(1)]) auto
next
  case (release l h k)
  obtain ns xs where wf: "lock_wf (sys_k s) (sys_nodes s) (sys_lock s) (sys_frames s) ns xs"
    and op: "waits_open (sys_k s) (sys_frames s) (sys_intr s) xs" and io: "int_flag (sys_k s)"
    and out: "cur_tcb (sys_k s) \<notin> sys_intr s"
    and ins: "sys_inside s = (if holder (sys_lock s) = 0 then {} else {holder (sys_lock s)})"
    using assms(2) release(2) by (auto elim: lock_invD)
  note defs = lock_release_def cli_condition_eq sti_condition_eq get_running_progress_def cli_def
  show ?thesis
  proof (cases "holder (sys_lock s) = cur_tcb (sys_k s)")
    case True
    let ?k = "(sys_k s)\<lparr>int_flag := False\<rparr>"
    have "lock_wf ?k (sys_nodes s) (sys_lock s) (sys_frames s) ns xs" using wf by simp
    then obtain sem' h' k' ns' where g: "sem_V (l_sem (sys_lock s)) (sys_nodes s) ?k = (sem', h', k')" "cur_tcb k' = cur_tcb (sys_k s)"
      "\<forall>q. (status k' q = status (sys_k s) q \<or> sys_frames s q \<noteq> None) \<and> t_context (tcb k' q) = t_context (tcb (sys_k s) q)"
      "lock_wf k' h' ((sys_lock s)\<lparr>holder := 0, l_sem := sem'\<rparr>) (sys_frames s) ns' xs"
      using lock_wf_give [of ?k] True by fastforce
    have k: "l = (sys_lock s)\<lparr>holder := 0, l_sem := sem'\<rparr>" "h = h'" "k = k'\<lparr>int_flag := True\<rparr>"
      using release(3) True g(1) io by (auto simp: defs)
    have "waits_open k' (sys_frames s) (sys_intr s) xs" using op g(3) unfolding waits_open_def by metis
    then show ?thesis using g(2,4) ins True out unfolding release(1) k lock_inv_def lock_pre_def by auto
  next
    case False
    have k: "l = sys_lock s" "h = sys_nodes s" "k = (sys_k s)\<lparr>int_flag := True\<rparr>"
      using release(3) False io by (auto simp: defs)
    show ?thesis using wf op ins False out unfolding release(1) k lock_inv_def lock_pre_def by auto
  qed
next
  case (tick sw k)
  obtain ns xs where wf: "lock_wf (cli (sys_k s)) (sys_nodes s) (sys_lock s) (sys_frames s) ns xs"
    "waits_open (cli (sys_k s)) (sys_frames s) (sys_intr s) xs"
    and ins: "sys_inside s = (if holder (sys_lock s) = 0 then {} else {holder (sys_lock s)})"
    using assms(2) by (auto elim!: lock_invD simp: cli_def)
  have c: "cur_tcb (cli (sys_k s)) = cur_tcb (sys_k s)" by (simp add: cli_def)
  let ?s = "s\<lparr>sys_k := k, sys_intr := insert (cur_tcb (sys_k s)) (sys_intr s)\<rparr>"
  have f: "sys_k ?s = k" "sys_nodes ?s = sys_nodes s" "sys_lock ?s = sys_lock s" "sys_frames ?s = sys_frames s"
    "sys_intr ?s = insert (cur_tcb (sys_k s)) (sys_intr s)" "sys_inside ?s = sys_inside s" by simp_all
  obtain ys where "lock_wf k (sys_nodes s) (sys_lock s) (sys_frames s) ns ys"
    "waits_open k (sys_frames s) (insert (cur_tcb (sys_k s)) (sys_intr s)) ys"
    "sys_frames s (cur_tcb k) = None \<longrightarrow> int_flag k \<or> cur_tcb k \<in> insert (cur_tcb (sys_k s)) (sys_intr s)"
    using lock_wf_tick [OF wf tick(3)] unfolding c by (elim exE conjE) (rule that)
  then have "lock_pre ?s" unfolding lock_pre_def f using ins by blast
  then show ?thesis unfolding tick(1) by (rule handler_return_inv)
qed

lemma lock_reach_inv: "lock_step\<^sup>*\<^sup>* s s' \<Longrightarrow> lock_inv s \<Longrightarrow> lock_inv s'"
  by (induction rule: rtranclp_induct) (auto intro: lock_step_inv)


text \<open>
  C28. No wake-up is lost: in every state that such threads can reach, when the lock is free and some thread is inside
  \<^verbatim>\<open>lock_acquire\<close>, one of the threads inside \<^verbatim>\<open>lock_acquire\<close> is running or ready; and no
  clock interrupt is lost: interrupts are open whenever the running thread is outside \<^verbatim>\<open>lock_acquire\<close>, also after it was
  suspended by the clock and resumed because another thread blocked.
\<close>

theorem lock_no_lost_wakeup:
  assumes "lock_start s" "lock_step\<^sup>*\<^sup>* s s'"
  shows "(holder (sys_lock s') = 0 \<longrightarrow> sys_frames s' t \<noteq> None \<longrightarrow>
      (\<exists>u. sys_frames s' u \<noteq> None \<and> status (sys_k s') u \<in> {TASK_READY, TASK_RUNNING})) \<and>
    (sys_frames s' (cur_tcb (sys_k s')) = None \<longrightarrow> int_flag (sys_k s'))"
proof -
  have "lock_inv s'" using lock_reach_inv [OF assms(2) lock_start_inv [OF assms(1)]] .
  then obtain ns xs where wf: "lock_wf (sys_k s') (sys_nodes s') (sys_lock s') (sys_frames s') ns xs"
    and io: "sys_frames s' (cur_tcb (sys_k s')) = None \<longrightarrow> int_flag (sys_k s')"
    by (rule lock_invD)
  have "\<exists>u. sys_frames s' u \<noteq> None \<and> status (sys_k s') u \<in> {TASK_READY, TASK_RUNNING}"
    if "holder (sys_lock s') = 0" "sys_frames s' t \<noteq> None"
  proof -
    have "\<exists>u n fl. sys_frames s' u = Some (n, fl) \<and> n \<notin> set ns"
      using that(2) lock_wfD(6) [OF wf that(1)] by (cases ns) auto
    then obtain u n fl where u: "sys_frames s' u = Some (n, fl)" "n \<notin> set ns" by blast
    then have "status (sys_k s') u \<in> {TASK_READY, TASK_RUNNING}" using lock_wfD(4) [OF wf u(1)] by (simp add: frame_ok_def)
    then show ?thesis using u(1) by blast
  qed
  then show ?thesis using io by blast
qed

section \<open>A run of two threads\<close>

text \<open>
  The first thread takes the lock, the clock gives the processor to the second one, which blocks
  in \<^verbatim>\<open>lock_acquire\<close>; the first thread runs again, with interrupts open, and releases the lock.
\<close>

definition demo_turn :: kernel where
  "demo_turn = demo_threads\<lparr>int_flag := True,
     tcb := (tcb demo_threads)(0xC0310000 := (demo_tcb 7 0xC0320000 TASK_RUNNING)\<lparr>time_left := 0\<rparr>)\<rparr>"

definition demo_sync :: lock_sys where
  "demo_sync = \<lparr>sys_k = demo_turn, sys_nodes = (\<lambda>_. \<lparr>n_thread = 0, n_next = None\<rparr>),
     sys_lock = lock_init \<lparr>holder = 1, l_sem = \<lparr>s_val = 9, wait_queue = \<lparr>q_head = Some 1\<rparr>\<rparr>\<rparr>,
     sys_frames = (\<lambda>_. None), sys_inside = {}, sys_intr = {0xC0320000}\<rparr>"

definition held_lock :: lock_t where
  "held_lock = \<lparr>holder = 0xC0310000, l_sem = \<lparr>s_val = 0, wait_queue = \<lparr>q_head = None\<rparr>\<rparr>\<rparr>"

definition demo_held :: lock_sys where
  "demo_held = demo_sync\<lparr>sys_lock := held_lock, sys_inside := {0xC0310000}\<rparr>"

lemma demo_turn_fields [simp]:
  "cur_tcb demo_turn = 0xC0310000" "int_flag demo_turn" "time_left (tcb demo_turn 0xC0310000) = 0"
  "status demo_turn 0xC0320000 = TASK_READY" "status demo_turn 0xC0330000 = TASK_BLOCKED"
  by (simp_all add: demo_turn_def)

lemma demo_turn_ok: "threads_ok demo_turn [0xC0320000, 0xC0330000]"
  by (simp add: threads_ok_def ring_def check_kern_stack_overflow_def demo_turn_def)

lemma demo_sync_start: "lock_start demo_sync"
proof -
  have "status demo_turn q = TASK_READY \<longrightarrow> q \<in> {0xC0320000} \<or> saved_if demo_turn q"
    if "q \<in> set [0xC0320000, 0xC0330000]" for q using that by auto
  then show ?thesis using demo_turn_ok unfolding lock_start_def demo_sync_def
    by (intro conjI exI [of _ "[0xC0320000, 0xC0330000]"] exI [of _ "\<lparr>holder = 1, l_sem = \<lparr>s_val = 9, wait_queue = \<lparr>q_head = Some 1\<rparr>\<rparr>\<rparr>"])
      simp_all
qed

lemma demo_acquires: "lock_step demo_sync demo_held"
proof -
  have run: "lock_acquire 16 (sys_lock demo_sync) (sys_nodes demo_sync) demo_turn =
      Inr (None, held_lock, sys_nodes demo_sync, demo_turn)"
    by (simp add: lock_acquire_def sem_P_def cli_condition_eq sti_condition_eq get_running_progress_def cli_def
        demo_sync_def lock_init_def sem_init_def sync_tool_sem_init_queue_def sem_P_loop_free sem_P_end_def
        lock_acquire_end_def held_lock_def)
  have "demo_held = handler_return (after_acquire (cur_tcb (sys_k demo_sync)) 16 (None, held_lock, sys_nodes demo_sync, demo_turn) demo_sync)"
    by (simp add: demo_held_def after_acquire_def demo_sync_def handler_return_def fun_upd_idem)
  moreover have "lock_step demo_sync
      (handler_return (after_acquire (cur_tcb (sys_k demo_sync)) 16 (None, held_lock, sys_nodes demo_sync, demo_turn) demo_sync))"
    using run by (intro lock_step.acquire) (simp_all add: demo_sync_def)
  ultimately show ?thesis by simp
qed

definition demo_ticked :: "kernel \<Rightarrow> lock_sys" where
  "demo_ticked k = demo_held\<lparr>sys_k := k, sys_intr := {0xC0310000}\<rparr>"

lemma demo_ticks:
  "\<exists>k. lock_step demo_held (demo_ticked k) \<and> cur_tcb k = 0xC0320000 \<and> threads_ok k [0xC0330000, 0xC0310000] \<and>
    status k 0xC0330000 = TASK_BLOCKED \<and> status k 0xC0310000 = TASK_READY \<and> int_flag k"
proof -
  have ok: "threads_ok (cli demo_turn) ([] @ 0xC0320000 # [0xC0330000])" using demo_turn_ok by (simp add: cli_def)
  obtain k where k: "schedule (cli demo_turn) = Inr (True, k)" "cur_tcb k = 0xC0320000"
    "threads_ok k [0xC0330000, 0xC0310000]" "status k 0xC0310000 = TASK_READY" "status k 0xC0330000 = TASK_BLOCKED"
    using schedule_switch [OF ok _ refl] by auto
  then have t: "timer_server_func (cli demo_turn) = Inr (True, k)" by (simp add: timer_server_func_def)
  have h: "int_flag (sys_k demo_held)" "sys_k demo_held = demo_turn" "sys_intr demo_held = {0xC0320000}"
    by (simp_all add: demo_held_def demo_sync_def)
  have "lock_step demo_held (handler_return (demo_held\<lparr>sys_k := k, sys_intr := insert (cur_tcb (sys_k demo_held)) (sys_intr demo_held)\<rparr>))"
    using t h by (intro lock_step.tick) simp_all
  then have "lock_step demo_held (demo_ticked (sti k))" using k(2) h by (simp add: handler_return_def demo_ticked_def insert_Diff_if)
  then show ?thesis using k by (intro exI [of _ "sti k"]) (simp add: sti_def)
qed

text \<open>The first thread, suspended by the clock, comes back with interrupts open when the second one blocks.\<close>

lemma demo_waits:
  "\<exists>s h fl. lock_step\<^sup>*\<^sup>* demo_sync s \<and> cur_tcb (sys_k s) = 0xC0310000 \<and> sys_nodes s = h \<and> int_flag (sys_k s) \<and>
    waiting (wait_queue (l_sem (sys_lock s))) h [32] \<and> holder (sys_lock s) = 0xC0310000 \<and>
    sys_frames s = (\<lambda>_. None)(0xC0320000 := Some (32, fl))"
proof -
  obtain k where k: "lock_step demo_held (demo_ticked k)" "cur_tcb k = 0xC0320000"
    "threads_ok k [0xC0330000, 0xC0310000]" "status k 0xC0330000 = TASK_BLOCKED" "status k 0xC0310000 = TASK_READY" "int_flag k"
    using demo_ticks by blast
  let ?s = "demo_ticked k" and ?k = "cli k"
  have ok: "threads_ok ?k ([0xC0330000] @ 0xC0310000 # [])" using k(3) by (simp add: cli_def)
  have w0: "waiting (wait_queue (l_sem held_lock)) (sys_nodes demo_held) []" by (simp add: waiting_def held_lock_def)
  obtain sem' h' k' where w: "sem_P_loop 32 (l_sem held_lock) (sys_nodes demo_held) ?k = Some (Inr (P_wait (int_flag ?k), sem', h', k'))"
    "waiting (wait_queue sem') h' [32]" "cur_tcb k' = 0xC0310000"
    using sem_P_loop_waits [OF _ ok _ _ w0, of 32] k(4,5) by (auto simp: held_lock_def cli_def)
  let ?fl = "Flags False False True"
  let ?r = "(Some ?fl, held_lock\<lparr>l_sem := sem'\<rparr>, h', k')"
  have s: "sys_k ?s = k" "sys_nodes ?s = sys_nodes demo_held" "sys_lock ?s = held_lock" "sys_frames ?s = (\<lambda>_. None)"
    "sys_inside ?s = {0xC0310000}" "sys_intr ?s = {0xC0310000}"
    by (simp_all add: demo_ticked_def demo_held_def demo_sync_def)
  have "lock_acquire 32 (sys_lock ?s) (sys_nodes ?s) (sys_k ?s) = Inr ?r"
    unfolding s(1-3) using w(1) k(2,6) by (simp add: lock_acquire_def sem_P_def cli_condition_eq get_running_progress_def
        sem_P_end_def lock_acquire_end_def cli_def) (simp add: held_lock_def)
  then have st: "lock_step ?s (handler_return (after_acquire (cur_tcb (sys_k ?s)) 32 ?r ?s))"
    by (intro lock_step.acquire) (simp_all add: s k(2))
  let ?t = "handler_return (after_acquire 0xC0320000 32 ?r ?s)"
  have "lock_step\<^sup>*\<^sup>* demo_sync ?t"
    using demo_acquires k(1) st [unfolded s(1) k(2)] by (meson converse_rtranclp_into_rtranclp rtranclp.rtrancl_refl)
  moreover have "cur_tcb (sys_k ?t) = 0xC0310000" "int_flag (sys_k ?t)" "sys_nodes ?t = h'" "sys_lock ?t = held_lock\<lparr>l_sem := sem'\<rparr>"
    "sys_frames ?t = (\<lambda>_. None)(0xC0320000 := Some (32, ?fl))"
    using s w(3) by (simp_all add: handler_return_def after_acquire_def sti_def)
  ultimately show ?thesis using w(2) by (intro exI [of _ ?t] exI [of _ h'] exI [of _ ?fl]) (simp add: held_lock_def)
qed


theorem lock_no_lost_wakeup_witness:
  "\<exists>s u. lock_step\<^sup>*\<^sup>* demo_sync s \<and> holder (sys_lock s) = 0 \<and> sys_frames s u \<noteq> None \<and>
    status (sys_k s) u \<in> {TASK_READY, TASK_RUNNING} \<and> cur_tcb (sys_k s) = 0xC0310000 \<and> int_flag (sys_k s)"
proof -
  obtain s fl where s: "lock_step\<^sup>*\<^sup>* demo_sync s" "holder (sys_lock s) = 0xC0310000" "cur_tcb (sys_k s) = 0xC0310000"
    "waiting (wait_queue (l_sem (sys_lock s))) (sys_nodes s) [32]" "sys_frames s = (\<lambda>_. None)(0xC0320000 := Some (32, fl))"
    using demo_waits by blast
  obtain l h k where r: "lock_release (sys_lock s) (sys_nodes s) (sys_k s) = (l, h, k)" by (metis prod_cases3)
  obtain q' h' where v: "sem_V (l_sem (sys_lock s)) (sys_nodes s) (cli (sys_k s)) = (q', h', upd_tcb (n_thread (sys_nodes s 32)) (\<lambda>t. t\<lparr>task_status := TASK_READY\<rparr>) (cli (sys_k s)))"
    using sem_V_wakes [OF s(4)] by blast
  have l: "holder l = 0" "cur_tcb k = 0xC0310000"
    using r s(2,3) v by (auto simp: lock_release_def cli_condition_eq sti_condition_eq get_running_progress_def cli_def)
  let ?s = "s\<lparr>sys_k := k, sys_nodes := h, sys_lock := l, sys_inside := sys_inside s - {cur_tcb (sys_k s)}\<rparr>"
  have "lock_step s ?s" using r s(3,5) by (intro lock_step.release) simp_all
  then have reach: "lock_step\<^sup>*\<^sup>* demo_sync ?s" using s(1) by (rule rtranclp.rtrancl_into_rtrancl [rotated])
  then show ?thesis
    using lock_no_lost_wakeup [OF demo_sync_start reach, of "0xC0320000"] l s(5) by (intro exI [of _ ?s]) simp
qed

end
