(* ===== verification/Strings.thy ===== *)
theory Strings
  imports Machine
begin

text \<open>
  The string routines on any byte memory: \<open>cstr h a bs\<close> says that the NUL-terminated string at
  \<open>a\<close> consists of the bytes \<open>bs\<close>. The lemmas are proved once in the locale \<open>byte_memory\<close> and
  hold for the flat memory and for paged memory.
\<close>

section \<open>Strings in memory\<close>

lemma all_less_Cons:
  "(\<forall>i<length (b # bs). h (a + of_nat i) = (b # bs) ! i) \<longleftrightarrow>
     h a = b \<and> (\<forall>i<length bs. h ((a :: uint32) + 1 + of_nat i) = bs ! i)"
proof -
  have "(\<forall>i<Suc n. P i) \<longleftrightarrow> P 0 \<and> (\<forall>i<n. P (Suc i))" for P and n :: nat by (auto simp: less_Suc_eq_0_disj)
  then show ?thesis by (simp add: algebra_simps)
qed

fun cstr :: "(uint32 \<Rightarrow> byte) \<Rightarrow> uint32 \<Rightarrow> byte list \<Rightarrow> bool" where
  "cstr h a [] \<longleftrightarrow> h a = 0"
| "cstr h a (b # bs) \<longleftrightarrow> h a = b \<and> b \<noteq> 0 \<and> cstr h (a + 1) bs"

lemma cstr_nth:
  "cstr h a bs \<longleftrightarrow> (\<forall>i<length bs. h (a + of_nat i) = bs ! i) \<and> 0 \<notin> set bs \<and> h (a + of_nat (length bs)) = 0"
proof (induction bs arbitrary: a)
  case (Cons b bs)
  then show ?case unfolding all_less_Cons by (auto simp: algebra_simps)
qed auto

lemma cstr_cong: "(\<And>x. x \<in> span a (Suc (length bs)) \<Longrightarrow> h x = g x) \<Longrightarrow> cstr h a bs = cstr g a bs"
proof (induction bs arbitrary: a)
  case (Cons b bs)
  then have "h a = g a" "cstr h (a + 1) bs = cstr g (a + 1) bs"
    using span_Suc [of a "Suc (length bs)"] by auto
  then show ?case by simp
qed (simp add: span_Suc)

lemma cstr_keep:
  assumes "cstr h a bs" "span a (Suc (length bs)) \<subseteq> R" "\<forall>x\<in>R. x \<notin> X \<longrightarrow> g x = h x" "X \<inter> span a (Suc (length bs)) = {}"
  shows "cstr g a bs"
proof -
  have "g x = h x" if "x \<in> span a (Suc (length bs))" for x using assms(2-4) that by blast
  then show ?thesis using assms(1) cstr_cong by blast
qed

lemma cstr_append:
  "cstr h a (xs @ ys) \<longleftrightarrow> (\<forall>i<length xs. h (a + of_nat i) = xs ! i) \<and> 0 \<notin> set xs \<and> cstr h (a + of_nat (length xs)) ys"
proof (induction xs arbitrary: a)
  case (Cons b bs)
  then show ?case unfolding all_less_Cons by (auto simp: algebra_simps)
qed simp

lemma span_not_mem: "n < 2 ^ 32 \<Longrightarrow> a \<notin> span (a + 1) n"
proof
  assume n: "n < 2 ^ 32" and "a \<in> span (a + 1) n"
  then obtain i where i: "i < n" "(of_nat (Suc i) :: uint32) = of_nat 0" by (auto simp: span_def algebra_simps)
  then show False using n by (subst (asm) of_nat_inj_32) auto
qed

lemma span_mono: "m \<le> n \<Longrightarrow> span a m \<subseteq> span a n"
  by (auto simp: span_def)

lemma span_shift: "i + m \<le> n \<Longrightarrow> span (a + of_nat i) m \<subseteq> span a n"
proof
  fix x assume "i + m \<le> n" "x \<in> span (a + of_nat i) m"
  then obtain j where "j < m" "x = a + of_nat (i + j)" by (auto simp: span_def algebra_simps)
  then show "x \<in> span a n" using span_mem [of "i + j" n a] \<open>i + m \<le> n\<close> by simp
qed

lemma span_inj: "i < 2 ^ 32 \<Longrightarrow> j < 2 ^ 32 \<Longrightarrow> a + of_nat i = a + (of_nat j :: uint32) \<longleftrightarrow> i = j"
  by (simp add: of_nat_inj_32)

context byte_memory
begin

lemma strlen_loop_ok:
  "ok s \<Longrightarrow> cstr (mem s) (src + i) bs \<Longrightarrow> span (src + i) (Suc (length bs)) \<subseteq> R \<Longrightarrow>
     strlen_loop ld src i s = Some (Inr (i + of_nat (length bs)))"
proof (induction bs arbitrary: i)
  case Nil
  then show ?case using ld_ok [of s "src + i"] by (simp add: strlen_loop.simps [of ld src i] span_Suc)
next
  case (Cons b bs)
  then have l: "ld (src + i) s = Inr b" "b \<noteq> 0" using ld_ok [of s "src + i"] by (auto simp: span_Suc)
  have "span (src + (i + 1)) (Suc (length bs)) \<subseteq> R" using Cons.prems(3) span_Suc [of "src + i" "Suc (length bs)"]
    by (simp add: add.assoc)
  then show ?case using Cons l by (simp add: strlen_loop.simps [of ld src i] add.assoc)
qed

lemma strlen_ok: "ok s \<Longrightarrow> cstr (mem s) src bs \<Longrightarrow> span src (Suc (length bs)) \<subseteq> R \<Longrightarrow> strlen ld src s = Inr (of_nat (length bs))"
  using strlen_loop_ok [of s src 0 bs] by (simp add: strlen_def)

lemma find_nul_ok:
  "ok s \<Longrightarrow> cstr (mem s) p bs \<Longrightarrow> span p (Suc (length bs)) \<subseteq> R \<Longrightarrow> find_nul ld p s = Some (Inr (p + of_nat (length bs)))"
proof (induction bs arbitrary: p)
  case Nil
  then show ?case using ld_ok [of s p] by (simp add: find_nul.simps [of ld p] span_Suc)
next
  case (Cons b bs)
  then have l: "ld p s = Inr b" "b \<noteq> 0" using ld_ok [of s p] by (auto simp: span_Suc)
  have "span (p + 1) (Suc (length bs)) \<subseteq> R" using Cons.prems(3) span_Suc [of p "Suc (length bs)"] by simp
  then show ?case using Cons l by (simp add: find_nul.simps [of ld p] add.assoc)
qed

lemma strcpy_loop_ok:
  "ok s \<Longrightarrow> cstr (mem s) src bs \<Longrightarrow> span dest (Suc (length bs)) \<subseteq> R \<Longrightarrow> span src (Suc (length bs)) \<subseteq> R \<Longrightarrow>
   span dest (Suc (length bs)) \<inter> span src (Suc (length bs)) = {} \<Longrightarrow> Suc (length bs) < 2 ^ 32 \<Longrightarrow>
   \<exists>s'. strcpy_loop ld st dest src s = Some (Inr s') \<and> ok s' \<and> rest s' = rest s \<and> cstr (mem s') dest bs \<and>
     (\<forall>x\<in>R. x \<notin> span dest (Suc (length bs)) \<longrightarrow> mem s' x = mem s x)"
proof (induction bs arbitrary: dest src s)
  case Nil
  then have "ld src s = Inr 0" "dest \<in> R" using ld_ok [of s src] by (auto simp: span_Suc)
  then show ?case using st_ok [OF Nil.prems(1), of dest 0] by (auto simp: strcpy_loop.simps [of ld st dest] span_Suc)
next
  case (Cons b bs)
  let ?n = "Suc (length bs)"
  have sd: "span dest (Suc ?n) = insert dest (span (dest + 1) ?n)" and ss: "span src (Suc ?n) = insert src (span (src + 1) ?n)"
    by (rule span_Suc)+
  have l: "ld src s = Inr b" "b \<noteq> 0" using ld_ok [of s src] Cons.prems(1,2,4) ss by auto
  obtain t where t: "st dest b s = Inr t" "ok t" "rest t = rest s" "\<forall>x\<in>R. mem t x = ((mem s)(dest := b)) x"
    using st_ok [OF Cons.prems(1), of dest b] Cons.prems(3) sd by auto
  have sub: "span (dest + 1) ?n \<subseteq> R" "span (src + 1) ?n \<subseteq> R" "span (dest + 1) ?n \<inter> span (src + 1) ?n = {}"
    "dest \<notin> span (src + 1) ?n"
    using Cons.prems(3-5) sd ss by auto
  have "mem t x = mem s x" if "x \<in> span (src + 1) ?n" for x using t(4) sub(2,4) that by auto
  then have "cstr (mem t) (src + 1) bs" using Cons.prems(2) cstr_cong [of "src + 1" bs "mem t" "mem s"] by simp
  then obtain s' where s': "strcpy_loop ld st (dest + 1) (src + 1) t = Some (Inr s')" "ok s'" "rest s' = rest t"
    "cstr (mem s') (dest + 1) bs" "\<forall>x\<in>R. x \<notin> span (dest + 1) ?n \<longrightarrow> mem s' x = mem t x"
    using Cons.IH [OF t(2) _ sub(1-3)] Cons.prems(6) by auto
  have "dest \<notin> span (dest + 1) ?n" using Cons.prems(6) by (intro span_not_mem) simp
  then have "mem s' dest = b" using s'(5) t(4) Cons.prems(3) sd by auto
  then have "cstr (mem s') dest (b # bs)" using s'(4) l(2) by simp
  moreover have "strcpy_loop ld st dest src s = Some (Inr s')" using l t(1) s'(1) by (simp add: strcpy_loop.simps [of ld st dest])
  moreover have "\<forall>x\<in>R. x \<notin> span dest (Suc ?n) \<longrightarrow> mem s' x = mem s x" using s'(5) t(4) sd by auto
  ultimately show ?case using s'(2,3) t(3) by auto
qed

lemma strcpy_ok:
  assumes "ok s" "cstr (mem s) src bs" "span dest (Suc (length bs)) \<subseteq> R" "span src (Suc (length bs)) \<subseteq> R"
    "span dest (Suc (length bs)) \<inter> span src (Suc (length bs)) = {}" "Suc (length bs) < 2 ^ 32"
  shows "\<exists>s'. strcpy ld st dest src s = Inr (dest, s') \<and> ok s' \<and> rest s' = rest s \<and> cstr (mem s') dest bs \<and>
     (\<forall>x\<in>R. x \<notin> span dest (Suc (length bs)) \<longrightarrow> mem s' x = mem s x)"
  using strcpy_loop_ok [OF assms] by (auto simp: strcpy_def)

lemma strcat_ok:
  assumes s: "ok s" "cstr (mem s) dest as" "cstr (mem s) src bs" and sub: "span dest (Suc (length as + length bs)) \<subseteq> R"
    "span src (Suc (length bs)) \<subseteq> R" "span dest (Suc (length as + length bs)) \<inter> span src (Suc (length bs)) = {}"
    and len: "Suc (length as + length bs) < 2 ^ 32"
  shows "\<exists>s'. strcat ld st dest src s = Inr (dest, s') \<and> ok s' \<and> rest s' = rest s \<and> cstr (mem s') dest (as @ bs) \<and>
     (\<forall>x\<in>R. x \<notin> span dest (Suc (length as + length bs)) \<longrightarrow> mem s' x = mem s x)"
proof -
  let ?p = "dest + of_nat (length as)"
  have sp: "span ?p (Suc (length bs)) \<subseteq> span dest (Suc (length as + length bs))" by (rule span_shift) simp
  have "span dest (Suc (length as)) \<subseteq> R" using sub(1) span_mono [of "Suc (length as)" "Suc (length as + length bs)" dest] by auto
  then have "find_nul ld dest s = Some (Inr ?p)" using find_nul_ok [OF s(1,2)] by simp
  moreover obtain s' where s': "strcpy ld st ?p src s = Inr (?p, s')" "ok s'" "rest s' = rest s" "cstr (mem s') ?p bs"
    "\<forall>x\<in>R. x \<notin> span ?p (Suc (length bs)) \<longrightarrow> mem s' x = mem s x"
    using strcpy_ok [OF s(1,3) order_trans [OF sp sub(1)] sub(2)] sub(3) sp len by auto
  moreover have "mem s' (dest + of_nat i) = as ! i" if i: "i < length as" for i
  proof -
    have "dest + of_nat i \<in> R" using sub(1) span_mem [of i "Suc (length as + length bs)" dest] i by auto
    moreover have "dest + of_nat i \<notin> span ?p (Suc (length bs))"
    proof
      assume "dest + of_nat i \<in> span ?p (Suc (length bs))"
      then obtain j where j: "j < Suc (length bs)" "dest + of_nat i = dest + of_nat (length as + j)"
        by (auto simp: span_def algebra_simps)
      then show False using i len span_inj [of i "length as + j" dest] by simp
    qed
    ultimately show ?thesis using s'(5) s(2) i by (simp add: cstr_nth)
  qed
  moreover have "0 \<notin> set as" using s(2) by (simp add: cstr_nth)
  ultimately show ?thesis using sp by (auto simp: strcat_def cstr_append)
qed

end

end
