(* ===== verification/StringNums.thy ===== *)
theory StringNums
  imports Strings
begin

text \<open>
  Numbers as strings: reversal in place, the decimal digits of \<^verbatim>\<open>uintTostring\<close> and the
  hexadecimal digits of \<^verbatim>\<open>num2hexstr\<close>, against reference definitions on natural numbers.
\<close>

section \<open>Reference definitions\<close>

text \<open>Digits, the least significant first.\<close>

fun dec_rev :: "nat \<Rightarrow> byte list" where
  "dec_rev n = (if n < 10 then [48 + of_nat n] else (48 + of_nat (n mod 10)) # dec_rev (n div 10))"

declare dec_rev.simps [simp del]

definition decimal :: "nat \<Rightarrow> byte list" where
  "decimal n = rev (dec_rev n)"

fun hexd :: "nat \<Rightarrow> byte list" where
  "hexd n = (if n = 0 then [] else hexd (n div 16) @ [bit_table ! (n mod 16)])"

declare hexd.simps [simp del]

text \<open>The number that a decimal string denotes.\<close>

fun value_of :: "byte list \<Rightarrow> nat \<Rightarrow> nat" where
  "value_of [] v = v"
| "value_of (b # bs) v = value_of bs (10 * v + (unat b - 48))"

lemma value_of_append: "value_of (xs @ ys) v = value_of ys (value_of xs v)"
  by (induction xs arbitrary: v) auto

lemma unat_digit: "d < 10 \<Longrightarrow> unat (48 + of_nat d :: byte) = 48 + d"
proof -
  assume "d < 10"
  then have "unat (of_nat (48 + d) :: byte) = 48 + d"
    by (simp only: unat_of_nat) (simp add: take_bit_nat_eq_self)
  then show ?thesis by simp
qed

lemma value_decimal: "value_of (decimal n) 0 = n"
proof (induction n rule: dec_rev.induct)
  case (1 n)
  show ?case
  proof (cases "n < 10")
    case True
    then show ?thesis by (simp add: decimal_def dec_rev.simps unat_digit)
  next
    case False
    then have "decimal n = decimal (n div 10) @ [48 + of_nat (n mod 10)]"
      by (simp add: decimal_def dec_rev.simps [of n])
    then show ?thesis using 1 False by (simp add: value_of_append unat_digit)
  qed
qed

lemma dec_rev_digit: "b \<in> set (dec_rev n) \<Longrightarrow> \<exists>d<10. b = 48 + of_nat d"
proof (induction n rule: dec_rev.induct)
  case (1 n)
  then show ?case by (cases "n < 10") (auto simp: dec_rev.simps [of n] intro: exI [of _ "n mod 10"])
qed

lemma dec_rev_nonzero: "0 \<notin> set (dec_rev n)"
proof
  assume "0 \<in> set (dec_rev n)"
  then obtain d where "d < 10" "(0 :: byte) = 48 + of_nat d" using dec_rev_digit by blast
  then show False using unat_digit [of d] by simp
qed

lemma dec_rev_length: "n < 10 ^ Suc k \<Longrightarrow> length (dec_rev n) \<le> Suc k"
proof (induction k arbitrary: n)
  case 0
  then show ?case by (simp add: dec_rev.simps)
next
  case (Suc k)
  then show ?case by (cases "n < 10") (simp_all add: dec_rev.simps [of n] div_less_iff_less_mult mult.commute)
qed

lemma dec_rev_word: "length (dec_rev (unat (n :: uint32))) \<le> 10" "0 < length (dec_rev m)"
  using dec_rev_length [of "unat n" 9] unat_lt_32 [of n] by (simp_all add: dec_rev.simps [of m])

lemma i2stable_nth: "d < 10 \<Longrightarrow> i2stable ! d = 48 + of_nat d"
proof -
  have "\<forall>d\<in>set [0..<10]. i2stable ! d = 48 + of_nat d" by (simp add: i2stable_def upt_rec)
  then show "d < 10 \<Longrightarrow> i2stable ! d = 48 + of_nat d" by simp
qed

lemma hexd_0 [simp]: "hexd 0 = []"
  by (simp add: hexd.simps)

text \<open>Hexadecimal digits, eight of them, the most significant first.\<close>

definition hex8 :: "nat \<Rightarrow> byte list" where
  "hex8 n = map (\<lambda>i. bit_table ! (n div 16 ^ (7 - i) mod 16)) [0..<8]"

lemma bit_table_nonzero: "d < 16 \<Longrightarrow> bit_table ! d \<noteq> 0"
proof -
  have "\<forall>d\<in>set [0..<16]. bit_table ! d \<noteq> 0" by (simp add: bit_table_def upt_rec)
  then show "d < 16 \<Longrightarrow> bit_table ! d \<noteq> 0" by simp
qed

lemma hexd_nonzero: "0 \<notin> set (hexd n)"
proof (induction n rule: hexd.induct)
  case (1 n)
  then show ?case using bit_table_nonzero [of "n mod 16"] by (cases "n = 0") (auto simp: hexd.simps [of n])
qed

lemma hexd_length: "n < 16 ^ k \<Longrightarrow> length (hexd n) \<le> k"
proof (induction k arbitrary: n)
  case 0
  then show ?case by (simp add: hexd.simps)
next
  case (Suc k)
  then have "n div 16 < 16 ^ k" by (simp add: div_less_iff_less_mult mult.commute)
  then show ?case using Suc.IH by (cases "n = 0") (simp_all add: hexd.simps [of n])
qed

lemma hexd_pad:
  "n < 16 ^ k \<Longrightarrow> replicate (k - length (hexd n)) 48 @ hexd n = map (\<lambda>i. bit_table ! (n div 16 ^ (k - 1 - i) mod 16)) [0..<k]"
proof (induction k arbitrary: n)
  case 0
  then show ?case by (simp add: hexd.simps)
next
  case (Suc k)
  have lt: "n div 16 < 16 ^ k" using Suc.prems by (simp add: div_less_iff_less_mult mult.commute)
  have m: "map (\<lambda>i. bit_table ! (n div 16 ^ (Suc k - 1 - i) mod 16)) [0..<Suc k] =
      map (\<lambda>i. bit_table ! (n div 16 div 16 ^ (k - 1 - i) mod 16)) [0..<k] @ [bit_table ! (n mod 16)]"
  proof -
    have "n div 16 ^ (k - i) = n div 16 div 16 ^ (k - 1 - i)" if "i < k" for i
    proof -
      have "k - i = Suc (k - 1 - i)" using that by simp
      then show ?thesis by (simp only: power_Suc div_mult2_eq)
    qed
    then show ?thesis by simp
  qed
  show ?case
  proof (cases "n = 0")
    case True
    have "replicate (Suc k) (48 :: byte) = replicate k 48 @ [48]" by (simp add: replicate_append_same)
    then show ?thesis using Suc.IH [of 0] True unfolding m by (simp add: bit_table_def)
  next
    case False
    have "length (hexd (n div 16)) \<le> k" using lt by (rule hexd_length)
    then show ?thesis unfolding m using Suc.IH [OF lt, symmetric] False by (simp add: hexd.simps [of n] Suc_diff_le)
  qed
qed

lemma hex8_hexd: "unat (n :: uint32) < 16 ^ 8" "replicate (8 - length (hexd (unat n))) 48 @ hexd (unat n) = hex8 (unat n)"
proof -
  show lt: "unat (n :: uint32) < 16 ^ 8" using unat_lt_32 [of n] by simp
  show "replicate (8 - length (hexd (unat n))) 48 @ hexd (unat n) = hex8 (unat n)"
    using hexd_pad [OF lt] by (simp add: hex8_def)
qed

section \<open>Reversal\<close>

context byte_memory
begin

lemma strrevers_loop_ok:
  "ok s \<Longrightarrow> span a n \<subseteq> R \<Longrightarrow> n \<le> 2 ^ 32 \<Longrightarrow> t < n \<Longrightarrow>
   \<exists>s'. strrevers_loop ld st a (int h) (int t) s = Inr s' \<and> ok s' \<and> rest s' = rest s \<and>
     (\<forall>i<n. mem s' (a + of_nat i) = mem s (a + of_nat (if h \<le> i \<and> i \<le> t then h + t - i else i))) \<and>
     (\<forall>x\<in>R. x \<notin> span a n \<longrightarrow> mem s' x = mem s x)"
proof (induction "t - h" arbitrary: h t s rule: less_induct)
  case less
  show ?case
  proof (cases "h < t")
    case False
    then have "\<forall>i<n. (if h \<le> i \<and> i \<le> t then h + t - i else i) = i" by auto
    then show ?thesis using False less.prems(1) by (simp add: strrevers_loop.simps)
  next
    case True
    let ?h = "a + of_nat h" and ?t = "a + of_nat t"
    have R: "?h \<in> R" "?t \<in> R" using less.prems(2,4) True span_mem [of h n a] span_mem [of t n a] by auto
    have ne: "?h \<noteq> ?t" using less.prems(3,4) True span_inj [of h t a] by simp
    obtain s1 where s1: "st ?t (mem s ?h) s = Inr s1" "ok s1" "rest s1 = rest s" "\<forall>x\<in>R. mem s1 x = ((mem s)(?t := mem s ?h)) x"
      using st_ok [OF less.prems(1) R(2)] by blast
    obtain s2 where s2: "st ?h (mem s ?t) s1 = Inr s2" "ok s2" "rest s2 = rest s1" "\<forall>x\<in>R. mem s2 x = ((mem s1)(?h := mem s ?t)) x"
      using st_ok [OF s1(2) R(1)] by blast
    have "t - 1 - (h + 1) < t - h" "t - 1 < n" using True less.prems(4) by simp_all
    then obtain s' where s': "strrevers_loop ld st a (int (h + 1)) (int (t - 1)) s2 = Inr s'" "ok s'" "rest s' = rest s2"
      "\<forall>i<n. mem s' (a + of_nat i) = mem s2 (a + of_nat (if h + 1 \<le> i \<and> i \<le> t - 1 then h + 1 + (t - 1) - i else i))"
      "\<forall>x\<in>R. x \<notin> span a n \<longrightarrow> mem s' x = mem s2 x"
      using less.hyps [OF _ s2(2) less.prems(2,3)] by blast
    have it: "int (t - 1) = int t - 1" "int (h + 1) = int h + 1" using True by simp_all
    have run: "strrevers_loop ld st a (int h) (int t) s = Inr s'"
      using True ld_ok [OF less.prems(1) R(1)] ld_ok [OF less.prems(1) R(2)] s1(1) s2(1) s'(1)
      unfolding it by (simp add: strrevers_loop.simps [of ld st a "int h"])
    have m2: "mem s2 x = (if x = ?h then mem s ?t else if x = ?t then mem s ?h else mem s x)" if "x \<in> R" for x
      using s1(4) s2(4) that ne by auto
    have "mem s' (a + of_nat i) = mem s (a + of_nat (if h \<le> i \<and> i \<le> t then h + t - i else i))" if i: "i < n" for i
    proof -
      let ?j = "if h + 1 \<le> i \<and> i \<le> t - 1 then h + 1 + (t - 1) - i else i"
      have j: "?j < n" "?j = h \<longleftrightarrow> i = h" "?j = t \<longleftrightarrow> i = t" using i True less.prems(4) by auto
      have "a + of_nat ?j \<in> R" using span_mem [OF j(1), of a] less.prems(2) by blast
      moreover have "a + of_nat ?j = ?h \<longleftrightarrow> i = h" "a + of_nat ?j = ?t \<longleftrightarrow> i = t"
        using span_inj [of ?j h a] span_inj [of ?j t a] j less.prems(3,4) True by auto
      ultimately have "mem s2 (a + of_nat ?j) = (if i = h then mem s ?t else if i = t then mem s ?h else mem s (a + of_nat ?j))"
        using m2 [of "a + of_nat ?j"] by simp
      then show ?thesis using s'(4) i True by (auto split: if_splits)
    qed
    moreover have "\<forall>x\<in>R. x \<notin> span a n \<longrightarrow> mem s' x = mem s x"
      using s'(5) m2 span_mem [of h n a] span_mem [of t n a] less.prems(4) True by auto
    ultimately show ?thesis using run s'(2,3) s1(3) s2(3) by auto
  qed
qed

lemma strrevers_ok:
  assumes s: "ok s" "cstr (mem s) a bs" "span a (Suc (length bs)) \<subseteq> R" and len: "length bs < 2 ^ 31"
  shows "\<exists>s'. strrevers ld st a s = Inr (a, s') \<and> ok s' \<and> rest s' = rest s \<and> cstr (mem s') a (rev bs) \<and>
    (\<forall>x\<in>R. x \<notin> span a (length bs) \<longrightarrow> mem s' x = mem s x)"
proof (cases "bs = []")
  case True
  then show ?thesis using strlen_ok [OF s] s by (simp add: strrevers_def strrevers_loop.simps)
next
  case False
  let ?n = "length bs"
  have n: "0 < ?n" using False by simp
  obtain m where "?n = Suc m" using n gr0_implies_Suc by blast
  then have "(of_nat ?n - 1 :: uint32) = of_nat (?n - 1)" by simp
  moreover have "sint (of_nat (?n - 1) :: uint32) = int (?n - 1)"
    using len by (simp add: signed_of_nat signed_take_bit_int_eq_self_iff)
  ultimately have last: "sint (of_nat ?n - 1 :: uint32) = int (?n - 1)" by (simp only:)
  have sub: "span a ?n \<subseteq> R" using s(3) span_mono [of ?n "Suc ?n" a] by auto
  obtain s' where s': "strrevers_loop ld st a (int 0) (int (?n - 1)) s = Inr s'" "ok s'" "rest s' = rest s"
    "\<forall>i<?n. mem s' (a + of_nat i) = mem s (a + of_nat (if 0 \<le> i \<and> i \<le> ?n - 1 then 0 + (?n - 1) - i else i))"
    "\<forall>x\<in>R. x \<notin> span a ?n \<longrightarrow> mem s' x = mem s x"
    using strrevers_loop_ok [OF s(1) sub, of "?n - 1" 0] n len by auto
  have "mem s' (a + of_nat i) = rev bs ! i" if i: "i < ?n" for i
  proof -
    have "(if 0 \<le> i \<and> i \<le> ?n - 1 then 0 + (?n - 1) - i else i) = ?n - Suc i" using i by simp
    then have "mem s' (a + of_nat i) = mem s (a + of_nat (?n - Suc i))" using spec [OF s'(4), of i] i by (simp only:)
    also have "\<dots> = bs ! (?n - Suc i)"
    proof -
      have "\<forall>i<?n. mem s (a + of_nat i) = bs ! i" using s(2) unfolding cstr_nth by blast
      moreover have "?n - Suc i < ?n" using n by simp
      ultimately show ?thesis by blast
    qed
    finally show ?thesis using i by (simp add: rev_nth)
  qed
  moreover have "a + of_nat ?n \<in> R" using s(3) span_mem [of ?n "Suc ?n" a] by auto
  moreover have "a + of_nat ?n \<notin> span a ?n"
  proof
    assume "a + of_nat ?n \<in> span a ?n"
    then obtain i where "i < ?n" "a + of_nat ?n = a + of_nat i" by (auto simp: span_def)
    then show False using span_inj [of ?n i a] len by simp
  qed
  ultimately have "cstr (mem s') a (rev bs)" using s(2) s'(5) by (simp add: cstr_nth)
  then show ?thesis using strlen_ok [OF s(1-3)] s' last by (auto simp: strrevers_def)
qed

section \<open>Decimal numbers\<close>

lemma uintTostring_digits:
  "ok s \<Longrightarrow> span p (Suc (length (dec_rev (unat num)))) \<subseteq> R \<Longrightarrow>
   \<exists>n q s1 s2 s'. uintTostring_loop st num p s = Inr (n, q, s1) \<and> st q (i2stable ! unat n) s1 = Inr s2 \<and>
     st (q + 1) 0 s2 = Inr s' \<and> ok s' \<and> rest s' = rest s \<and> cstr (mem s') p (dec_rev (unat num)) \<and>
     (\<forall>x\<in>R. x \<notin> span p (Suc (length (dec_rev (unat num)))) \<longrightarrow> mem s' x = mem s x)"
proof (induction "unat num" arbitrary: num p s rule: less_induct)
  case less
  show ?case
  proof (cases "num < 10")
    case True
    then have n: "unat num < 10" by (simp add: word_less_nat_alt)
    let ?d = "48 + of_nat (unat num) :: byte"
    have dr: "dec_rev (unat num) = [?d]" using n by (simp add: dec_rev.simps)
    have R: "p \<in> R" "p + 1 \<in> R" using less.prems(2) dr by (auto simp: span_Suc)
    obtain s2 where s2: "st p ?d s = Inr s2" "ok s2" "rest s2 = rest s" "\<forall>x\<in>R. mem s2 x = ((mem s)(p := ?d)) x"
      using st_ok [OF less.prems(1) R(1)] by blast
    obtain s' where s': "st (p + 1) 0 s2 = Inr s'" "ok s'" "rest s' = rest s2" "\<forall>x\<in>R. mem s' x = ((mem s2)(p + 1 := 0)) x"
      using st_ok [OF s2(2) R(2)] by blast
    have "?d \<noteq> 0" using dec_rev_nonzero [of "unat num"] dr by simp
    then have "cstr (mem s') p [?d]" using s2(4) s'(4) R by auto
    moreover have "\<forall>x\<in>R. x \<notin> span p (Suc (length [?d])) \<longrightarrow> mem s' x = mem s x"
      using s2(4) s'(4) by (auto simp: span_Suc)
    moreover have "uintTostring_loop st num p s = Inr (num, p, s)" using True leD by (auto simp: uintTostring_loop.simps)
    ultimately show ?thesis using s2 s' n i2stable_nth [OF n] dr by (intro exI) auto
  next
    case False
    then have n: "10 \<le> unat num" by (simp add: word_less_nat_alt)
    let ?m = "unat num div 10" and ?d = "48 + of_nat (unat num mod 10) :: byte"
    have q: "unat (num div 10) = ?m" by (simp add: unat_div)
    have "num - num div 10 * 10 = num mod 10" by (simp add: minus_div_mult_eq_mod)
    then have ix: "unat (num - num div 10 * 10) = unat num mod 10" by (simp add: unat_mod)
    have dr: "dec_rev (unat num) = ?d # dec_rev ?m" using n by (simp add: dec_rev.simps [of "unat num"])
    let ?k = "Suc (length (dec_rev ?m))"
    have sp: "span p (Suc (length (dec_rev (unat num)))) = insert p (span (p + 1) ?k)" unfolding dr by (simp only: length_Cons span_Suc [of p])
    obtain t where t: "st p ?d s = Inr t" "ok t" "rest t = rest s" "\<forall>x\<in>R. mem t x = ((mem s)(p := ?d)) x"
      using st_ok [OF less.prems(1), of p ?d] less.prems(2) sp by auto
    obtain n' q' s1 s2 s' where r: "uintTostring_loop st (num div 10) (p + 1) t = Inr (n', q', s1)" "st q' (i2stable ! unat n') s1 = Inr s2"
      "st (q' + 1) 0 s2 = Inr s'" "ok s'" "rest s' = rest t" "cstr (mem s') (p + 1) (dec_rev ?m)"
      "\<forall>x\<in>R. x \<notin> span (p + 1) ?k \<longrightarrow> mem s' x = mem t x"
      using less.hyps [of "num div 10" t "p + 1"] n q t(2) less.prems(2) sp by auto
    have "p \<notin> span (p + 1) ?k" using dec_rev_word(1) [of num] dr by (intro span_not_mem) simp
    then have "mem s' p = ?d" using r(7) t(4) less.prems(2) sp by auto
    moreover have "?d \<noteq> 0" using dec_rev_nonzero [of "unat num"] dr by auto
    ultimately have "cstr (mem s') p (dec_rev (unat num))" using r(6) dr by simp
    moreover have "uintTostring_loop st num p s = Inr (n', q', s1)"
      using False t(1) r(1) ix i2stable_nth [of "unat num mod 10"] by (simp add: uintTostring_loop.simps [of st num] Let_def not_less)
    moreover have "\<forall>x\<in>R. x \<notin> insert p (span (p + 1) ?k) \<longrightarrow> mem s' x = mem s x" using r(7) t(4) by auto
    ultimately show ?thesis using r(2-5) t(3) sp by auto
  qed
qed

lemma uintTostring_ok:
  assumes "ok s" "span m 32 \<subseteq> R"
  shows "\<exists>s'. uintTostring ld st m num s = Inr (m, s') \<and> ok s' \<and> rest s' = rest s \<and> cstr (mem s') m (decimal (unat num)) \<and>
    (\<forall>x\<in>R. x \<notin> span m 32 \<longrightarrow> mem s' x = mem s x)"
proof -
  let ?ds = "dec_rev (unat num)"
  have len: "length ?ds \<le> 10" by (rule dec_rev_word)
  then have len31: "length ?ds < 2 ^ 31" by simp
  from len have sub: "span m (Suc (length ?ds)) \<subseteq> span m 32" "span m (length ?ds) \<subseteq> span m 32" by (intro span_mono; simp)+
  obtain n q s1 s2 s3 where u: "uintTostring_loop st num m s = Inr (n, q, s1)" "st q (i2stable ! unat n) s1 = Inr s2"
    "st (q + 1) 0 s2 = Inr s3" "ok s3" "rest s3 = rest s" "cstr (mem s3) m ?ds"
    "\<forall>x\<in>R. x \<notin> span m (Suc (length ?ds)) \<longrightarrow> mem s3 x = mem s x"
    using uintTostring_digits [OF assms(1) order_trans [OF sub(1) assms(2)]] by blast
  obtain s' where s': "strrevers ld st m s3 = Inr (m, s')" "ok s'" "rest s' = rest s3" "cstr (mem s') m (rev ?ds)"
    "\<forall>x\<in>R. x \<notin> span m (length ?ds) \<longrightarrow> mem s' x = mem s3 x"
    using strrevers_ok [OF u(4,6) order_trans [OF sub(1) assms(2)] len31] by blast
  have "uintTostring ld st m num s = Inr (m, s')" using u(1-3) s'(1) by (simp add: uintTostring_def)
  moreover have "\<forall>x\<in>R. x \<notin> span m 32 \<longrightarrow> mem s' x = mem s x"
  proof (intro ballI impI)
    fix x assume x: "x \<in> R" "x \<notin> span m 32"
    then have "x \<notin> span m (length ?ds)" "x \<notin> span m (Suc (length ?ds))" using sub by auto
    then show "mem s' x = mem s x" using s'(5) u(7) x(1) by simp
  qed
  ultimately show ?thesis using s'(2-4) u(5) unfolding decimal_def by auto
qed

section \<open>Hexadecimal numbers\<close>

text \<open>Two stores that append a character to a string.\<close>

lemma append_char:
  assumes s: "ok s" "cstr (mem s) a bs" and sub: "span a (Suc (Suc (length bs))) \<subseteq> R" and b: "b \<noteq> 0"
    and len: "Suc (Suc (length bs)) < 2 ^ 32"
  shows "\<exists>s1 s2. st (a + of_nat (length bs)) b s = Inr s1 \<and> st (a + of_nat (length bs) + 1) 0 s1 = Inr s2 \<and> ok s2 \<and>
    rest s2 = rest s \<and> cstr (mem s2) a (bs @ [b]) \<and> (\<forall>x\<in>R. x \<notin> span a (Suc (Suc (length bs))) \<longrightarrow> mem s2 x = mem s x)"
proof -
  let ?n = "length bs"
  let ?p = "a + of_nat ?n" and ?q = "a + of_nat (Suc ?n)"
  have q: "?p + 1 = ?q" by (simp add: algebra_simps)
  have m: "?p \<in> span a (Suc (Suc ?n))" "?q \<in> span a (Suc (Suc ?n))" by (intro span_mem; simp)+
  obtain s1 where s1: "st ?p b s = Inr s1" "ok s1" "rest s1 = rest s" "\<forall>x\<in>R. mem s1 x = ((mem s)(?p := b)) x"
    using st_ok [OF s(1), of ?p b] m sub by auto
  obtain s2 where s2: "st ?q 0 s1 = Inr s2" "ok s2" "rest s2 = rest s1" "\<forall>x\<in>R. mem s2 x = ((mem s1)(?q := 0)) x"
    using st_ok [OF s1(2), of ?q 0] m sub by auto
  have m2: "mem s2 (a + of_nat i) = (if i = Suc ?n then 0 else if i = ?n then b else mem s (a + of_nat i))"
    if i: "i < Suc (Suc ?n)" for i
  proof -
    have "a + of_nat i \<in> R" using span_mem [OF i, of a] sub by blast
    moreover have "a + of_nat i = ?p \<longleftrightarrow> i = ?n" "a + of_nat i = ?q \<longleftrightarrow> i = Suc ?n"
      using span_inj [of i ?n a] span_inj [of i "Suc ?n" a] i len by simp_all
    ultimately show ?thesis using s1(4) s2(4) by simp
  qed
  have old: "\<forall>i<?n. mem s (a + of_nat i) = bs ! i" "0 \<notin> set bs" using s(2) unfolding cstr_nth by blast+
  have "mem s2 (a + of_nat i) = (bs @ [b]) ! i" if "i < Suc ?n" for i
    using m2 [of i] old(1) that by (auto simp: nth_append less_Suc_eq)
  then have "cstr (mem s2) a (bs @ [b])" using m2 [of "Suc ?n"] old(2) b unfolding cstr_nth by auto
  moreover have "\<forall>x\<in>R. x \<notin> span a (Suc (Suc ?n)) \<longrightarrow> mem s2 x = mem s x" using s1(4) s2(4) m by auto
  moreover have "rest s2 = rest s" using s1(3) s2(3) by simp
  ultimately show ?thesis unfolding q using s1(1) s2(1,2) by blast
qed

lemma func_s_ok:
  "ok s \<Longrightarrow> span a 9 \<subseteq> R \<Longrightarrow>
   \<exists>r s'. func_s ld st a n 16 s = Inr (r, s') \<and> ok s' \<and> rest s' = rest s \<and> cstr (mem s') a (hexd (unat n)) \<and>
     (\<forall>x\<in>R. x \<notin> span a 9 \<longrightarrow> mem s' x = mem s x)"
proof (induction "unat n" arbitrary: n s rule: less_induct)
  case less
  show ?case
  proof (cases "n = 0")
    case True
    have a: "a \<in> span a 9" using span_mem [of 0 9 a] by simp
    then obtain s' where s': "st a 0 s = Inr s'" "ok s'" "rest s' = rest s" "\<forall>x\<in>R. mem s' x = ((mem s)(a := 0)) x"
      using st_ok [OF less.prems(1), of a 0] less.prems(2) by blast
    moreover have "\<forall>x\<in>R. x \<notin> span a 9 \<longrightarrow> mem s' x = mem s x" using s'(4) a by auto
    moreover have "mem s' a = 0" using s'(4) a less.prems(2) by auto
    ultimately show ?thesis using True by (simp add: func_s.simps)
  next
    case False
    then have n0: "unat n \<noteq> 0" by (simp add: unat_eq_0)
    let ?m = "n div 16"
    have um: "unat ?m = unat n div 16" by (simp add: unat_div)
    then have lt: "unat ?m < unat n" using n0 by simp
    obtain r s1 where f: "func_s ld st a ?m 16 s = Inr (r, s1)" "ok s1" "rest s1 = rest s" "cstr (mem s1) a (hexd (unat ?m))"
      "\<forall>x\<in>R. x \<notin> span a 9 \<longrightarrow> mem s1 x = mem s x"
      using less.hyps [OF lt less.prems(1,2)] by blast
    let ?bs = "hexd (unat ?m)" and ?b = "bit_table ! (unat n mod 16)"
    have hx: "hexd (unat n) = ?bs @ [?b]" using n0 um by (simp add: hexd.simps [of "unat n"])
    have "length (hexd (unat n)) \<le> 8" using hex8_hexd(1) by (rule hexd_length)
    then have len: "Suc (Suc (length ?bs)) \<le> 9" using hx by simp
    have sub: "span a (Suc (Suc (length ?bs))) \<subseteq> span a 9" "span a (Suc (length ?bs)) \<subseteq> span a 9"
      using len by (intro span_mono; simp)+
    have sl: "strlen ld a s1 = Inr (of_nat (length ?bs))"
      using strlen_ok [OF f(2,4) order_trans [OF sub(2) less.prems(2)]] .
    obtain s2 s3 where c: "st (a + of_nat (length ?bs)) ?b s1 = Inr s2" "st (a + of_nat (length ?bs) + 1) 0 s2 = Inr s3"
      "ok s3" "rest s3 = rest s1" "cstr (mem s3) a (?bs @ [?b])"
      "\<forall>x\<in>R. x \<notin> span a (Suc (Suc (length ?bs))) \<longrightarrow> mem s3 x = mem s1 x"
      using append_char [OF f(2,4) order_trans [OF sub(1) less.prems(2)] bit_table_nonzero [of "unat n mod 16"]] len by auto
    have "func_s ld st a n 16 s = Inr (1, s3)"
      using False f(1) sl c(1,2) by (subst func_s.simps) (simp add: unat_mod)
    moreover have "mem s3 x = mem s x" if "x \<in> R" "x \<notin> span a 9" for x
      using c(6) f(5) that sub by auto
    ultimately show ?thesis using c(3-5) f(3) hx by auto
  qed
qed

lemma fill_ok:
  "ok s \<Longrightarrow> span a k \<subseteq> R \<Longrightarrow> \<exists>s'. foldE (\<lambda>i. st (a + of_int i) v) [0..int k - 1] s = Inr s' \<and> ok s' \<and> rest s' = rest s \<and>
     (\<forall>x\<in>R. mem s' x = (if x \<in> span a k then v else mem s x))"
proof (induction k)
  case (Suc k)
  have sp: "span a (Suc k) = insert (a + of_nat k) (span a k)" by (auto simp: span_def lessThan_Suc)
  have up: "[0..int (Suc k) - 1] = [0..int k - 1] @ [int k]" using upto_rec2 [of 0 "int k"] by simp
  obtain t where t: "foldE (\<lambda>i. st (a + of_int i) v) [0..int k - 1] s = Inr t" "ok t" "rest t = rest s"
    "\<forall>x\<in>R. mem t x = (if x \<in> span a k then v else mem s x)"
    using Suc sp by auto
  obtain s' where s': "st (a + of_nat k) v t = Inr s'" "ok s'" "rest s' = rest t" "\<forall>x\<in>R. mem s' x = ((mem t)(a + of_nat k := v)) x"
    using st_ok [OF t(2), of "a + of_nat k" v] Suc.prems(2) sp by auto
  have "foldE (\<lambda>i. st (a + of_int i) v) [0..int (Suc k) - 1] s = Inr s'"
    unfolding up foldE_append t(1) using s'(1) by simp
  moreover have "\<forall>x\<in>R. mem s' x = (if x \<in> span a (Suc k) then v else mem s x)" using s'(4) t(4) sp by auto
  ultimately show ?case using s'(2,3) t(3) by auto
qed simp

lemma num2hexstr_ok:
  assumes s: "ok s" and n: "n \<noteq> 0"
    and sub: "span (static_hexstr a) 11 \<subseteq> R" "span (temp_arry a) 9 \<subseteq> R" "span (temp_arry2 a) 9 \<subseteq> R"
    and dis: "span (static_hexstr a) 11 \<inter> span (temp_arry a) 9 = {}" "span (static_hexstr a) 11 \<inter> span (temp_arry2 a) 9 = {}"
      "span (temp_arry a) 9 \<inter> span (temp_arry2 a) 9 = {}"
  shows "\<exists>s'. num2hexstr ld st a n need0x s = Inr (static_hexstr a, s') \<and> ok s' \<and> rest s' = rest s \<and>
    cstr (mem s') (static_hexstr a) ((if need0x then [48, 120] else []) @ hex8 (unat n)) \<and>
    (\<forall>x\<in>R. x \<notin> span (static_hexstr a) 11 \<union> span (temp_arry a) 9 \<union> span (temp_arry2 a) 9 \<longrightarrow> mem s' x = mem s x)"
proof -
  let ?H = "static_hexstr a" and ?A = "temp_arry a" and ?B = "temp_arry2 a" and ?bs = "hexd (unat n)"
  let ?L = "length ?bs"
  have H: "?H \<in> span ?H 11" "?H + 1 \<in> span ?H 11" using span_mem [of 0 11 ?H] span_mem [of 1 11 ?H] by simp_all
  have L: "?L \<le> 8" using hex8_hexd(1) by (rule hexd_length)
  have sL: "span ?A (Suc ?L) \<subseteq> span ?A 9" "span ?B (Suc ?L) \<subseteq> span ?B 9" using L by (intro span_mono; simp)+
  have R: "span ?A (Suc ?L) \<subseteq> R" "span ?B (Suc ?L) \<subseteq> R" using sL sub(2,3) by auto
  have d1: "span ?B (Suc ?L) \<inter> span ?A (Suc ?L) = {}" using sL dis(3) by auto
  have LL: "Suc ?L < 2 ^ 32" using L by simp
  obtain s1 where s1: "st ?H 48 s = Inr s1" "ok s1" "rest s1 = rest s" "\<forall>x\<in>R. mem s1 x = ((mem s)(?H := 48)) x"
    using st_ok [OF s, of ?H 48] H sub(1) by blast
  obtain s2 where s2: "st (?H + 1) 120 s1 = Inr s2" "ok s2" "rest s2 = rest s1" "\<forall>x\<in>R. mem s2 x = ((mem s1)(?H + 1 := 120)) x"
    using st_ok [OF s1(2), of "?H + 1" 120] H sub(1) by blast
  obtain s3 where s3: "memset st ?A 0 9 s2 = Inr s3" "ok s3" "rest s3 = rest s2"
    "\<forall>x\<in>R. mem s3 x = (if x \<in> span ?A 9 then 0 else mem s2 x)"
    using memset_ok [OF s2(2), of ?A 9 0] sub(2) by auto
  obtain r s4 where s4: "func_s ld st ?A n 16 s3 = Inr (r, s4)" "ok s4" "rest s4 = rest s3" "cstr (mem s4) ?A ?bs"
    "\<forall>x\<in>R. x \<notin> span ?A 9 \<longrightarrow> mem s4 x = mem s3 x"
    using func_s_ok [OF s3(2) sub(2)] by blast
  obtain s5 where s5: "memset st ?B 0 9 s4 = Inr s5" "ok s5" "rest s5 = rest s4"
    "\<forall>x\<in>R. mem s5 x = (if x \<in> span ?B 9 then 0 else mem s4 x)"
    using memset_ok [OF s4(2), of ?B 9 0] sub(3) by auto
  have f5: "\<forall>x\<in>R. x \<notin> span ?B 9 \<longrightarrow> mem s5 x = mem s4 x" using s5(4) by simp
  have c5: "cstr (mem s5) ?A ?bs" by (rule cstr_keep [OF s4(4) R(1) f5]) (use dis(3) sL in auto)
  obtain s6 where s6: "strcpy ld st ?B ?A s5 = Inr (?B, s6)" "ok s6" "rest s6 = rest s5" "cstr (mem s6) ?B ?bs"
    "\<forall>x\<in>R. x \<notin> span ?B (Suc ?L) \<longrightarrow> mem s6 x = mem s5 x"
    using strcpy_ok [OF s5(2) c5 R(2,1) d1 LL] by blast
  have c6: "cstr (mem s6) ?A ?bs" by (rule cstr_keep [OF c5 R(1) s6(5) d1])
  have len: "strlen ld ?A s6 = Inr (of_nat ?L)" using strlen_ok [OF s6(2) c6] sL sub(2) by blast
  define k where "k = 8 - ?L"
  have off: "8 - of_nat ?L = (of_nat k :: uint32)" using L by (simp add: k_def of_nat_diff)
  have soff: "sint (of_nat k :: uint32) = int k" by (simp add: signed_of_nat signed_take_bit_int_eq_self_iff k_def)
  have sk: "span (?A + of_nat k) (Suc ?L) \<subseteq> span ?A 9" using L by (intro span_shift) (simp add: k_def)
  have d2: "span (?A + of_nat k) (Suc ?L) \<inter> span ?B (Suc ?L) = {}" using sk sL dis(3) by auto
  obtain s7 where s7: "strcpy ld st (?A + of_nat k) ?B s6 = Inr (?A + of_nat k, s7)" "ok s7" "rest s7 = rest s6"
    "cstr (mem s7) (?A + of_nat k) ?bs" "\<forall>x\<in>R. x \<notin> span (?A + of_nat k) (Suc ?L) \<longrightarrow> mem s7 x = mem s6 x"
    using strcpy_ok [OF s6(2,4) order_trans [OF sk sub(2)] R(2) d2 LL] by blast
  have sf: "span ?A k \<subseteq> span ?A 9" by (intro span_mono) (simp add: k_def)
  obtain s8 where s8: "foldE (\<lambda>i. st (?A + of_int i) 48) [0..int k - 1] s7 = Inr s8" "ok s8" "rest s8 = rest s7"
    "\<forall>x\<in>R. mem s8 x = (if x \<in> span ?A k then 48 else mem s7 x)"
    using fill_ok [OF s7(2) order_trans [OF sf sub(2)]] by blast
  have c8: "cstr (mem s8) ?A (hex8 (unat n))"
  proof -
    have "mem s8 x = mem s7 x" if x: "x \<in> span (?A + of_nat k) (Suc ?L)" for x
    proof -
      have "x \<notin> span ?A k"
      proof
        assume "x \<in> span ?A k"
        then obtain i j where i: "i < k" "j < Suc ?L" "?A + of_nat i = ?A + of_nat (k + j)"
          using x by (auto simp: span_def algebra_simps)
        moreover have "k \<le> 8" by (simp add: k_def)
        then have "i < 2 ^ 32" "k + j < 2 ^ 32" using i(1,2) L by simp_all
        ultimately show False using span_inj [of i "k + j" ?A] by simp
      qed
      then show ?thesis using s8(4) x sk sub(2) by (simp add: subset_iff)
    qed
    then have "cstr (mem s8) (?A + of_nat k) ?bs" using s7(4) cstr_cong by blast
    moreover have "mem s8 (?A + of_nat i) = 48" if "i < k" for i
      using s8(4) span_mem [OF that, of ?A] sf sub(2) by (simp add: subset_iff)
    ultimately have "cstr (mem s8) ?A (replicate k 48 @ ?bs)" by (simp add: cstr_append)
    then show ?thesis unfolding k_def hex8_hexd(2) .
  qed
  let ?d = "if need0x then 2 else 0 :: uint32"
  have h8: "length (hex8 (unat n)) = 8" by (simp add: hex8_def)
  have sd: "span (?H + ?d) 9 \<subseteq> span ?H 11" using span_shift [of "if need0x then 2 else 0" 9 11 ?H] by auto
  have nine: "Suc 8 = 9" by simp
  have d3: "span (?H + ?d) 9 \<inter> span ?A 9 = {}" using sd dis(1) by auto
  obtain s9 where s9: "strcpy ld st (?H + ?d) ?A s8 = Inr (?H + ?d, s9)" "ok s9" "rest s9 = rest s8"
    "cstr (mem s9) (?H + ?d) (hex8 (unat n))" "\<forall>x\<in>R. x \<notin> span (?H + ?d) 9 \<longrightarrow> mem s9 x = mem s8 x"
    using strcpy_ok [OF s8(2) c8, unfolded h8 nine, OF order_trans [OF sd sub(1)] sub(2) d3] by auto
  have run: "num2hexstr ld st a n need0x s = Inr (?H, s9)"
    using n s1(1) s2(1) s3(1) s4(1) s5(1) s6(1) len s7(1) s8(1) s9(1) off soff by (simp add: num2hexstr_def Let_def)
  have fr: "mem s8 x = mem s2 x" if "x \<in> R" "x \<notin> span ?A 9" "x \<notin> span ?B 9" for x
  proof -
    have "x \<notin> span ?A k" "x \<notin> span (?A + of_nat k) (Suc ?L)" "x \<notin> span ?B (Suc ?L)" using that(2,3) sL sk sf by auto
    then show ?thesis using that s3(4) s4(5) s5(4) s6(5) s7(5) s8(4) by simp
  qed
  have "cstr (mem s9) ?H ((if need0x then [48, 120] else []) @ hex8 (unat n))"
  proof (cases need0x)
    case True
    have ns: "?H \<notin> span (?H + 2) 9" "?H + 1 \<notin> span (?H + 2) 9"
      using span_not_mem [of 10 ?H] span_not_mem [of 9 "?H + 1"] span_Suc [of "?H + 1" 9] by (simp_all add: add.assoc)
    then have "mem s9 ?H = 48" "mem s9 (?H + 1) = 120"
      using s9(5) fr [of ?H] fr [of "?H + 1"] H sub(1) dis(1,2) s1(4) s2(4) True by (auto simp: subset_iff)
    then show ?thesis using s9(4) True by (simp add: add.assoc)
  qed (use s9(4) in simp)
  moreover have "mem s9 x = mem s x" if "x \<in> R" "x \<notin> span ?H 11 \<union> span ?A 9 \<union> span ?B 9" for x
    using that s9(5) fr [of x] sd s1(4) s2(4) H by auto
  ultimately show ?thesis using run s9(2,3) s8(3) s7(3) s6(3) s5(3) s4(3) s3(3) s2(3) s1(3) by auto
qed

end

end
