(* ===== verification/StringProps.thy ===== *)
theory StringProps
  imports StringNums
begin

text \<open>The properties of the string routines, on the flat memory of the kernel.\<close>

section \<open>Numbers\<close>

text \<open>
  C37. \<^verbatim>\<open>uintTostring\<close> returns the decimal representation of every 32-bit number, without leading
  zeros, in its static buffer; reading the digits back gives the number; no byte outside the
  buffer changes.
\<close>

theorem uintTostring_decimal:
  "\<exists>h'. uintTostring flat_ld flat_st m num h = Inr (m, h') \<and> cstr h' m (decimal (unat num)) \<and>
    value_of (decimal (unat num)) 0 = unat num \<and> (\<forall>x. x \<notin> span m 32 \<longrightarrow> h' x = h x)"
  using flat.uintTostring_ok [where s = h and m = m and num = num] value_decimal by auto

theorem uintTostring_decimal_witness:
  "\<exists>h'. uintTostring flat_ld flat_st 0x1000 1203 (\<lambda>_. 0) = Inr (0x1000, h') \<and> cstr h' 0x1000 [49, 50, 48, 51] \<and> h' 0x1020 = 0"
proof -
  have d: "decimal (unat (1203 :: uint32)) = [49, 50, 48, 51]" by (simp add: decimal_def dec_rev.simps)
  have "(0x1020 :: uint32) \<notin> span 0x1000 32"
    using span_inj [of 32 _ "0x1000"] by (auto simp: span_def)
  then show ?thesis using uintTostring_decimal [of "0x1000" 1203 "\<lambda>_. 0"] unfolding d by auto
qed

text \<open>
  \<^verbatim>\<open>num2hexstr\<close> returns eight hexadecimal digits, behind \<^verbatim>\<open>0x\<close> on request, for every 32-bit
  number; only its static buffer and its two local arrays change.
\<close>

theorem num2hexstr_hex8:
  assumes "span (static_hexstr a) 11 \<inter> span (temp_arry a) 9 = {}" "span (static_hexstr a) 11 \<inter> span (temp_arry2 a) 9 = {}"
    "span (temp_arry a) 9 \<inter> span (temp_arry2 a) 9 = {}" "cstr h (lit_0x a) (48 # 120 # replicate 8 48)"
    "cstr h (lit_0 a) (replicate 8 48)"
  shows "\<exists>p h'. num2hexstr flat_ld flat_st a n need0x h = Inr (p, h') \<and>
    cstr h' p ((if need0x then [48, 120] else []) @ hex8 (unat n)) \<and>
    (\<forall>x. x \<notin> span (static_hexstr a) 11 \<union> span (temp_arry a) 9 \<union> span (temp_arry2 a) 9 \<longrightarrow> h' x = h x)"
proof (cases "n = 0")
  case True
  have h0: "hex8 (unat n) = replicate 8 48"
    unfolding hex8_def True by (rule nth_equalityI) (simp_all add: bit_table_def)
  show ?thesis
  proof (cases need0x)
    case True
    then show ?thesis using \<open>n = 0\<close> assms(4) unfolding h0
      by (intro exI [of _ "lit_0x a"] exI [of _ h]) (simp add: num2hexstr_def)
  next
    case False
    then show ?thesis using \<open>n = 0\<close> assms(5) unfolding h0
      by (intro exI [of _ "lit_0 a"] exI [of _ h]) (simp add: num2hexstr_def)
  qed
next
  case False
  then show ?thesis using flat.num2hexstr_ok [where s = h and n = n and a = a and need0x = need0x] assms(1-3) by auto
qed

definition demo_hex :: hex_addrs where
  "demo_hex = \<lparr>static_hexstr = 0x1000, temp_arry = 0x2000, temp_arry2 = 0x3000, lit_0x = 0x4000, lit_0 = 0x5000\<rparr>"

definition demo_text :: flat where
  "demo_text x = (if x = 0x4001 then 120 else if 0x4000 \<le> x \<and> x < 0x400A then 48 else if 0x5000 \<le> x \<and> x < 0x5008 then 48 else 0)"

lemma span_sep:
  assumes "unat a + m \<le> unat b" "unat b + n \<le> 2 ^ 32"
  shows "span a m \<inter> span b n = {}"
proof (rule ccontr)
  assume "span a m \<inter> span b n \<noteq> {}"
  then obtain i j where ij: "i < m" "j < n" "a + of_nat i = b + of_nat j" by (auto simp: span_def)
  have "unat (of_nat i :: uint32) = i" "unat (of_nat j :: uint32) = j"
    using ij assms unat_lt_32 [of b] by (auto intro!: unat_of_nat_32)
  then have u: "unat (a + of_nat i) = (unat a + i) mod 2 ^ 32" "unat (b + of_nat j) = (unat b + j) mod 2 ^ 32"
    by (simp_all add: unat_word_ariths)
  have "unat a + i < 2 ^ 32" "unat b + j < 2 ^ 32" using ij(1,2) assms unat_lt_32 [of b] by linarith+
  then have "unat a + i = unat b + j" using u ij(3) by simp
  then show False using ij(1) assms(1) by simp
qed

theorem num2hexstr_hex8_witness:
  "\<exists>p h'. num2hexstr flat_ld flat_st demo_hex 0xC0DE True demo_text = Inr (p, h') \<and>
    cstr h' p [48, 120, 48, 48, 48, 48, 67, 48, 68, 69]"
proof -
  have eight: "replicate 8 (48 :: byte) = [48, 48, 48, 48, 48, 48, 48, 48]" by (simp add: eval_nat_numeral)
  have "hex8 (unat (0xC0DE :: uint32)) = [48, 48, 48, 48, 67, 48, 68, 69]" by (simp add: hex8_def bit_table_def upt_rec)
  moreover have "span (static_hexstr demo_hex) 11 \<inter> span (temp_arry demo_hex) 9 = {}"
    "span (static_hexstr demo_hex) 11 \<inter> span (temp_arry2 demo_hex) 9 = {}"
    "span (temp_arry demo_hex) 9 \<inter> span (temp_arry2 demo_hex) 9 = {}"
    by (intro span_sep; simp add: demo_hex_def)+
  moreover have "cstr demo_text (lit_0x demo_hex) (48 # 120 # replicate 8 48)" "cstr demo_text (lit_0 demo_hex) (replicate 8 48)"
    unfolding eight by (simp_all add: demo_hex_def demo_text_def)
  ultimately show ?thesis using num2hexstr_hex8 [of demo_hex demo_text "0xC0DE" True] by auto
qed

section \<open>Comparison\<close>

lemma strcmp_loop_below:
  "cstr h a xs \<Longrightarrow> cstr h b ys \<Longrightarrow> list_all2 (\<lambda>x y. sint x \<le> sint y) xs ys \<Longrightarrow> strcmp_loop flat_ld a b h = Some (Inr 0)"
proof (induction xs arbitrary: a b ys)
  case Nil
  then show ?case by (subst strcmp_loop.simps) (simp add: flat_ld_def)
next
  case (Cons x xs)
  then obtain y zs where ys: "ys = y # zs" by (auto simp: list_all2_Cons1)
  then have "strcmp_loop flat_ld (a + 1) (b + 1) h = Some (Inr 0)"
    using Cons.IH [of "a + 1" "b + 1" zs] Cons.prems by simp
  then show ?case using Cons.prems ys by (subst strcmp_loop.simps) (auto simp: flat_ld_def [of a] flat_ld_def [of b])
qed

text \<open>
  \<^verbatim>\<open>strcmp\<close> does not compare: whenever each character of the first string is at most the
  corresponding one of the second, the result is 0, that of equal strings.
\<close>

theorem strcmp_misses_difference:
  assumes "cstr h a xs" "cstr h b ys" "length xs = length ys" "\<forall>i<length xs. sint (xs ! i) \<le> sint (ys ! i)"
  shows "strcmp flat_ld a b h = Inr 0"
  using strcmp_loop_below [OF assms(1,2)] assms(3,4) by (simp add: strcmp_def list_all2_conv_all_nth)

theorem strcmp_misses_difference_witness:
  "strcmp flat_ld 16 32 ((\<lambda>_. 0)(16 := 97, 32 := 98)) = Inr 0"
  by (rule strcmp_misses_difference [of _ _ "[97]" _ "[98]"]) simp_all

end
