(* ===== verification/Vga.thy ===== *)
theory Vga
  imports Kernel Strings
begin

text \<open>
  \<^verbatim>\<open>src/kernel/drivers/vga/vga_basic.c\<close>: the text console. The video memory has 25 rows of 80
  cells of two bytes, character and attribute, at virtual address \<open>0xC00B8000\<close>.
\<close>

section \<open>State\<close>

datatype vga_color_t = black | blue | green | cyan | red | magenta | brown | light_grey | dark_grey | light_blue
  | light_green | light_cyan | light_red | light_magenta | yellow | white

fun color_code :: "vga_color_t \<Rightarrow> uint32" where
  "color_code black = 0"
| "color_code blue = 1"
| "color_code green = 2"
| "color_code cyan = 3"
| "color_code red = 4"
| "color_code magenta = 5"
| "color_code brown = 6"
| "color_code light_grey = 7"
| "color_code dark_grey = 8"
| "color_code light_blue = 9"
| "color_code light_green = 10"
| "color_code light_cyan = 11"
| "color_code light_red = 12"
| "color_code light_magenta = 13"
| "color_code yellow = 14"
| "color_code white = 15"

record vga =
  cursor_x :: byte
  cursor_y :: byte
  con :: kernel

abbreviation video_memory :: uint32 where "video_memory \<equiv> 0xC00B8000"
abbreviation tab_length :: nat where "tab_length \<equiv> 4"

section \<open>Operations\<close>

definition cursorLocation :: "vga \<Rightarrow> uint16" where
  "cursorLocation v = ucast (cursor_y v) * 80 + ucast (cursor_x v)"

definition move_cursor :: "vga \<Rightarrow> vga" where
  "move_cursor v =
     (let loc = cursorLocation v
      in v\<lparr>con := outb 0x3D5 (ucast loc) (outb 0x3D4 15 (outb 0x3D5 (ucast (drop_bit 8 loc)) (outb 0x3D4 14 (con v))))\<rparr>)"

definition move_cursor_by_XY :: "byte \<Rightarrow> byte \<Rightarrow> vga \<Rightarrow> vga" where
  "move_cursor_by_XY x y v = (if x > 79 \<or> y > 24 then v else move_cursor (v\<lparr>cursor_x := x, cursor_y := y\<rparr>))"

text \<open>One assignment of the copy loop: the two bytes of a cell, one row up.\<close>

definition copy_cell :: "nat \<times> nat \<Rightarrow> kernel \<Rightarrow> fault + kernel" where
  "copy_cell ji k = (case ji of (j, i) \<Rightarrow>
     let src = video_memory + 2 * ucast (of_nat (j * 80 + i) :: uint16);
         dst = video_memory + 2 * ucast (of_nat ((j - 1) * 80 + i) :: uint16)
     in bindE (load8 src k) (\<lambda>lo. bindE (load8 (src + 1) k) (\<lambda>hi.
        bindE (store8 dst lo k) (store8 (dst + 1) hi))))"

text \<open>The assignment of \<^verbatim>\<open>(0x0F<<8)|'\0'\<close> to a cell of the last row.\<close>

definition clear_cell :: "nat \<Rightarrow> kernel \<Rightarrow> fault + kernel" where
  "clear_cell i k =
     (let a = video_memory + 2 * of_nat (24 * 80 + i)
      in bindE (store8 a 0 k) (store8 (a + 1) 0x0F))"

definition screen_uproll_once :: "vga \<Rightarrow> fault + vga" where
  "screen_uproll_once v =
     bindE (foldE copy_cell [(j, i). j \<leftarrow> [1..<25], i \<leftarrow> [0..<80]] (con v)) (\<lambda>k1.
     bindE (foldE clear_cell [0..<80] k1) (\<lambda>k2.
       let v' = v\<lparr>con := k2\<rparr>
       in Inr (if cursor_y v' \<noteq> 0 then move_cursor (v'\<lparr>cursor_y := cursor_y v' - 1\<rparr>) else v')))"

definition vga_putc :: "byte \<Rightarrow> vga_color_t \<Rightarrow> vga_color_t \<Rightarrow> vga \<Rightarrow> fault + vga" where
  "vga_putc input back fore v =
     (let a = video_memory + 2 * ucast (cursorLocation v)
      in bindE (store8 a input (con v)) (\<lambda>k1.
         bindE (store8 (a + 1) (ucast (push_bit 4 (color_code back) OR (color_code fore AND 0x0F))) k1) (\<lambda>k2.
           let v1 = v\<lparr>con := k2\<rparr>
           in bindE (if cursor_x v1 = 79
                     then if cursor_y v1 = 24
                          then bindE (screen_uproll_once v1) (\<lambda>v2. Inr (v2\<lparr>cursor_x := 0, cursor_y := 24\<rparr>))
                          else Inr (v1\<lparr>cursor_x := 0, cursor_y := cursor_y v1 + 1\<rparr>)
                     else Inr (v1\<lparr>cursor_x := cursor_x v1 + 1\<rparr>))
                (\<lambda>v3. Inr (move_cursor v3)))))"

definition clear_screen :: "vga \<Rightarrow> fault + vga" where
  "clear_screen v =
     bindE (foldE (\<lambda>_. vga_putc 0 black white) [(j, i). j \<leftarrow> [0..<25], i \<leftarrow> [0..<80]] (v\<lparr>cursor_x := 0, cursor_y := 0\<rparr>)) (\<lambda>v1.
       Inr (move_cursor (v1\<lparr>cursor_x := 0, cursor_y := 0\<rparr>)))"

definition kputc_color :: "byte \<Rightarrow> vga_color_t \<Rightarrow> vga_color_t \<Rightarrow> vga \<Rightarrow> fault + vga" where
  "kputc_color input back fore v =
     (if input = 9 then foldE (\<lambda>_. vga_putc 0 back fore) [0..<tab_length] v
      else if input = 10
      then let temp_num = 80 - cursor_x v;
               temp_num' = (if temp_num = 0 then 80 else temp_num)
           in foldE (\<lambda>_. vga_putc 0 back fore) [0..<unat temp_num'] v
      else vga_putc input back fore v)"

definition kputc :: "byte \<Rightarrow> vga \<Rightarrow> fault + vga" where
  "kputc input = kputc_color input black white"

partial_function (option) kputs_loop :: "uint32 \<Rightarrow> vga_color_t \<Rightarrow> vga_color_t \<Rightarrow> vga \<Rightarrow> (fault + vga) option" where
  "kputs_loop probe back fore v =
     (case load8 probe (con v) of
        Inl e \<Rightarrow> Some (Inl e)
      | Inr b \<Rightarrow>
          if b \<noteq> 0
          then (case kputc_color b back fore v of
                  Inl e \<Rightarrow> Some (Inl e)
                | Inr v' \<Rightarrow> kputs_loop (probe + 1) back fore v')
          else Some (Inr v))"

definition kputs_color :: "uint32 \<Rightarrow> vga_color_t \<Rightarrow> vga_color_t \<Rightarrow> vga \<Rightarrow> fault + vga" where
  "kputs_color input_str back fore v = joinE (kputs_loop input_str back fore v)"

definition kputs :: "uint32 \<Rightarrow> vga \<Rightarrow> fault + vga" where
  "kputs input_str = kputs_color input_str black white"

definition vga_init :: "vga \<Rightarrow> fault + vga" where
  "vga_init = clear_screen"

end
