(* ===== verification/VgaScreen.thy ===== *)
theory VgaScreen
  imports Vga
begin

text \<open>
  The console as a screen of 2000 cells with a cursor position: every operation keeps the cursor
  on the screen, writes only video memory, and acts on the cells as the reference definitions
  below say.
\<close>

section \<open>The abstract screen\<close>

type_synonym cells = "nat \<Rightarrow> byte \<times> byte"

definition scroll :: "cells \<Rightarrow> cells" where
  "scroll c = (\<lambda>i. if i < 1920 then c (i + 80) else (0, 0x0F))"

definition putc_spec :: "byte \<times> byte \<Rightarrow> cells \<times> nat \<Rightarrow> cells \<times> nat" where
  "putc_spec x s = (case s of (c, p) \<Rightarrow> if p = 1999 then (scroll (c(p := x)), 1920) else (c(p := x), p + 1))"

definition kputc_spec :: "byte \<Rightarrow> byte \<Rightarrow> cells \<times> nat \<Rightarrow> cells \<times> nat" where
  "kputc_spec attr b s =
     (if b = 9 then (putc_spec (0, attr) ^^ 4) s
      else if b = 10 then (putc_spec (0, attr) ^^ (80 - snd s mod 80)) s
      else putc_spec (b, attr) s)"

text \<open>Two screens that agree on their cells.\<close>

definition same_screen :: "cells \<times> nat \<Rightarrow> cells \<times> nat \<Rightarrow> bool" where
  "same_screen s t \<longleftrightarrow> snd s = snd t \<and> (\<forall>i<2000. fst s i = fst t i)"

lemma same_screen_refl [simp]: "same_screen s s"
  by (simp add: same_screen_def)

lemma putc_spec_cong: "same_screen s t \<Longrightarrow> same_screen (putc_spec x s) (putc_spec x t)"
  by (auto simp: same_screen_def putc_spec_def scroll_def split: prod.splits)

lemma putc_pow_cong: "same_screen s t \<Longrightarrow> same_screen ((putc_spec x ^^ n) s) ((putc_spec x ^^ n) t)"
  by (induction n) (auto intro: putc_spec_cong)

lemma kputc_spec_cong: "same_screen s t \<Longrightarrow> same_screen (kputc_spec a b s) (kputc_spec a b t)"
proof -
  assume s: "same_screen s t"
  then have "snd s = snd t" by (simp add: same_screen_def)
  then show ?thesis using s by (simp add: kputc_spec_def putc_spec_cong putc_pow_cong)
qed

lemma same_screen_trans: "same_screen s t \<Longrightarrow> same_screen t u \<Longrightarrow> same_screen s u"
  by (auto simp: same_screen_def)

section \<open>The concrete screen\<close>

definition cell_addr :: "nat \<Rightarrow> uint32" where
  "cell_addr i = video_memory + of_nat (2 * i)"

definition screen :: "kernel \<Rightarrow> cells" where
  "screen k i = (vmem k (cell_addr i), vmem k (cell_addr i + 1))"

definition pos :: "vga \<Rightarrow> nat" where
  "pos v = unat (cursor_y v) * 80 + unat (cursor_x v)"

abbreviation video :: "uint32 set" where "video \<equiv> span video_memory 4000"

definition vga_ok :: "uint32 set \<Rightarrow> uint32 set \<Rightarrow> vga \<Rightarrow> bool" where
  "vga_ok I R v \<longleftrightarrow> stable I R (con v) \<and> video \<subseteq> R \<and> cursor_x v < 80 \<and> cursor_y v < 25"

text \<open>\<open>k'\<close> differs from \<open>k\<close> at most in the video memory and in the log of port accesses.\<close>

definition only_video :: "uint32 set \<Rightarrow> uint32 set \<Rightarrow> kernel \<Rightarrow> kernel \<Rightarrow> bool" where
  "only_video I R k k' \<longleftrightarrow> (rest_of I k')\<lparr>io_log := []\<rparr> = (rest_of I k)\<lparr>io_log := []\<rparr> \<and>
     (\<forall>x\<in>R. x \<notin> video \<longrightarrow> vmem k' x = vmem k x)"

lemma only_video_refl [simp]: "only_video I R k k"
  by (simp add: only_video_def)

lemma only_video_trans: "only_video I R k k1 \<Longrightarrow> only_video I R k1 k2 \<Longrightarrow> only_video I R k k2"
  by (simp add: only_video_def)

lemma cell_addr_eq: "cell_addr i + 1 = video_memory + of_nat (2 * i + 1)"
  by (simp add: cell_addr_def algebra_simps)

lemma cell_in: "i < 2000 \<Longrightarrow> cell_addr i \<in> video" "i < 2000 \<Longrightarrow> cell_addr i + 1 \<in> video"
  unfolding cell_addr_eq unfolding cell_addr_def by (rule span_mem; simp)+

lemma cell_inj:
  assumes "i < 2000" "j < 2000"
  shows "cell_addr i = cell_addr j \<longleftrightarrow> i = j" "cell_addr i + 1 = cell_addr j + 1 \<longleftrightarrow> i = j" "cell_addr i \<noteq> cell_addr j + 1"
    "cell_addr i + 1 \<noteq> cell_addr j"
proof -
  show "cell_addr i = cell_addr j \<longleftrightarrow> i = j" "cell_addr i \<noteq> cell_addr j + 1"
    unfolding cell_addr_eq unfolding cell_addr_def using assms by (subst span_inj; simp; presburger)+
  show "cell_addr i + 1 \<noteq> cell_addr j"
    unfolding cell_addr_eq unfolding cell_addr_def using assms by (subst span_inj; simp; presburger)
  then show "cell_addr i + 1 = cell_addr j + 1 \<longleftrightarrow> i = j" using \<open>cell_addr i = cell_addr j \<longleftrightarrow> i = j\<close> by simp
qed

lemma outb_vga [simp]: "stable I R (outb p b k) = stable I R k" "vmem (outb p b k) = vmem k"
  "only_video I R (outb p b k) k' = only_video I R k k'" "only_video I R k0 (outb p b k) = only_video I R k0 k"
proof -
  have tr: "translate ((outb p b k)\<lparr>pmem := h\<rparr>) = translate (k\<lparr>pmem := h\<rparr>)" for h
    by (rule ext) (simp add: translate_def pde_paddr_def outb_def Let_def)
  have tr0: "translate (outb p b k) = translate k"
    by (rule ext) (simp add: translate_def pde_paddr_def outb_def Let_def)
  show "stable I R (outb p b k) = stable I R k"
    unfolding stable_def tr tr0 by (simp add: outb_def)
  show v: "vmem (outb p b k) = vmem k"
    by (rule ext) (simp add: vmem_def tr0, simp add: outb_def)
  show "only_video I R (outb p b k) k' = only_video I R k k'" "only_video I R k0 (outb p b k) = only_video I R k0 k"
    unfolding only_video_def v by (simp_all add: rest_of_def outb_def cong: if_cong)
qed

text \<open>Writing one cell.\<close>

lemma store_cell:
  assumes k: "stable I R k" "video \<subseteq> R" and i: "i < 2000"
  shows "\<exists>k'. bindE (store8 (cell_addr i) a k) (store8 (cell_addr i + 1) b) = Inr k' \<and> stable I R k' \<and> only_video I R k k' \<and>
    (\<forall>j<2000. screen k' j = (if j = i then (a, b) else screen k j))"
proof -
  have R: "cell_addr i \<in> R" "cell_addr i + 1 \<in> R" using cell_in [OF i] k(2) by auto
  obtain k1 where k1: "store8 (cell_addr i) a k = Inr k1" "stable I R k1" "rest_of I k1 = rest_of I k"
    "\<forall>x\<in>R. vmem k1 x = ((vmem k)(cell_addr i := a)) x"
    using mmu.st_ok [OF k(1) R(1)] by blast
  obtain k2 where k2: "store8 (cell_addr i + 1) b k1 = Inr k2" "stable I R k2" "rest_of I k2 = rest_of I k1"
    "\<forall>x\<in>R. vmem k2 x = ((vmem k1)(cell_addr i + 1 := b)) x"
    using mmu.st_ok [OF k1(2) R(2)] by blast
  have "only_video I R k k2"
    unfolding only_video_def using k1(3,4) k2(3,4) cell_in [OF i] by auto
  moreover have "screen k2 j = (if j = i then (a, b) else screen k j)" if j: "j < 2000" for j
  proof -
    have "cell_addr j \<in> R" "cell_addr j + 1 \<in> R" using cell_in [OF j] k(2) by auto
    then show ?thesis using k1(4) k2(4) cell_inj [OF i j] cell_inj [OF j i] by (auto simp: screen_def)
  qed
  ultimately show ?thesis using k1(1) k2(1,2) by auto
qed

section \<open>Scrolling\<close>

lemma cell16: "n < 2000 \<Longrightarrow> video_memory + 2 * ucast (of_nat n :: uint16) = cell_addr n"
proof -
  assume "n < 2000"
  then have "unat (of_nat n :: uint16) = n" by (simp add: unat_of_nat take_bit_nat_eq_self)
  then have "(ucast (of_nat n :: uint16) :: uint32) = of_nat n" by (metis of_nat_unat)
  then show ?thesis by (simp add: cell_addr_def)
qed

text \<open>What copying cell \<open>m\<close> one row up does to the cells.\<close>

definition shift_cell :: "nat \<Rightarrow> cells \<Rightarrow> cells" where
  "shift_cell m c = c(m - 80 := c m)"

lemma copy_cell_ok:
  assumes k: "stable I R k" "video \<subseteq> R" and ji: "1 \<le> j" "j < 25" "i < 80"
  shows "\<exists>k'. copy_cell (j, i) k = Inr k' \<and> stable I R k' \<and> only_video I R k k' \<and>
    (\<forall>n<2000. screen k' n = shift_cell (j * 80 + i) (screen k) n)"
proof -
  let ?n = "j * 80 + i"
  have n: "?n < 2000" "?n - 80 < 2000" using ji by simp_all
  have m: "(j - 1) * 80 + i = ?n - 80" using ji(1) by (cases j) simp_all
  have R: "cell_addr ?n \<in> R" "cell_addr ?n + 1 \<in> R" using cell_in [OF n(1)] k(2) by auto
  have "load8 (cell_addr ?n) k = Inr (fst (screen k ?n))" "load8 (cell_addr ?n + 1) k = Inr (snd (screen k ?n))"
    using mmu.ld_ok [OF k(1) R(1)] mmu.ld_ok [OF k(1) R(2)] by (simp_all add: screen_def)
  then have "copy_cell (j, i) k =
      bindE (store8 (cell_addr (?n - 80)) (fst (screen k ?n)) k) (store8 (cell_addr (?n - 80) + 1) (snd (screen k ?n)))"
    unfolding copy_cell_def prod.case Let_def m cell16 [OF n(1)] cell16 [OF n(2)] by simp
  then show ?thesis using store_cell [OF k n(2), of "fst (screen k ?n)" "snd (screen k ?n)"]
    by (auto simp: shift_cell_def)
qed

lemma copy_cells_ok:
  assumes "stable I R k" "video \<subseteq> R" "\<forall>(j, i)\<in>set ps. 1 \<le> j \<and> j < 25 \<and> i < 80"
  shows "\<exists>k'. foldE copy_cell ps k = Inr k' \<and> stable I R k' \<and> only_video I R k k' \<and>
    (\<forall>n<2000. screen k' n = fold shift_cell (map (\<lambda>(j, i). j * 80 + i) ps) (screen k) n)"
  using assms
proof (induction ps rule: rev_induct)
  case (snoc p ps)
  obtain j i where p: "p = (j, i)" by (cases p)
  have ji: "1 \<le> j" "j < 25" "i < 80" using snoc.prems(3) p by auto
  obtain k1 where k1: "foldE copy_cell ps k = Inr k1" "stable I R k1" "only_video I R k k1"
    "\<forall>n<2000. screen k1 n = fold shift_cell (map (\<lambda>(j, i). j * 80 + i) ps) (screen k) n"
    using snoc by auto
  obtain k2 where k2: "copy_cell (j, i) k1 = Inr k2" "stable I R k2" "only_video I R k1 k2"
    "\<forall>n<2000. screen k2 n = shift_cell (j * 80 + i) (screen k1) n"
    using copy_cell_ok [OF k1(2) snoc.prems(2) ji] by blast
  have "j * 80 + i < 2000" using ji by simp
  then have "shift_cell (j * 80 + i) (screen k1) n = shift_cell (j * 80 + i) (fold shift_cell (map (\<lambda>(j, i). j * 80 + i) ps) (screen k)) n"
    if "n < 2000" for n using k1(4) that by (simp add: shift_cell_def)
  then show ?case using k1 k2 only_video_trans [OF k1(3) k2(3)] p
    by (intro exI [of _ k2]) (simp add: foldE_append)
qed auto

lemma clear_cells_ok:
  assumes "stable I R k" "video \<subseteq> R" "m \<le> 80"
  shows "\<exists>k'. foldE clear_cell [0..<m] k = Inr k' \<and> stable I R k' \<and> only_video I R k k' \<and>
    (\<forall>n<2000. screen k' n = (if 1920 \<le> n \<and> n < 1920 + m then (0, 0x0F) else screen k n))"
  using assms(3)
proof (induction m)
  case (Suc m)
  then obtain k1 where k1: "foldE clear_cell [0..<m] k = Inr k1" "stable I R k1" "only_video I R k k1"
    "\<forall>n<2000. screen k1 n = (if 1920 \<le> n \<and> n < 1920 + m then (0, 0x0F) else screen k n)"
    by auto
  have m: "1920 + m < 2000" using Suc.prems by simp
  have a: "video_memory + 2 * of_nat (24 * 80 + m) = cell_addr (1920 + m)" by (simp add: cell_addr_def)
  obtain k2 where k2: "clear_cell m k1 = Inr k2" "stable I R k2" "only_video I R k1 k2"
    "\<forall>n<2000. screen k2 n = (if n = 1920 + m then (0, 0x0F) else screen k1 n)"
    using store_cell [OF k1(2) assms(2) m, of 0 "0x0F"] unfolding clear_cell_def Let_def a by blast
  have "\<forall>n<2000. screen k2 n = (if 1920 \<le> n \<and> n < 1920 + Suc m then (0, 0x0F) else screen k n)"
    using k1(4) k2(4) by auto
  then show ?case using k1(1) k2(1,2) only_video_trans [OF k1(3) k2(3)] by (auto simp: foldE_append)
qed (use assms(1) in auto)

lemma shift_fold: "fold shift_cell [80..<80 + m] c = (\<lambda>i. if i < m then c (i + 80) else c i)"
proof (induction m)
  case (Suc m)
  have "[80..<80 + Suc m] = [80..<80 + m] @ [80 + m]" using upt_Suc_append [of 80 "80 + m"] by simp
  then show ?case using Suc by (auto simp: fun_eq_iff less_Suc_eq shift_cell_def add.commute)
qed simp

lemma linear_cells: "map (\<lambda>(j, i). j * 80 + i) [(j, i). j \<leftarrow> [1..<Suc r], i \<leftarrow> [0..<80]] = [80..<80 + 80 * r]"
proof (induction r)
  case (Suc r)
  have "map ((\<lambda>(j, i). j * 80 + i) \<circ> Pair (Suc r)) [0..<80] = [80 + 80 * r..<80 + 80 * r + 80]"
    by (rule nth_equalityI) simp_all
  moreover have "[80..<80 + 80 * Suc r] = [80..<80 + 80 * r] @ [80 + 80 * r..<80 + 80 * r + 80]"
    by (subst upt_add_eq_append [symmetric]) simp_all
  ultimately show ?case using Suc by (simp del: upt_Suc add: upt_Suc_append)
qed simp

lemma uproll_ok:
  assumes k: "stable I R (con v)" "video \<subseteq> R"
  shows "\<exists>v'. screen_uproll_once v = Inr v' \<and> stable I R (con v') \<and> only_video I R (con v) (con v') \<and>
    (\<forall>n<2000. screen (con v') n = scroll (screen (con v)) n) \<and> cursor_x v' = cursor_x v"
proof -
  let ?ps = "[(j, i). j \<leftarrow> [1..<25], i \<leftarrow> [0..<80]]"
  have "\<forall>(j, i)\<in>set ?ps. 1 \<le> j \<and> j < 25 \<and> i < 80" by auto
  then obtain k1 where k1: "foldE copy_cell ?ps (con v) = Inr k1" "stable I R k1" "only_video I R (con v) k1"
    "\<forall>n<2000. screen k1 n = fold shift_cell (map (\<lambda>(j, i). j * 80 + i) ?ps) (screen (con v)) n"
    using copy_cells_ok [OF k] by blast
  have lin: "map (\<lambda>(j, i). j * 80 + i) ?ps = [80..<80 + 1920]" using linear_cells [of 24] by simp
  obtain k2 where k2: "foldE clear_cell [0..<80] k1 = Inr k2" "stable I R k2" "only_video I R k1 k2"
    "\<forall>n<2000. screen k2 n = (if 1920 \<le> n \<and> n < 1920 + 80 then (0, 0x0F) else screen k1 n)"
    using clear_cells_ok [OF k1(2) k(2), of 80] by blast
  have sc: "\<forall>n<2000. screen k2 n = scroll (screen (con v)) n"
    using k1(4) k2(4) unfolding lin shift_fold by (auto simp: scroll_def)
  define v' where "v' = (let v' = v\<lparr>con := k2\<rparr> in if cursor_y v' \<noteq> 0 then move_cursor (v'\<lparr>cursor_y := cursor_y v' - 1\<rparr>) else v')"
  have "screen_uproll_once v = Inr v'" unfolding screen_uproll_once_def k1(1) bindE_Inr k2(1) by (simp add: v'_def Let_def)
  moreover have "stable I R (con v')" "only_video I R (con v) (con v')" "cursor_x v' = cursor_x v" "screen (con v') = screen k2"
    using k2(2) only_video_trans [OF k1(3) k2(3)] by (auto simp: v'_def Let_def move_cursor_def screen_def fun_eq_iff)
  ultimately show ?thesis using sc by auto
qed

section \<open>Printing\<close>

definition vga_state :: "vga \<Rightarrow> cells \<times> nat" where
  "vga_state v = (screen (con v), pos v)"

definition attr_of :: "vga_color_t \<Rightarrow> vga_color_t \<Rightarrow> byte" where
  "attr_of back fore = ucast (push_bit 4 (color_code back) OR (color_code fore AND 0x0F))"

lemma move_cursor_simps [simp]: "cursor_x (move_cursor v) = cursor_x v" "cursor_y (move_cursor v) = cursor_y v"
  "vga_state (move_cursor v) = vga_state v" "vga_ok I R (move_cursor v) = vga_ok I R v"
  "only_video I R k (con (move_cursor v)) = only_video I R k (con v)"
  by (simp_all add: move_cursor_def Let_def vga_state_def screen_def pos_def vga_ok_def fun_eq_iff)

lemma pos_less: "cursor_x v < 80 \<Longrightarrow> cursor_y v < 25 \<Longrightarrow> pos v < 2000"
proof -
  assume "cursor_x v < 80" "cursor_y v < 25"
  then have "unat (cursor_x v) < 80" "unat (cursor_y v) < 25" by (simp_all add: word_less_nat_alt)
  then show ?thesis by (simp add: pos_def)
qed

lemma cursor_cell:
  assumes "cursor_x v < 80" "cursor_y v < 25"
  shows "video_memory + 2 * ucast (cursorLocation v) = cell_addr (pos v)"
proof -
  have u: "(ucast b :: uint16) = of_nat (unat b)" for b :: byte by simp
  have "cursorLocation v = of_nat (pos v)" unfolding cursorLocation_def pos_def u by simp
  then show ?thesis using cell16 pos_less [OF assms] by simp
qed

lemma vga_putc_ok:
  assumes v: "vga_ok I R v"
  shows "\<exists>v'. vga_putc c back fore v = Inr v' \<and> vga_ok I R v' \<and> only_video I R (con v) (con v') \<and>
    same_screen (vga_state v') (putc_spec (c, attr_of back fore) (vga_state v))"
proof -
  let ?x = "(c, attr_of back fore)"
  note ok = v [unfolded vga_ok_def]
  have xy: "unat (cursor_x v) < 80" "unat (cursor_y v) < 25" using ok by (simp_all add: word_less_nat_alt)
  have p: "pos v < 2000" using ok pos_less by blast
  obtain k2 where k2: "bindE (store8 (cell_addr (pos v)) c (con v)) (store8 (cell_addr (pos v) + 1) (attr_of back fore)) = Inr k2"
    "stable I R k2" "only_video I R (con v) k2"
    "\<forall>j<2000. screen k2 j = (if j = pos v then ?x else screen (con v) j)"
    using store_cell [OF _ _ p] ok by blast
  have a: "video_memory + 2 * ucast (cursorLocation v) = cell_addr (pos v)" using cursor_cell ok by blast
  define v1 where "v1 = v\<lparr>con := k2\<rparr>"
  have run: "vga_putc c back fore v =
    bindE (if cursor_x v1 = 79
           then if cursor_y v1 = 24
                then bindE (screen_uproll_once v1) (\<lambda>v2. Inr (v2\<lparr>cursor_x := 0, cursor_y := 24\<rparr>))
                else Inr (v1\<lparr>cursor_x := 0, cursor_y := cursor_y v1 + 1\<rparr>)
           else Inr (v1\<lparr>cursor_x := cursor_x v1 + 1\<rparr>)) (\<lambda>v3. Inr (move_cursor v3))"
    unfolding vga_putc_def Let_def a attr_of_def [symmetric] v1_def
    using k2(1) by (cases "store8 (cell_addr (pos v)) c (con v)") simp_all
  have fin: ?thesis if "vga_putc c back fore v = Inr (move_cursor w)" "vga_ok I R w" "only_video I R (con v) (con w)"
    "same_screen (vga_state w) (putc_spec ?x (vga_state v))" for w
    using that by simp
  consider (scroll) "cursor_x v = 79" "cursor_y v = 24" | (line) "cursor_x v = 79" "cursor_y v \<noteq> 24" | (cell) "cursor_x v \<noteq> 79"
    by blast
  then show ?thesis
  proof cases
    case scroll
    obtain v2 where v2: "screen_uproll_once v1 = Inr v2" "stable I R (con v2)" "only_video I R k2 (con v2)"
      "\<forall>n<2000. screen (con v2) n = scroll (screen k2) n"
      using uproll_ok [of I R v1] k2(2) ok by (auto simp: v1_def)
    have "pos v = 1999" using scroll by (simp add: pos_def)
    moreover have "vga_putc c back fore v = Inr (move_cursor (v2\<lparr>cursor_x := 0, cursor_y := 24\<rparr>))"
      using run scroll v2(1) by (simp add: v1_def)
    ultimately show ?thesis using k2(4) v2 ok only_video_trans [OF k2(3) v2(3)]
      by (intro fin [of "v2\<lparr>cursor_x := 0, cursor_y := 24\<rparr>"])
        (auto simp: vga_ok_def vga_state_def same_screen_def putc_spec_def scroll_def, simp add: pos_def)
  next
    case line
    have "unat (cursor_x v) = 79" using line by simp
    moreover have y: "unat (cursor_y v) \<noteq> 24" using line(2) by (auto simp: word_unat_eq_iff)
    ultimately have "unat (cursor_y v) < 24" "pos v = unat (cursor_y v) * 80 + 79" using xy by (simp_all add: pos_def)
    moreover from this have "unat (cursor_y v + 1) = unat (cursor_y v) + 1" by (simp add: unat_word_ariths)
    ultimately show ?thesis using run line k2 ok
      by (intro fin [of "v1\<lparr>cursor_x := 0, cursor_y := cursor_y v1 + 1\<rparr>"]) (auto simp: v1_def vga_ok_def vga_state_def same_screen_def putc_spec_def pos_def word_less_nat_alt)
  next
    case cell
    then have "unat (cursor_x v) \<noteq> 79" by (auto simp: word_unat_eq_iff)
    then have x: "unat (cursor_x v) < 79" using xy by simp
    moreover from this have "unat (cursor_x v + 1) = unat (cursor_x v) + 1" by (simp add: unat_word_ariths)
    moreover have "pos v \<noteq> 1999" using x xy unfolding pos_def by presburger
    ultimately show ?thesis using run cell k2 ok
      by (intro fin [of "v1\<lparr>cursor_x := cursor_x v1 + 1\<rparr>"]) (auto simp: v1_def vga_ok_def vga_state_def same_screen_def putc_spec_def pos_def word_less_nat_alt)
  qed
qed

lemma vga_putc_repeat:
  assumes v: "vga_ok I R v"
  shows "\<exists>v'. foldE (\<lambda>_. vga_putc c back fore) xs v = Inr v' \<and> vga_ok I R v' \<and> only_video I R (con v) (con v') \<and>
    same_screen (vga_state v') ((putc_spec (c, attr_of back fore) ^^ length xs) (vga_state v))"
proof (induction xs rule: rev_induct)
  case (snoc x xs)
  let ?f = "putc_spec (c, attr_of back fore)"
  obtain v1 where v1: "foldE (\<lambda>_. vga_putc c back fore) xs v = Inr v1" "vga_ok I R v1" "only_video I R (con v) (con v1)"
    "same_screen (vga_state v1) ((?f ^^ length xs) (vga_state v))"
    using snoc by blast
  obtain v2 where v2: "vga_putc c back fore v1 = Inr v2" "vga_ok I R v2" "only_video I R (con v1) (con v2)"
    "same_screen (vga_state v2) (?f (vga_state v1))"
    using vga_putc_ok [OF v1(2)] by blast
  have "same_screen (vga_state v2) (?f ((?f ^^ length xs) (vga_state v)))"
    by (rule same_screen_trans [OF v2(4) putc_spec_cong [OF v1(4)]])
  then show ?case using v1(1) v2(1,2) only_video_trans [OF v1(3) v2(3)] by (simp add: foldE_append)
qed (use v in simp)

lemma kputc_color_ok:
  assumes v: "vga_ok I R v"
  shows "\<exists>v'. kputc_color b back fore v = Inr v' \<and> vga_ok I R v' \<and> only_video I R (con v) (con v') \<and>
    same_screen (vga_state v') (kputc_spec (attr_of back fore) b (vga_state v))"
proof -
  have x: "unat (cursor_x v) < 80" using v by (simp add: vga_ok_def word_less_nat_alt)
  have col: "snd (vga_state v) mod 80 = unat (cursor_x v)" using x by (simp add: vga_state_def pos_def)
  have "cursor_x v \<le> 80" using x by (simp add: word_le_nat_alt)
  then have n: "unat (80 - cursor_x v) = 80 - unat (cursor_x v)" by (simp add: unat_sub)
  then have "80 - cursor_x v \<noteq> 0" using x by (auto simp: word_unat_eq_iff)
  then have nl: "kputc_color 10 back fore v = foldE (\<lambda>_. vga_putc 0 back fore) [0..<80 - snd (vga_state v) mod 80] v"
    unfolding col by (simp add: kputc_color_def Let_def n)
  consider "b = 9" | "b = 10" | "b \<noteq> 9" "b \<noteq> 10" by blast
  then show ?thesis
  proof cases
    case 1
    then show ?thesis using vga_putc_repeat [OF v, of 0 "back" fore "[0..<4]"] by (simp add: kputc_color_def kputc_spec_def)
  next
    case 2
    then show ?thesis using vga_putc_repeat [OF v, of 0 "back" fore "[0..<80 - snd (vga_state v) mod 80]"] nl
      by (simp add: kputc_spec_def)
  next
    case 3
    then show ?thesis using vga_putc_ok [OF v, of b "back" fore] by (simp add: kputc_color_def kputc_spec_def)
  qed
qed

lemma fold_cong_screen: "same_screen s t \<Longrightarrow> same_screen (fold (kputc_spec a) bs s) (fold (kputc_spec a) bs t)"
  by (induction bs arbitrary: s t) (simp_all add: kputc_spec_cong)

text \<open>A whole string: the bytes before the terminating zero, one after the other.\<close>

lemma kputs_loop_ok:
  assumes "vga_ok I R v" "cstr (vmem (con v)) a bs" "span a (Suc (length bs)) \<subseteq> R" "video \<inter> span a (Suc (length bs)) = {}"
  shows "\<exists>v'. kputs_loop a back fore v = Some (Inr v') \<and> vga_ok I R v' \<and> only_video I R (con v) (con v') \<and>
    same_screen (vga_state v') (fold (kputc_spec (attr_of back fore)) bs (vga_state v))"
  using assms
proof (induction bs arbitrary: a v)
  case Nil
  then have "stable I R (con v)" "a \<in> R" "vmem (con v) a = 0" by (auto simp: vga_ok_def span_Suc)
  then have "load8 a (con v) = Inr 0" using mmu.ld_ok [of I R "con v" a] by simp
  then show ?case using Nil(1) by (simp add: kputs_loop.simps [of a])
next
  case (Cons b bs)
  let ?n = "Suc (length bs)" and ?f = "kputc_spec (attr_of back fore)"
  have sp: "span a (Suc ?n) = insert a (span (a + 1) ?n)" by (rule span_Suc)
  have "stable I R (con v)" "a \<in> R" "vmem (con v) a = b" using Cons.prems by (auto simp: vga_ok_def span_Suc)
  then have l: "load8 a (con v) = Inr b" "b \<noteq> 0" using mmu.ld_ok [of I R "con v" a] Cons.prems(2) by auto
  obtain v1 where v1: "kputc_color b back fore v = Inr v1" "vga_ok I R v1" "only_video I R (con v) (con v1)"
    "same_screen (vga_state v1) (?f b (vga_state v))"
    using kputc_color_ok [OF Cons.prems(1)] by blast
  have sub: "span (a + 1) ?n \<subseteq> R" "video \<inter> span (a + 1) ?n = {}" using Cons.prems(3,4) sp by auto
  have "cstr (vmem (con v1)) (a + 1) bs"
    by (rule cstr_keep [of "vmem (con v)" _ _ R video]) (use v1(3) Cons.prems(2) sub in \<open>auto simp: only_video_def\<close>)
  then obtain v2 where v2: "kputs_loop (a + 1) back fore v1 = Some (Inr v2)" "vga_ok I R v2" "only_video I R (con v1) (con v2)"
    "same_screen (vga_state v2) (fold ?f bs (vga_state v1))"
    using Cons.IH [OF v1(2) _ sub] by blast
  have "same_screen (fold ?f bs (vga_state v1)) (fold ?f bs (?f b (vga_state v)))" by (rule fold_cong_screen [OF v1(4)])
  then have "same_screen (vga_state v2) (fold ?f (b # bs) (vga_state v))" using same_screen_trans [OF v2(4)] by simp
  then show ?case using l v1(1) v2(1,2) only_video_trans [OF v1(3) v2(3)] by (simp add: kputs_loop.simps [of a])
qed

end
