(* ===== verification/VgaProps.thy ===== *)
theory VgaProps
  imports VgaScreen VmmInstance
begin

text \<open>
  What the console shows after printing and after clearing, with the demonstration machine of
  \<open>VmmInstance\<close> as the concrete input.
\<close>

section \<open>Repeated characters on the abstract screen\<close>

lemma putc_pow_pos:
  assumes "p + n \<le> 2000" "p < 2000"
  shows "snd ((putc_spec x ^^ n) (c, p)) = (if p + n = 2000 then 1920 else p + n)"
  using assms by (induction n) (auto simp: putc_spec_def split: prod.splits)

lemma putc_pow_fill:
  "n < 2000 \<Longrightarrow> (putc_spec x ^^ n) (c, 0) = (\<lambda>i. if i < n then x else c i, n)"
  by (induction n) (auto simp: putc_spec_def fun_eq_iff)

lemma putc_pow_blank: "same_screen ((putc_spec (0, 0x0F) ^^ 2000) (c, 0)) (\<lambda>_. (0, 0x0F), 1920)"
proof -
  have "(putc_spec (0, 0x0F) ^^ 2000) (c, 0) = putc_spec (0, 0x0F) ((putc_spec (0, 0x0F) ^^ 1999) (c, 0))"
    using funpow.simps(2) [of 1999 "putc_spec (0, 0x0F)"] by simp
  also have "\<dots> = (scroll (\<lambda>i. if i < 2000 then (0, 0x0F) else c i), 1920)"
    by (subst putc_pow_fill) (auto simp: putc_spec_def intro!: arg_cong [of _ _ scroll])
  finally show ?thesis by (simp add: same_screen_def scroll_def)
qed

section \<open>Properties\<close>

lemma kputs_color_run:
  assumes "vga_ok I R v" "cstr (vmem (con v)) a bs" "span a (Suc (length bs)) \<subseteq> R" "video \<inter> span a (Suc (length bs)) = {}"
  shows "\<exists>v'. kputs_color a back fore v = Inr v' \<and> vga_ok I R v' \<and> only_video I R (con v) (con v') \<and>
    same_screen (vga_state v') (fold (kputc_spec (attr_of back fore)) bs (vga_state v))"
  using kputs_loop_ok [OF assms, of "back" fore] by (auto simp: kputs_color_def)

text \<open>
  C35. Printing a string refines the abstract screen. For a NUL-terminated string outside the video
  memory, \<^verbatim>\<open>kputs_color\<close> returns without a fault, the 2000 cells and the cursor are those of the
  reference that feeds the characters one by one to a screen with tabs, newlines and scrolling,
  the cursor stays inside the 80 by 25 screen, and no memory but the video memory changes.
\<close>

theorem kputs_refines:
  assumes "vga_ok I R v" "cstr (vmem (con v)) a bs" "span a (Suc (length bs)) \<subseteq> R" "video \<inter> span a (Suc (length bs)) = {}"
  shows "\<exists>v'. kputs_color a back fore v = Inr v' \<and> vga_ok I R v' \<and> only_video I R (con v) (con v') \<and>
    same_screen (vga_state v') (fold (kputc_spec (attr_of back fore)) bs (vga_state v))"
  by (rule kputs_color_run [OF assms])

lemma kputc_newline_run:
  assumes v: "vga_ok I R v"
  shows "\<exists>v'. kputc 10 v = Inr v' \<and> cursor_x v' = 0 \<and> cursor_y v' = min 24 (cursor_y v + 1)"
proof -
  obtain v' where v': "kputc 10 v = Inr v'" "vga_ok I R v'"
    "same_screen (vga_state v') (kputc_spec (attr_of black white) 10 (vga_state v))"
    using kputc_color_ok [OF v, of 10 black white] unfolding kputc_def by blast
  have xy: "unat (cursor_x v) < 80" "unat (cursor_y v) < 25" "unat (cursor_x v') < 80" "unat (cursor_y v') < 25"
    using v v'(2) by (simp_all add: vga_ok_def word_less_nat_alt)
  let ?q = "unat (cursor_y v) * 80 + 80"
  have p: "pos v + (80 - pos v mod 80) = ?q" using xy by (simp add: pos_def)
  have "pos v < 2000" "?q \<le> 2000" using xy by (simp_all add: pos_def)
  then have "pos v' = (if ?q = 2000 then 1920 else ?q)"
    using v'(3) putc_pow_pos [of "pos v" "80 - pos v mod 80" "(0, attr_of black white)" "screen (con v)"] p
    by (simp add: same_screen_def vga_state_def kputc_spec_def)
  then have "unat (cursor_y v') * 80 + unat (cursor_x v') = min 24 (unat (cursor_y v) + 1) * 80"
    using xy by (auto simp: pos_def)
  from arg_cong [OF this, of "\<lambda>n. n mod 80"] arg_cong [OF this, of "\<lambda>n. n div 80"]
  have "unat (cursor_x v') = 0" "unat (cursor_y v') = min 24 (unat (cursor_y v) + 1)" using xy by simp_all
  moreover have "unat (cursor_y v + 1) = unat (cursor_y v) + 1" using xy by (simp add: unat_word_ariths)
  ultimately have "cursor_x v' = 0" "cursor_y v' = min 24 (cursor_y v + 1)"
    by (simp_all add: word_unat_eq_iff min_def word_le_nat_alt)
  then show ?thesis using v'(1) by blast
qed

text \<open>
  A newline puts the cursor at column 0 of the next row; on the last row it stays there, the
  screen having scrolled. The cursor never leaves the screen.
\<close>

theorem kputc_newline:
  assumes "vga_ok I R v"
  shows "\<exists>v'. kputc 10 v = Inr v' \<and> cursor_x v' = 0 \<and> cursor_y v' = min 24 (cursor_y v + 1)"
  by (rule kputc_newline_run [OF assms])

lemma clear_screen_run:
  assumes k: "stable I R (con v)" "video \<subseteq> R"
  shows "\<exists>v'. clear_screen v = Inr v' \<and> vga_ok I R v' \<and> only_video I R (con v) (con v') \<and>
    cursor_x v' = 0 \<and> cursor_y v' = 0 \<and> (\<forall>i<2000. screen (con v') i = (0, 0x0F))"
proof -
  let ?v = "v\<lparr>cursor_x := 0, cursor_y := 0\<rparr>" and ?xs = "[(j, i). j \<leftarrow> [0..<25], i \<leftarrow> [0..<80]] :: (nat \<times> nat) list"
  have ok: "vga_ok I R ?v" using k by (simp add: vga_ok_def)
  have len: "length ?xs = 2000" by (simp add: length_concat comp_def sum_list_triv)
  have at: "attr_of black white = 0x0F" by (simp add: attr_of_def)
  have st: "vga_state ?v = (screen (con v), 0)" by (simp add: vga_state_def pos_def)
  obtain v1 where v1: "foldE (\<lambda>_. vga_putc 0 black white) ?xs ?v = Inr v1" "vga_ok I R v1" "only_video I R (con ?v) (con v1)"
    "same_screen (vga_state v1) ((putc_spec (0, 0x0F) ^^ 2000) (screen (con v), 0))"
    using vga_putc_repeat [OF ok, of 0 black white ?xs] unfolding len at st by blast
  have blank: "\<forall>i<2000. screen (con v1) i = (0, 0x0F)"
    using same_screen_trans [OF v1(4) putc_pow_blank] by (simp add: same_screen_def vga_state_def)
  have "clear_screen v = Inr (move_cursor (v1\<lparr>cursor_x := 0, cursor_y := 0\<rparr>))"
    unfolding clear_screen_def v1(1) by simp
  moreover have "\<forall>i<2000. screen (con (move_cursor (v1\<lparr>cursor_x := 0, cursor_y := 0\<rparr>))) i = (0, 0x0F)"
    using blank by (simp add: move_cursor_def Let_def screen_def)
  moreover have "vga_ok I R (v1\<lparr>cursor_x := 0, cursor_y := 0\<rparr>)" using v1(2) by (simp add: vga_ok_def)
  ultimately show ?thesis using v1(3) by simp
qed

text \<open>
  Whatever the screen held, \<^verbatim>\<open>clear_screen\<close> leaves 2000 blank cells in white on black and
  the cursor in the top left corner, and changes no other memory (the 2000th character scrolls
  the screen once).
\<close>

theorem clear_screen_blank:
  assumes "stable I R (con v)" "video \<subseteq> R"
  shows "\<exists>v'. clear_screen v = Inr v' \<and> vga_ok I R v' \<and> only_video I R (con v) (con v') \<and>
    cursor_x v' = 0 \<and> cursor_y v' = 0 \<and> (\<forall>i<2000. screen (con v') i = (0, 0x0F))"
  by (rule clear_screen_run [OF assms])

section \<open>A concrete console\<close>

definition demo_data :: "uint32 set" where
  "demo_data = {p. p < 0x100000} \<union> demo_bytes"

definition demo_window :: "uint32 set" where
  "demo_window = {v. 0xC0000000 \<le> v \<and> v < 0xC0100000} \<union> {v. 0xC0300000 \<le> v \<and> v < 0xC0308000}"

lemma demo_data_off: "off_tables demo_data demo_kernel"
  unfolding off_tables_def
proof (intro ballI conjI allI impI)
  fix p assume p: "p \<in> demo_data"
  have b: "unat (page_base p) < 0x100000" if "p < 0x100000"
    using that by (simp add: unat_page_base word_less_nat_alt)
  show "page_base p \<noteq> page_base (cr3 demo_kernel)"
    using p b demo_d demo_off unfolding demo_data_def off_tables_def by auto
  fix v assume v: "mapped_dir demo_kernel v"
  then have "0x100000 \<le> unat (page_base (pde_of demo_kernel v))"
    using demo_table [of v] dir_less [of v] by (auto simp: demo_dir)
  then show "page_base p \<noteq> page_base (pde_of demo_kernel v)"
    using p b v demo_off unfolding demo_data_def off_tables_def by auto
qed

lemma demo_window_translate:
  assumes "v \<in> demo_window"
  shows "translate demo_kernel v = Some (v - 0xC0000000)" "v - 0xC0000000 \<in> demo_data"
proof -
  have v: "0xC0000000 \<le> unat v" "unat v < 0xC0100000 \<or> 0xC0300000 \<le> unat v \<and> unat v < 0xC0308000"
    using assms by (auto simp: demo_window_def word_le_nat_alt word_less_nat_alt)
  have le: "0xC0000000 \<le> v" using v(1) by (simp add: word_le_nat_alt)
  moreover have "v < 0xC0400000" using v(2) by (auto simp: word_less_nat_alt)
  ultimately show "translate demo_kernel v = Some (v - 0xC0000000)" by (rule demo_translate)
  have "unat (v - 0xC0000000) = unat v - 0xC0000000" using le by (simp add: unat_sub)
  then show "v - 0xC0000000 \<in> demo_data"
    using v by (auto simp: demo_data_def demo_bytes_def word_le_nat_alt word_less_nat_alt)
qed

lemma demo_data_stable: "stable demo_data demo_window demo_kernel"
  unfolding stable_def
proof (intro conjI)
  show "\<forall>v\<in>demo_window. \<exists>p\<in>demo_data. translate demo_kernel v = Some p" using demo_window_translate by blast
  show "inj_on (translate demo_kernel) demo_window" by (rule inj_onI) (simp add: demo_window_translate)
  show "\<forall>h. (\<forall>a. a \<notin> demo_data \<longrightarrow> h a = pmem demo_kernel a) \<longrightarrow>
    (\<forall>v\<in>demo_window. translate (demo_kernel\<lparr>pmem := h\<rparr>) v = translate demo_kernel v)"
    using off_tables_write(4) [OF demo_data_off] by blast
qed

lemma span_window:
  assumes "unat a + n \<le> 0xC0100000" "0xC0000000 \<le> unat a"
  shows "span a n \<subseteq> demo_window"
proof
  fix x assume "x \<in> span a n"
  then obtain i where i: "i < n" "x = a + of_nat i" by (auto simp: span_def)
  then have "unat (of_nat i :: uint32) = i" using assms by (intro unat_of_nat_32) simp
  then have "unat x = unat a + i" using i assms by (simp add: unat_word_ariths)
  then show "x \<in> demo_window" using i assms by (simp add: demo_window_def word_le_nat_alt word_less_nat_alt)
qed

lemma demo_video: "video \<subseteq> demo_window"
  by (rule span_window) simp_all

definition demo_vga :: vga where
  "demo_vga = \<lparr>cursor_x = 79, cursor_y = 24, con = demo_kernel\<rparr>"

lemma demo_vga_ok: "vga_ok demo_data demo_window demo_vga"
  unfolding vga_ok_def using demo_data_stable demo_video by (simp add: demo_vga_def)

text \<open>The last byte \<open>0xFF\<close> of the demonstration bitmap, printed in the last cell, scrolls the screen.\<close>

theorem kputs_refines_witness:
  "\<exists>v'. kputs_color 0xC0307F7F black white demo_vga = Inr v' \<and> pos v' = 1920 \<and> screen (con v') 1919 = (255, 15)"
proof -
  have h: "vmem demo_kernel 0xC0307F7F = 255" "vmem demo_kernel 0xC0307F80 = 0"
    using demo_bitmap_byte [of 32639] demo_bitmap_byte [of 32640] by simp_all
  then have str: "cstr (vmem (con demo_vga)) 0xC0307F7F [255]" by (simp add: demo_vga_def)
  have sp: "span (0xC0307F7F :: uint32) (Suc (length [255 :: byte])) = {0xC0307F7F, 0xC0307F80}"
    by (simp add: span_Suc)
  have sub: "{0xC0307F7F, 0xC0307F80} \<subseteq> demo_window" by (simp add: demo_window_def)
  have dis: "video \<inter> {0xC0307F7F, 0xC0307F80} = {}"
  proof -
    have "x < 0xC00B9000" if x: "x \<in> video" for x
    proof -
      obtain i where i: "i < 4000" "x = 0xC00B8000 + of_nat i" using x by (auto simp: span_def)
      then have "unat (of_nat i :: uint32) = i" by (intro unat_of_nat_32) simp
      then show ?thesis using i by (simp add: word_less_nat_alt unat_word_ariths)
    qed
    from this [of "0xC0307F7F"] this [of "0xC0307F80"] show ?thesis by auto
  qed
  have at: "attr_of black white = 15" by (simp add: attr_of_def)
  have st: "vga_state demo_vga = (screen demo_kernel, 1999)" by (simp add: vga_state_def pos_def demo_vga_def)
  obtain v' where "kputs_color 0xC0307F7F black white demo_vga = Inr v'"
    "same_screen (vga_state v') (fold (kputc_spec (attr_of black white)) [255] (vga_state demo_vga))"
    using kputs_refines [OF demo_vga_ok str, of black white] unfolding sp using sub dis by blast
  then show ?thesis unfolding at st
    by (auto simp: same_screen_def vga_state_def kputc_spec_def putc_spec_def scroll_def)
qed

theorem kputc_newline_witness: "\<exists>v'. kputc 10 demo_vga = Inr v' \<and> cursor_x v' = 0 \<and> cursor_y v' = 24"
  using kputc_newline [OF demo_vga_ok] by (simp add: demo_vga_def)

theorem clear_screen_blank_witness:
  "\<exists>v'. clear_screen demo_vga = Inr v' \<and> cursor_x v' = 0 \<and> cursor_y v' = 0 \<and> screen (con v') 1999 = (0, 0x0F)"
proof -
  have "stable demo_data demo_window (con demo_vga)" using demo_data_stable by (simp add: demo_vga_def)
  then show ?thesis using clear_screen_blank [OF _ demo_video] by fastforce
qed

end
