(* ===== verification/Printk.thy ===== *)
theory Printk
  imports Vga Sync
begin

text \<open>
  \<^verbatim>\<open>src/libs/printk/printk.c\<close>: formatted output. The format string is copied into a local array of
  100 bytes, and each conversion is replaced in place by its text. The addresses of the local
  and static arrays are parameters; the variable arguments are a list of words. The two loops
  of \<^verbatim>\<open>printk\<close> and \<^verbatim>\<open>printk_color\<close> are the same code, and so is \<open>printk_loop\<close>.
\<close>

section \<open>Formatting\<close>

record printk_addrs =
  staticArry :: uint32
  insert_m :: uint32
  dec_m :: uint32
  hex_m :: hex_addrs

definition insert_str :: "(uint32 \<Rightarrow> 's \<Rightarrow> fault + byte) \<Rightarrow> (uint32 \<Rightarrow> byte \<Rightarrow> 's \<Rightarrow> fault + 's) \<Rightarrow>
    uint32 \<Rightarrow> uint32 \<Rightarrow> uint32 \<Rightarrow> uint32 \<Rightarrow> 's \<Rightarrow> fault + 's" where
  "insert_str ld st m inserted_str inserting_str offset s =
     bindE (memset st m 0 100 s) (\<lambda>s0.
     bindE (strcpy ld st m (inserted_str + offset + 2) s0) (\<lambda>(_, s1).
     bindE (strlen ld inserting_str s1) (\<lambda>n1.
     bindE (memcpy ld st (inserted_str + offset) inserting_str n1 s1) (\<lambda>s2.
     bindE (strlen ld inserting_str s2) (\<lambda>n2.
     bindE (st (inserted_str + offset + n2) 0 s2) (\<lambda>s3.
     bindE (strcat ld st inserted_str m s3) (\<lambda>(_, s4). Inr s4)))))))"

text \<open>
  \<^verbatim>\<open>va_arg\<close> and the conversion of the argument: the string to insert, for the four conversions
  that take an argument. Taking more arguments than were passed is undefined.
\<close>

definition takes_arg :: "byte \<Rightarrow> bool" where
  "takes_arg c \<longleftrightarrow> c = 115 \<or> c = 100 \<or> c = 72 \<or> c = 104"

definition arg_string :: "(uint32 \<Rightarrow> 's \<Rightarrow> fault + byte) \<Rightarrow> (uint32 \<Rightarrow> byte \<Rightarrow> 's \<Rightarrow> fault + 's) \<Rightarrow>
    printk_addrs \<Rightarrow> byte \<Rightarrow> uint32 \<Rightarrow> 's \<Rightarrow> fault + (uint32 \<times> 's)" where
  "arg_string ld st A c arg s =
     (if c = 115 then Inr (arg, s)
      else if c = 100 then uintTostring ld st (dec_m A) arg s
      else num2hexstr ld st (hex_m A) arg (c = 72) s)"

text \<open>The branches for the character behind a percent sign: new offset, arguments left, memory.\<close>

definition printk_percent :: "(uint32 \<Rightarrow> 's \<Rightarrow> fault + byte) \<Rightarrow> (uint32 \<Rightarrow> byte \<Rightarrow> 's \<Rightarrow> fault + 's) \<Rightarrow>
    printk_addrs \<Rightarrow> uint32 \<Rightarrow> uint32 \<Rightarrow> uint32 list \<Rightarrow> 's \<Rightarrow> fault + (uint32 \<times> uint32 list \<times> 's)" where
  "printk_percent ld st A output_str offset args s =
     bindE (ld (output_str + offset + 1) s) (\<lambda>c.
       if takes_arg c
       then (case args of [] \<Rightarrow> Inl Undefined
             | arg # args' \<Rightarrow>
                 bindE (arg_string ld st A c arg s) (\<lambda>(p, s1).
                 bindE (insert_str ld st (insert_m A) output_str p offset s1) (\<lambda>s2.
                 bindE (strlen ld p s2) (\<lambda>n. Inr (offset + n - 1, args', s2)))))
       else Inr (offset, args, s))"

partial_function (option) printk_loop :: "(uint32 \<Rightarrow> 's \<Rightarrow> fault + byte) \<Rightarrow> (uint32 \<Rightarrow> byte \<Rightarrow> 's \<Rightarrow> fault + 's) \<Rightarrow>
    printk_addrs \<Rightarrow> uint32 \<Rightarrow> uint32 \<Rightarrow> uint32 list \<Rightarrow> 's \<Rightarrow> (fault + 's) option" where
  "printk_loop ld st A output_str offset args s =
     (case ld (output_str + offset) s of
        Inl e \<Rightarrow> Some (Inl e)
      | Inr c \<Rightarrow>
          if c = 0 then Some (Inr s)
          else (case (if c = 37 then printk_percent ld st A output_str offset args s else Inr (offset, args, s)) of
                  Inl e \<Rightarrow> Some (Inl e)
                | Inr r \<Rightarrow> printk_loop ld st A output_str (fst r + 1) (fst (snd r)) (snd (snd r))))"

definition printk_format :: "(uint32 \<Rightarrow> 's \<Rightarrow> fault + byte) \<Rightarrow> (uint32 \<Rightarrow> byte \<Rightarrow> 's \<Rightarrow> fault + 's) \<Rightarrow>
    printk_addrs \<Rightarrow> uint32 \<Rightarrow> uint32 list \<Rightarrow> 's \<Rightarrow> fault + 's" where
  "printk_format ld st A input_str args s =
     bindE (memset st (staticArry A) 0 100 s) (\<lambda>s0.
     bindE (strcpy ld st (staticArry A) input_str s0) (\<lambda>(_, s1).
       joinE (printk_loop ld st A (staticArry A) 0 args s1)))"

section \<open>Output\<close>

record printk_sys =
  p_vga :: vga
  p_nodes :: nodes
  printk_lock_init_flag :: bool
  printk_lock :: lock_t

definition printk_init_lock :: "printk_sys \<Rightarrow> printk_sys" where
  "printk_init_lock s = s\<lparr>printk_lock := lock_init (printk_lock s), printk_lock_init_flag := True\<rparr>"

definition printk_body :: "(uint32 \<Rightarrow> vga \<Rightarrow> fault + vga) \<Rightarrow> printk_addrs \<Rightarrow> uint32 \<Rightarrow> uint32 list \<Rightarrow> vga \<Rightarrow> fault + vga" where
  "printk_body put A input_str args v =
     bindE (printk_format load8 store8 A input_str args (con v)) (\<lambda>k. put (staticArry A) (v\<lparr>con := k\<rparr>))"

text \<open>
  The whole call, up to its end or up to the suspension of the thread in \<^verbatim>\<open>lock_acquire\<close>; \<open>wn\<close> is
  the address of the queue node of the thread.
\<close>

definition printk_with :: "(uint32 \<Rightarrow> vga \<Rightarrow> fault + vga) \<Rightarrow> printk_addrs \<Rightarrow> uint32 \<Rightarrow> uint32 \<Rightarrow> uint32 list \<Rightarrow> printk_sys \<Rightarrow>
    fault + (wait_flags option \<times> printk_sys)" where
  "printk_with put A wn input_str args s =
     (if printk_lock_init_flag s
      then bindE (lock_acquire wn (printk_lock s) (p_nodes s) (con (p_vga s))) (\<lambda>(w, l, h, k).
             let v = (p_vga s)\<lparr>con := k\<rparr>
             in case w of Some fl \<Rightarrow> Inr (Some fl, s\<lparr>p_vga := v, p_nodes := h, printk_lock := l\<rparr>)
                | None \<Rightarrow> bindE (printk_body put A input_str args v) (\<lambda>v'.
                    case lock_release l h (con v') of (l', h', k') \<Rightarrow>
                      Inr (None, s\<lparr>p_vga := v'\<lparr>con := k'\<rparr>, p_nodes := h', printk_lock := l'\<rparr>)))
      else bindE (printk_body put A input_str args (p_vga s)) (\<lambda>v'. Inr (None, s\<lparr>p_vga := v'\<rparr>)))"

definition printk :: "printk_addrs \<Rightarrow> uint32 \<Rightarrow> uint32 \<Rightarrow> uint32 list \<Rightarrow> printk_sys \<Rightarrow> fault + (wait_flags option \<times> printk_sys)" where
  "printk = printk_with kputs"

definition printk_color :: "vga_color_t \<Rightarrow> vga_color_t \<Rightarrow> printk_addrs \<Rightarrow> uint32 \<Rightarrow> uint32 \<Rightarrow> uint32 list \<Rightarrow> printk_sys \<Rightarrow>
    fault + (wait_flags option \<times> printk_sys)" where
  "printk_color back fore = printk_with (\<lambda>a. kputs_color a back fore)"

end
