(* ===== verification/PrintkFormat.thy ===== *)
theory PrintkFormat
  imports Printk SyncLock StringNums StringProps VgaProps
begin

text \<open>
  What \<^verbatim>\<open>printk\<close> prints: the reference \<open>fmt\<close> expands a format string, and the loop over the buffer
  computes it, as long as everything fits in the buffer of 100 bytes.
\<close>

section \<open>Inserting a string\<close>

context byte_memory
begin

lemma put_string:
  assumes s: "ok s" "\<forall>i<length pre. mem s (out + of_nat i) = pre ! i" "0 \<notin> set pre" "cstr (mem s) p bs"
    and sub: "span out 100 \<subseteq> R" "span p (Suc (length bs)) \<subseteq> R" "span p (Suc (length bs)) \<inter> span out 100 = {}"
    and len: "length pre + length bs < 100"
  shows "\<exists>s2 s3. memcpy ld st (out + of_nat (length pre)) p (of_nat (length bs)) s = Inr s2 \<and>
    strlen ld p s2 = Inr (of_nat (length bs)) \<and>
    st (out + of_nat (length pre) + of_nat (length bs)) 0 s2 = Inr s3 \<and>
    ok s3 \<and> rest s3 = rest s \<and> cstr (mem s3) out (pre @ bs) \<and> (\<forall>x\<in>R. x \<notin> span out 100 \<longrightarrow> mem s3 x = mem s x)"
proof -
  let ?q = "out + of_nat (length pre)"
  have n: "unat (of_nat (length bs) :: uint32) = length bs" using len by (intro unat_of_nat_32) simp
  have sq: "span ?q (Suc (length bs)) \<subseteq> span out 100" using len by (intro span_shift) simp
  have sq': "span ?q (length bs) \<subseteq> span ?q (Suc (length bs))" "span p (length bs) \<subseteq> span p (Suc (length bs))" by (intro span_mono; simp)+
  have d: "span ?q (length bs) \<subseteq> R" "span p (length bs) \<subseteq> R" "span ?q (length bs) \<inter> span p (length bs) = {}"
    using sq sq' sub by blast+
  obtain s2 where s2: "memcpy ld st ?q p (of_nat (length bs)) s = Inr s2" "ok s2" "rest s2 = rest s"
    "\<forall>i<length bs. mem s2 (?q + of_nat i) = mem s (p + of_nat i)" "\<forall>x\<in>R. x \<notin> span ?q (length bs) \<longrightarrow> mem s2 x = mem s x"
    using memcpy_ok [where s = s and dst = ?q and src = p and len = "of_nat (length bs)", unfolded n, OF s(1) d] by blast
  have c2: "cstr (mem s2) p bs" by (rule cstr_keep [OF s(4) sub(2) s2(5)]) (use sq sq' sub(3) in blast)
  have sl: "strlen ld p s2 = Inr (of_nat (length bs))" by (rule strlen_ok [OF s2(2) c2 sub(2)])
  have e: "?q + of_nat (length bs) \<in> R" using sq sub(1) span_mem [of "length bs" "Suc (length bs)" ?q] by blast
  obtain s3 where s3: "st (?q + of_nat (length bs)) 0 s2 = Inr s3" "ok s3" "rest s3 = rest s2"
    "\<forall>x\<in>R. mem s3 x = ((mem s2)(?q + of_nat (length bs) := 0)) x"
    using st_ok [OF s2(2) e] by blast
  have at: "out + of_nat i \<in> R" if "i < 100" for i using sub(1) span_mem [of i 100 out] that by blast
  have inj: "out + of_nat i = out + of_nat j \<longleftrightarrow> i = j" if "i < 100" "j < 100" for i j
    using that by (intro span_inj) simp_all
  have q: "?q + of_nat i = out + of_nat (length pre + i)" for i by (simp add: add.assoc)
  have "mem s3 (out + of_nat i) = (pre @ bs) ! i" if i: "i < length pre + length bs" for i
  proof (cases "i < length pre")
    case True
    have "out + of_nat i \<notin> span ?q (length bs)"
    proof
      assume "out + of_nat i \<in> span ?q (length bs)"
      then obtain j where "j < length bs" "out + of_nat i = out + of_nat (length pre + j)" unfolding span_def q by blast
      then show False using inj [of i "length pre + j"] True len by simp
    qed
    then have "mem s2 (out + of_nat i) = pre ! i" using s2(5) at [of i] True len s(2) by simp
    then show ?thesis using s3(4) at [of i] inj [of i "length pre + length bs"] True len unfolding q by (simp add: nth_append)
  next
    case False
    then obtain j where j: "i = length pre + j" "j < length bs" using i by (metis add.commute le_add_diff_inverse2 nat_add_left_cancel_less not_less)
    have "mem s2 (out + of_nat i) = bs ! j" using s2(4) j s(4) unfolding q by (auto simp: cstr_nth)
    then show ?thesis using s3(4) at [of i] inj [of i "length pre + length bs"] j len unfolding q by (simp add: nth_append)
  qed
  moreover have "mem s3 (out + of_nat (length (pre @ bs))) = 0" using s3(4) at [of "length pre + length bs"] len unfolding q by simp
  moreover have "0 \<notin> set bs" using s(4) by (simp add: cstr_nth)
  ultimately have c3: "cstr (mem s3) out (pre @ bs)" using s(3) by (simp add: cstr_nth)
  have fr: "mem s3 x = mem s x" if "x \<in> R" "x \<notin> span out 100" for x
  proof -
    have "x \<noteq> ?q + of_nat (length bs)" "x \<notin> span ?q (length bs)"
      using that(2) sq sq' span_mem [of "length bs" "Suc (length bs)" ?q] by auto
    then show ?thesis using s3(4) s2(5) that(1) by simp
  qed
  have "ok s3 \<and> rest s3 = rest s" using s3(2,3) s2(3) by simp
  then show ?thesis using s2(1) sl s3(1) c3 fr by blast
qed

lemma insert_str_ok:
  assumes s: "ok s" "cstr (mem s) out (pre @ [c, d] @ post)" "cstr (mem s) p bs"
    and sub: "span out 100 \<subseteq> R" "span m 100 \<subseteq> R" "span p (Suc (length bs)) \<subseteq> R"
    and dis: "span out 100 \<inter> span m 100 = {}" "span p (Suc (length bs)) \<inter> span out 100 = {}" "span p (Suc (length bs)) \<inter> span m 100 = {}"
    and len: "length pre + 2 + length post < 100" "length pre + length bs + length post < 100"
  shows "\<exists>s'. insert_str ld st m out p (of_nat (length pre)) s = Inr s' \<and> ok s' \<and> rest s' = rest s \<and>
    cstr (mem s') out (pre @ bs @ post) \<and> (\<forall>x\<in>R. x \<notin> span out 100 \<union> span m 100 \<longrightarrow> mem s' x = mem s x)"
proof -
  have n100: "unat (100 :: uint32) = 100" by simp
  obtain s0 where s0: "memset st m 0 100 s = Inr s0" "ok s0" "rest s0 = rest s"
    "\<forall>x\<in>R. mem s0 x = (if x \<in> span m 100 then 0 else mem s x)"
    using memset_ok [where s = s and dst = m and len = 100 and val = 0, unfolded n100, OF s(1) sub(2)] by blast
  have so: "span out (Suc (length (pre @ [c, d] @ post))) \<subseteq> span out 100" using len by (intro span_mono) simp
  let ?src = "out + of_nat (length (pre @ [c, d]))"
  have ss: "span ?src (Suc (length post)) \<subseteq> span out 100" using len by (intro span_shift) simp
  have sm: "span m (Suc (length post)) \<subseteq> span m 100" using len by (intro span_mono) simp
  have src: "?src = out + of_nat (length pre) + 2" by (simp add: add.assoc)
  have "cstr (mem s0) out ((pre @ [c, d]) @ post)"
    by (rule cstr_keep [of "mem s" _ _ R "span m 100"]) (use s(2) so sub dis s0(4) in auto)
  then have c0: "cstr (mem s0) ?src post" "\<forall>i<length pre. mem s0 (out + of_nat i) = pre ! i" "0 \<notin> set pre"
    unfolding cstr_append by (auto simp: nth_append)
  have sp: "span m (Suc (length post)) \<subseteq> R" "span ?src (Suc (length post)) \<subseteq> R"
    "span m (Suc (length post)) \<inter> span ?src (Suc (length post)) = {}" "Suc (length post) < 2 ^ 32"
    using sm ss sub dis(1) len by (blast, blast, blast, simp)
  obtain s1 where s1: "strcpy ld st m ?src s0 = Inr (m, s1)" "ok s1" "rest s1 = rest s0" "cstr (mem s1) m post"
    "\<forall>x\<in>R. x \<notin> span m (Suc (length post)) \<longrightarrow> mem s1 x = mem s0 x"
    using strcpy_ok [OF s0(2) c0(1) sp] by blast
  have f1: "mem s1 x = mem s x" if "x \<in> R" "x \<notin> span m 100" for x using s1(5) s0(4) sm that by auto
  have p1: "\<forall>i<length pre. mem s1 (out + of_nat i) = pre ! i"
  proof (intro allI impI)
    fix i assume i: "i < length pre"
    then have "out + of_nat i \<in> span out 100" using len by (intro span_mem) simp
    then have "mem s1 (out + of_nat i) = mem s0 (out + of_nat i)" using s1(5) sm sub(1) dis(1) by blast
    then show "mem s1 (out + of_nat i) = pre ! i" using c0(2) i by simp
  qed
  have b1: "cstr (mem s1) p bs" by (rule cstr_keep [OF s(3) sub(3), of "span m 100"]) (use f1 dis(3) in auto)
  have lb: "length pre + length bs < 100" using len(2) by simp
  obtain s2 s3 where s3: "memcpy ld st (out + of_nat (length pre)) p (of_nat (length bs)) s1 = Inr s2"
    "strlen ld p s2 = Inr (of_nat (length bs))" "st (out + of_nat (length pre) + of_nat (length bs)) 0 s2 = Inr s3"
    "ok s3" "rest s3 = rest s1" "cstr (mem s3) out (pre @ bs)" "\<forall>x\<in>R. x \<notin> span out 100 \<longrightarrow> mem s3 x = mem s1 x"
    using put_string [OF s1(2) p1 c0(3) b1 sub(1,3) dis(2) lb] by blast
  have m3: "cstr (mem s3) m post"
    by (rule cstr_keep [OF s1(4) _ s3(7)]) (use sm sub(2) dis(1) in blast)+
  have st: "span out (Suc (length (pre @ bs) + length post)) \<subseteq> span out 100" using len by (intro span_mono) simp
  have sc: "span out (Suc (length (pre @ bs) + length post)) \<subseteq> R" "span m (Suc (length post)) \<subseteq> R"
    "span out (Suc (length (pre @ bs) + length post)) \<inter> span m (Suc (length post)) = {}"
    "Suc (length (pre @ bs) + length post) < 2 ^ 32"
    using st sm sub(1,2) dis(1) len by (blast, blast, blast, simp)
  obtain s4 where s4: "strcat ld st out m s3 = Inr (out, s4)" "ok s4" "rest s4 = rest s3" "cstr (mem s4) out ((pre @ bs) @ post)"
    "\<forall>x\<in>R. x \<notin> span out (Suc (length (pre @ bs) + length post)) \<longrightarrow> mem s4 x = mem s3 x"
    using strcat_ok [OF s3(4,6) m3 sc] by blast
  have "insert_str ld st m out p (of_nat (length pre)) s = Inr s4"
    unfolding insert_str_def src [symmetric] using s0(1) s1(1) strlen_ok [OF s1(2) b1 sub(3)] s3(1-3) s4(1) by simp
  moreover have "mem s4 x = mem s x" if "x \<in> R" "x \<notin> span out 100 \<union> span m 100" for x
    using that s4(5) st s3(7) f1 by auto
  ultimately show ?thesis using s4(2,3,4) s3(5) s1(3) s0(3) by auto
qed

end

lemma takes_arg_0 [simp]: "\<not> takes_arg 0"
  by (simp add: takes_arg_def)

section \<open>The reference\<close>

text \<open>\<open>str\<close> gives the string at an address that is passed for \<^verbatim>\<open>%s\<close>.\<close>

definition arg_text :: "(uint32 \<Rightarrow> byte list) \<Rightarrow> byte \<Rightarrow> uint32 \<Rightarrow> byte list" where
  "arg_text str c a =
     (if c = 115 then str a else if c = 100 then decimal (unat a)
      else (if c = 72 then [48, 120] else []) @ hex8 (unat a))"

fun fmt :: "(uint32 \<Rightarrow> byte list) \<Rightarrow> byte list \<Rightarrow> uint32 list \<Rightarrow> byte list" where
  "fmt str [] args = []"
| "fmt str [c] args = [c]"
| "fmt str (c # d # r) args =
     (if c = 37 \<and> takes_arg d
      then (case args of [] \<Rightarrow> [] | a # as \<Rightarrow> arg_text str d a @ fmt str r as)
      else c # fmt str (d # r) args)"

text \<open>
  Every conversion has an argument, those of \<^verbatim>\<open>%s\<close> are the addresses \<open>S\<close> of strings, and the text
  before, inside and behind each conversion fits in the buffer; \<open>n\<close> characters are done.
\<close>

fun printable :: "uint32 set \<Rightarrow> (uint32 \<Rightarrow> byte list) \<Rightarrow> nat \<Rightarrow> byte list \<Rightarrow> uint32 list \<Rightarrow> bool" where
  "printable S str n [] args \<longleftrightarrow> True"
| "printable S str n [c] args \<longleftrightarrow> True"
| "printable S str n (c # d # r) args \<longleftrightarrow>
     (if c = 37 \<and> takes_arg d
      then (case args of [] \<Rightarrow> False
            | a # as \<Rightarrow> (d = 115 \<longrightarrow> a \<in> S) \<and> n + length (arg_text str d a) + length r < 100 \<and>
                printable S str (n + length (arg_text str d a)) r as)
      else printable S str (n + 1) (d # r) args)"

section \<open>The memory of the call\<close>

definition scratch :: "printk_addrs \<Rightarrow> uint32 set" where
  "scratch A = span (dec_m A) 32 \<union> span (static_hexstr (hex_m A)) 11 \<union> span (temp_arry (hex_m A)) 9 \<union> span (temp_arry2 (hex_m A)) 9"

definition work :: "printk_addrs \<Rightarrow> uint32 set" where
  "work A = span (staticArry A) 100 \<union> span (insert_m A) 100 \<union> scratch A"

definition printk_layout :: "uint32 set \<Rightarrow> printk_addrs \<Rightarrow> bool" where
  "printk_layout R A \<longleftrightarrow> work A \<subseteq> R \<and> span (staticArry A) 100 \<inter> span (insert_m A) 100 = {} \<and>
     (span (staticArry A) 100 \<union> span (insert_m A) 100) \<inter> scratch A = {} \<and>
     span (static_hexstr (hex_m A)) 11 \<inter> span (temp_arry (hex_m A)) 9 = {} \<and>
     span (static_hexstr (hex_m A)) 11 \<inter> span (temp_arry2 (hex_m A)) 9 = {} \<and>
     span (temp_arry (hex_m A)) 9 \<inter> span (temp_arry2 (hex_m A)) 9 = {}"

definition string_at :: "uint32 set \<Rightarrow> printk_addrs \<Rightarrow> (uint32 \<Rightarrow> byte) \<Rightarrow> uint32 \<Rightarrow> byte list \<Rightarrow> bool" where
  "string_at R A h a bs \<longleftrightarrow> cstr h a bs \<and> span a (Suc (length bs)) \<subseteq> R \<and> work A \<inter> span a (Suc (length bs)) = {}"

definition strings_ok :: "uint32 set \<Rightarrow> printk_addrs \<Rightarrow> uint32 set \<Rightarrow> (uint32 \<Rightarrow> byte list) \<Rightarrow> (uint32 \<Rightarrow> byte) \<Rightarrow> bool" where
  "strings_ok R A S str h \<longleftrightarrow> string_at R A h (lit_0x (hex_m A)) (48 # 120 # replicate 8 48) \<and>
     string_at R A h (lit_0 (hex_m A)) (replicate 8 48) \<and> (\<forall>a\<in>S. string_at R A h a (str a))"

lemma string_at_keep:
  "string_at R A h a bs \<Longrightarrow> \<forall>x\<in>R. x \<notin> work A \<longrightarrow> g x = h x \<Longrightarrow> string_at R A g a bs"
  using cstr_keep [of h a bs R "work A" g] by (simp add: string_at_def)

lemma strings_keep: "strings_ok R A S str h \<Longrightarrow> \<forall>x\<in>R. x \<notin> work A \<longrightarrow> g x = h x \<Longrightarrow> strings_ok R A S str g"
  using string_at_keep [of R A h _ _ g] by (simp add: strings_ok_def)

lemma layoutD:
  assumes "printk_layout R A"
  shows "span (staticArry A) 100 \<subseteq> R" "span (insert_m A) 100 \<subseteq> R" "scratch A \<subseteq> R" "span (staticArry A) 100 \<inter> span (insert_m A) 100 = {}"
    "span (staticArry A) 100 \<inter> scratch A = {}" "span (insert_m A) 100 \<inter> scratch A = {}"
  using assms unfolding printk_layout_def work_def by blast+

lemma hex8_zero: "hex8 0 = replicate 8 48"
  unfolding hex8_def by (rule nth_equalityI) (simp_all add: bit_table_def)

lemma arg_text_hex_length: "length ((if b then [48, 120] else []) @ hex8 n) \<le> 10"
  by (simp add: hex8_def)

text \<open>The string that a conversion inserts, ready to be copied.\<close>

definition ready_arg :: "uint32 set \<Rightarrow> printk_addrs \<Rightarrow> (uint32 \<Rightarrow> byte) \<Rightarrow> uint32 \<Rightarrow> byte list \<Rightarrow> bool" where
  "ready_arg R A h p bs \<longleftrightarrow> cstr h p bs \<and> span p (Suc (length bs)) \<subseteq> R \<and>
     span p (Suc (length bs)) \<inter> span (staticArry A) 100 = {} \<and> span p (Suc (length bs)) \<inter> span (insert_m A) 100 = {}"

lemma ready_string: "string_at R A h p bs \<Longrightarrow> ready_arg R A h p bs"
  unfolding string_at_def ready_arg_def work_def by blast

lemma ready_scratch:
  assumes "printk_layout R A" "cstr h p bs" "span p (Suc (length bs)) \<subseteq> scratch A"
  shows "ready_arg R A h p bs"
  using assms(2,3) layoutD [OF assms(1)] unfolding ready_arg_def by blast

context byte_memory
begin

lemma arg_string_ok:
  assumes s: "ok s" and lay: "printk_layout R A" and strs: "strings_ok R A S str (mem s)" and c: "takes_arg c" "c = 115 \<longrightarrow> a \<in> S"
  shows "\<exists>p s1. arg_string ld st A c a s = Inr (p, s1) \<and> ok s1 \<and> rest s1 = rest s \<and> ready_arg R A (mem s1) p (arg_text str c a) \<and>
    (\<forall>x\<in>R. x \<notin> scratch A \<longrightarrow> mem s1 x = mem s x)"
proof -
  note d = lay [unfolded printk_layout_def]
  have sc: "span (dec_m A) 32 \<subseteq> scratch A" "span (static_hexstr (hex_m A)) 11 \<subseteq> scratch A" by (auto simp: scratch_def)
  have sub: "span (dec_m A) 32 \<subseteq> R" "span (static_hexstr (hex_m A)) 11 \<subseteq> R" "span (temp_arry (hex_m A)) 9 \<subseteq> R"
    "span (temp_arry2 (hex_m A)) 9 \<subseteq> R"
    using layoutD(3) [OF lay] unfolding scratch_def by blast+
  consider (s) "c = 115" | (d) "c = 100" | (h0) "c \<noteq> 115" "c \<noteq> 100" "a = 0" | (h) "c \<noteq> 115" "c \<noteq> 100" "a \<noteq> 0" by blast
  then show ?thesis
  proof cases
    case s
    then have "string_at R A (mem s) a (str a)" using strs c(2) by (simp add: strings_ok_def)
    then show ?thesis using s \<open>ok s\<close> ready_string by (auto simp: arg_string_def arg_text_def)
  next
    case d
    obtain s1 where s1: "uintTostring ld st (dec_m A) a s = Inr (dec_m A, s1)" "ok s1" "rest s1 = rest s"
      "cstr (mem s1) (dec_m A) (decimal (unat a))" "\<forall>x\<in>R. x \<notin> span (dec_m A) 32 \<longrightarrow> mem s1 x = mem s x"
      using uintTostring_ok [OF s sub(1), of a] by blast
    have "length (decimal (unat a)) \<le> 10" using dec_rev_word(1) [of a] by (simp add: decimal_def)
    then have "span (dec_m A) (Suc (length (decimal (unat a)))) \<subseteq> scratch A" by (intro order_trans [OF span_mono sc(1)]) simp
    then have "ready_arg R A (mem s1) (dec_m A) (decimal (unat a))" by (rule ready_scratch [OF lay s1(4)])
    then show ?thesis using d s1 sc(1) by (auto simp: arg_string_def arg_text_def)
  next
    case h0
    have "ready_arg R A (mem s) (if c = 72 then lit_0x (hex_m A) else lit_0 (hex_m A)) ((if c = 72 then [48, 120] else []) @ hex8 0)"
      using strs ready_string unfolding strings_ok_def hex8_zero by auto
    then show ?thesis using h0 \<open>ok s\<close> by (auto simp: arg_string_def arg_text_def num2hexstr_def)
  next
    case h
    let ?t = "(if c = 72 then [48, 120] else []) @ hex8 (unat a)" and ?H = "static_hexstr (hex_m A)"
    obtain s1 where s1: "num2hexstr ld st (hex_m A) a (c = 72) s = Inr (?H, s1)" "ok s1" "rest s1 = rest s" "cstr (mem s1) ?H ?t"
      "\<forall>x\<in>R. x \<notin> span ?H 11 \<union> span (temp_arry (hex_m A)) 9 \<union> span (temp_arry2 (hex_m A)) 9 \<longrightarrow> mem s1 x = mem s x"
      using num2hexstr_ok [OF s h(3) sub(2-4), of "c = 72"] d by blast
    have "span ?H (Suc (length ?t)) \<subseteq> scratch A"
      using arg_text_hex_length [of "c = 72" "unat a"] by (intro order_trans [OF span_mono sc(2)]) simp
    then have "ready_arg R A (mem s1) ?H ?t" by (rule ready_scratch [OF lay s1(4)])
    moreover have "\<forall>x\<in>R. x \<notin> scratch A \<longrightarrow> mem s1 x = mem s x" using s1(5) unfolding scratch_def by blast
    moreover have "arg_string ld st A c a s = Inr (?H, s1)" "arg_text str c a = ?t" using h s1(1) by (simp_all add: arg_string_def arg_text_def)
    ultimately show ?thesis using s1(2,3) by auto
  qed
qed

text \<open>One conversion: its two characters are replaced by the text of the argument.\<close>

lemma printk_percent_ok:
  assumes s: "ok s" and lay: "printk_layout R A" and strs: "strings_ok R A S str (mem s)" and c: "takes_arg d" "d = 115 \<longrightarrow> a \<in> S"
    and out: "cstr (mem s) (staticArry A) (pre @ [37, d] @ r)"
    and len: "length pre + 2 + length r < 100" "length pre + length (arg_text str d a) + length r < 100"
  shows "\<exists>s'. printk_percent ld st A (staticArry A) (of_nat (length pre)) (a # args) s =
      Inr (of_nat (length (pre @ arg_text str d a)) - 1, args, s') \<and> ok s' \<and> rest s' = rest s \<and>
    cstr (mem s') (staticArry A) ((pre @ arg_text str d a) @ r) \<and> (\<forall>x\<in>R. x \<notin> work A \<longrightarrow> mem s' x = mem s x)"
proof -
  let ?t = "arg_text str d a" and ?o = "staticArry A"
  note lD = layoutD [OF lay]
  have so: "span ?o (Suc (length (pre @ [37, d] @ r))) \<subseteq> span ?o 100" using len by (intro span_mono) simp
  obtain p s1 where s1: "arg_string ld st A d a s = Inr (p, s1)" "ok s1" "rest s1 = rest s" "ready_arg R A (mem s1) p ?t"
    "\<forall>x\<in>R. x \<notin> scratch A \<longrightarrow> mem s1 x = mem s x"
    using arg_string_ok [OF s lay strs c] by blast
  have o1: "cstr (mem s1) ?o (pre @ [37, d] @ r)"
    by (rule cstr_keep [OF out _ s1(5)]) (use so lD in blast)+
  note p = s1(4) [unfolded ready_arg_def]
  obtain s2 where s2: "insert_str ld st (insert_m A) ?o p (of_nat (length pre)) s1 = Inr s2" "ok s2" "rest s2 = rest s1"
    "cstr (mem s2) ?o (pre @ ?t @ r)" "\<forall>x\<in>R. x \<notin> span ?o 100 \<union> span (insert_m A) 100 \<longrightarrow> mem s2 x = mem s1 x"
    using insert_str_ok [OF s1(2) o1 conjunct1 [OF p] lD(1,2) _ lD(4) _ _ len] p by blast
  have "cstr (mem s2) p ?t" by (rule cstr_keep [OF conjunct1 [OF p] _ s2(5)]) (use p in blast)+
  then have sl: "strlen ld p s2 = Inr (of_nat (length ?t))" using strlen_ok [OF s2(2)] p by blast
  have "?o + of_nat (length pre + 1) \<in> R" using lD(1) len span_mem [of "length pre + 1" 100 ?o] by auto
  then have "ld (?o + of_nat (length pre) + 1) s = Inr d"
    using ld_ok [OF s, of "?o + of_nat (length pre + 1)"] out
    unfolding append.assoc [symmetric] by (simp add: cstr_append ac_simps)
  then have "printk_percent ld st A ?o (of_nat (length pre)) (a # args) s = Inr (of_nat (length (pre @ ?t)) - 1, args, s2)"
    using c s1(1) s2(1) sl by (simp add: printk_percent_def)
  moreover have "\<forall>x\<in>R. x \<notin> work A \<longrightarrow> mem s2 x = mem s x" using s2(5) s1(5) unfolding work_def by simp
  ultimately show ?thesis using s2(2,3,4) s1(3) by auto
qed

lemma printk_loop_ok:
  assumes "printk_layout R A" "ok s" "strings_ok R A S str (mem s)" "cstr (mem s) (staticArry A) (pre @ cs)"
    "length pre + length cs < 100" "printable S str (length pre) cs args"
  shows "\<exists>s'. printk_loop ld st A (staticArry A) (of_nat (length pre)) args s = Some (Inr s') \<and> ok s' \<and> rest s' = rest s \<and>
    cstr (mem s') (staticArry A) (pre @ fmt str cs args) \<and> (\<forall>x\<in>R. x \<notin> work A \<longrightarrow> mem s' x = mem s x)"
  using assms(2-)
proof (induction str cs args arbitrary: pre s rule: fmt.induct)
  case (1 str args)
  let ?o = "staticArry A + of_nat (length pre)"
  have "?o \<in> R" using layoutD(1) [OF assms(1)] span_mem [of "length pre" 100 "staticArry A"] 1(4) by auto
  then have "ld ?o s = Inr 0" using ld_ok [OF 1(1)] 1(3) by (simp add: cstr_nth)
  then show ?case using 1(1,3) by (simp add: printk_loop.simps [of ld st A "staticArry A"])
next
  case (2 str c args)
  let ?o = "\<lambda>i. staticArry A + of_nat (length pre + i)"
  have R: "?o 0 \<in> R" "?o 1 \<in> R" using layoutD(1) [OF assms(1)] span_mem [of "length pre" 100 "staticArry A"]
      span_mem [of "length pre + 1" 100 "staticArry A"] 2(4) by auto
  have m: "mem s (?o 0) = c" "mem s (?o 1) = 0" "c \<noteq> 0" using 2(3) unfolding cstr_append by (simp_all add: ac_simps)
  have l: "ld (?o 0) s = Inr c" "ld (?o 1) s = Inr 0" using ld_ok [OF 2(1) R(1)] ld_ok [OF 2(1) R(2)] m by simp_all
  have "printk_percent ld st A (staticArry A) (of_nat (length pre)) args s = Inr (of_nat (length pre), args, s)"
    using l(2) by (simp add: printk_percent_def ac_simps)
  moreover have "printk_loop ld st A (staticArry A) (of_nat (length pre) + 1) args s = Some (Inr s)"
    using l(2) by (simp add: printk_loop.simps [of ld st A "staticArry A"] ac_simps)
  ultimately show ?case using l(1) m(3) 2(1,3) by (subst printk_loop.simps) auto
next
  case (3 str c d r args)
  let ?o = "\<lambda>i. staticArry A + of_nat (length pre + i)"
  note prems = "3.prems"
  have R: "?o 0 \<in> R" "?o 1 \<in> R" using layoutD(1) [OF assms(1)] span_mem [of "length pre" 100 "staticArry A"]
      span_mem [of "length pre + 1" 100 "staticArry A"] prems(4) by auto
  have m: "mem s (?o 0) = c" "mem s (?o 1) = d" "c \<noteq> 0" using prems(3) unfolding cstr_append by (simp_all add: ac_simps)
  have l: "ld (?o 0) s = Inr c" "ld (?o 1) s = Inr d" using ld_ok [OF prems(1) R(1)] ld_ok [OF prems(1) R(2)] m by simp_all
  show ?case
  proof (cases "c = 37 \<and> takes_arg d")
    case True
    obtain a as where args: "args = a # as" using prems(5) True by (cases args) auto
    let ?t = "arg_text str d a"
    have p: "d = 115 \<longrightarrow> a \<in> S" "length pre + length ?t + length r < 100" "printable S str (length (pre @ ?t)) r as"
      using prems(5) True args by simp_all
    have o: "cstr (mem s) (staticArry A) (pre @ [37, d] @ r)" "length pre + 2 + length r < 100" using prems(3,4) True by simp_all
    obtain s1 where s1: "printk_percent ld st A (staticArry A) (of_nat (length pre)) (a # as) s =
        Inr (of_nat (length (pre @ ?t)) - 1, as, s1)" "ok s1" "rest s1 = rest s"
      "cstr (mem s1) (staticArry A) ((pre @ ?t) @ r)" "\<forall>x\<in>R. x \<notin> work A \<longrightarrow> mem s1 x = mem s x"
      using printk_percent_ok [OF prems(1) assms(1) prems(2) _ p(1) o p(2)] True by blast
    have len: "length (pre @ ?t) + length r < 100" using p(2) by simp
    obtain s2 where s2: "printk_loop ld st A (staticArry A) (of_nat (length (pre @ ?t))) as s1 = Some (Inr s2)" "ok s2" "rest s2 = rest s1"
      "cstr (mem s2) (staticArry A) ((pre @ ?t) @ fmt str r as)" "\<forall>x\<in>R. x \<notin> work A \<longrightarrow> mem s2 x = mem s1 x"
      using "3.IH"(1) [OF True args s1(2) strings_keep [OF prems(2) s1(5)] s1(4) len p(3)] by blast
    have "printk_loop ld st A (staticArry A) (of_nat (length pre)) args s = Some (Inr s2)"
      using l(1) m(3) True s1(1) s2(1) args by (subst printk_loop.simps) simp
    then show ?thesis using s2 s1(3,5) True args by simp
  next
    case False
    have step: "(if c = 37 then printk_percent ld st A (staticArry A) (of_nat (length pre)) args s else Inr (of_nat (length pre), args, s)) =
        Inr (of_nat (length pre), args, s)"
      using l(2) False by (simp add: printk_percent_def ac_simps)
    have c1: "cstr (mem s) (staticArry A) ((pre @ [c]) @ d # r)" "length (pre @ [c]) + length (d # r) < 100"
      "printable S str (length (pre @ [c])) (d # r) args"
      using prems(3-5) False by simp_all
    obtain s2 where s2: "printk_loop ld st A (staticArry A) (of_nat (length (pre @ [c]))) args s = Some (Inr s2)" "ok s2" "rest s2 = rest s"
      "cstr (mem s2) (staticArry A) ((pre @ [c]) @ fmt str (d # r) args)" "\<forall>x\<in>R. x \<notin> work A \<longrightarrow> mem s2 x = mem s x"
      using "3.IH"(2) [OF False prems(1,2) c1] by blast
    have "printk_loop ld st A (staticArry A) (of_nat (length pre)) args s = Some (Inr s2)"
      using l(1) m(3) step s2(1) by (subst printk_loop.simps) (simp add: ac_simps)
    then show ?thesis using s2 False by auto
  qed
qed

lemma printk_format_ok:
  assumes lay: "printk_layout R A" and s: "ok s" and strs: "strings_ok R A S str (mem s)" and f: "string_at R A (mem s) a cs"
    and len: "length cs < 100" and p: "printable S str 0 cs args"
  shows "\<exists>s'. printk_format ld st A a args s = Inr s' \<and> ok s' \<and> rest s' = rest s \<and>
    cstr (mem s') (staticArry A) (fmt str cs args) \<and> (\<forall>x\<in>R. x \<notin> work A \<longrightarrow> mem s' x = mem s x)"
proof -
  let ?out = "staticArry A"
  note lD = layoutD [OF lay]
  have n100: "unat (100 :: uint32) = 100" by simp
  have w: "span ?out 100 \<subseteq> work A" by (auto simp: work_def)
  obtain s0 where s0: "memset st ?out 0 100 s = Inr s0" "ok s0" "rest s0 = rest s"
    "\<forall>x\<in>R. mem s0 x = (if x \<in> span ?out 100 then 0 else mem s x)"
    using memset_ok [where s = s and dst = ?out and len = 100 and val = 0, unfolded n100, OF s lD(1)] by blast
  have f0: "\<forall>x\<in>R. x \<notin> work A \<longrightarrow> mem s0 x = mem s x" using s0(4) w by auto
  note fa = string_at_keep [OF f f0, unfolded string_at_def]
  have so: "span ?out (Suc (length cs)) \<subseteq> span ?out 100" using len by (intro span_mono) simp
  have d: "span ?out (Suc (length cs)) \<subseteq> R" "span a (Suc (length cs)) \<subseteq> R"
    "span ?out (Suc (length cs)) \<inter> span a (Suc (length cs)) = {}" "Suc (length cs) < 2 ^ 32"
    using so lD(1) fa w len by (blast, blast, blast, simp)
  obtain s1 where s1: "strcpy ld st ?out a s0 = Inr (?out, s1)" "ok s1" "rest s1 = rest s0" "cstr (mem s1) ?out cs"
    "\<forall>x\<in>R. x \<notin> span ?out (Suc (length cs)) \<longrightarrow> mem s1 x = mem s0 x"
    using strcpy_ok [OF s0(2) conjunct1 [OF fa] d] by blast
  have f1: "\<forall>x\<in>R. x \<notin> work A \<longrightarrow> mem s1 x = mem s x" using s1(5) f0 order_trans [OF so w] by (metis subsetD)
  obtain s2 where s2: "printk_loop ld st A ?out 0 args s1 = Some (Inr s2)" "ok s2" "rest s2 = rest s1"
    "cstr (mem s2) ?out (fmt str cs args)" "\<forall>x\<in>R. x \<notin> work A \<longrightarrow> mem s2 x = mem s1 x"
    using printk_loop_ok [where pre = "[]" and cs = cs and s = s1, OF lay s1(2) strings_keep [OF strs f1]] s1(4) len p by auto
  have "printk_format ld st A a args s = Inr s2" using s0(1) s1(1) s2(1) by (simp add: printk_format_def)
  then show ?thesis using s2(2-5) s1(3) s0(3) f1 by auto
qed

end

section \<open>Properties\<close>

lemma fmt_nonzero_length: "printable S str n cs args \<Longrightarrow> n + length cs < 100 \<Longrightarrow> n + length (fmt str cs args) < 100"
proof (induction str cs args arbitrary: n rule: fmt.induct)
  case (3 str c d r args)
  then show ?case by (fastforce split: list.splits if_splits)
qed simp_all

lemma printk_body_ok:
  assumes v: "vga_ok I R v" and lay: "printk_layout R A" and vid: "video \<inter> span (staticArry A) 100 = {}"
    and strs: "strings_ok R A S str (vmem (con v))" and f: "string_at R A (vmem (con v)) a cs"
    and len: "length cs < 100" and p: "printable S str 0 cs args"
    and scr: "work A \<inter> video = {}"
  shows "\<exists>v'. printk_body (\<lambda>x. kputs_color x back fore) A a args v = Inr v' \<and> vga_ok I R v' \<and>
    same_screen (vga_state v') (fold (kputc_spec (attr_of back fore)) (fmt str cs args) (vga_state v)) \<and>
    (rest_of I (con v'))\<lparr>io_log := []\<rparr> = (rest_of I (con v))\<lparr>io_log := []\<rparr> \<and>
    (\<forall>x\<in>R. x \<notin> video \<union> work A \<longrightarrow> vmem (con v') x = vmem (con v) x)"
proof -
  note ok = v [unfolded vga_ok_def]
  let ?out = "staticArry A" and ?bs = "fmt str cs args"
  obtain k where k: "printk_format load8 store8 A a args (con v) = Inr k" "stable I R k" "cstr (vmem k) ?out ?bs"
    "\<forall>x\<in>R. x \<notin> work A \<longrightarrow> vmem k x = vmem (con v) x" "rest_of I k = rest_of I (con v)"
    using mmu.printk_format_ok [OF lay conjunct1 [OF ok] strs f len p] by blast
  define w where "w = v\<lparr>con := k\<rparr>"
  have w: "vga_ok I R w" "cstr (vmem (con w)) ?out ?bs" using ok k(2,3) by (simp_all add: vga_ok_def w_def)
  have "length ?bs < 100" using fmt_nonzero_length [OF p] len by simp
  then have "span ?out (Suc (length ?bs)) \<subseteq> span ?out 100" by (intro span_mono) simp
  then have sp: "span ?out (Suc (length ?bs)) \<subseteq> R" "video \<inter> span ?out (Suc (length ?bs)) = {}"
    using layoutD(1) [OF lay] vid by blast+
  obtain v' where v': "kputs_color ?out back fore w = Inr v'" "vga_ok I R v'" "only_video I R k (con v')"
    "same_screen (vga_state v') (fold (kputc_spec (attr_of back fore)) ?bs (vga_state w))"
    using kputs_color_run [OF w sp, of "back" fore] by (auto simp: w_def)
  have "same_screen (vga_state w) (vga_state v)"
  proof -
    have "vmem k (cell_addr i) = vmem (con v) (cell_addr i)" "vmem k (cell_addr i + 1) = vmem (con v) (cell_addr i + 1)" if "i < 2000" for i
      using k(4) cell_in [OF that] scr ok by blast+
    then show ?thesis by (simp add: same_screen_def vga_state_def pos_def screen_def w_def)
  qed
  then have "same_screen (vga_state v') (fold (kputc_spec (attr_of back fore)) ?bs (vga_state v))"
    using same_screen_trans [OF v'(4) fold_cong_screen] by blast
  moreover have "printk_body (\<lambda>x. kputs_color x back fore) A a args v = Inr v'" using k(1) v'(1) by (simp add: printk_body_def w_def)
  moreover have "\<forall>x\<in>R. x \<notin> video \<union> work A \<longrightarrow> vmem (con v') x = vmem (con v) x" using v'(3) k(4) by (simp add: only_video_def)
  moreover have "(rest_of I (con v'))\<lparr>io_log := []\<rparr> = (rest_of I (con v))\<lparr>io_log := []\<rparr>" using v'(3) k(5) by (simp add: only_video_def)
  ultimately show ?thesis using v'(2) by blast
qed

text \<open>The lock of \<^verbatim>\<open>printk\<close> is not in use yet, or it is free and a thread is running.\<close>

definition printk_free :: "printk_sys \<Rightarrow> bool" where
  "printk_free s \<longleftrightarrow> printk_lock_init_flag s \<longrightarrow> lock_free (printk_lock s) (p_nodes s) (con (p_vga s))"

lemma printk_with_free:
  assumes "printk_free s" "printk_body put A a args (p_vga s) = Inr v'" "cur_tcb (con v') = cur_tcb (con (p_vga s))"
  shows "printk_with put A wn a args s = Inr (None, s\<lparr>p_vga := v'\<rparr>)"
proof (cases "printk_lock_init_flag s")
  case True
  note c = lock_free_cycle [of "printk_lock s" "p_nodes s" "con (p_vga s)"]
  have "lock_free (printk_lock s) (p_nodes s) (con (p_vga s))" using assms(1) True by (simp add: printk_free_def)
  then show ?thesis using True assms(2,3) c by (simp add: printk_with_def Let_def)
next
  case False
  then show ?thesis using assms(2) by (simp add: printk_with_def)
qed

text \<open>
  C36. \<^verbatim>\<open>printk_color\<close> prints the expansion of its format. When the string and every intermediate
  text fit in the 100-byte buffer, every conversion has its argument, the buffers do not overlap
  and the lock is free (or not yet in use), the call returns, the screen is that of the reference
  fed with \<open>fmt\<close> of the format (strings, decimal and hexadecimal numbers in place of \<^verbatim>\<open>%s\<close>, \<^verbatim>\<open>%d\<close>,
  \<^verbatim>\<open>%H\<close>, \<^verbatim>\<open>%h\<close>), the lock is free again, and only video memory and the buffers have changed.
\<close>

theorem printk_color_prints:
  assumes "vga_ok I R (p_vga s)" "printk_layout R A" "video \<inter> work A = {}" "strings_ok R A S str (vmem (con (p_vga s)))"
    "string_at R A (vmem (con (p_vga s))) a cs" "length cs < 100" "printable S str 0 cs args" "printk_free s"
  shows "\<exists>v'. printk_color back fore A wn a args s = Inr (None, s\<lparr>p_vga := v'\<rparr>) \<and> vga_ok I R v' \<and>
    same_screen (vga_state v') (fold (kputc_spec (attr_of back fore)) (fmt str cs args) (vga_state (p_vga s))) \<and>
    (\<forall>x\<in>R. x \<notin> video \<union> work A \<longrightarrow> vmem (con v') x = vmem (con (p_vga s)) x)"
proof -
  have vid: "video \<inter> span (staticArry A) 100 = {}" "work A \<inter> video = {}" using assms(3) unfolding work_def by blast+
  obtain v' where v': "printk_body (\<lambda>x. kputs_color x back fore) A a args (p_vga s) = Inr v'" "vga_ok I R v'"
    "same_screen (vga_state v') (fold (kputc_spec (attr_of back fore)) (fmt str cs args) (vga_state (p_vga s)))"
    "(rest_of I (con v'))\<lparr>io_log := []\<rparr> = (rest_of I (con (p_vga s)))\<lparr>io_log := []\<rparr>"
    "\<forall>x\<in>R. x \<notin> video \<union> work A \<longrightarrow> vmem (con v') x = vmem (con (p_vga s)) x"
    using printk_body_ok [OF assms(1,2) vid(1) assms(4-7) vid(2), of "back" fore] by blast
  have "cur_tcb (con v') = cur_tcb (con (p_vga s))" using arg_cong [OF v'(4), of cur_tcb] by (simp add: rest_of_def)
  then have "printk_color back fore A wn a args s = Inr (None, s\<lparr>p_vga := v'\<rparr>)"
    using printk_with_free [OF assms(8) v'(1)] by (simp add: printk_color_def)
  then show ?thesis using v'(2,3,5) by blast
qed

end
