(* ===== verification/KernLog.thy ===== *)
theory KernLog
  imports PrintkFormat
begin

text \<open>
  \<^verbatim>\<open>src/kernel/modules/log/kern_log.c\<close>: the messages of the kernel, as calls of \<^verbatim>\<open>printk\<close> and
  \<^verbatim>\<open>printk_color\<close>. The addresses of the format literals are parameters. Elsewhere in the development
  a call of \<^verbatim>\<open>STOP\<close> is the outcome \<open>Stopped\<close>; here is what it prints before it loops.
\<close>

section \<open>Operations\<close>

record log_lits =
  lit_info :: uint32
  lit_error :: uint32
  lit_warning :: uint32
  lit_stop :: uint32

type_synonym log_call = "printk_addrs \<Rightarrow> uint32 \<Rightarrow> log_lits \<Rightarrow> uint32 \<Rightarrow> uint32 \<Rightarrow> printk_sys \<Rightarrow> fault + (wait_flags option \<times> printk_sys)"

definition info_kern :: log_call where
  "info_kern A wn L src text s = printk A wn (lit_info L) [src, text] s"

definition error_kern :: log_call where
  "error_kern A wn L src text s = printk_color black red A wn (lit_error L) [src, text] s"

definition warning_kern :: log_call where
  "warning_kern A wn L src text s = printk_color black yellow A wn (lit_warning L) [src, text] s"

text \<open>
  \<^verbatim>\<open>stop_kern\<close> up to its endless loop: \<open>(None, s)\<close> is the state in the loop. \<^verbatim>\<open>debug\<close> calls its first
  argument, since \<^verbatim>\<open>DEBUG_FLAGE\<close> is defined.
\<close>

definition stop_kern :: log_call where
  "stop_kern A wn L src text s = printk_color white black A wn (lit_stop L) [src, text] s"

definition debug :: "log_call \<Rightarrow> log_call" where
  "debug f A wn L src text s = f A wn L src text s"

section \<open>The text of a message\<close>

text \<open>\<^verbatim>\<open>[TAG][%s]%s\n\<close>, for a tag without percent signs.\<close>

definition log_format :: "byte list \<Rightarrow> byte list" where
  "log_format tag = (91 # tag @ [93, 91]) @ [37, 115, 93, 37, 115, 10]"

lemma fmt_plain: "37 \<notin> set xs \<Longrightarrow> fmt str (xs @ cs) args = xs @ fmt str cs args"
proof (induction xs)
  case (Cons x xs)
  then show ?case by (cases "xs @ cs") auto
qed simp

lemma log_format_text:
  assumes "37 \<notin> set tag"
  shows "fmt str (log_format tag) [src, text] = 91 # tag @ [93, 91] @ str src @ [93] @ str text @ [10]"
proof -
  have p: "37 \<notin> set (91 # tag @ [93, 91])" using assms by simp
  have "takes_arg 115" "\<not> takes_arg 10" by (simp_all add: takes_arg_def)
  then show ?thesis unfolding log_format_def fmt_plain [OF p] by (simp add: arg_text_def)
qed

end
