(* ===== verification/UserTask.thy ===== *)
theory UserTask
  imports Threads
begin

text \<open>
  \<^verbatim>\<open>src/kernel/modules/user_task/user_task.c\<close>: the resources of a user task (its bitmap of free
  pages and its page directory), its creation, and its first steps, up to the return into
  privilege level 3. \<^verbatim>\<open>active_task\<close> is in \<open>Threads\<close>. The code stops with \<^verbatim>\<open>while(True)\<close> or with
  \<^verbatim>\<open>STOP\<close> when an allocation fails: \<open>Spin\<close> and \<open>Stopped\<close>.
\<close>

abbreviation USER_TASK_INIT_ERRO :: uint32 where "USER_TASK_INIT_ERRO \<equiv> 0xFFFFFFFF"
abbreviation INTR_TO_LEVEL3_EFLAGS :: uint32 where "INTR_TO_LEVEL3_EFLAGS \<equiv> 0x202"
abbreviation SELECTOR_USER_CODE_MEM :: uint16 where "SELECTOR_USER_CODE_MEM \<equiv> 0x23"
abbreviation SELECTOR_USER_DATA_MEM :: uint16 where "SELECTOR_USER_DATA_MEM \<equiv> 0x2B"

section \<open>The bitmap of a task\<close>

text \<open>The loop over the 23 pages behind the first; the flag says whether all were allocated.\<close>

fun alloc_following :: "nat \<Rightarrow> uint32 \<Rightarrow> kernel \<Rightarrow> fault + (bool \<times> kernel)" where
  "alloc_following 0 addr_for k = Inr (True, k)"
| "alloc_following (Suc n) addr_for k =
     bindE (vmm_kern_alloc_one_page addr_for k) (\<lambda>(r, k1).
       if r = KERN_VMM_ALLOC_ERRO then Inr (False, k1)
       else alloc_following n (addr_for + 0x1000) k1)"

definition create_user_task_bitmap :: "kernel \<Rightarrow> fault + (bitmap \<times> kernel)" where
  "create_user_task_bitmap k =
     bindE (vmm_kern_alloc k) (\<lambda>(vm_head, k1).
       if vm_head = KERN_VMM_ALLOC_ERRO then Inl Spin
       else bindE (alloc_following 23 (vm_head + 0x1000) k1) (\<lambda>(alloc_flag, k2).
         if \<not> alloc_flag then Inl Spin
         else let re_bitmap = \<lparr>vaddr_header = vm_head, bm_length = 0x18000, target_addr_header = 0\<rparr>
              in bindE (bitmap_init_mem store8 re_bitmap k2) (\<lambda>k3. Inr (re_bitmap, k3))))"

fun release_following :: "nat \<Rightarrow> uint32 \<Rightarrow> kernel \<Rightarrow> fault + kernel" where
  "release_following 0 vm k = Inr k"
| "release_following (Suc n) vm k = bindE (vmm_kern_release_one_page vm k) (release_following n (vm + 0x1000))"

definition release_user_task_bitmap :: "bitmap \<Rightarrow> kernel \<Rightarrow> fault + kernel" where
  "release_user_task_bitmap bm k = release_following 24 (vaddr_header bm) k"

section \<open>The page directory of a task\<close>

definition pdt_mapping_helper :: "uint32 \<Rightarrow> kernel \<Rightarrow> fault + kernel" where
  "pdt_mapping_helper pdt_vaddr' k = memcpy load8 store8 (pdt_vaddr' + 0xC00) (get_pde 0xC0000000) 1024 k"

definition mapping_last_pde :: "uint32 \<Rightarrow> uint32 \<Rightarrow> kernel \<Rightarrow> fault + kernel" where
  "mapping_last_pde last_pte_vaddr pdt_paddr k =
     store32 last_pte_vaddr (page_base pdt_paddr + PAGE_DESC_RW_W + PAGE_DESC_US_S + PAGE_DESC_G + PAGE_DESC_P) k"

definition create_user_task_pdt :: "kernel \<Rightarrow> fault + (uint32 \<times> kernel)" where
  "create_user_task_pdt k =
     bindE (vmm_kern_alloc k) (\<lambda>(pdt, k1).
       if pdt = KERN_VMM_ALLOC_ERRO then Inr (USER_TASK_INIT_ERRO, k1)
       else bindE (memset store8 pdt 0 0x1000 k1) (\<lambda>k2.
            bindE (pdt_mapping_helper pdt k2) (\<lambda>k3.
            bindE (vmm_v2p pdt k3) (\<lambda>pdt_paddr.
            bindE (mapping_last_pde (pdt + 0x1000 - 4) pdt_paddr k3) (\<lambda>k4. Inr (pdt, k4))))))"

definition pt_release_helper :: "uint32 \<Rightarrow> kernel \<Rightarrow> kernel" where
  "pt_release_helper pdt k = k"

definition release_user_task_pdt :: "uint32 \<Rightarrow> kernel \<Rightarrow> fault + kernel" where
  "release_user_task_pdt pdt k = vmm_kern_release_one_page pdt (pt_release_helper pdt k)"

section \<open>Entering privilege level 3\<close>

record start_user_task_params_t =
  is_from_file :: bool
  function_f :: uint32
  args_f :: uint32
  fd :: uint32

record interrupt_stack_t =
  int_no_1 :: uint32
  i_args :: uint32
  i_gs :: uint32
  i_fs :: uint32
  i_es :: uint32
  i_edi :: uint32
  i_esi :: uint32
  i_ebp :: uint32
  esp_duplicate :: uint32
  i_ebx :: uint32
  i_edx :: uint32
  i_ecx :: uint32
  i_eax :: uint32
  int_no_2 :: uint32
  error_no :: uint32
  i_eip :: uint32
  i_cs :: uint32
  i_eflags :: uint32
  i_esp :: uint32
  i_ss :: uint32

text \<open>
  The registers after the \<^verbatim>\<open>iret\<close> of \<^verbatim>\<open>exit_int\<close>: the segment registers take the low half of
  their words, and \<^verbatim>\<open>iret\<close> loads the interrupt flag from the flags word. The return is into
  another privilege level when the two low bits of the code selector are set.
\<close>

record cpu_t =
  cpu_eip :: uint32
  cpu_cs :: uint16
  cpu_esp :: uint32
  cpu_ss :: uint16
  cpu_gs :: uint16
  cpu_fs :: uint16
  cpu_es :: uint16
  cpu_eax :: uint32
  cpu_ebx :: uint32
  cpu_ecx :: uint32
  cpu_edx :: uint32
  cpu_esi :: uint32
  cpu_edi :: uint32
  cpu_ebp :: uint32

definition exit_int :: "interrupt_stack_t \<Rightarrow> kernel \<Rightarrow> cpu_t \<times> kernel" where
  "exit_int s k =
     (\<lparr>cpu_eip = i_eip s, cpu_cs = ucast (i_cs s), cpu_esp = i_esp s, cpu_ss = ucast (i_ss s), cpu_gs = ucast (i_gs s),
       cpu_fs = ucast (i_fs s), cpu_es = ucast (i_es s), cpu_eax = i_eax s, cpu_ebx = i_ebx s, cpu_ecx = i_ecx s,
       cpu_edx = i_edx s, cpu_esi = i_esi s, cpu_edi = i_edi s, cpu_ebp = i_ebp s\<rparr>,
      k\<lparr>int_flag := bit (i_eflags s) 9\<rparr>)"

definition start_user_task :: "start_user_task_params_t \<Rightarrow> kernel \<Rightarrow> fault + (cpu_t \<times> kernel)" where
  "start_user_task params k =
     (if is_from_file params then Inl Stopped
      else if function_f params = 0 then Inl Stopped
      else let now = get_running_progress k
           in bindE (vmm_user_alloc_one_page now (0xC0000000 - PAGE_SIZE) k) (\<lambda>(r, k1).
                if r = USER_VMM_ALLOC_ERRO then Inl Stopped
                else bindE (vmm_user_alloc_one_page now (0xC0000000 - 2 * PAGE_SIZE) k1) (\<lambda>(user_stack_page, k2).
                  if user_stack_page = USER_VMM_ALLOC_ERRO then Inl Stopped
                  else Inr (exit_int
                    \<lparr>int_no_1 = 1, i_args = 0, i_gs = 0, i_fs = 0, i_es = 0, i_edi = 0, i_esi = 0, i_ebp = 0,
                     esp_duplicate = 0, i_ebx = 0, i_edx = 0, i_ecx = 0, i_eax = 0, int_no_2 = 0, error_no = 0,
                     i_eip = function_f params, i_cs = ucast SELECTOR_USER_CODE_MEM AND 0xFFFF,
                     i_eflags = INTR_TO_LEVEL3_EFLAGS, i_esp = user_stack_page + PAGE_SIZE,
                     i_ss = ucast SELECTOR_USER_DATA_MEM AND 0xFFFF\<rparr> k2))))"

text \<open>\<open>start_addr\<close> is the address of \<^verbatim>\<open>start_user_task\<close>, \<open>exit_addr\<close> that of \<^verbatim>\<open>exit\<close>.\<close>

definition create_user_task :: "uint32 \<Rightarrow> uint32 \<Rightarrow> uint32 \<Rightarrow> uint32 \<Rightarrow> kernel \<Rightarrow> fault + kernel" where
  "create_user_task tid' args start_addr exit_addr k =
     bindE (create_user_task_bitmap k) (\<lambda>(pool, k1).
     bindE (create_user_task_pdt k1) (\<lambda>(pdt, k2).
       if pdt = USER_TASK_INIT_ERRO then Inl Stopped
       else bindE (vmm_kern_alloc k2) (\<lambda>(TCB_page, k3).
         if TCB_page = KERN_VMM_ALLOC_ERRO then Inl Stopped
         else create_thread tid' start_addr args TCB_page 1 False pool pdt exit_addr k3)))"

text \<open>The self test: it creates and releases the bitmap of a task a thousand times. Its message is left out.\<close>

fun user_task_test_loop :: "nat \<Rightarrow> kernel \<Rightarrow> fault + kernel" where
  "user_task_test_loop 0 k = Inr k"
| "user_task_test_loop (Suc n) k =
     bindE (create_user_task_bitmap k) (\<lambda>(bm, k1). bindE (release_user_task_bitmap bm k1) (user_task_test_loop n))"

definition user_task_test :: "kernel \<Rightarrow> fault + kernel" where
  "user_task_test k = user_task_test_loop 1000 k"

end
