(* ===== verification/FreshPage.thy ===== *)
theory FreshPage
  imports ThreadsLife Strings
begin

text \<open>
  The pages that the kernel takes for its own use: the frames they are mapped to, and what taking and
  filling them changes. \<open>space_change\<close> is the account of a run of such steps; accounts compose.
\<close>

section \<open>Frames\<close>

text \<open>The physical bytes of the page frame of \<open>p\<close>.\<close>

definition frame :: "uint32 \<Rightarrow> uint32 set" where
  "frame p = {x. page_base x = page_base p}"

lemma low12: "i < 4096 \<Longrightarrow> (of_nat i :: uint32) AND 0xFFF = of_nat i"
proof -
  assume "i < 4096"
  then have "unat (of_nat i :: uint32) = i" by (intro unat_of_nat_32) simp
  then show ?thesis using \<open>i < 4096\<close> and_low(1) [of "of_nat i"] by (simp only: word_unat_eq_iff) simp
qed

lemma page_offset:
  assumes "page_base p = p" "i < 4096"
  shows "page_base (p + of_nat i) = p" "(p + of_nat i) AND 0xFFF = of_nat i" "p OR of_nat i = p + of_nat i"
proof -
  note y = low12 [OF assms(2)]
  show "page_base (p + of_nat i) = p" using page_base_low [OF y, of p] assms(1) by simp
  show 3: "p OR of_nat i = p + of_nat i" using page_or_add [OF y, of p] assms(1) by simp
  have "(page_base p OR y) AND 0xFFF = y AND 0xFFF" for y :: uint32
    unfolding masks by (rule bit_word_eqI) (auto simp: bit_simps)
  then show "(p + of_nat i) AND 0xFFF = of_nat i" using y assms(1) 3 by metis
qed

text \<open>A virtual page that is mapped to a frame outside the tables is a window of stable memory.\<close>

lemma page_stable:
  assumes t: "page_base t = t" and p: "page_base p = p"
    and tr: "\<And>v. page_base v = t \<Longrightarrow> translate k v = Some (p OR (v AND 0xFFF))" and off: "off_tables (frame p) k"
  shows "stable (frame p) (span t 4096) k" "i < 4096 \<Longrightarrow> translate k (t + of_nat i) = Some (p + of_nat i)"
proof -
  show tri: "translate k (t + of_nat i) = Some (p + of_nat i)" if "i < 4096" for i
    using tr [of "t + of_nat i"] page_offset [OF t that] page_offset(3) [OF p that] by simp
  have "\<exists>q\<in>frame p. translate k v = Some q" if v: "v \<in> span t 4096" for v
  proof -
    obtain i where "i < 4096" "v = t + of_nat i" using v by (auto simp: span_def)
    then show ?thesis using tri [of i] page_offset(1) [OF p, of i] p by (auto simp: frame_def)
  qed
  moreover have "inj_on (translate k) (span t 4096)" by (rule inj_onI) (auto simp: span_def tri)
  ultimately show "stable (frame p) (span t 4096) k"
    unfolding stable_def using off_tables_write(4) [OF off] by blast
qed

text \<open>Writing such a frame keeps the address space of the kernel.\<close>

lemma kspace_frame_step:
  assumes k: "kspace I k" and off: "off_tables J k" and dis: "J \<inter> I = {}"
    and st: "rest_of J k' = rest_of J k"
  shows "kspace I k'" "translate k' = translate k" "kfree k' = kfree k" "off_tables J k'"
    "pde_of k' v = pde_of k v" "mapped_dir k v \<Longrightarrow> pte_of k' v = pte_of k v"
proof -
  note eq = rest_of_eq [OF st]
  have g: "pm k' = pm k" "kern_bitmap k' = kern_bitmap k" "kern_vmm_pool k' = kern_vmm_pool k" "cr3 k' = cr3 k"
    by (subst eq(1); simp)+
  note w = off_tables_write [OF off eq(2), folded eq(1)]
  show tr: "translate k' = translate k" by (rule ext) (rule w(4))
  show "pde_of k' v = pde_of k v" "mapped_dir k v \<Longrightarrow> pte_of k' v = pte_of k v" by (rule w(1), rule w(3))
  have "vmem k' x = vmem k x" if x: "x \<in> kbytes k" for x
  proof -
    obtain q where "q \<in> I" "translate k x = Some q" using kspaceD(9) [OF k x] by blast
    then show ?thesis using dis eq(2) by (auto simp: vmem_def tr)
  qed
  then show fr: "kfree k' = kfree k" unfolding g by (intro free_pages_cong) auto
  have "shared_tables k'" using kspaceD(1) [OF k] w by (simp add: shared_tables_def)
  moreover have "off_tables I k'" using kspaceD(2) [OF k] w g by (simp add: off_tables_def)
  ultimately show "kspace I k'" using kspaceD [OF k] fr unfolding kspace_def g tr by (simp add: w(2))
  show "off_tables J k'" using off w g by (simp add: off_tables_def)
qed

lemma frame_base [simp]: "frame (page_base p) = frame p"
  by (simp add: frame_def)

text \<open>Whatever leaves memory, directory and pool alone leaves the address space alone.\<close>

lemma same_space:
  assumes "pmem k' = pmem k" "cr3 k' = cr3 k" "kern_vmm_pool k' = kern_vmm_pool k" "kern_bitmap k' = kern_bitmap k"
  shows "kspace I k' = kspace I k" "translate k' = translate k" "kfree k' = kfree k" "off_tables X k' = off_tables X k"
    "stable J R k' = stable J R k"
proof -
  note m = same_mmu [OF assms(1,2)]
  show "kspace I k' = kspace I k" by (rule kspace_cong [OF assms])
  show t: "translate k' = translate k" by (rule m(3))
  show "kfree k' = kfree k" using m(5) assms(4) by simp
  show "off_tables X k' = off_tables X k" using m assms(2) by (simp add: off_tables_def)
  have "translate (k'\<lparr>pmem := h\<rparr>) = translate (k\<lparr>pmem := h\<rparr>)" for h by (rule same_mmu(3)) (simp_all add: assms)
  then show "stable J R k' = stable J R k" using t assms(1) by (simp add: stable_def)
qed

section \<open>A fresh page\<close>

lemma kern_alloc_target:
  assumes k: "kspace I k" and ne: "kfree k \<noteq> {}" and low: "Min (kfree k) < 16384"
  shows "page_base (page_addr (kern_vmm_pool k) (Min (kfree k))) = page_addr (kern_vmm_pool k) (Min (kfree k))"
    "0xC0000000 \<le> page_addr (kern_vmm_pool k) (Min (kfree k))"
    "drop_bit 22 (page_addr (kern_vmm_pool k) (Min (kfree k))) \<noteq> 0x3FF"
    "page_addr (kern_vmm_pool k) (Min (kfree k)) \<noteq> 0xFFFFFFFF"
    "prim (page_addr (kern_vmm_pool k) (Min (kfree k))) = page_addr (kern_vmm_pool k) (Min (kfree k))"
proof -
  let ?t = "page_addr (kpool (kern_bitmap k)) (Min (kfree k))"
  have t: "in_pool (kpool (kern_bitmap k)) ?t" "page_index (kpool (kern_bitmap k)) ?t = Min (kfree k)" "page_base ?t = ?t"
    "Min (kfree k) \<in> kfree k"
    using kern_alloc_run [OF k ne] by blast+
  have "page_index (kpool (kern_bitmap k)) ?t < 255 * 1024" using t(2,4) kspaceD(6) [OF k] by simp
  note pt = pool_target [OF k t(1) this]
  have "?t \<noteq> 0xFFFFFFFF" using t(3) by (auto simp: page_base_def)
  then show "page_base (page_addr (kern_vmm_pool k) (Min (kfree k))) = page_addr (kern_vmm_pool k) (Min (kfree k))"
    "0xC0000000 \<le> page_addr (kern_vmm_pool k) (Min (kfree k))"
    "drop_bit 22 (page_addr (kern_vmm_pool k) (Min (kfree k))) \<noteq> 0x3FF"
    "page_addr (kern_vmm_pool k) (Min (kfree k)) \<noteq> 0xFFFFFFFF"
    "prim (page_addr (kern_vmm_pool k) (Min (kfree k))) = page_addr (kern_vmm_pool k) (Min (kfree k))"
    using t(3) pt(1,3) page_addr_primary(3) [OF low] unfolding kspaceD(4) [OF k] by simp_all
qed

text \<open>
  The free page \<open>t\<close> has been mapped to the frame \<open>p\<close>, which holds neither a table nor the bitmap.
\<close>

definition fresh_page :: "uint32 set \<Rightarrow> uint32 \<Rightarrow> uint32 \<Rightarrow> kernel \<Rightarrow> bool" where
  "fresh_page I t p k \<longleftrightarrow> kspace I k \<and> page_base t = t \<and> page_base p = p \<and> 0xC0000000 \<le> t \<and> prim t = t \<and>
     (\<forall>v. page_base v = t \<longrightarrow> translate k v = Some (p OR (v AND 0xFFF))) \<and> off_tables (frame p) k \<and> frame p \<inter> I = {}"

lemma fresh_step:
  assumes "fresh_page I t p k" "rest_of (frame p) k' = rest_of (frame p) k"
  shows "fresh_page I t p k'" "translate k' = translate k"
proof -
  note f = assms(1) [unfolded fresh_page_def]
  note st = kspace_frame_step [OF _ _ _ assms(2)]
  show "translate k' = translate k" using st(2) f by blast
  then show "fresh_page I t p k'" using f st(1,4) unfolding fresh_page_def by metis
qed

lemma fresh_stable:
  assumes "fresh_page I t p k"
  shows "stable (frame p) (span t 4096) k" "i < 4096 \<Longrightarrow> translate k (t + of_nat i) = Some (p + of_nat i)"
    "i < 4096 \<Longrightarrow> vmem k (t + of_nat i) = pmem k (p + of_nat i)"
proof -
  note f = assms [unfolded fresh_page_def]
  show "stable (frame p) (span t 4096) k" by (rule page_stable(1)) (use f in auto)
  show tr: "i < 4096 \<Longrightarrow> translate k (t + of_nat i) = Some (p + of_nat i)" by (rule page_stable(2)) (use f in auto)
  show "i < 4096 \<Longrightarrow> vmem k (t + of_nat i) = pmem k (p + of_nat i)" using tr by (simp add: vmem_def)
qed

text \<open>The page holds the initial stack of a thread.\<close>

lemma fresh_stack:
  assumes f: "fresh_page I t p k"
  shows "stack_page (frame p) k (t + 1 * PAGE_SIZE) (\<lambda>i. p + of_nat (4096 - 4 * i))"
proof -
  note f' = f [unfolded fresh_page_def]
  have p: "page_base p = p" and t: "page_base t = t" using f' by blast+
  have e: "t + 1 * PAGE_SIZE - 4 * of_nat i = t + of_nat (4096 - 4 * i)" if "i \<in> {1, 2, 3}" for i :: nat
    using that by auto
  have "translate k (t + 1 * PAGE_SIZE - 4 * of_nat i) = Some (p + of_nat (4096 - 4 * i))" if "i \<in> {1, 2, 3}" for i
    unfolding e [OF that] by (rule fresh_stable(2) [OF f]) (use that in auto)
  moreover have "p + of_nat (4096 - 4 * i) + of_nat j \<in> frame p" if i: "i \<in> {1, 2, 3}" "j < 4" for i j
  proof -
    have "p + of_nat (4096 - 4 * i) + of_nat j = p + of_nat (4096 - 4 * i + j)" by (simp add: add.assoc)
    moreover have "4096 - 4 * i + j < 4096" using i by auto
    ultimately show ?thesis using page_offset(1) [OF p] p by (simp only: frame_def mem_Collect_eq)
  qed
  moreover have "aligned4 (t + 1 * PAGE_SIZE)"
  proof -
    have "unat t mod 4 = 0" using aligned_entries(3) [of t 0] t by (simp add: aligned4_def)
    moreover have "unat (t + 0x1000) mod 4 = (unat t + 4096) mod 4" by (simp add: unat_word_ariths mod_mod_cancel)
    ultimately show ?thesis by (simp add: aligned4_def mod_add_eq [symmetric, of _ 4096])
  qed
  moreover have "p + of_nat (4096 - 4 * 1) \<noteq> p + of_nat (4096 - 4 * 2)" "p + of_nat (4096 - 4 * 1) \<noteq> p + of_nat (4096 - 4 * 3)"
    "p + of_nat (4096 - 4 * 2) \<noteq> p + of_nat (4096 - 4 * 3)" by simp_all
  ultimately show ?thesis using f' unfolding stack_page_def by blast
qed

section \<open>What a memory operation leaves alone\<close>

text \<open>\<open>k'\<close> differs from \<open>k\<close> at most in memory, page manager and log.\<close>

definition mem_only :: "kernel \<Rightarrow> kernel \<Rightarrow> bool" where
  "mem_only k k' \<longleftrightarrow> k' = k\<lparr>pmem := pmem k', pm := pm k', io_log := io_log k'\<rparr>"

lemma mem_only_refl [simp]: "mem_only k k"
  by (simp add: mem_only_def)

lemma mem_only_upd [simp]: "mem_only k (k\<lparr>pmem := h\<rparr>)" "mem_only k (k\<lparr>pm := st\<rparr>)" "mem_only k (invlpg v k)"
  by (simp_all add: mem_only_def invlpg_def)

lemma mem_only_trans [trans]: "mem_only k k1 \<Longrightarrow> mem_only k1 k2 \<Longrightarrow> mem_only k k2"
proof -
  assume "mem_only k k1" "mem_only k1 k2"
  then have "k2 = (k\<lparr>pmem := pmem k1, pm := pm k1, io_log := io_log k1\<rparr>)\<lparr>pmem := pmem k2, pm := pm k2, io_log := io_log k2\<rparr>"
    by (simp add: mem_only_def)
  then show ?thesis by (simp add: mem_only_def)
qed

lemma mem_only_rest: "rest_of J k' = rest_of J k \<Longrightarrow> mem_only k k'"
  using rest_of_eq(1) [of J k' k] by (metis mem_only_upd(1))

lemma mem_only_fields:
  assumes "mem_only k k'"
  shows "tcb k' = tcb k" "cur_tcb k' = cur_tcb k" "USER_PAGE_DIR_IS_LOADED k' = USER_PAGE_DIR_IS_LOADED k" "cr3 k' = cr3 k"
    "kern_bitmap k' = kern_bitmap k" "kern_vmm_pool k' = kern_vmm_pool k" "int_flag k' = int_flag k"
  by (subst assms [unfolded mem_only_def]; simp)+

lemma store32_mem_only: "store32 v w k = Inr k' \<Longrightarrow> mem_only k k'"
  by (auto simp: store32_def trE_def split: option.splits)

lemma kern_map_page_mem:
  assumes "kern_map_page t k = Inr (x, k')" "pmm_alloc_one_page (pm k) = Inr (a, st')" "a_state a \<noteq> 0"
  shows "mem_only k k'"
proof -
  obtain k2 where k2: "store32 (get_pte t) (page_base (a_addr a) + PAGE_DESC_RW_W + PAGE_DESC_US_S + PAGE_DESC_G + PAGE_DESC_P) (k\<lparr>pm := st'\<rparr>) = Inr k2"
    "k' = invlpg (page_base t) k2"
    using assms by (auto simp: kern_map_page_def with_pmm_def bindE_eq_Inr)
  show ?thesis
    using mem_only_trans [OF mem_only_trans [OF mem_only_upd(2) store32_mem_only [OF k2(1)]] mem_only_upd(3)] k2(2) by blast
qed

section \<open>Taking pages\<close>

text \<open>
  \<open>space_change I J M st k k'\<close>: from \<open>k\<close> to \<open>k'\<close> the kernel took the pages \<open>dom M\<close> from its pool and mapped
  them, and with them the pages that share their entries, to the frames \<open>M\<close> gives, and wrote bytes of \<open>J\<close>; \<open>st\<close> is the page manager afterwards. The tables of the
  directory stay the same, and the bytes outside the tables, the bitmap (\<open>I\<close>) and \<open>J\<close> are not written.
\<close>

definition space_change :: "uint32 set \<Rightarrow> uint32 set \<Rightarrow> (uint32 \<rightharpoonup> uint32) \<Rightarrow> pmm \<Rightarrow> kernel \<Rightarrow> kernel \<Rightarrow> bool" where
  "space_change I J M st k k' \<longleftrightarrow> kspace I k' \<and> mem_only k k' \<and> pm k' = st \<and>
     kfree k' = kfree k - page_index (kern_vmm_pool k) ` dom M \<and> pde_of k' = pde_of k \<and>
     (\<forall>q. q \<notin> I \<union> J \<longrightarrow> off_tables {q} k \<longrightarrow> pmem k' q = pmem k q) \<and>
     (\<forall>v. translate k' v = (case M (page_base (prim v)) of Some f \<Rightarrow> Some (f OR (v AND 0xFFF)) | None \<Rightarrow> translate k v))"

lemma space_changeD:
  assumes "space_change I J M st k k'"
  shows "kspace I k'" "mem_only k k'" "pm k' = st" "kfree k' = kfree k - page_index (kern_vmm_pool k) ` dom M" "pde_of k' = pde_of k"
    "q \<notin> I \<Longrightarrow> q \<notin> J \<Longrightarrow> off_tables {q} k \<Longrightarrow> pmem k' q = pmem k q"
    "translate k' v = (case M (page_base (prim v)) of Some f \<Rightarrow> Some (f OR (v AND 0xFFF)) | None \<Rightarrow> translate k v)"
  using assms by (auto simp: space_change_def)

lemma space_change_off: "space_change I J M st k k' \<Longrightarrow> off_tables A k' = off_tables A k"
  using space_changeD(2,5) [of I J M st k k'] mem_only_fields(4) [of k k'] by (simp add: off_tables_def mapped_dir_def)

lemma space_change_refl: "kspace I k \<Longrightarrow> space_change I {} Map.empty (pm k) k k"
  by (simp add: space_change_def)

lemma space_change_trans:
  assumes a: "space_change I J M st k k1" and b: "space_change I J' M' st' k1 k2"
  shows "space_change I (J \<union> J') (M ++ M') st' k k2"
proof -
  note a' = space_changeD [OF a] and b' = space_changeD [OF b]
  have "kern_vmm_pool k1 = kern_vmm_pool k" by (rule mem_only_fields(6) [OF a'(2)])
  then have "kfree k2 = kfree k - page_index (kern_vmm_pool k) ` dom (M ++ M')" using a'(4) b'(4) by (simp add: image_Un) blast
  moreover have "pmem k2 q = pmem k q" if "q \<notin> I \<union> (J \<union> J')" "off_tables {q} k" for q
    using a'(6) [of q] b'(6) [of q] that space_change_off [OF a] by simp
  moreover have "translate k2 v = (case (M ++ M') (page_base (prim v)) of Some f \<Rightarrow> Some (f OR (v AND 0xFFF)) | None \<Rightarrow> translate k v)" for v
    using a'(7) [of v] b'(7) [of v] by (simp add: map_add_def split: option.splits)
  ultimately show ?thesis
    using b'(1,3,5) a'(5) mem_only_trans [OF a'(2) b'(2)] unfolding space_change_def by simp
qed

text \<open>Writing to memory outside the tables and the bitmap.\<close>

lemma space_change_write:
  assumes k: "kspace I k" and off: "off_tables J k" "J \<inter> I = {}" and st: "rest_of J k' = rest_of J k"
  shows "space_change I J Map.empty (pm k) k k'"
proof -
  note s = kspace_frame_step [OF k off st]
  have "pm k' = pm k" by (subst rest_of_eq(1) [OF st]) simp
  moreover have "pde_of k' = pde_of k" using s(5) by (rule ext)
  ultimately show ?thesis
    using s(1-3) mem_only_rest [OF st] rest_of_eq(2) [OF st] by (simp add: space_change_def)
qed

text \<open>Page \<open>t\<close> was free and has been marked in the bitmap: the rest of both allocation functions.\<close>

lemma page_taken:
  assumes k: "kspace I k" and t: "in_pool (kpool (kern_bitmap k)) t" "page_index (kpool (kern_bitmap k)) t \<in> kfree k" "page_base t = t" "prim t = t"
    and k0: "rest_of I k0 = rest_of I k"
      "\<forall>x\<in>kbytes k. vmem k0 x = mark_busy (kpool (kern_bitmap k)) (page_index (kpool (kern_bitmap k)) t) (vmem k) x"
    and pm: "pmm_alloc_one_page (pm k) = Inr (a, st')" "a_state a \<noteq> 0"
  shows "\<exists>k1. bindE (present_page_table t k0) (kern_map_page t) = Inr (t, k1) \<and>
    space_change I {} [t \<mapsto> page_base (a_addr a)] st' k k1"
proof -
  have pool: "kern_vmm_pool k = kpool (kern_bitmap k)" by (rule kspaceD(4) [OF k(1)])
  note b = kspace_mark_busy [OF k t(2) k0]
  note eq = rest_of_eq [OF k0(1)] and w = off_tables_write [OF kspaceD(2) [OF k(1)] rest_of_eq(2) [OF k0(1)], folded rest_of_eq(1) [OF k0(1)]]
  note tg = pool_target [OF b(1) t(1) kspaceD(6) [OF k t(2)]]
  have t0: "\<forall>v\<in>kbytes k0. page_base (prim v) \<noteq> page_base (prim t)" "pmm_alloc_one_page (pm k0) = Inr (a, st')"
    using busy_not_bitmap [OF k t(2,4)] b(3,4) pm by simp_all
  obtain k1 where k1: "kern_map_page t k0 = Inr (t, k1)" "kspace I k1" "pm k1 = st'" "kern_bitmap k1 = kern_bitmap k0" "kfree k1 = kfree k0"
    "pde_of k1 = pde_of k0" "\<forall>q. page_base q \<noteq> page_base (pde_of k0 t) \<longrightarrow> pmem k1 q = pmem k0 q"
    "\<forall>v. translate k1 v = (if page_base (prim v) = page_base (prim t) then Some (page_base (a_addr a) OR (v AND 0xFFF)) else translate k0 v)"
    using kern_map_page_ok [OF b(1) tg(2,3) t0 pm(2)] by blast
  have "mem_only k k1" using mem_only_trans [OF mem_only_rest [OF k0(1)] kern_map_page_mem [OF k1(1) t0(2) pm(2)]] .
  moreover have "pde_of k1 = pde_of k" using k1(6) w(1) by auto
  moreover have "pmem k1 q = pmem k q" if "q \<notin> I" "off_tables {q} k" for q
  proof -
    have "mapped_dir k t" using kspaceD(3) [OF k] tg(1) by blast
    then have "page_base q \<noteq> page_base (pde_of k0 t)" using that w(1) by (simp add: off_tables_def)
    moreover have "pmem k0 q = pmem k q" using that eq(2) by blast
    ultimately show ?thesis using k1(7) by simp
  qed
  moreover have "kfree k1 = kfree k - {page_index (kern_vmm_pool k) t}" using k1(5) b(5) pool by simp
  ultimately have "space_change I {} [t \<mapsto> page_base (a_addr a)] st' k k1"
    using k1(2,3,8) t(3,4) b(2) by (simp add: space_change_def)
  then show ?thesis using k1(1) present_page_table_ok [OF b(1)] by simp
qed

lemma alloc_taken:
  assumes k: "kspace I k" "kfree k \<noteq> {}" and low: "Min (kfree k) < 16384" and pm: "pmm_alloc_one_page (pm k) = Inr (a, st')" "a_state a \<noteq> 0"
  defines "t \<equiv> page_addr (kern_vmm_pool k) (Min (kfree k))"
  shows "\<exists>k1. vmm_kern_alloc k = Inr (t, k1) \<and> space_change I {} [t \<mapsto> page_base (a_addr a)] st' k k1"
proof -
  have pool: "kern_vmm_pool k = kpool (kern_bitmap k)" by (rule kspaceD(4) [OF k(1)])
  obtain k0 where k0: "vmm_kern_alloc k = bindE (present_page_table t k0) (kern_map_page t)" "rest_of I k0 = rest_of I k"
    "\<forall>x\<in>kbytes k. vmem k0 x = mark_busy (kpool (kern_bitmap k)) (page_index (kpool (kern_bitmap k)) t) (vmem k) x"
    "in_pool (kpool (kern_bitmap k)) t" "page_index (kpool (kern_bitmap k)) t = Min (kfree k)" "page_base t = t" "Min (kfree k) \<in> kfree k"
    using kern_alloc_run [OF k] unfolding t_def pool by blast
  have pt: "prim t = t" unfolding t_def pool by (rule page_addr_primary(3) [OF low])
  have "page_index (kpool (kern_bitmap k)) t \<in> kfree k" using k0(5,7) by simp
  from page_taken [OF k(1) k0(4) this k0(6) pt k0(2,3) pm] show ?thesis unfolding k0(1) .
qed

lemma alloc_at_taken:
  assumes k: "kspace I k" and n: "n \<in> kfree k" "n < 16384" and pm: "pmm_alloc_one_page (pm k) = Inr (a, st')" "a_state a \<noteq> 0"
  defines "t \<equiv> page_addr (kern_vmm_pool k) n"
  shows "\<exists>k1. vmm_kern_alloc_one_page t k = Inr (t, k1) \<and> space_change I {} [t \<mapsto> page_base (a_addr a)] st' k k1"
proof -
  have pool: "kern_vmm_pool k = kpool (kern_bitmap k)" by (rule kspaceD(4) [OF k])
  have "n < 8 * unat (bm_length (kpool (kern_bitmap k)))" using n(1) by (simp add: free_pages_def)
  note t = page_index_addr [OF kpool_wf this, folded pool, folded t_def, unfolded pool]
  have f: "page_index (kpool (kern_bitmap k)) t \<in> kfree k" using n(1) t(1) by simp
  have pt: "prim t = t" unfolding t_def pool by (rule page_addr_primary(3) [OF n(2)])
  obtain k0 where k0: "vmm_kern_alloc_one_page t k = bindE (present_page_table t k0) (kern_map_page t)" "rest_of I k0 = rest_of I k"
    "\<forall>x\<in>kbytes k. vmem k0 x = mark_busy (kpool (kern_bitmap k)) (page_index (kpool (kern_bitmap k)) t) (vmem k) x"
    using kern_alloc_one_page_run [OF k t(2) f] by blast
  from page_taken [OF k t(2) f t(3) pt k0(2,3) pm] show ?thesis unfolding k0(1) .
qed

lemma change_fresh:
  assumes c: "space_change I J M st k k1" and t: "M t = Some p" "page_base t = t" "0xC0000000 \<le> t" "prim t = t" and p: "page_base p = p"
    and off: "off_tables (frame p) k" "frame p \<inter> I = {}"
  shows "fresh_page I t p k1"
proof -
  have "translate k1 v = Some (p OR (v AND 0xFFF))" if "page_base v = t" for v
  proof -
    have "prim v = v" using prim_own_page [OF t(4)] that t(2) by simp
    then show ?thesis using space_changeD(7) [OF c, of v] t(1) that by simp
  qed
  then show ?thesis using space_changeD(1) [OF c] t p off space_change_off [OF c] by (simp add: fresh_page_def)
qed

text \<open>The complete account of a kernel page allocation.\<close>

lemma alloc_fresh_full:
  assumes k: "kspace I k" "kfree k \<noteq> {}" and low: "Min (kfree k) < 16384" and pm: "pmm_alloc_one_page (pm k) = Inr (a, st')" "a_state a \<noteq> 0"
    and off: "off_tables (frame (a_addr a)) k" and dis: "frame (a_addr a) \<inter> I = {}"
  defines "t \<equiv> page_addr (kern_vmm_pool k) (Min (kfree k))"
  shows "\<exists>k1. vmm_kern_alloc k = Inr (t, k1) \<and> fresh_page I t (page_base (a_addr a)) k1 \<and> t \<noteq> 0xFFFFFFFF \<and>
    space_change I {} [t \<mapsto> page_base (a_addr a)] st' k k1 \<and>
    page_index (kern_vmm_pool k) t \<in> kfree k"
proof -
  note tg = kern_alloc_target [OF k low, folded t_def]
  obtain k1 where k1: "vmm_kern_alloc k = Inr (t, k1)" "space_change I {} [t \<mapsto> page_base (a_addr a)] st' k k1"
    using alloc_taken [OF k low pm] unfolding t_def by blast
  have "fresh_page I t (page_base (a_addr a)) k1" by (rule change_fresh [OF k1(2)]) (use tg off dis in simp_all)
  moreover have "page_index (kern_vmm_pool k) t \<in> kfree k"
    using kern_alloc_run [OF k] unfolding kspaceD(4) [OF k(1)] t_def by metis
  ultimately show ?thesis using k1 tg(4) by blast
qed

end
