(* ===== verification/UserSpace.thy ===== *)
theory UserSpace
  imports UserTask VmmInstance FreshPage
begin

text \<open>
  The page directory of a new user task: it shares the tables of the kernel half, has no user
  pages and maps itself.
\<close>

section \<open>Copying from memory that the copy does not write\<close>

context byte_memory
begin

lemma memcpy_from:
  "ok s \<Longrightarrow> span dst (unat len) \<subseteq> R \<Longrightarrow>
   (\<And>t i. ok t \<Longrightarrow> rest t = rest s \<Longrightarrow> i < unat len \<Longrightarrow> ld (src + of_nat i) t = Inr (g i)) \<Longrightarrow>
   \<exists>s'. memcpy ld st dst src len s = Inr s' \<and> ok s' \<and> rest s' = rest s \<and>
     (\<forall>i < unat len. mem s' (dst + of_nat i) = g i) \<and> (\<forall>x\<in>R. x \<notin> span dst (unat len) \<longrightarrow> mem s' x = mem s x)"
proof (induction "unat len" arbitrary: dst src len s g)
  case 0
  then show ?case by (auto simp: unat_eq_0)
next
  case (Suc n)
  then have nz: "len \<noteq> 0" and n: "unat (len - 1) = n" using unat_pred [of len n] by auto
  have sd: "span dst (unat len) = insert dst (span (dst + 1) n)" using Suc.hyps(2) span_Suc by metis
  have l: "ld src s = Inr (g 0)" using Suc.prems(3) [OF Suc.prems(1) refl, of 0] Suc.hyps(2) by simp
  obtain t where t: "st dst (g 0) s = Inr t" "ok t" "rest t = rest s" "\<forall>x\<in>R. mem t x = ((mem s)(dst := g 0)) x"
    using st_ok [OF Suc.prems(1), of dst "g 0"] Suc.prems(2) sd by auto
  have src: "ld (src + 1 + of_nat i) u = Inr (g (Suc i))" if "ok u" "rest u = rest t" "i < n" for u i
    using Suc.prems(3) [of u "Suc i"] that t(3) Suc.hyps(2) by (simp add: add.assoc)
  have sub: "span (dst + 1) n \<subseteq> R" using Suc.prems(2) sd by blast
  obtain s' where s': "memcpy ld st (dst + 1) (src + 1) (len - 1) t = Inr s'" "ok s'" "rest s' = rest t"
    "\<forall>i<n. mem s' (dst + 1 + of_nat i) = g (Suc i)" "\<forall>x\<in>R. x \<notin> span (dst + 1) n \<longrightarrow> mem s' x = mem t x"
    using Suc.hyps(1) [of "len - 1" t "dst + 1" "src + 1" "\<lambda>i. g (Suc i)"] n t(2) sub src by auto
  have "n < 2 ^ 32" using n unat_lt_32 [of "len - 1"] by simp
  then have "mem s' dst = g 0" using s'(5) t(4) span_not_mem [of n dst] Suc.prems(2) sd by auto
  then have "mem s' (dst + of_nat i) = g i" if "i < unat len" for i
    using s'(4) that Suc.hyps(2) by (cases i) (simp_all add: algebra_simps)
  moreover have "\<forall>x\<in>R. x \<notin> span dst (unat len) \<longrightarrow> mem s' x = mem s x" using s'(5) t(4) sd by auto
  ultimately show ?case using l t s' nz by (subst memcpy.simps) auto
qed

end

section \<open>The page of the directory\<close>

text \<open>The bytes of the directory, read through the last page of the address space.\<close>

lemma translate_dir:
  assumes "self_mapped k" "drop_bit 12 v = 0xFFFFF"
  shows "translate k v = Some (page_base (cr3 k) OR (v AND 0xFFF))"
proof -
  let ?e = "ld32p (pmem k) (page_base (cr3 k) + 4092)"
  have e: "bit ?e 0" "page_base ?e = page_base (cr3 k)" using assms(1) by (simp_all add: self_mapped_def Let_def)
  have "drop_bit 22 v = drop_bit 10 (drop_bit 12 v)" by simp
  then have d: "drop_bit 22 v = 0x3FF" using assms(2) by simp
  have 1: "pde_of k v = ?e" by (simp add: pde_of_def pde_paddr_def d)
  have 2: "pte_of k v = ?e" by (simp add: pte_of_def pte_paddr_def 1 e assms(2))
  show ?thesis by (simp add: translate_eq 1 2 e)
qed

lemma dir_window:
  assumes "i < 1024"
  shows "drop_bit 12 (get_pde 0xC0000000 + of_nat i) = (0xFFFFF :: uint32)"
    "(get_pde 0xC0000000 + of_nat i) AND 0xFFF = of_nat (0xC00 + i)"
proof -
  have g: "get_pde 0xC0000000 = 0xFFFFFC00" by (simp add: get_pde_def page_base_def Let_def)
  have u: "unat (0xFFFFFC00 + of_nat i :: uint32) = 0xFFFFFC00 + i"
    using assms unat_of_nat_32 [of "0xFFFFFC00 + i"] by simp
  have "unat (drop_bit 12 (0xFFFFFC00 + of_nat i :: uint32)) = (0xFFFFFC00 + i) div 4096" by (simp add: drop_bit_eq_div unat_div u)
  then show "drop_bit 12 (get_pde 0xC0000000 + of_nat i) = (0xFFFFF :: uint32)"
    using assms unfolding g by (simp add: word_unat_eq_iff)
  have "unat (of_nat (0xC00 + i) :: uint32) = 0xC00 + i" using assms by (intro unat_of_nat_32) simp
  then show "(get_pde 0xC0000000 + of_nat i) AND 0xFFF = of_nat (0xC00 + i)"
    using assms and_low(1) [of "0xFFFFFC00 + of_nat i"] u unfolding g by (simp add: word_unat_eq_iff mod_nat_eqI)
qed

text \<open>Addresses of the window translate to tables, so that other data is never seen through it.\<close>

lemma window_target:
  assumes "self_mapped k" "drop_bit 22 v = 0x3FF" "translate k v = Some q"
  shows "\<exists>w. mapped_dir k w \<and> page_base q = page_base (pde_of k w)"
proof -
  let ?w = "push_bit 22 (drop_bit 12 v AND 0x3FF) :: uint32"
  have e: "bit (pde_of k v) 0" "page_base (pde_of k v) = page_base (cr3 k)"
    using window_dir [OF assms(1,2)] by (simp_all add: mapped_dir_def)
  have w: "drop_bit 22 ?w = drop_bit 12 v AND 0x3FF"
    unfolding masks by (rule bit_word_eqI) (auto simp: bit_simps dest: bit_imp_le_length)
  have "pte_of k v = ld32p (pmem k) (page_base (cr3 k) + (drop_bit 12 v AND 0x3FF) * 4)" by (simp only: pte_of_def pte_paddr_def e(2))
  then have p: "pte_of k v = pde_of k ?w" by (simp only: pde_of_def pde_paddr_def w)
  have "q = page_base (pte_of k v) OR (v AND 0xFFF)" "bit (pte_of k v) 0" using assms(3) by (auto simp: translate_eq split: if_splits)
  moreover have "page_base (page_base x OR (v AND 0xFFF)) = page_base x" for x
  proof -
    have "(v AND 0xFFF) AND 0xFFF = v AND 0xFFF" by (simp add: and.assoc)
    then show ?thesis using page_base_low page_or_add by metis
  qed
  ultimately show ?thesis using p by (auto simp: mapped_dir_def)
qed

lemma data_not_window:
  assumes "self_mapped k" "off_tables J k" "q \<in> J" "translate k v = Some q"
  shows "drop_bit 22 v \<noteq> 0x3FF"
  using window_target [OF assms(1) _ assms(4)] assms(2,3) unfolding off_tables_def by metis

section \<open>Filling the directory\<close>

lemma fresh_dir_byte:
  assumes f: "fresh_page I t p k" and u: "rest_of (frame p) u = rest_of (frame p) k" and i: "i < 1024"
  shows "load8 (get_pde 0xC0000000 + of_nat i) u = Inr (pmem k (page_base (cr3 k) + of_nat (0xC00 + i)))"
proof -
  note f' = f [unfolded fresh_page_def]
  let ?x = "page_base (cr3 k) + of_nat (0xC00 + i)"
  have b: "page_base (page_base (cr3 k)) = page_base (cr3 k)" by simp
  have "0xC00 + i < 4096" using i by simp
  note off = page_offset [OF b this]
  have "translate u (get_pde 0xC0000000 + of_nat i) = Some ?x"
    unfolding fresh_step(2) [OF f u] translate_dir [OF kspaceD(5) dir_window(1) [OF i], of I k, OF conjunct1 [OF f']]
      dir_window(2) [OF i] off(3) ..
  moreover have "pmem u ?x = pmem k ?x"
  proof -
    have "p \<in> frame p" by (simp add: frame_def)
    then have "page_base p \<noteq> page_base (cr3 k)" using f' unfolding off_tables_def by blast
    then have "?x \<notin> frame p" using off(1) f' by (auto simp: frame_def)
    then show ?thesis using rest_of_eq(2) [OF u] by blast
  qed
  ultimately show ?thesis by (simp add: load8_Some)
qed

lemma fill_directory:
  assumes f: "fresh_page I t p k"
  shows "\<exists>k3. bindE (memset store8 t 0 0x1000 k) (pdt_mapping_helper t) = Inr k3 \<and> fresh_page I t p k3 \<and>
    rest_of (frame p) k3 = rest_of (frame p) k \<and>
    (\<forall>i<4096. pmem k3 (p + of_nat i) = (if i < 0xC00 then 0 else pmem k (page_base (cr3 k) + of_nat i)))"
proof -
  let ?R = "span t 4096" and ?J = "frame p"
  have n: "unat (0x1000 :: uint32) = 4096" "unat (1024 :: uint32) = 1024" by simp_all
  obtain k2 where k2: "memset store8 t 0 0x1000 k = Inr k2" "stable ?J ?R k2" "rest_of ?J k2 = rest_of ?J k"
    "\<forall>x\<in>?R. vmem k2 x = (if x \<in> ?R then 0 else vmem k x)"
    using mmu.memset_ok [where I = ?J and R = ?R and s = k and dst = t and len = "0x1000" and val = 0, unfolded n]
      fresh_stable(1) [OF f] by blast
  have f2: "fresh_page I t p k2" by (rule fresh_step(1) [OF f k2(3)])
  have sub: "span (t + 0xC00) 1024 \<subseteq> ?R" using span_shift [of "0xC00" 1024 4096 t] by simp
  let ?g = "\<lambda>i. pmem k (page_base (cr3 k) + of_nat (0xC00 + i))"
  have src: "load8 (get_pde 0xC0000000 + of_nat i) u = Inr (?g i)" if "rest_of ?J u = rest_of ?J k2" "i < 1024" for u i
    using fresh_dir_byte [OF f, of u i] that k2(3) by simp
  obtain k3 where k3: "memcpy load8 store8 (t + 0xC00) (get_pde 0xC0000000) 1024 k2 = Inr k3" "rest_of ?J k3 = rest_of ?J k2"
    "\<forall>i<1024. vmem k3 (t + 0xC00 + of_nat i) = ?g i" "\<forall>x\<in>?R. x \<notin> span (t + 0xC00) 1024 \<longrightarrow> vmem k3 x = vmem k2 x"
    using mmu.memcpy_from [where I = ?J and R = ?R and s = k2 and dst = "t + 0xC00" and len = 1024 and
        src = "get_pde 0xC0000000" and g = ?g, unfolded n, OF k2(2) sub src] by blast
  have f3: "fresh_page I t p k3" by (rule fresh_step(1) [OF f2 k3(2)])
  have "pmem k3 (p + of_nat i) = (if i < 0xC00 then 0 else pmem k (page_base (cr3 k) + of_nat i))" if i: "i < 4096" for i
  proof (cases "i < 0xC00")
    case True
    have "t + of_nat i \<notin> span (t + 0xC00) 1024"
    proof
      assume "t + of_nat i \<in> span (t + 0xC00) 1024"
      then obtain j where j: "j < 1024" "t + of_nat i = t + of_nat (0xC00 + j)" by (auto simp: span_def algebra_simps)
      then show False using True span_inj [of i "0xC00 + j" t] by simp
    qed
    then have "vmem k3 (t + of_nat i) = 0" using k3(4) k2(4) span_mem [OF i, of t] by auto
    then show ?thesis using fresh_stable(3) [OF f3 i] True by simp
  next
    case False
    then obtain j where j: "i = 0xC00 + j" using le_Suc_ex by (metis not_less)
    then have "vmem k3 (t + of_nat i) = ?g j" using k3(3) i by (simp add: add.assoc)
    then show ?thesis using fresh_stable(3) [OF f3 i] False j by simp
  qed
  then show ?thesis using k2(1,3) k3(1,2) f3 by (auto simp: pdt_mapping_helper_def)
qed

lemma last_entry_ok:
  assumes f: "fresh_page I t p k"
  defines "k4 \<equiv> k\<lparr>pmem := st32p (pmem k) (p + 0xFFC) (p + 0x103)\<rparr>"
  shows "mapping_last_pde (t + 0x1000 - 4) p k = Inr k4" "fresh_page I t p k4" "rest_of (frame p) k4 = rest_of (frame p) k"
    "aligned4 (p + 0xFFC)"
proof -
  note f' = f [unfolded fresh_page_def]
  have al: "aligned4 (q + 0xFFC)" if "page_base q = q" for q using aligned_entries(3) [of q "0x3FF"] that by simp
  show "aligned4 (p + 0xFFC)" using al f' by blast
  have "page_base t = t" using f' by blast
  moreover have "translate k (t + 0xFFC) = Some (p + 0xFFC)" using fresh_stable(2) [OF f, of "0xFFC"] by simp
  ultimately have "store32 (t + 0xFFC) (p + 0x103) k = Inr k4" unfolding k4_def by (intro access32(2) al)
  then show "mapping_last_pde (t + 0x1000 - 4) p k = Inr k4" using f' by (simp add: mapping_last_pde_def algebra_simps)
  have "x = p + 0xFFC + of_nat i \<Longrightarrow> i < 4 \<Longrightarrow> x \<in> frame p" for x i
    using entry_frame [of i p "0x3FF"] f' by (simp add: frame_def)
  then have "st32p (pmem k) (p + 0xFFC) (p + 0x103) x = pmem k x" if "x \<notin> frame p" for x
    using that st32p_other [of x "p + 0xFFC"] by blast
  then have "(\<lambda>x. if x \<in> frame p then 0 else st32p (pmem k) (p + 0xFFC) (p + 0x103) x) = (\<lambda>x. if x \<in> frame p then 0 else pmem k x)"
    by auto
  then show r: "rest_of (frame p) k4 = rest_of (frame p) k" by (simp add: rest_of_def k4_def cong: if_cong)
  show "fresh_page I t p k4" by (rule fresh_step(1) [OF f r])
qed

text \<open>
  \<open>task_dir p k\<close>: the frame \<open>p\<close> holds a directory that maps itself, has the tables of the kernel for the kernel
  half, and no other table.
\<close>

definition task_dir :: "uint32 \<Rightarrow> kernel \<Rightarrow> bool" where
  "task_dir p k \<longleftrightarrow> page_base p = p \<and> ld32p (pmem k) (p + 0xFFC) = p + 0x103 \<and>
     (\<forall>v. drop_bit 22 v \<noteq> 0x3FF \<longrightarrow>
        ld32p (pmem k) (p + (drop_bit 22 v AND 0x3FF) * 4) = (if v < 0xC0000000 then 0 else pde_of k v))"

lemma task_dir_step:
  assumes d: "task_dir p k" and c: "space_change I J M st k k'" and off: "off_tables (frame p) k" and dis: "frame p \<inter> (I \<union> J) = {}"
  shows "task_dir p k'"
proof -
  have p: "page_base p = p" using d by (simp add: task_dir_def)
  have "pmem k' y = pmem k y" if "page_base y = page_base p" for y
    using space_changeD(6) [OF c, of y] dis off that by (auto simp: frame_def off_tables_def)
  then have ld: "ld32p (pmem k') (p + (x AND 0x3FF) * 4) = ld32p (pmem k) (p + (x AND 0x3FF) * 4)" for x
    using ld32p_frame [of p "pmem k'" "pmem k" x] p by simp
  then show ?thesis using d ld [of "0x3FF"] space_changeD(5) [OF c] by (simp add: task_dir_def)
qed

text \<open>The address space that this directory defines.\<close>

lemma new_pde:
  assumes d: "task_dir p k"
  shows "pde_of (k\<lparr>cr3 := p\<rparr>) v = (if drop_bit 22 v = 0x3FF then p + 0x103 else if v < 0xC0000000 then 0 else pde_of k v)"
proof -
  have "pde_of (k\<lparr>cr3 := p\<rparr>) v = ld32p (pmem k) (p + (drop_bit 22 v AND 0x3FF) * 4)"
    using d by (simp add: pde_of_def pde_paddr_mask task_dir_def)
  then show ?thesis using d by (simp add: task_dir_def)
qed

lemma new_space:
  assumes d: "task_dir p k"
  defines "u \<equiv> k\<lparr>cr3 := p\<rparr>"
  shows "self_mapped u" "v < 0xC0000000 \<Longrightarrow> translate u v = None"
    "0xC0000000 \<le> v \<Longrightarrow> drop_bit 22 v \<noteq> 0x3FF \<Longrightarrow> translate u v = translate k v"
proof -
  note pde = new_pde [OF d, folded u_def]
  have p: "page_base p = p" using d by (simp add: task_dir_def)
  have "page_base (p + 0x103) = p" "bit (p + 0x103) 0" using entry_value [of "0x103" p] p by (simp_all add: bit_0)
  then show "self_mapped u" using d by (simp add: self_mapped_def u_def task_dir_def)
  show "translate u v = None" if "v < 0xC0000000"
  proof -
    have "drop_bit 22 v \<noteq> 0x3FF" using that dir_high [of v] by auto
    then show ?thesis using that by (simp add: translate_eq pde)
  qed
  show "translate u v = translate k v" if v: "0xC0000000 \<le> v" "drop_bit 22 v \<noteq> 0x3FF"
  proof -
    have "pde_of u v = pde_of k v" using v leD [OF v(1)] by (simp add: pde)
    then show ?thesis by (simp add: translate_eq pte_of_def) (simp add: u_def)
  qed
qed

text \<open>The invariant of the kernel holds in it, and other data stays outside its tables.\<close>

lemma new_kspace:
  assumes k: "kspace I k" and d: "task_dir p k" and off: "off_tables (frame p) k" and dis: "frame p \<inter> I = {}"
  defines "u \<equiv> k\<lparr>cr3 := p\<rparr>"
  shows "kspace I u" "kfree u = kfree k" "off_tables J k \<Longrightarrow> frame p \<inter> J = {} \<Longrightarrow> off_tables J u"
proof -
  note pde = new_pde [OF d, folded u_def] and sp = new_space [OF d, folded u_def]
  have p: "page_base p = p" using d by (simp add: task_dir_def)
  have e: "page_base (p + 0x103) = p" "bit (p + 0x103) 0" using entry_value [of "0x103" p] p by (simp_all add: bit_0)
  have md: "mapped_dir u v \<longleftrightarrow> 0xC0000000 \<le> v" for v
    using kspaceD(3) [OF k, of v] e(2) dir_high [of v] by (auto simp: mapped_dir_def pde not_less)
  have pb: "page_base (pde_of u v) = (if drop_bit 22 v = 0x3FF then p else page_base (pde_of k v))" if "0xC0000000 \<le> v" for v
    using leD [OF that] e(1) by (simp add: pde)
  have np: "page_base (pde_of k v) \<noteq> p" if "0xC0000000 \<le> v" for v
    using off kspaceD(3) [OF k that] p unfolding off_tables_def by (auto simp: frame_def)
  have "page_base (pde_of u v) \<noteq> page_base (pde_of u w)"
    if "0xC0000000 \<le> v" "0xC0000000 \<le> w" "drop_bit 22 (prim v) \<noteq> drop_bit 22 (prim w)" for v w
  proof -
    have "page_base (pde_of k v) \<noteq> page_base (pde_of k w)"
      using kspaceD(1) [OF k] kspaceD(3) [OF k] that unfolding shared_tables_def by blast
    moreover have "drop_bit 22 v \<noteq> 0x3FF \<or> drop_bit 22 w \<noteq> 0x3FF" using that(3) by (metis prim_window(2))
    ultimately show ?thesis using np [OF that(1)] np [OF that(2)] unfolding pb [OF that(1)] pb [OF that(2)] by auto
  qed
  moreover have "pde_of u v = pde_of u (prim v)" for v
    using prim_pde [OF kspaceD(1) [OF k], of v] prim_high [of v] by (simp add: pde not_le [symmetric])
  ultimately have sep: "shared_tables u" using sp(1) md by (simp add: shared_tables_def)
  show o: "off_tables J u" if "off_tables J k" "frame p \<inter> J = {}" for J
    unfolding off_tables_def
  proof (intro ballI conjI allI impI)
    fix q assume q: "q \<in> J"
    then have qp: "page_base q \<noteq> p" using that(2) p by (auto simp: frame_def)
    then show "page_base q \<noteq> page_base (cr3 u)" using p by (simp add: u_def)
    fix v assume "mapped_dir u v"
    then have v: "0xC0000000 \<le> v" using md by simp
    then have "page_base q \<noteq> page_base (pde_of k v)" using that(1) q kspaceD(3) [OF k v] by (simp add: off_tables_def)
    then show "page_base q \<noteq> page_base (pde_of u v)" using qp pb [OF v] by simp
  qed
  have tr: "translate u v = translate k v" if v: "v \<in> kbytes k" for v
  proof (rule sp(3))
    show "0xC0000000 \<le> v" using kspaceD(7) [OF k v] .
    obtain q where "q \<in> I" "translate k v = Some q" using kspaceD(9) [OF k v] by blast
    then show "drop_bit 22 v \<noteq> 0x3FF" by (rule data_not_window [OF kspaceD(5,2) [OF k]])
  qed
  have b: "kern_bitmap u = kern_bitmap k" "kern_vmm_pool u = kern_vmm_pool k" by (simp_all add: u_def)
  show fr: "kfree u = kfree k" unfolding b by (rule free_pages_cong) (simp add: vmem_def tr, simp add: u_def)
  have "inj_on (translate u) (kbytes k)" using kspaceD(10) [OF k] tr by (simp add: inj_on_def)
  then show "kspace I u"
    using kspaceD [OF k] sep md o [OF kspaceD(2) [OF k] dis] fr tr unfolding kspace_def b by (simp add: b)
qed

section \<open>Creating the directory\<close>

lemma filled_entries:
  assumes f: "fresh_page I t p k1" and r: "rest_of (frame p) k4 = rest_of (frame p) k1"
    and fill: "\<forall>i<4096. pmem k3 (p + of_nat i) = (if i < 0xC00 then 0 else pmem k1 (page_base (cr3 k1) + of_nat i))"
    and k4: "pmem k4 = st32p (pmem k3) (p + 0xFFC) w" and al4: "aligned4 (p + 0xFFC)" and i: "i < 1023"
  shows "ld32p (pmem k4) (p + of_nat (4 * i)) = (if i < 768 then 0 else ld32p (pmem k4) (page_base (cr3 k4) + of_nat (4 * i)))"
proof -
  have cr: "cr3 k4 = cr3 k1" by (subst rest_of_eq(1) [OF r]) simp
  have p: "page_base p = p" using f by (simp add: fresh_page_def)
  let ?x = "of_nat i :: uint32"
  have u: "unat ?x = i" using i by (intro unat_of_nat_32) simp
  have "?x AND 0x3FF = ?x" using u i and_low(2) [of ?x] by (simp add: word_unat_eq_iff)
  then have a: "q + of_nat (4 * i) = q + (?x AND 0x3FF) * 4" for q by (simp add: mult.commute)
  have al: "aligned4 (p + of_nat (4 * i))" unfolding a using aligned_entries(3) [of p ?x] p by simp
  have ne: "p + 0xFFC \<noteq> p + of_nat (4 * i)" using span_inj [of "0xFFC" "4 * i" p] i by simp
  have lo: "ld32p (pmem k4) (p + of_nat (4 * i)) = ld32p (pmem k3) (p + of_nat (4 * i))"
    using al4 al ne by (simp add: k4)
  have b: "pmem k3 (p + of_nat (4 * i) + of_nat j) =
      (if i < 768 then 0 else pmem k1 (page_base (cr3 k1) + of_nat (4 * i) + of_nat j))" if "j < 4" for j
    using fill [rule_format, of "4 * i + j"] that i by (simp add: add.assoc)
  show ?thesis
  proof (cases "i < 768")
    case True
    then show ?thesis unfolding lo using ld32p_cong [of "pmem k3" "p + of_nat (4 * i)" "\<lambda>_. 0"] b by (simp add: ld32p_def)
  next
    case False
    have "ld32p (pmem k3) (p + of_nat (4 * i)) = ld32p (pmem k1) (page_base (cr3 k1) + of_nat (4 * i))"
      unfolding ld32p_def using b [of 0] b [of 1] b [of 2] b [of 3] False by simp
    moreover have "pmem k1 y = pmem k4 y" if "page_base y = page_base (cr3 k1)" for y
      using rest_of_eq(2) [OF r] that f unfolding fresh_page_def off_tables_def by (metis)
    ultimately show ?thesis using lo ld32p_frame [of "cr3 k1" "pmem k1" "pmem k4" ?x] False unfolding cr a by simp
  qed
qed

lemma filled_dir:
  assumes f: "fresh_page I t p k1" and r: "rest_of (frame p) k4 = rest_of (frame p) k1"
    and fill: "\<forall>i<4096. pmem k3 (p + of_nat i) = (if i < 0xC00 then 0 else pmem k1 (page_base (cr3 k1) + of_nat i))"
    and k4: "pmem k4 = st32p (pmem k3) (p + 0xFFC) (p + 0x103)" and al4: "aligned4 (p + 0xFFC)"
  shows "task_dir p k4"
  unfolding task_dir_def
proof (intro conjI allI impI)
  show "page_base p = p" using f by (simp add: fresh_page_def)
  show "ld32p (pmem k4) (p + 0xFFC) = p + 0x103" by (simp add: k4)
  fix v :: uint32 assume v: "drop_bit 22 v \<noteq> 0x3FF"
  let ?i = "unat (drop_bit 22 v)"
  have "?i \<noteq> unat (0x3FF :: uint32)" using v unfolding word_unat_eq_iff .
  then have "?i < 1023" using dir_less [of v] by simp
  note e = filled_entries [OF f r fill k4 al4 this]
  have "pde_of k4 v = ld32p (pmem k4) (page_base (cr3 k4) + of_nat (4 * ?i))"
    by (simp add: pde_of_def pde_paddr_def mult.commute)
  then show "ld32p (pmem k4) (p + (drop_bit 22 v AND 0x3FF) * 4) = (if v < 0xC0000000 then 0 else pde_of k4 v)"
    using e dir_high [of v] by (simp add: dir_idx mult.commute not_le [symmetric])
qed

lemma create_user_task_pdt_full:
  assumes k: "kspace I k" "kfree k \<noteq> {}" and low: "Min (kfree k) < 16384" and pm: "pmm_alloc_one_page (pm k) = Inr (a, st')" "a_state a \<noteq> 0"
    and off: "off_tables (frame (a_addr a)) k" and dis: "frame (a_addr a) \<inter> I = {}"
  defines "t \<equiv> page_addr (kern_vmm_pool k) (Min (kfree k))" and "p \<equiv> page_base (a_addr a)"
  shows "\<exists>k'. create_user_task_pdt k = Inr (t, k') \<and> space_change I (frame p) [t \<mapsto> p] st' k k' \<and> task_dir p k' \<and> t \<noteq> 0xFFFFFFFF"
proof -
  obtain k1 where k1: "vmm_kern_alloc k = Inr (t, k1)" "fresh_page I t p k1" "t \<noteq> 0xFFFFFFFF" "space_change I {} [t \<mapsto> p] st' k k1"
    using alloc_fresh_full [OF k low pm off dis] unfolding t_def p_def by blast
  obtain k3 where k3: "bindE (memset store8 t 0 0x1000 k1) (pdt_mapping_helper t) = Inr k3" "fresh_page I t p k3"
    "rest_of (frame p) k3 = rest_of (frame p) k1"
    "\<forall>i<4096. pmem k3 (p + of_nat i) = (if i < 0xC00 then 0 else pmem k1 (page_base (cr3 k1) + of_nat i))"
    using fill_directory [OF k1(2)] by blast
  note f3 = k3(2) [unfolded fresh_page_def]
  have "self_mapped k3" "mapped_dir k3 t" using kspaceD(3,5) [of I k3] f3 by blast+
  moreover have "translate k3 t = Some p" using fresh_stable(2) [OF k3(2), of 0] by simp
  ultimately have v2p: "vmm_v2p t k3 = Inr p" using vmm_v2p_run [of k3 t] by blast
  define k4 where "k4 = k3\<lparr>pmem := st32p (pmem k3) (p + 0xFFC) (p + 0x103)\<rparr>"
  note k4 = last_entry_ok [OF k3(2), folded k4_def]
  have run: "create_user_task_pdt k = Inr (t, k4)"
    using k1(1,3) k3(1) v2p k4(1) by (cases "memset store8 t 0 0x1000 k1") (simp_all add: create_user_task_pdt_def)
  have r: "rest_of (frame p) k4 = rest_of (frame p) k1" using k4(3) k3(3) by simp
  have "pmem k4 = st32p (pmem k3) (p + 0xFFC) (p + 0x103)" by (simp add: k4_def)
  note d = filled_dir [OF k1(2) r k3(4) this k4(4)]
  note f1 = k1(2) [unfolded fresh_page_def]
  have "space_change I (frame p) Map.empty (pm k1) k1 k4" by (rule space_change_write) (use f1 r in auto)
  from space_change_trans [OF k1(4) this] have "space_change I (frame p) [t \<mapsto> p] st' k k4"
    using space_changeD(3) [OF k1(4)] by simp
  then show ?thesis using run d k1(3) by blast
qed

text \<open>
  The page directory of a new user task. With a free kernel page among the first 64 MB and a free physical page that
  holds neither a table nor the bitmap, \<^verbatim>\<open>create_user_task_pdt\<close> returns the lowest free kernel page
  and keeps the invariant of the kernel. When the processor uses the new directory, no address
  below 3 GB is mapped, every kernel address below the page table window translates as it does
  for the kernel, and the directory maps itself.
\<close>

theorem create_user_task_pdt_space:
  assumes "kspace I k" "kfree k \<noteq> {}" "Min (kfree k) < 16384" "pmm_alloc_one_page (pm k) = Inr (a, st')" "a_state a \<noteq> 0"
    "off_tables (frame (a_addr a)) k" "frame (a_addr a) \<inter> I = {}"
  shows "\<exists>k' u. create_user_task_pdt k = Inr (page_addr (kern_vmm_pool k) (Min (kfree k)), k') \<and> kspace I k' \<and>
    u = k'\<lparr>cr3 := page_base (a_addr a)\<rparr> \<and> self_mapped u \<and> (\<forall>v. v < 0xC0000000 \<longrightarrow> translate u v = None) \<and>
    (\<forall>v. 0xC0000000 \<le> v \<longrightarrow> drop_bit 22 v \<noteq> 0x3FF \<longrightarrow> translate u v = translate k' v)"
proof -
  obtain k' where k': "create_user_task_pdt k = Inr (page_addr (kern_vmm_pool k) (Min (kfree k)), k')" "kspace I k'"
    "task_dir (page_base (a_addr a)) k'"
    using create_user_task_pdt_full [OF assms] space_changeD(1) by blast
  then show ?thesis using new_space [OF k'(3)] by blast
qed

lemma demo_frame:
  assumes "page_base p = p" "0x308000 \<le> unat p"
  shows "off_tables (frame p) demo_kernel" "frame p \<inter> demo_bytes = {}"
proof -
  have b: "0x308000 \<le> unat (page_base x)" if "x \<in> frame p" for x using that assms by (simp add: frame_def)
  show "off_tables (frame p) demo_kernel"
    unfolding off_tables_def
  proof (intro ballI conjI allI impI)
    fix x assume x: "x \<in> frame p"
    show "page_base x \<noteq> page_base (cr3 demo_kernel)" using b [OF x] demo_d by auto
    fix v assume "mapped_dir demo_kernel v"
    then have "unat (page_base (pde_of demo_kernel v)) < 0x300000"
      using demo_table [of v] dir_less [of v] by (auto simp: demo_dir)
    then show "page_base x \<noteq> page_base (pde_of demo_kernel v)" using b [OF x] by auto
  qed
  have "x \<notin> demo_bytes" if x: "x \<in> frame p" for x
    using b [OF x] page_base_le [of x] by (auto simp: demo_bytes_def word_less_nat_alt word_le_nat_alt)
  then show "frame p \<inter> demo_bytes = {}" by blast
qed

theorem create_user_task_pdt_space_witness:
  "\<exists>k'. create_user_task_pdt demo_kernel = Inr (0xC0400000, k') \<and> kspace demo_bytes k' \<and>
    translate (k'\<lparr>cr3 := 0x1A01000\<rparr>) 0xC0012345 = translate k' 0xC0012345 \<and> translate (k'\<lparr>cr3 := 0x1A01000\<rparr>) 0x1000 = None"
proof -
  obtain st' where "pmm_alloc_one_page demo_pmm = Inr (\<lparr>a_addr = 0x1A01000, a_size = 0, a_state = 1\<rparr>, st')"
    using demo_one_page by blast
  moreover have "Min (kfree demo_kernel) < 16384" unfolding demo_min(1) by simp
  ultimately show ?thesis
    using create_user_task_pdt_space [OF demo_kspace demo_min(2), of "\<lparr>a_addr = 0x1A01000, a_size = 0, a_state = 1\<rparr>" st']
      demo_frame [of "0x1A01000"] page_base_exact(2) unfolding demo_min(1) by (auto simp: page_addr_def)
qed

end
