(* ===== verification/UserPages.thy ===== *)
theory UserPages
  imports UserSpace
begin

text \<open>
  User pages: \<^verbatim>\<open>vmm_user_alloc_one_page\<close> in the address space of the task, with and without a page
  table for the address, and the first steps of a task, which rest on it.
\<close>

section \<open>A new page table\<close>

lemma user_dir: "v < 0xC0000000 \<Longrightarrow> drop_bit 22 v \<noteq> (0x3FF :: uint32)"
proof
  assume v: "v < 0xC0000000" and "drop_bit 22 v = (0x3FF :: uint32)"
  then have "unat v div 4194304 = 0x3FF" by (simp add: drop_bit_eq_div word_unat_eq_iff unat_div)
  then show False using v by (simp add: word_less_nat_alt)
qed

text \<open>
  The directory entry of an unmapped user address \<open>t\<close> is set to an empty table in the frame \<open>p\<close>:
  no translation outside the window changes, and the address has a table.
\<close>

definition new_table :: "uint32 set \<Rightarrow> uint32 \<Rightarrow> uint32 \<Rightarrow> uint32 \<Rightarrow> kernel \<Rightarrow> bool" where
  "new_table I t p e k \<longleftrightarrow> kspace I k \<and> t < 0xC0000000 \<and> \<not> mapped_dir k t \<and> page_base e = p \<and> bit e 0 \<and>
     page_base p = p \<and> off_tables (frame p) k \<and> frame p \<inter> I = {} \<and> (\<forall>x\<in>frame p. pmem k x = 0)"

abbreviation with_table :: "uint32 \<Rightarrow> uint32 \<Rightarrow> kernel \<Rightarrow> kernel" where
  "with_table t e k \<equiv> k\<lparr>pmem := st32p (pmem k) (pde_paddr k t) e\<rparr>"

lemma new_tableD:
  assumes "new_table I t p e k"
  shows "kspace I k" "t < 0xC0000000" "\<not> mapped_dir k t" "page_base e = p" "bit e 0" "page_base p = p" "off_tables (frame p) k"
    "frame p \<inter> I = {}" "x \<in> frame p \<Longrightarrow> pmem k x = 0"
  using assms by (simp_all add: new_table_def)

lemma pde_new:
  "pde_of (with_table t e k) v = (if drop_bit 22 v = drop_bit 22 t then e else pde_of k v)"
proof (cases "drop_bit 22 v = drop_bit 22 t")
  case True
  then show ?thesis by (simp add: pde_of_def pde_paddr_def)
next
  case False
  then have "pde_paddr k t \<noteq> pde_paddr k v" unfolding pde_paddr_mask by (intro entry_neq_index) (simp add: dir_idx)
  moreover have "aligned4 (pde_paddr k t)" "aligned4 (pde_paddr k v)" by (simp_all add: pde_paddr_def)
  ultimately show ?thesis using False by (simp add: pde_of_def) (simp add: pde_paddr_def)
qed

lemma dir_other: "new_table I t p e k \<Longrightarrow> mapped_dir k v \<Longrightarrow> drop_bit 22 v \<noteq> drop_bit 22 t"
  using new_tableD(3) [of I t p e k] by (auto simp: mapped_dir_def pde_of_def pde_paddr_def)

lemma mapped_new: "new_table I t p e k \<Longrightarrow> mapped_dir (with_table t e k) v \<longleftrightarrow> mapped_dir k v \<or> drop_bit 22 v = drop_bit 22 t"
  using new_tableD(5) [of I t p e k] by (auto simp: mapped_dir_def pde_new)

lemma frame_not_dir:
  "new_table I t p e k \<Longrightarrow> page_base p \<noteq> page_base (cr3 k)"
  "new_table I t p e k \<Longrightarrow> mapped_dir k v \<Longrightarrow> page_base p \<noteq> page_base (pde_of k v)"
  using new_tableD(7) [of I t p e k] by (auto simp: off_tables_def frame_def)

lemma pte_new:
  assumes n: "new_table I t p e k"
  shows "mapped_dir k v \<Longrightarrow> drop_bit 22 v \<noteq> 0x3FF \<Longrightarrow> pte_of (with_table t e k) v = pte_of k v"
    "drop_bit 22 v = drop_bit 22 t \<Longrightarrow> pte_of (with_table t e k) v = 0"
proof -
  let ?k = "with_table t e k"
  have al: "aligned4 (pde_paddr k t)" "aligned4 (pte_paddr x v)" for x by (simp_all add: pde_paddr_def pte_paddr_def)
  have ld: "ld32p (pmem ?k) (pte_paddr x v) = ld32p (pmem k) (pte_paddr x v)" if "page_base x \<noteq> page_base (cr3 k)" for x
  proof -
    have "pde_paddr k t \<noteq> pte_paddr x v" unfolding pde_paddr_mask pte_paddr_def using that by (intro entry_neq_frame) simp
    then show ?thesis using al by simp
  qed
  show "pte_of ?k v = pte_of k v" if v: "mapped_dir k v" "drop_bit 22 v \<noteq> 0x3FF"
  proof -
    have "page_base (pde_of k v) \<noteq> page_base (cr3 k)" by (rule table_not_dir [OF kspaceD(1) [OF new_tableD(1) [OF n]] v])
    then show ?thesis unfolding pte_of_def pde_new using dir_other [OF n v(1)] ld by simp
  qed
  show "pte_of ?k v = 0" if "drop_bit 22 v = drop_bit 22 t"
  proof -
    have "ld32p (pmem k) (pte_paddr e v) = ld32p (\<lambda>_. 0) (pte_paddr e v)"
      unfolding pte_paddr_def by (rule ld32p_frame) (use new_tableD(4,6,9) [OF n] in \<open>simp add: frame_def\<close>)
    then have "ld32p (pmem ?k) (pte_paddr e v) = 0" using ld [of e] frame_not_dir(1) [OF n] new_tableD(4,6) [OF n] by (simp add: ld32p_def)
    then show ?thesis unfolding pte_of_def pde_new using that by simp
  qed
qed

lemma translate_new:
  assumes n: "new_table I t p e k"
  shows "drop_bit 22 v \<noteq> 0x3FF \<Longrightarrow> translate (with_table t e k) v = translate k v"
proof (cases "drop_bit 22 v = drop_bit 22 t")
  case True
  then have "\<not> mapped_dir k v" using dir_other [OF n] by blast
  then show ?thesis using pte_new(2) [OF n True] by (simp add: translate_eq mapped_dir_def)
next
  case False
  assume "drop_bit 22 v \<noteq> 0x3FF"
  then show ?thesis using False pte_new(1) [OF n, of v] by (auto simp: translate_eq pde_new mapped_dir_def)
qed

lemma data_new:
  assumes n: "new_table I t p e k" and J: "off_tables J k" "frame p \<inter> J = {}"
  shows "off_tables J (with_table t e k)" "q \<in> J \<Longrightarrow> translate k v = Some q \<Longrightarrow> translate (with_table t e k) v = Some q"
    "q \<in> J \<Longrightarrow> pmem (with_table t e k) q = pmem k q"
proof -
  have "page_base q \<noteq> page_base e" if "q \<in> J" for q using J(2) that new_tableD(4,6) [OF n] by (auto simp: frame_def)
  then show "off_tables J (with_table t e k)" using J(1) unfolding off_tables_def by (auto simp: mapped_new [OF n] pde_new)
  show "translate (with_table t e k) v = Some q" if "q \<in> J" "translate k v = Some q"
    using translate_new [OF n data_not_window [OF kspaceD(5) [OF new_tableD(1) [OF n]] J(1) that]] that(2) by simp
  show "pmem (with_table t e k) q = pmem k q" if "q \<in> J"
  proof -
    have "page_base q \<noteq> page_base (cr3 k)" using J(1) that by (simp add: off_tables_def)
    then have "q \<noteq> pde_paddr k t + of_nat i" if "i < 4" for i
      using entry_frame [OF that, of "cr3 k" "drop_bit 22 t"] unfolding pde_paddr_mask by auto
    then show ?thesis by (simp add: st32p_other)
  qed
qed

lemma kspace_new:
  assumes n: "new_table I t p e k"
  shows "kspace I (with_table t e k)" "kfree (with_table t e k) = kfree k"
proof -
  let ?k = "with_table t e k"
  note k = new_tableD(1) [OF n]
  note d = data_new [OF n kspaceD(2) [OF k] new_tableD(8) [OF n]]
  have tr: "translate ?k v = translate k v" if v: "v \<in> kbytes k" for v using kspaceD(9) [OF k v] d(2) by metis
  have "vmem ?k v = vmem k v" if v: "v \<in> kbytes k" for v
    using kspaceD(9) [OF k v] tr [OF v] d(3) by (auto simp: vmem_def)
  then show fr: "kfree ?k = kfree k" by (simp, intro free_pages_cong) simp
  have self: "self_mapped ?k"
  proof -
    have "pde_paddr k t \<noteq> page_base (cr3 k) + (0x3FF AND 0x3FF) * 4"
      unfolding pde_paddr_mask using user_dir [OF new_tableD(2) [OF n]] by (intro entry_neq_index) (simp add: dir_idx)
    moreover have "aligned4 (pde_paddr k t)" by (simp add: pde_paddr_def)
    moreover have "aligned4 (page_base (cr3 k) + 4092)" using aligned_entries(3) [of "cr3 k" "0x3FF"] by simp
    ultimately have "ld32p (pmem ?k) (page_base (cr3 k) + 4092) = ld32p (pmem k) (page_base (cr3 k) + 4092)" by simp
    then show ?thesis using kspaceD(5) [OF k] by (simp add: self_mapped_def)
  qed
  have own: "drop_bit 22 (prim x) = drop_bit 22 t \<longleftrightarrow> drop_bit 22 x = drop_bit 22 t" for x
    using prim_high [of x] dir_high [of x] dir_high [of t] dir_high [of "prim x"] new_tableD(2) [OF n]
    by (cases "0xC0000000 \<le> x") auto
  have same: "pde_of ?k x = pde_of ?k (prim x)" for x
    unfolding pde_new own prim_pde [OF kspaceD(1) [OF k]] ..
  have "page_base (pde_of ?k v) \<noteq> page_base (pde_of ?k w)"
    if vw: "mapped_dir ?k v" "mapped_dir ?k w" "drop_bit 22 (prim v) \<noteq> drop_bit 22 (prim w)" for v w
  proof -
    have sep: "mapped_dir k v \<Longrightarrow> mapped_dir k w \<Longrightarrow> page_base (pde_of k v) \<noteq> page_base (pde_of k w)"
      using kspaceD(1) [OF k] vw(3) unfolding shared_tables_def by blast
    have "\<not> (drop_bit 22 v = drop_bit 22 t \<and> drop_bit 22 w = drop_bit 22 t)" using vw(3) own [of v] own [of w] by auto
    then show ?thesis
      using vw(1,2) sep frame_not_dir(2) [OF n, of v] frame_not_dir(2) [OF n, of w] new_tableD(4,6) [OF n]
      unfolding mapped_new [OF n] pde_new by auto
  qed
  then have "shared_tables ?k" using self same unfolding shared_tables_def by blast
  moreover have "inj_on (translate ?k) (kbytes k)" using kspaceD(10) [OF k] tr by (simp add: inj_on_def)
  ultimately show "kspace I ?k"
    using kspaceD [OF k] fr tr d(1) unfolding kspace_def by (simp add: mapped_new [OF n])
qed

section \<open>The address space of a task\<close>

text \<open>
  The machine runs in the address space of the task \<open>p\<close>: its directory is the one in use and is
  mapped at \<^verbatim>\<open>pdt_vaddr\<close>, and its bitmap, in the physical bytes \<open>J\<close>, describes the first 3 GB. The
  kernel pages of both are not free and lie in the first 64 MB of the kernel half.
\<close>

definition user_space :: "uint32 set \<Rightarrow> uint32 set \<Rightarrow> bitmap \<Rightarrow> uint32 \<Rightarrow> kernel \<Rightarrow> bool" where
  "user_space I J pool d k \<longleftrightarrow> kspace I k \<and> page_base d = d \<and> 0xC0000000 \<le> d \<and> d < 0xC4000000 \<and>
     page_index (kern_vmm_pool k) d \<notin> kfree k \<and> (\<forall>v. page_base v = d \<longrightarrow> translate k v = Some (page_base (cr3 k) OR (v AND 0xFFF))) \<and>
     wf_bitmap pool \<and> bm_length pool = 0x18000 \<and> target_addr_header pool = 0 \<and>
     off_tables J k \<and> J \<inter> I = {} \<and> inj_on (translate k) (bitmap_bytes pool) \<and>
     (\<forall>v\<in>bitmap_bytes pool. (\<exists>q\<in>J. translate k v = Some q) \<and> 0xC0000000 \<le> v \<and> v < 0xC4000000 \<and> page_index (kern_vmm_pool k) v \<notin> kfree k)"

lemma user_spaceD:
  assumes "user_space I J pool d k"
  shows "kspace I k" "page_base d = d" "0xC0000000 \<le> d" "page_index (kern_vmm_pool k) d \<notin> kfree k" "drop_bit 22 d \<noteq> 0x3FF"
    "page_base v = d \<Longrightarrow> translate k v = Some (page_base (cr3 k) OR (v AND 0xFFF))" "wf_bitmap pool" "bm_length pool = 0x18000"
    "target_addr_header pool = 0" "off_tables J k" "J \<inter> I = {}" "inj_on (translate k) (bitmap_bytes pool)"
    "v \<in> bitmap_bytes pool \<Longrightarrow> \<exists>q\<in>J. translate k v = Some q" "v \<in> bitmap_bytes pool \<Longrightarrow> 0xC0000000 \<le> v"
    "v \<in> bitmap_bytes pool \<Longrightarrow> page_index (kern_vmm_pool k) v \<notin> kfree k" "prim d = d" "v \<in> bitmap_bytes pool \<Longrightarrow> prim v = v"
proof -
  have "d < 0xC4000000" using assms by (simp add: user_space_def)
  then have "d < 0xFFC00000" by (simp add: word_less_nat_alt)
  then show "drop_bit 22 d \<noteq> 0x3FF" by (simp add: window_addr not_le)
qed (use assms in \<open>simp_all add: user_space_def prim_kernel\<close>)

abbreviation ufree :: "bitmap \<Rightarrow> kernel \<Rightarrow> nat set" where
  "ufree pool k \<equiv> free_pages pool (vmem k)"

lemma user_stable: "user_space I J pool d k \<Longrightarrow> stable J (bitmap_bytes pool) k"
  unfolding stable_def using user_spaceD(12,13) [of I J pool d k] off_tables_write(4) [OF user_spaceD(10) [of I J pool d k]] by blast

text \<open>Whatever keeps the translations of this data and of the kernel keeps the address space.\<close>

lemma user_space_step:
  assumes u: "user_space I J pool d k" and k': "kspace I k'" "cr3 k' = cr3 k" "kern_vmm_pool k' = kern_vmm_pool k" "kfree k' \<subseteq> kfree k"
    and off: "off_tables J k'"
    and tr: "\<And>v. page_base v = d \<or> v \<in> bitmap_bytes pool \<Longrightarrow> translate k' v = translate k v"
  shows "user_space I J pool d k'"
proof -
  have "inj_on (translate k') (bitmap_bytes pool)" using user_spaceD(12) [OF u] tr by (simp add: inj_on_def)
  then show ?thesis using u k' off tr unfolding user_space_def by (simp, blast)
qed

section \<open>The steps of an allocation\<close>

lemma user_page:
  assumes "user_space I J pool d k" "v < 0xC0000000"
  shows "in_pool pool v" "page_base w = page_base v \<Longrightarrow> w < 0xC0000000" "page_base v \<noteq> 0xFFFFFFFF"
proof -
  have "page_base v \<le> v" by (rule page_base_le)
  then show "in_pool pool v" using user_spaceD(8,9) [OF assms(1)] assms(2) by (simp add: in_pool_def word_le_nat_alt word_less_nat_alt)
  show "page_base v \<noteq> 0xFFFFFFFF" using \<open>page_base v \<le> v\<close> assms(2) by (auto simp: word_le_nat_alt word_less_nat_alt)
  assume "page_base w = page_base v"
  then have "unat w div 4096 = unat v div 4096" using unat_page_base [of w] unat_page_base [of v] by simp
  moreover have "unat v div 4096 < 0xC0000000 div 4096" using assms(2) by (simp add: word_less_nat_alt div_less_iff_less_mult)
  ultimately show "w < 0xC0000000" by (simp add: word_less_nat_alt)
qed

text \<open>Marking the page in the pool of the task.\<close>

lemma user_mark:
  assumes u: "user_space I J pool d k" and v: "v < 0xC0000000" "page_index pool v \<in> ufree pool k"
  shows "\<exists>k1. bitmap_alloc_one_page load8 store8 pool v k = Inr (page_base v, k1) \<and> user_space I J pool d k1 \<and>
    translate k1 = translate k \<and> pde_of k1 = pde_of k \<and> ufree pool k1 = ufree pool k - {page_index pool v} \<and>
    kfree k1 = kfree k \<and> mem_only k k1 \<and> pm k1 = pm k"
proof -
  note p = user_page(1) [OF u v(1)]
  obtain k1 where k1: "bitmap_alloc_one_page load8 store8 pool v k = Inr (page_base v, k1)" "rest_of J k1 = rest_of J k"
    "\<forall>x\<in>bitmap_bytes pool. vmem k1 x = mark_busy pool (page_index pool v) (vmem k) x"
    using mmu.bitmap_alloc_one_page_Some [OF user_stable [OF u] user_spaceD(7) [OF u] subset_refl p v(2)] by blast
  note s = kspace_frame_step [OF user_spaceD(1,10,11) [OF u] k1(2)]
  have m: "mem_only k k1" by (rule mem_only_rest [OF k1(2)])
  note g = mem_only_fields [OF m]
  have "ufree pool k1 = free_pages pool (mark_busy pool (page_index pool v) (vmem k))" using k1(3) by (intro free_pages_cong) auto
  then have "ufree pool k1 = ufree pool k - {page_index pool v}" using free_pages_mark_busy [OF page_index_less [OF p]] by simp
  moreover have "user_space I J pool d k1" by (rule user_space_step [OF u s(1)]) (use g s in simp_all)
  moreover have "pm k1 = pm k" by (subst rest_of_eq(1) [OF k1(2)]) simp
  ultimately show ?thesis using k1(1) s(2,3) m s(5) by blast
qed

text \<open>The directory entry, read and written where the directory is mapped.\<close>

lemma user_entry:
  assumes u: "user_space I J pool d k"
  shows "load32 (d + (drop_bit 22 v AND 0x3FF) * 4) k = Inr (pde_of k v)"
    "store32 (d + (drop_bit 22 v AND 0x3FF) * 4) e k = Inr (with_table v e k)"
    "vmm_user_check_pt_present d v k = Inr (mapped_dir k v)"
proof -
  let ?x = "d + (drop_bit 22 v AND 0x3FF) * 4"
  note d = user_spaceD(2) [OF u]
  have y: "((drop_bit 22 v AND 0x3FF) * 4) AND 0xFFF = (drop_bit 22 v AND 0x3FF) * 4" by (rule idx4_low)
  have "page_base ?x = d" using page_base_low [OF y, of d] d by simp
  moreover have "?x AND 0xFFF = (drop_bit 22 v AND 0x3FF) * 4"
  proof -
    have "(page_base d OR z) AND 0xFFF = z AND 0xFFF" for z unfolding masks by (rule bit_word_eqI) (auto simp: bit_simps)
    then show ?thesis using y d page_or_add [OF y, of d] by metis
  qed
  ultimately have "translate k ?x = Some (page_base (cr3 k) OR (drop_bit 22 v AND 0x3FF) * 4)" using user_spaceD(6) [OF u] by metis
  then have tr: "translate k ?x = Some (pde_paddr k v)" unfolding pde_paddr_mask page_or_add [OF y] .
  have al: "aligned4 ?x" using aligned_entries(3) [of d "drop_bit 22 v"] d by simp
  show l: "load32 ?x k = Inr (pde_of k v)" using access32(1) [OF al tr] by (simp add: pde_of_def)
  show "store32 ?x e k = Inr (with_table v e k)" by (rule access32(2) [OF al tr])
  have "x = x OR 1 \<longleftrightarrow> bit x 0" for x :: uint32
  proof
    assume "x = x OR 1"
    then have "bit x 0 = bit (x OR 1) 0" by simp
    then show "bit x 0" by (simp add: bit_simps)
  next
    assume "bit x 0"
    then show "x = x OR 1" by (intro bit_word_eqI) (auto simp: bit_simps)
  qed
  then show "vmm_user_check_pt_present d v k = Inr (mapped_dir k v)"
    using l by (simp add: vmm_user_check_pt_present_def Let_def mapped_dir_def)
qed

text \<open>The last step: a physical page for an address with a page table.\<close>

lemma user_map_ok:
  assumes u: "user_space I J pool d k" and v: "v < 0xC0000000" "mapped_dir k v"
    and pm: "pmm_alloc_one_page (pm k) = Inr (a, st')" "a_state a \<noteq> 0"
  shows "\<exists>k'. user_map_page v k = Inr (page_base v, k') \<and> user_space I J pool d k' \<and> pm k' = st' \<and> mem_only k k' \<and>
    ufree pool k' = ufree pool k \<and> kfree k' = kfree k \<and> pde_of k' = pde_of k \<and>
    (\<forall>w. translate k' w = (if page_base w = page_base v then Some (page_base (a_addr a) OR (w AND 0xFFF)) else translate k w))"
proof -
  let ?e = "page_base (a_addr a) + PAGE_DESC_RW_W + PAGE_DESC_US_U + PAGE_DESC_G + PAGE_DESC_P"
  have e: "page_base ?e = page_base (a_addr a)" "bit ?e 0"
    using entry_value [of "0x107" "a_addr a"] by (simp_all add: add.assoc)
  have hi: "page_base w \<noteq> page_base v" if "0xC0000000 \<le> w" for w using user_page(2) [OF u v(1), of w] that by auto
  have own: "page_base (prim w) = page_base (prim v) \<longleftrightarrow> page_base w = page_base v" for w using prim_user_page [OF v(1)] v(1) by simp
  have nb: "\<forall>w\<in>kbytes k. page_base (prim w) \<noteq> page_base (prim v)"
    unfolding own using hi kspaceD(7) [OF user_spaceD(1) [OF u]] by blast
  obtain k2 k' where k': "store32 (get_pte v) ?e (k\<lparr>pm := st'\<rparr>) = Inr k2" "k' = invlpg (page_base v) k2"
    "kspace I k'" "pm k' = st'" "kern_bitmap k' = kern_bitmap k" "kfree k' = kfree k" "pde_of k' = pde_of k"
    "\<forall>q. page_base q \<noteq> page_base (pde_of k v) \<longrightarrow> pmem k' q = pmem k q"
    "\<forall>w. translate k' w = (if page_base w = page_base v then Some (page_base (a_addr a) OR (w AND 0xFFF)) else translate k w)"
    using map_entry_ok [OF user_spaceD(1) [OF u] v(2) user_dir [OF v(1)] nb e(2), of st'] unfolding e(1) own by blast
  have m: "mem_only k k'"
    unfolding k'(2) by (rule mem_only_trans [OF mem_only_trans [OF mem_only_upd(2) store32_mem_only [OF k'(1)]] mem_only_upd(3)])
  note g = mem_only_fields [OF m]
  have tr: "translate k' w = translate k w" if "page_base w = d \<or> w \<in> bitmap_bytes pool" for w
  proof -
    have "0xC0000000 \<le> w" using that user_spaceD(3) [OF u] page_base_le [of w] user_spaceD(14) [OF u] order_trans by blast
    then show ?thesis using k'(9) hi by simp
  qed
  have off: "off_tables J k'" using user_spaceD(10) [OF u] g(4) by (simp add: off_tables_def mapped_dir_def k'(7))
  have us: "user_space I J pool d k'" by (rule user_space_step [OF u k'(3) g(4) g(6) _ off tr]) (simp add: k'(6))
  have "vmem k' x = vmem k x" if x: "x \<in> bitmap_bytes pool" for x
  proof -
    obtain q where q: "q \<in> J" "translate k x = Some q" using user_spaceD(13) [OF u x] by blast
    have "page_base q \<noteq> page_base (pde_of k v)" using user_spaceD(10) [OF u] q(1) v(2) by (auto simp: off_tables_def)
    then have "pmem k' q = pmem k q" using k'(8) by blast
    then show ?thesis using q(2) tr x by (simp add: vmem_def)
  qed
  then have "ufree pool k' = ufree pool k" by (rule free_pages_cong)
  moreover have "user_map_page v k = Inr (page_base v, k')" using pm k'(1,2) by (simp add: user_map_page_def with_pmm_def)
  ultimately show ?thesis using us k'(4,6,7,9) m by blast
qed

section \<open>Creating a page table\<close>

lemma frame_bytes: "page_base p = p \<Longrightarrow> x \<in> frame p \<Longrightarrow> \<exists>i<4096. x = p + of_nat i"
proof -
  assume p: "page_base p = p" and x: "x \<in> frame p"
  have y: "(x AND 0xFFF) AND 0xFFF = x AND 0xFFF" by (simp add: and.assoc)
  have "x = page_base x OR (x AND 0xFFF)" unfolding masks by (rule bit_word_eqI) (auto simp: bit_simps)
  then have "x = p + (x AND 0xFFF)" using page_or_add [OF y, of p] p x by (simp add: frame_def)
  moreover have "unat (x AND 0xFFF) < 4096" by (simp add: and_low)
  ultimately show ?thesis by (intro exI [of _ "unat (x AND 0xFFF)"]) simp
qed

lemma zero_page:
  assumes f: "fresh_page I t p k"
  shows "\<exists>k'. bzero store8 t PAGE_SIZE k = Inr k' \<and> fresh_page I t p k' \<and> translate k' = translate k \<and> pde_of k' = pde_of k \<and>
    kfree k' = kfree k \<and> rest_of (frame p) k' = rest_of (frame p) k \<and> (\<forall>x\<in>frame p. pmem k' x = 0)"
proof -
  note f' = f [unfolded fresh_page_def]
  have n: "unat (PAGE_SIZE :: uint32) = 4096" by simp
  obtain k' where k': "memset store8 t 0 PAGE_SIZE k = Inr k'" "rest_of (frame p) k' = rest_of (frame p) k"
    "\<forall>x\<in>span t 4096. vmem k' x = 0"
    using mmu.memset_ok [where I = "frame p" and R = "span t 4096" and s = k and dst = t and len = PAGE_SIZE and val = 0, unfolded n]
      fresh_stable(1) [OF f] by auto
  note s = fresh_step [OF f k'(2)] and ks = kspace_frame_step [OF _ _ _ k'(2), of I]
  have "pmem k' (p + of_nat i) = 0" if "i < 4096" for i
    using fresh_stable(3) [OF s(1) that] k'(3) that by (auto simp: span_def)
  then have "\<forall>x\<in>frame p. pmem k' x = 0" using frame_bytes [of p] f' by blast
  moreover have "pde_of k' = pde_of k" "kfree k' = kfree k" using ks(3,5) f' by blast+
  ultimately show ?thesis using k'(1,2) s by (auto simp: bzero_def)
qed

text \<open>A kernel page allocated in the address space of a task.\<close>

lemma user_fresh:
  assumes u: "user_space I J pool d k" and free: "kfree k \<noteq> {}" and low: "Min (kfree k) < 16384"
    and pm: "pmm_alloc_one_page (pm k) = Inr (b, st')" "a_state b \<noteq> 0"
    and off: "off_tables (frame (a_addr b)) k" and dis: "frame (a_addr b) \<inter> I = {}"
  shows "\<exists>t k'. vmm_kern_alloc k = Inr (t, k') \<and> t \<noteq> 0xFFFFFFFF \<and> user_space I J pool d k' \<and>
    fresh_page I t (page_base (a_addr b)) k' \<and> pm k' = st' \<and> mem_only k k' \<and> pde_of k' = pde_of k \<and>
    ufree pool k' = ufree pool k \<and> (\<forall>w. page_base (prim w) \<noteq> t \<longrightarrow> translate k' w = translate k w)"
proof -
  define t where "t = page_addr (kern_vmm_pool k) (Min (kfree k))"
  obtain k1 where k1: "vmm_kern_alloc k = Inr (t, k1)" "fresh_page I t (page_base (a_addr b)) k1" "t \<noteq> 0xFFFFFFFF"
    "space_change I {} [t \<mapsto> page_base (a_addr b)] st' k k1" "page_index (kern_vmm_pool k) t \<in> kfree k"
    using alloc_fresh_full [OF user_spaceD(1) [OF u] free low pm off dis] unfolding t_def by blast
  note c = space_changeD [OF k1(4)] and g = mem_only_fields [OF space_changeD(2) [OF k1(4)]]
  have t: "page_base t = t" "kspace I k1" using k1(2) by (simp_all add: fresh_page_def)
  have ne: "page_base w \<noteq> t" if "page_base w = d \<or> w \<in> bitmap_bytes pool" for w
  proof
    assume "page_base w = t"
    then have "page_index (kern_vmm_pool k) w \<in> kfree k" using k1(5) t(1) by (simp add: page_index_def)
    moreover have "page_base w = d \<Longrightarrow> page_index (kern_vmm_pool k) w = page_index (kern_vmm_pool k) d"
      using user_spaceD(2) [OF u] by (simp add: page_index_def)
    ultimately show False using that user_spaceD(4,15) [OF u] by metis
  qed
  have "prim w = w" if "page_base w = d \<or> w \<in> bitmap_bytes pool" for w
    using that user_spaceD(2,16,17) [OF u] prim_own_page [of d w] by auto
  then have tr: "translate k1 w = translate k w" if "page_base w = d \<or> w \<in> bitmap_bytes pool" for w
    using c(7) [of w] that ne by simp
  have "off_tables J k1" using user_spaceD(10) [OF u] space_change_off [OF k1(4)] by simp
  then have "user_space I J pool d k1" by (intro user_space_step [OF u t(2) g(4) g(6) _ _ tr]) (auto simp: c(4))
  moreover have "vmem k1 x = vmem k x" if x: "x \<in> bitmap_bytes pool" for x
  proof -
    obtain q where q: "q \<in> J" "translate k x = Some q" using user_spaceD(13) [OF u x] by blast
    have "pmem k1 q = pmem k q" using c(6) [of q] user_spaceD(10,11) [OF u] q(1) by (auto simp: off_tables_def)
    then show ?thesis using q(2) tr [of x] x by (simp add: vmem_def)
  qed
  then have "ufree pool k1 = ufree pool k" by (rule free_pages_cong)
  ultimately show ?thesis using k1(1-3) c(2,3,5,7) by (intro exI [of _ t] exI [of _ k1]) simp
qed

lemma create_table_ok:
  assumes u: "user_space I J pool d k" and v: "v < 0xC0000000" "\<not> mapped_dir k v" and free: "kfree k \<noteq> {}"
    and low: "Min (kfree k) < 16384" and pm: "pmm_alloc_one_page (pm k) = Inr (b, st')" "a_state b \<noteq> 0"
    and off: "off_tables (frame (a_addr b)) k" and dis: "frame (a_addr b) \<inter> (I \<union> J) = {}"
  shows "\<exists>k'. create_user_page_table (d + (drop_bit 22 v AND 0x3FF) * 4) k = Inr (True, k') \<and> user_space I J pool d k' \<and>
    mapped_dir k' v \<and> pm k' = st' \<and> mem_only k k' \<and> ufree pool k' = ufree pool k \<and>
    (\<forall>w < 0xC0000000. translate k' w = translate k w)"
proof -
  define p where "p = page_base (a_addr b)"
  have fp: "frame p = frame (a_addr b)" "page_base p = p" by (simp_all add: p_def)
  have "frame (a_addr b) \<inter> I = {}" using dis by blast
  from user_fresh [OF u free low pm off this, folded p_def]
  obtain t k1 where k1: "vmm_kern_alloc k = Inr (t, k1)" "t \<noteq> 0xFFFFFFFF" "user_space I J pool d k1" "fresh_page I t p k1"
    "pm k1 = st'" "mem_only k k1" "pde_of k1 = pde_of k" "ufree pool k1 = ufree pool k"
    "\<forall>w. page_base (prim w) \<noteq> t \<longrightarrow> translate k1 w = translate k w" by blast
  obtain k2 where k2: "bzero store8 t PAGE_SIZE k1 = Inr k2" "fresh_page I t p k2" "translate k2 = translate k1"
    "pde_of k2 = pde_of k1" "kfree k2 = kfree k1" "rest_of (frame p) k2 = rest_of (frame p) k1" "\<forall>x\<in>frame p. pmem k2 x = 0"
    using zero_page [OF k1(4)] by blast
  note f = k2(2) [unfolded fresh_page_def] and m = mem_only_rest [OF k2(6)]
  note g = mem_only_fields [OF m]
  have JI: "frame p \<inter> J = {}" "frame p \<inter> I = {}" using dis fp by blast+
  have offJ: "off_tables J k2" using user_spaceD(10) [OF k1(3)] g(4) by (simp add: off_tables_def mapped_dir_def k2(4))
  have u2: "user_space I J pool d k2" by (rule user_space_step [OF k1(3) _ g(4) g(6) _ offJ]) (use f k2 in simp_all)
  have v2p: "vmm_v2p t k2 = Inr p"
    using vmm_v2p_run [of k2 t] kspaceD(3,5) [of I k2] fresh_stable(2) [OF k2(2), of 0] f by auto
  have pn: "p \<noteq> 0xFFFFFFFF" using fp(2) by (auto simp: page_base_def)
  let ?e = "page_base p + PAGE_DESC_RW_W + PAGE_DESC_US_U + PAGE_DESC_G + PAGE_DESC_P"
  have e: "page_base ?e = p" "bit ?e 0" using entry_value [of "0x107" p] fp(2) by (simp_all add: add.assoc)
  define k3 where "k3 = with_table v ?e k2"
  have run: "create_user_page_table (d + (drop_bit 22 v AND 0x3FF) * 4) k = Inr (True, k3)"
    using k1(1,2) k2(1) v2p pn user_entry(2) [OF u2, of v ?e] by (simp add: create_user_page_table_def k3_def)
  have nt: "new_table I v p ?e k2"
    using f v e k2(7) JI by (simp add: new_table_def mapped_dir_def k2(4) k1(7))
  note kn = kspace_new [OF nt, folded k3_def] and dn = data_new [OF nt offJ JI(1), folded k3_def] and tn = translate_new [OF nt, folded k3_def]
  have tr: "translate k3 w = translate k2 w" if "page_base w = d \<or> w \<in> bitmap_bytes pool" for w
  proof (cases "w \<in> bitmap_bytes pool")
    case True
    then show ?thesis using user_spaceD(13) [OF u2] dn(2) by metis
  next
    case False
    then have "drop_bit 22 w = drop_bit 22 d" using that page_fields [of w d] user_spaceD(2) [OF u] by auto
    then show ?thesis using tn user_spaceD(5) [OF u] by simp
  qed
  have k3: "cr3 k3 = cr3 k2" "kern_vmm_pool k3 = kern_vmm_pool k2" "kern_bitmap k3 = kern_bitmap k2" "mem_only k2 k3" by (simp_all add: k3_def)
  have u3: "user_space I J pool d k3" by (rule user_space_step [OF u2 kn(1) k3(1,2) _ dn(1) tr]) (simp_all add: kn(2))
  have vm: "vmem k3 x = vmem k1 x" if x: "x \<in> bitmap_bytes pool" for x
  proof -
    obtain q where q: "q \<in> J" "translate k2 x = Some q" using user_spaceD(13) [OF u2 x] by blast
    have "pmem k3 q = pmem k2 q" "pmem k2 q = pmem k1 q" using dn(3) q(1) rest_of_eq(2) [OF k2(6)] JI by blast+
    then show ?thesis using q(2) tr x k2(3) by (simp add: vmem_def)
  qed
  have "translate k3 w = translate k w" if w: "w < 0xC0000000" for w
  proof -
    have "page_base w \<noteq> t" using w page_base_le [of w] f by auto
    then show ?thesis using tn [OF user_dir [OF w]] k1(9) k2(3) w by simp
  qed
  moreover have "mapped_dir k3 v" using mapped_new [OF nt] by (simp add: k3_def)
  moreover have "pm k3 = st'"
  proof -
    have "pm k2 = pm k1" by (subst rest_of_eq(1) [OF k2(6)]) simp
    then show ?thesis using k1(5) by (simp add: k3_def)
  qed
  moreover have "ufree pool k3 = ufree pool k" using vm k1(8) free_pages_cong [of pool "vmem k3" "vmem k1"] by simp
  ultimately show ?thesis using run u3 mem_only_trans [OF k1(6) mem_only_trans [OF m k3(4)]] by blast
qed

section \<open>Allocating a page of a task\<close>

lemma user_space_cong:
  assumes "pmem k' = pmem k" "cr3 k' = cr3 k" "kern_vmm_pool k' = kern_vmm_pool k" "kern_bitmap k' = kern_bitmap k"
  shows "user_space I J pool d k' = user_space I J pool d k"
  using assms same_mmu [OF assms(1,2)] kspace_cong [OF assms] by (simp add: user_space_def off_tables_def)

text \<open>
  What the page table of \<open>v\<close> needs: nothing when it is present, and otherwise a free kernel page
  among the first 64 MB and a physical page that holds no table and no bitmap. \<open>st\<close> is the page manager afterwards.
\<close>

definition table_supply :: "uint32 set \<Rightarrow> uint32 \<Rightarrow> kernel \<Rightarrow> pmm \<Rightarrow> bool" where
  "table_supply M v k st \<longleftrightarrow>
     (if mapped_dir k v then st = pm k
      else kfree k \<noteq> {} \<and> Min (kfree k) < 16384 \<and> (\<exists>b. pmm_alloc_one_page (pm k) = Inr (b, st) \<and> a_state b \<noteq> 0 \<and>
             off_tables (frame (a_addr b)) k \<and> frame (a_addr b) \<inter> M = {}))"

lemma table_ready:
  assumes u: "user_space I J pool d k" and v: "v < 0xC0000000" and s: "table_supply (I \<union> J) v k st"
  shows "\<exists>k'. bindE (vmm_user_check_pt_present d v k) (\<lambda>c.
      if c then user_map_page v (sti (cli k))
      else bindE (create_user_page_table (d + (drop_bit 22 v AND 0x3FF) * 4) k) (\<lambda>(created, k2).
        if created then user_map_page v k2 else user_clean_bitmap_alloc v k2)) = user_map_page v k' \<and>
    user_space I J pool d k' \<and> mapped_dir k' v \<and> pm k' = st \<and> ufree pool k' = ufree pool k \<and>
    tcb k' = tcb k \<and> cur_tcb k' = cur_tcb k \<and> USER_PAGE_DIR_IS_LOADED k' = USER_PAGE_DIR_IS_LOADED k \<and>
    (\<forall>w < 0xC0000000. translate k' w = translate k w)"
proof (cases "mapped_dir k v")
  case True
  have same: "user_space I J pool d (sti (cli k))" "mapped_dir (sti (cli k)) v" "vmem (sti (cli k)) = vmem k" "translate (sti (cli k)) = translate k"
    using user_space_cong [of "sti (cli k)" k] u same_mmu [of "sti (cli k)" k] True by (simp_all add: sti_def cli_def)
  then show ?thesis
    using user_entry(3) [OF u, of v] s True by (intro exI [of _ "sti (cli k)"]) (simp add: table_supply_def, simp add: sti_def cli_def)
next
  case False
  then obtain b where b: "kfree k \<noteq> {}" "Min (kfree k) < 16384" "pmm_alloc_one_page (pm k) = Inr (b, st)" "a_state b \<noteq> 0"
    "off_tables (frame (a_addr b)) k" "frame (a_addr b) \<inter> (I \<union> J) = {}"
    using s by (auto simp: table_supply_def)
  obtain k' where k': "create_user_page_table (d + (drop_bit 22 v AND 0x3FF) * 4) k = Inr (True, k')" "user_space I J pool d k'"
    "mapped_dir k' v" "pm k' = st" "mem_only k k'" "ufree pool k' = ufree pool k" "\<forall>w < 0xC0000000. translate k' w = translate k w"
    using create_table_ok [OF u v False b] by blast
  then show ?thesis using user_entry(3) [OF u, of v] False mem_only_fields [OF k'(5)] by (intro exI [of _ k']) simp
qed

text \<open>The allocation up to the physical page, with the page of the pool taken.\<close>

lemma user_alloc_head:
  assumes u: "user_space I J pool d k" and pool: "pool = user_vmm_pool (tcb k c)" "d = pdt_vaddr (tcb k c)"
    and on: "USER_PAGE_DIR_IS_LOADED k" "\<not> is_kern_thread (tcb k c)" and v: "v < 0xC0000000" "page_index pool v \<in> ufree pool k"
    and s: "table_supply (I \<union> J) v k st"
  shows "\<exists>k'. vmm_user_alloc_one_page c v k = user_map_page v k' \<and> user_space I J pool d k' \<and> mapped_dir k' v \<and>
    pm k' = st \<and> ufree pool k' = ufree pool k - {page_index pool v} \<and>
    tcb k' = tcb k \<and> cur_tcb k' = cur_tcb k \<and> USER_PAGE_DIR_IS_LOADED k' \<and> (\<forall>w < 0xC0000000. translate k' w = translate k w)"
proof -
  obtain k1 where k1: "bitmap_alloc_one_page load8 store8 pool v k = Inr (page_base v, k1)" "user_space I J pool d k1"
    "translate k1 = translate k" "pde_of k1 = pde_of k" "ufree pool k1 = ufree pool k - {page_index pool v}"
    "kfree k1 = kfree k" "mem_only k k1" "pm k1 = pm k"
    using user_mark [OF u v] by blast
  note g1 = mem_only_fields [OF k1(7)]
  have "mapped_dir k1 = mapped_dir k" by (simp add: fun_eq_iff mapped_dir_def k1(4))
  moreover from this have "off_tables M k1 = off_tables M k" for M by (simp add: off_tables_def k1(4) g1(4))
  ultimately have "table_supply (I \<union> J) v k1 st" using s k1(6,8) unfolding table_supply_def by simp
  from table_ready [OF k1(2) v(1) this] obtain k2 where k2:
    "bindE (vmm_user_check_pt_present d v k1) (\<lambda>c.
      if c then user_map_page v (sti (cli k1))
      else bindE (create_user_page_table (d + (drop_bit 22 v AND 0x3FF) * 4) k1) (\<lambda>(created, k2).
        if created then user_map_page v k2 else user_clean_bitmap_alloc v k2)) = user_map_page v k2"
    "user_space I J pool d k2" "mapped_dir k2 v" "pm k2 = st" "ufree pool k2 = ufree pool k1"
    "tcb k2 = tcb k1" "cur_tcb k2 = cur_tcb k1" "USER_PAGE_DIR_IS_LOADED k2 = USER_PAGE_DIR_IS_LOADED k1"
    "\<forall>w < 0xC0000000. translate k2 w = translate k1 w" by blast
  have "vmm_user_alloc_one_page c v k = user_map_page v k2"
    using k1(1) k2(1) on user_page(3) [OF u v(1)] unfolding vmm_user_alloc_one_page_def pool(1) [symmetric] pool(2) [symmetric] Let_def
    by simp
  then show ?thesis using k2(2-9) k1(3,5) g1 on(1) by (intro exI [of _ k2]) simp
qed

lemma user_alloc_run:
  assumes u: "user_space I J pool d k" and pool: "pool = user_vmm_pool (tcb k c)" "d = pdt_vaddr (tcb k c)"
    and on: "USER_PAGE_DIR_IS_LOADED k" "\<not> is_kern_thread (tcb k c)" and v: "v < 0xC0000000" "page_index pool v \<in> ufree pool k"
    and s: "table_supply (I \<union> J) v k st" and pm: "pmm_alloc_one_page st = Inr (a, st')" "a_state a \<noteq> 0"
  shows "\<exists>k'. vmm_user_alloc_one_page c v k = Inr (page_base v, k') \<and> user_space I J pool d k' \<and> mapped_dir k' v \<and>
    pm k' = st' \<and> ufree pool k' = ufree pool k - {page_index pool v} \<and>
    tcb k' = tcb k \<and> cur_tcb k' = cur_tcb k \<and> USER_PAGE_DIR_IS_LOADED k' \<and>
    (\<forall>w < 0xC0000000. translate k' w =
       (if page_base w = page_base v then Some (page_base (a_addr a) OR (w AND 0xFFF)) else translate k w))"
proof -
  obtain k2 where k2: "vmm_user_alloc_one_page c v k = user_map_page v k2" "user_space I J pool d k2" "mapped_dir k2 v" "pm k2 = st"
    "ufree pool k2 = ufree pool k - {page_index pool v}" "tcb k2 = tcb k" "cur_tcb k2 = cur_tcb k" "USER_PAGE_DIR_IS_LOADED k2"
    "\<forall>w < 0xC0000000. translate k2 w = translate k w"
    using user_alloc_head [OF u pool on v s] by blast
  have "pmm_alloc_one_page (pm k2) = Inr (a, st')" using k2(4) pm(1) by simp
  from user_map_ok [OF k2(2) v(1) k2(3) this pm(2)] obtain k' where k': "user_map_page v k2 = Inr (page_base v, k')"
    "user_space I J pool d k'" "pm k' = st'" "mem_only k2 k'" "ufree pool k' = ufree pool k2" "pde_of k' = pde_of k2"
    "\<forall>w. translate k' w = (if page_base w = page_base v then Some (page_base (a_addr a) OR (w AND 0xFFF)) else translate k2 w)" by blast
  note g' = mem_only_fields [OF k'(4)]
  have "mapped_dir k' v" using k2(3) k'(6) by (simp add: mapped_dir_def)
  moreover have "\<forall>w < 0xC0000000. translate k' w =
       (if page_base w = page_base v then Some (page_base (a_addr a) OR (w AND 0xFFF)) else translate k w)"
    using k'(7) k2(9) by simp
  ultimately show ?thesis using k'(1,2,3,5) k2(1,5-8) g' by simp
qed

text \<open>
  Without a physical page the page is released in the pool of the kernel, which does not contain it: it stays taken.
\<close>

lemma user_alloc_fails_run:
  assumes u: "user_space I J pool d k" and pool: "pool = user_vmm_pool (tcb k c)" "d = pdt_vaddr (tcb k c)"
    and on: "USER_PAGE_DIR_IS_LOADED k" "\<not> is_kern_thread (tcb k c)" and v: "v < 0xC0000000" "page_index pool v \<in> ufree pool k"
    and s: "table_supply (I \<union> J) v k st" and pm: "pmm_alloc_one_page st = Inr (a, st')" "a_state a = 0"
  shows "\<exists>k'. vmm_user_alloc_one_page c v k = Inr (USER_VMM_ALLOC_ERRO, k') \<and> user_space I J pool d k' \<and>
    ufree pool k' = ufree pool k - {page_index pool v} \<and> (\<forall>w < 0xC0000000. translate k' w = translate k w)"
proof -
  obtain k2 where k2: "vmm_user_alloc_one_page c v k = user_map_page v k2" "user_space I J pool d k2" "pm k2 = st"
    "ufree pool k2 = ufree pool k - {page_index pool v}" "\<forall>w < 0xC0000000. translate k2 w = translate k w"
    using user_alloc_head [OF u pool on v s] by blast
  let ?k' = "k2\<lparr>pm := st'\<rparr>"
  have kp: "kern_vmm_pool ?k' = kpool (kern_bitmap k2)" using kspaceD(4) [OF user_spaceD(1) [OF k2(2)]] by simp
  have "\<not> 0xC0000000 \<le> page_base v" using le_less_trans [OF page_base_le v(1)] by (simp add: not_le)
  then have "bitmap_release_one_page load8 store8 (kern_vmm_pool ?k') v ?k' = Inr ?k'"
    unfolding kp by (simp add: bitmap_release_one_page_def Let_def)
  then have "user_map_page v k2 = Inr (USER_VMM_ALLOC_ERRO, ?k')"
    using k2(3) pm by (simp add: user_map_page_def with_pmm_def user_clean_bitmap_alloc_def)
  moreover have "user_space I J pool d ?k' = user_space I J pool d k2" by (rule user_space_cong) simp_all
  moreover have "vmem ?k' = vmem k2" "translate ?k' = translate k2" using same_mmu [of ?k' k2] by simp_all
  ultimately show ?thesis using k2 by simp
qed

end
