(* ===== verification/UserStart.thy ===== *)
theory UserStart
  imports UserPages ThreadsInstance
begin

text \<open>
  The first steps of a user task: what \<^verbatim>\<open>vmm_user_alloc_one_page\<close> and \<^verbatim>\<open>start_user_task\<close> do in the
  address space of the task, and a concrete task both are applied to.
\<close>

section \<open>The properties\<close>

text \<open>
  C19. A page of a user task. In the address space of the task, for a free page of its pool and with
  the physical pages that the page and, where it is missing, its page table need,
  \<^verbatim>\<open>vmm_user_alloc_one_page\<close> returns the address of the page, takes this page and no other from the
  pool, maps it to the physical page of the last allocation, changes no other user translation and keeps
  the invariant of the address space.
\<close>

theorem vmm_user_alloc_maps:
  assumes "user_space I J pool d k" "pool = user_vmm_pool (tcb k c)" "d = pdt_vaddr (tcb k c)"
    "USER_PAGE_DIR_IS_LOADED k" "\<not> is_kern_thread (tcb k c)" "v < 0xC0000000" "page_index pool v \<in> ufree pool k"
    "table_supply (I \<union> J) v k st" "pmm_alloc_one_page st = Inr (a, st')" "a_state a \<noteq> 0"
  shows "\<exists>k'. vmm_user_alloc_one_page c v k = Inr (page_base v, k') \<and> user_space I J pool d k' \<and>
    ufree pool k' = ufree pool k - {page_index pool v} \<and> pm k' = st' \<and>
    (\<forall>w < 0xC0000000. translate k' w =
       (if page_base w = page_base v then Some (page_base (a_addr a) OR (w AND 0xFFF)) else translate k w))"
  using user_alloc_run [OF assms] by blast

text \<open>
  C20. A user page without physical memory. When the page manager has nothing left for the page itself,
  \<^verbatim>\<open>vmm_user_alloc_one_page\<close> returns USER_VMM_ALLOC_ERRO and maps nothing, but the page is not given back to the pool of
  the task: it is released in the pool of the kernel, which does not contain it, and stays taken.
\<close>

theorem vmm_user_alloc_no_memory:
  assumes "user_space I J pool d k" "pool = user_vmm_pool (tcb k c)" "d = pdt_vaddr (tcb k c)"
    "USER_PAGE_DIR_IS_LOADED k" "\<not> is_kern_thread (tcb k c)" "v < 0xC0000000" "page_index pool v \<in> ufree pool k"
    "table_supply (I \<union> J) v k st" "pmm_alloc_one_page st = Inr (a, st')" "a_state a = 0"
  shows "\<exists>k'. vmm_user_alloc_one_page c v k = Inr (USER_VMM_ALLOC_ERRO, k') \<and> user_space I J pool d k' \<and>
    ufree pool k' = ufree pool k - {page_index pool v} \<and> (\<forall>w < 0xC0000000. translate k' w = translate k w)"
  by (rule user_alloc_fails_run [OF assms])

lemma start_user_task_run:
  fixes k :: kernel
  defines "pool \<equiv> user_vmm_pool (tcb k (cur_tcb k))" and "d \<equiv> pdt_vaddr (tcb k (cur_tcb k))"
  assumes u: "user_space I J pool d k" and on: "USER_PAGE_DIR_IS_LOADED k" "\<not> is_kern_thread (tcb k (cur_tcb k))"
    and f: "\<not> is_from_file params" "function_f params \<noteq> 0" and free: "{0xBFFFE, 0xBFFFF} \<subseteq> ufree pool k"
    and s: "table_supply (I \<union> J) 0xBFFFF000 k st" and a: "pmm_alloc_one_page st = Inr (a, st1)" "a_state a \<noteq> 0"
    and b: "pmm_alloc_one_page st1 = Inr (b, st2)" "a_state b \<noteq> 0"
  shows "\<exists>cpu k'. start_user_task params k = Inr (cpu, k') \<and> cpu_eip cpu = function_f params \<and> cpu_cs cpu = 0x23 \<and>
    cpu_ss cpu = 0x2B \<and> cpu_esp cpu = 0xBFFFF000 \<and> int_flag k' \<and> user_space I J pool d k' \<and>
    (\<forall>w < 0xC0000000. translate k' w =
       (if page_base w = 0xBFFFE000 then Some (page_base (a_addr b) OR (w AND 0xFFF))
        else if page_base w = 0xBFFFF000 then Some (page_base (a_addr a) OR (w AND 0xFFF)) else translate k w))"
proof -
  let ?c = "cur_tcb k"
  have pb: "page_base 0xBFFFF000 = (0xBFFFF000 :: uint32)" "page_base 0xBFFFE000 = (0xBFFFE000 :: uint32)" by (simp_all add: page_base_def)
  have ix: "page_index pool 0xBFFFF000 = 0xBFFFF" "page_index pool 0xBFFFE000 = 0xBFFFE"
    using user_spaceD(9) [OF u] by (simp_all add: page_index_def pb)
  have "page_index pool 0xBFFFF000 \<in> ufree pool k" using free ix by simp
  from user_alloc_run [OF u pool_def [THEN meta_eq_to_obj_eq] d_def [THEN meta_eq_to_obj_eq] on _ this s a]
  obtain k1 where k1: "vmm_user_alloc_one_page ?c 0xBFFFF000 k = Inr (0xBFFFF000, k1)" "user_space I J pool d k1"
    "mapped_dir k1 0xBFFFF000" "pm k1 = st1" "ufree pool k1 = ufree pool k - {0xBFFFF}" "tcb k1 = tcb k" "USER_PAGE_DIR_IS_LOADED k1"
    "\<forall>w < 0xC0000000. translate k1 w = (if page_base w = 0xBFFFF000 then Some (page_base (a_addr a) OR (w AND 0xFFF)) else translate k w)"
    unfolding ix pb by auto
  have "mapped_dir k1 0xBFFFE000" using k1(3) by (simp add: mapped_dir_def pde_of_def pde_paddr_def)
  then have s1: "table_supply (I \<union> J) 0xBFFFE000 k1 st1" using k1(4) by (simp add: table_supply_def)
  have eq: "pool = user_vmm_pool (tcb k1 ?c)" "d = pdt_vaddr (tcb k1 ?c)" "\<not> is_kern_thread (tcb k1 ?c)"
    using k1(6) on(2) by (simp_all add: pool_def d_def)
  have "page_index pool 0xBFFFE000 \<in> ufree pool k1" using free k1(5) unfolding ix by simp
  from user_alloc_run [OF k1(2) eq(1,2) k1(7) eq(3) _ this s1 b]
  obtain k2 where k2: "vmm_user_alloc_one_page ?c 0xBFFFE000 k1 = Inr (0xBFFFE000, k2)" "user_space I J pool d k2"
    "\<forall>w < 0xC0000000. translate k2 w = (if page_base w = 0xBFFFE000 then Some (page_base (a_addr b) OR (w AND 0xFFF)) else translate k1 w)"
    unfolding ix pb by auto
  have "user_space I J pool d (k2\<lparr>int_flag := True\<rparr>)" "translate (k2\<lparr>int_flag := True\<rparr>) = translate k2"
    using user_space_cong [of "k2\<lparr>int_flag := True\<rparr>" k2] k2(2) same_mmu [of "k2\<lparr>int_flag := True\<rparr>" k2] by simp_all
  moreover have "bit (0x202 :: uint32) 9" by (simp add: bit_iff_odd)
  moreover have "start_user_task params k = Inr (exit_int
      \<lparr>int_no_1 = 1, i_args = 0, i_gs = 0, i_fs = 0, i_es = 0, i_edi = 0, i_esi = 0, i_ebp = 0,
       esp_duplicate = 0, i_ebx = 0, i_edx = 0, i_ecx = 0, i_eax = 0, int_no_2 = 0, error_no = 0,
       i_eip = function_f params, i_cs = 0x23, i_eflags = 0x202, i_esp = 0xBFFFF000, i_ss = 0x2B\<rparr> k2)"
    using f k1(1) k2(1) by (simp add: start_user_task_def get_running_progress_def)
  ultimately show ?thesis using k1(8) k2(3) by (simp add: exit_int_def)
qed

text \<open>
  Entering privilege level 3. For a task with a function, in its address space, with the argument
  and the stack page free in its pool and enough physical pages, \<^verbatim>\<open>start_user_task\<close> maps exactly these two
  pages and returns from the faked interrupt with the user code selector, the function as instruction pointer, the
  user stack selector, the stack pointer at the end of the stack page and interrupts on.
\<close>

theorem start_user_task_enters:
  assumes "user_space I J (user_vmm_pool (tcb k (cur_tcb k))) (pdt_vaddr (tcb k (cur_tcb k))) k"
    "USER_PAGE_DIR_IS_LOADED k" "\<not> is_kern_thread (tcb k (cur_tcb k))" "\<not> is_from_file params" "function_f params \<noteq> 0"
    "{0xBFFFE, 0xBFFFF} \<subseteq> ufree (user_vmm_pool (tcb k (cur_tcb k))) k"
    "table_supply (I \<union> J) 0xBFFFF000 k st" "pmm_alloc_one_page st = Inr (a, st1)" "a_state a \<noteq> 0"
    "pmm_alloc_one_page st1 = Inr (b, st2)" "a_state b \<noteq> 0"
  shows "\<exists>cpu k'. start_user_task params k = Inr (cpu, k') \<and> cpu_eip cpu = function_f params \<and> cpu_cs cpu = 0x23 \<and>
    cpu_ss cpu = 0x2B \<and> cpu_esp cpu = 0xBFFFF000 \<and> int_flag k' \<and>
    user_space I J (user_vmm_pool (tcb k (cur_tcb k))) (pdt_vaddr (tcb k (cur_tcb k))) k' \<and>
    (\<forall>w < 0xC0000000. translate k' w =
       (if page_base w = 0xBFFFE000 then Some (page_base (a_addr b) OR (w AND 0xFFF))
        else if page_base w = 0xBFFFF000 then Some (page_base (a_addr a) OR (w AND 0xFFF)) else translate k w))"
  by (rule start_user_task_run [OF assms])

section \<open>A concrete task\<close>

text \<open>
  A task in the address space of \<open>demo_kernel\<close>, with its pool at \<open>0xC0010000\<close> and the last eight
  user pages free, and a page manager with three single pages.
\<close>

definition demo_pool :: bitmap where
  "demo_pool = \<lparr>vaddr_header = 0xC0010000, bm_length = 0x18000, target_addr_header = 0\<rparr>"

definition demo_pool_bytes :: "uint32 set" where
  "demo_pool_bytes = {p. 0x10000 \<le> p \<and> p < 0x28000}"

definition demo_singles :: pmm where
  "demo_singles = set_next 6145 (Some 6146) demo_pmm"

definition demo_task :: kernel where
  "demo_task = demo_kernel\<lparr>pmem := demo_mem(0x27FFF := 255), pm := demo_singles, cur_tcb := 0xC0310000,
     tcb := (\<lambda>_. (demo_tcb 7 0xC0310000 TASK_RUNNING)\<lparr>is_kern_thread := False, user_vmm_pool := demo_pool, pdt_vaddr := 0xC0100000\<rparr>)\<rparr>"

lemma demo_singles_rel: "pmm_rel demo_singles demo_lists ([6144, 6145] @ [6146])"
proof -
  have nx: "nextf demo_singles = (\<lambda>n. if n = 0 then Some 3072 else if n = 4104 then Some 4108
    else if n = 6144 then Some 6145 else if n = 6145 then Some 6146 else None)"
    by (auto simp: nextf_def demo_singles_def set_next_def demo_pmm_def fun_eq_iff)
  have ch: "chain (nextf demo_singles) (MULTI_LINK demo_singles c) (demo_lists c)" for c
    unfolding nx by (simp add: demo_singles_def set_next_def demo_pmm_def demo_lists_def)
  have "chain (nextf demo_singles) (SINGLE_LINK demo_singles) [6144, 6145, 6146]"
    unfolding nx by (simp add: demo_singles_def set_next_def demo_pmm_def)
  then show ?thesis
    using ch by (auto simp: pmm_rel_def listed_def demo_lists_def demo_singles_def set_next_def demo_pmm_def split: if_splits)
qed

lemma demo_three_pages:
  "\<exists>st st1 st2. pmm_alloc_one_page demo_singles = Inr (\<lparr>a_addr = 0x1A02000, a_size = 0, a_state = 1\<rparr>, st) \<and>
    pmm_alloc_one_page st = Inr (\<lparr>a_addr = 0x1A01000, a_size = 0, a_state = 1\<rparr>, st1) \<and>
    pmm_alloc_one_page st1 = Inr (\<lparr>a_addr = 0x1A00000, a_size = 0, a_state = 1\<rparr>, st2)"
proof -
  have pst: "pmm_page_start demo_singles = 0x200000" by (simp add: demo_singles_def set_next_def demo_pmm_def)
  obtain st where st: "pmm_alloc_one_page demo_singles = Inr (\<lparr>a_addr = pmm_page_no_to_addr demo_singles 6146, a_size = 0, a_state = 1\<rparr>, st)"
    "pmm_rel st demo_lists ([6144] @ [6145])" "geometry st = geometry demo_singles"
    using pmm_alloc_one_page_rel [OF demo_singles_rel] by auto
  obtain st1 where st1: "pmm_alloc_one_page st = Inr (\<lparr>a_addr = pmm_page_no_to_addr st 6145, a_size = 0, a_state = 1\<rparr>, st1)"
    "pmm_rel st1 demo_lists ([] @ [6144])" "geometry st1 = geometry st"
    using pmm_alloc_one_page_rel [OF st(2)] by auto
  obtain st2 where st2: "pmm_alloc_one_page st1 = Inr (\<lparr>a_addr = pmm_page_no_to_addr st1 6144, a_size = 0, a_state = 1\<rparr>, st2)"
    using pmm_alloc_one_page_rel [OF st1(2)] by auto
  have "pmm_page_start st = 0x200000" "pmm_page_start st1 = 0x200000" using st(3) st1(3) pst by (simp_all add: geometry_def)
  then show ?thesis using st(1) st1(1) st2 pst by (simp add: pmm_page_no_to_addr_def)
qed

text \<open>The frames outside the tables and bitmaps of \<open>demo_kernel\<close>.\<close>

lemma demo_off_below: "off_tables demo_pool_bytes demo_kernel"
  unfolding off_tables_def
proof (intro ballI conjI allI impI)
  fix p assume "p \<in> demo_pool_bytes"
  then have "unat p < 0x28000" by (simp add: demo_pool_bytes_def word_less_nat_alt)
  then have b: "unat (page_base p) < 0x28000" using page_base_le [of p] by (simp add: word_le_nat_alt)
  then show "page_base p \<noteq> page_base (cr3 demo_kernel)" using demo_d by auto
  fix v assume "mapped_dir demo_kernel v"
  then have "0x100000 \<le> unat (page_base (pde_of demo_kernel v))" using demo_table [of v] by (auto simp: demo_dir)
  then show "page_base p \<noteq> page_base (pde_of demo_kernel v)" using b by auto
qed

lemma demo_pool_range:
  assumes "v \<in> bitmap_bytes demo_pool" shows "0xC0010000 \<le> unat v" "unat v < 0xC0028000"
proof -
  obtain j where j: "j < 0x18000" "v = 0xC0010000 + of_nat j" using assms by (auto simp: bitmap_bytes_def span_def demo_pool_def)
  have "unat (of_nat j :: uint32) = j" using j(1) by (intro unat_of_nat_32) simp
  then have "unat v = 0xC0010000 + j" using j by (simp add: unat_word_ariths)
  then show "0xC0010000 \<le> unat v" "unat v < 0xC0028000" using j(1) by simp_all
qed

lemma demo_task_fields [simp]:
  "pmem demo_task = demo_mem(0x27FFF := 255)" "cr3 demo_task = 0x100000" "kern_vmm_pool demo_task = kpool 0xC0300000"
  "kern_bitmap demo_task = 0xC0300000" "pm demo_task = demo_singles" "cur_tcb demo_task = 0xC0310000"
  "USER_PAGE_DIR_IS_LOADED demo_task" "user_vmm_pool (tcb demo_task c) = demo_pool" "pdt_vaddr (tcb demo_task c) = 0xC0100000"
  "\<not> is_kern_thread (tcb demo_task c)"
  by (simp_all add: demo_task_def demo_kernel_def)

lemma demo_task_base:
  "kspace demo_bytes demo_task" "translate demo_task = translate demo_kernel" "kfree demo_task = kfree demo_kernel"
  "mapped_dir demo_task = mapped_dir demo_kernel" "pde_of demo_task = pde_of demo_kernel"
proof -
  let ?k = "demo_kernel\<lparr>pmem := demo_mem(0x27FFF := 255)\<rparr>"
  have r: "rest_of demo_pool_bytes ?k = rest_of demo_pool_bytes demo_kernel"
    by (simp add: rest_of_def demo_pool_bytes_def fun_eq_iff)
  have dis: "demo_pool_bytes \<inter> demo_bytes = {}"
    by (auto simp: demo_pool_bytes_def demo_bytes_def word_le_nat_alt word_less_nat_alt)
  note s = kspace_frame_step [OF demo_kspace demo_off_below dis r]
  note m = same_mmu [of demo_task ?k, simplified]
  show "kspace demo_bytes demo_task" using s(1) by (subst kspace_cong [of _ ?k]) simp_all
  show "translate demo_task = translate demo_kernel" using m s(2) by simp
  show "pde_of demo_task = pde_of demo_kernel" using m s(5) by auto
  then show "mapped_dir demo_task = mapped_dir demo_kernel" by (simp add: fun_eq_iff mapped_dir_def)
  show "kfree demo_task = kfree demo_kernel" using s(3) m by simp
qed

lemma demo_busy: "0xC0000000 \<le> unat v \<Longrightarrow> unat v < 0xC0400000 \<Longrightarrow> page_index (kpool 0xC0300000) v \<notin> kfree demo_kernel"
proof -
  assume v: "0xC0000000 \<le> unat v" "unat v < 0xC0400000"
  then have "unat v div 4096 < 0xC0400" by (simp add: div_less_iff_less_mult)
  then have "unat (page_base v) < 0xC0400000" by (simp add: unat_page_base)
  then have "page_index (kpool 0xC0300000) v < 1024" by (simp add: page_index_def div_less_iff_less_mult)
  then show ?thesis using demo_free by simp
qed

lemma demo_task_space: "user_space demo_bytes demo_pool_bytes demo_pool 0xC0100000 demo_task"
proof -
  have tr: "translate demo_kernel v = Some (v - 0xC0000000)" "0xC0000000 \<le> v" "v - 0xC0000000 \<in> demo_pool_bytes"
    "page_index (kpool 0xC0300000) v \<notin> kfree demo_kernel" if "v \<in> bitmap_bytes demo_pool" for v
  proof -
    note r = demo_pool_range [OF that]
    show "translate demo_kernel v = Some (v - 0xC0000000)" "0xC0000000 \<le> v"
      using r demo_translate [of v] by (simp_all add: word_le_nat_alt word_less_nat_alt)
    show "v - 0xC0000000 \<in> demo_pool_bytes"
      using r by (simp add: demo_pool_bytes_def word_le_nat_alt word_less_nat_alt unat_sub) linarith
    show "page_index (kpool 0xC0300000) v \<notin> kfree demo_kernel" by (rule demo_busy) (use r in simp_all)
  qed
  have inj: "inj_on (translate demo_kernel) (bitmap_bytes demo_pool)" by (rule inj_onI) (simp add: tr(1))
  have off: "off_tables demo_pool_bytes demo_task"
    using demo_off_below by (simp add: off_tables_def demo_task_base(4,5))
  have dis: "demo_pool_bytes \<inter> demo_bytes = {}"
    by (auto simp: demo_pool_bytes_def demo_bytes_def word_le_nat_alt word_less_nat_alt)
  have dir: "translate demo_kernel v = Some (page_base 0x100000 OR (v AND 0xFFF))" if v: "page_base v = 0xC0100000" for v
  proof -
    have pb: "page_base 0xC0100000 = (0xC0100000 :: uint32)" "page_base 0x100000 = (0x100000 :: uint32)" by (simp_all add: page_base_def)
    obtain i where i: "i < 4096" "v = 0xC0100000 + of_nat i" using frame_bytes [OF pb(1), of v] v pb(1) by (auto simp: frame_def)
    have "unat (of_nat i :: uint32) = i" using i(1) by (intro unat_of_nat_32) simp
    then have "translate demo_kernel v = Some (0x100000 + of_nat i)"
      using demo_translate [of v] i by (simp add: word_le_nat_alt word_less_nat_alt unat_word_ariths)
    then show ?thesis using page_offset(2) [OF pb(1) i(1)] page_offset(3) [OF pb(2) i(1)] pb(2) i(2) by simp
  qed
  have d: "page_index (kpool 0xC0300000) 0xC0100000 \<notin> kfree demo_kernel" by (rule demo_busy) simp_all
  have c: "page_base 0xC0100000 = (0xC0100000 :: uint32)" "drop_bit 22 (0xC0100000 :: uint32) \<noteq> 0x3FF" "wf_bitmap demo_pool"
    "bm_length demo_pool = 0x18000" "target_addr_header demo_pool = 0"
    by (simp_all add: page_base_def wf_bitmap_def demo_pool_def)
  have b: "(\<exists>q\<in>demo_pool_bytes. translate demo_kernel v = Some q) \<and> 0xC0000000 \<le> v \<and> v < 0xC4000000 \<and> page_index (kpool 0xC0300000) v \<notin> kfree demo_kernel"
    if "v \<in> bitmap_bytes demo_pool" for v
    using tr [OF that] demo_pool_range(2) [OF that] by (auto simp: word_less_nat_alt)
  show ?thesis
    unfolding user_space_def demo_task_base(2,3) demo_task_fields(2,3)
    using demo_task_base(1) c d dir off dis inj b by simp
qed

lemma demo_task_free: "{0xBFFFE, 0xBFFFF} \<subseteq> ufree demo_pool demo_task"
proof -
  have "translate demo_kernel 0xC0027FFF = Some 0x27FFF" using demo_translate [of "0xC0027FFF"] by simp
  then have "vmem demo_task 0xC0027FFF = 255" by (simp add: vmem_def demo_task_base(2))
  then show ?thesis by (simp add: free_pages_def page_free_def demo_pool_def bit_iff_odd)
qed

lemma demo_frame_off:
  assumes "page_base p = p" "0x308000 \<le> unat p"
  shows "off_tables (frame p) demo_task" "frame p \<inter> (demo_bytes \<union> demo_pool_bytes) = {}"
proof -
  show "off_tables (frame p) demo_task"
    using demo_frame(1) [OF assms] by (simp add: off_tables_def demo_task_base(4,5))
  have "x \<notin> demo_pool_bytes" if "x \<in> frame p" for x
    using that assms page_base_le [of x] by (auto simp: frame_def demo_pool_bytes_def word_less_nat_alt word_le_nat_alt)
  then show "frame p \<inter> (demo_bytes \<union> demo_pool_bytes) = {}" using demo_frame(2) [OF assms] by blast
qed

lemma demo_supply:
  assumes "pmm_alloc_one_page demo_singles = Inr (\<lparr>a_addr = 0x1A02000, a_size = 0, a_state = 1\<rparr>, st)"
  shows "table_supply (demo_bytes \<union> demo_pool_bytes) 0xBFFFF000 demo_task st"
proof -
  have "off_tables (frame 0x1A02000) demo_task" "frame 0x1A02000 \<inter> (demo_bytes \<union> demo_pool_bytes) = {}"
    by (rule demo_frame_off; simp add: page_base_def)+
  moreover have "\<not> mapped_dir demo_task 0xBFFFF000" by (simp add: demo_task_base(4) demo_dir)
  moreover have "kfree demo_task \<noteq> {}" "Min (kfree demo_task) < 16384" using demo_min demo_task_base(3) by simp_all
  ultimately show ?thesis using assms by (simp add: table_supply_def)
qed

theorem vmm_user_alloc_maps_witness:
  "\<exists>k'. vmm_user_alloc_one_page 0xC0310000 0xBFFFF123 demo_task = Inr (0xBFFFF000, k') \<and>
    translate k' 0xBFFFF456 = Some 0x1A01456"
proof -
  obtain st st1 where st: "pmm_alloc_one_page demo_singles = Inr (\<lparr>a_addr = 0x1A02000, a_size = 0, a_state = 1\<rparr>, st)"
    "pmm_alloc_one_page st = Inr (\<lparr>a_addr = 0x1A01000, a_size = 0, a_state = 1\<rparr>, st1)"
    using demo_three_pages by blast
  have pb: "page_base 0xBFFFF123 = (0xBFFFF000 :: uint32)" "page_base 0xBFFFF456 = (0xBFFFF000 :: uint32)"
    "page_base 0x1A01000 = (0x1A01000 :: uint32)" by (simp_all add: page_base_def)
  have "page_index demo_pool 0xBFFFF123 \<in> ufree demo_pool demo_task"
    using demo_task_free by (simp add: page_index_def pb demo_pool_def)
  moreover have "mapped_dir demo_task 0xBFFFF123 = mapped_dir demo_task 0xBFFFF000" by (simp add: mapped_dir_def pde_of_def pde_paddr_def)
  then have "table_supply (demo_bytes \<union> demo_pool_bytes) 0xBFFFF123 demo_task st"
    using demo_supply [OF st(1)] by (simp add: table_supply_def)
  ultimately obtain k' where "vmm_user_alloc_one_page 0xC0310000 0xBFFFF123 demo_task = Inr (page_base 0xBFFFF123, k')"
    "\<forall>w < 0xC0000000. translate k' w = (if page_base w = page_base 0xBFFFF123 then Some (page_base 0x1A01000 OR (w AND 0xFFF))
       else translate demo_task w)"
    using vmm_user_alloc_maps [OF demo_task_space, of "0xC0310000" "0xBFFFF123" st _ st1, OF _ _ _ _ _ _ _ st(2)] by auto
  then show ?thesis unfolding pb by (simp add: pb)
qed

text \<open>The task when the page manager has one page left, which becomes the page table.\<close>

definition demo_last :: pmm where
  "demo_last = empty_pmm\<lparr>page_array := (\<lambda>n. \<lparr>page_no = n, p_next = None, p_state = 1\<rparr>), SINGLE_LINK := Some 6144\<rparr>"

lemma demo_last_page:
  "\<exists>st. pmm_alloc_one_page demo_last = Inr (\<lparr>a_addr = 0x1A00000, a_size = 0, a_state = 1\<rparr>, st) \<and>
    pmm_alloc_one_page st = Inr (\<lparr>a_addr = 0, a_size = 11, a_state = 0\<rparr>, st)"
proof -
  let ?st = "demo_last\<lparr>SINGLE_LINK := None\<rparr>"
  have "pmm_rel ?st (\<lambda>_. []) []" by (simp add: pmm_rel_def empty_pmm_def demo_last_def listed_def demo_pmm_def)
  then have "pmm_alloc_pages 1 ?st = Inr (\<lparr>a_addr = 0, a_size = 11, a_state = 0\<rparr>, ?st)"
    using pmm_alloc_pages_none_rel [of ?st _ _, OF _ _ _ fits_order [OF fits_small(1)]] by (simp add: all_empty_def)
  then have "pmm_alloc_one_page ?st = Inr (\<lparr>a_addr = 0, a_size = 11, a_state = 0\<rparr>, ?st)" by (simp add: pmm_alloc_one_page_def)
  moreover have "pmm_alloc_one_page demo_last = Inr (\<lparr>a_addr = 0x1A00000, a_size = 0, a_state = 1\<rparr>, ?st)"
    by (simp add: pmm_alloc_one_page_def demo_last_def empty_pmm_def demo_pmm_def nextf_def pmm_page_no_to_addr_def)
  ultimately show ?thesis by blast
qed

theorem vmm_user_alloc_no_memory_witness:
  "\<exists>k'. vmm_user_alloc_one_page 0xC0310000 0xBFFFF123 (demo_task\<lparr>pm := demo_last\<rparr>) = Inr (0xFFFFFFFF, k') \<and>
    0xBFFFF \<notin> ufree demo_pool k'"
proof -
  let ?k = "demo_task\<lparr>pm := demo_last\<rparr>"
  obtain st where st: "pmm_alloc_one_page demo_last = Inr (\<lparr>a_addr = 0x1A00000, a_size = 0, a_state = 1\<rparr>, st)"
    "pmm_alloc_one_page st = Inr (\<lparr>a_addr = 0, a_size = 11, a_state = 0\<rparr>, st)" using demo_last_page by blast
  note mm = same_mmu [of ?k demo_task, simplified]
  have us: "user_space demo_bytes demo_pool_bytes demo_pool 0xC0100000 ?k" using demo_task_space user_space_cong [of ?k demo_task] by simp
  have pb: "page_base 0xBFFFF123 = (0xBFFFF000 :: uint32)" by (simp add: page_base_def)
  have ix: "page_index demo_pool 0xBFFFF123 = 0xBFFFF" by (simp add: page_index_def pb demo_pool_def)
  have fr: "page_index demo_pool 0xBFFFF123 \<in> ufree demo_pool ?k" using demo_task_free mm(5) by (simp add: ix)
  have off: "off_tables (frame 0x1A00000) ?k" "frame 0x1A00000 \<inter> (demo_bytes \<union> demo_pool_bytes) = {}"
    using demo_frame_off [of "0x1A00000"] mm by (simp_all add: page_base_def off_tables_def)
  have "\<not> mapped_dir ?k 0xBFFFF123" using mm(4) demo_task_base(4) by (simp add: demo_dir)
  moreover have "kfree ?k \<noteq> {}" "Min (kfree ?k) < 16384" using demo_min demo_task_base(3) mm(5) by simp_all
  ultimately have sup: "table_supply (demo_bytes \<union> demo_pool_bytes) 0xBFFFF123 ?k st" using st(1) off by (simp add: table_supply_def)
  obtain k' where "vmm_user_alloc_one_page 0xC0310000 0xBFFFF123 ?k = Inr (USER_VMM_ALLOC_ERRO, k')"
    "ufree demo_pool k' = ufree demo_pool ?k - {page_index demo_pool 0xBFFFF123}"
    using vmm_user_alloc_no_memory [OF us, of "0xC0310000" "0xBFFFF123", OF _ _ _ _ _ fr sup st(2)] by auto
  then show ?thesis by (auto simp: ix)
qed

theorem start_user_task_enters_witness:
  "\<exists>cpu k'. start_user_task \<lparr>is_from_file = False, function_f = 0xC0001000, args_f = 0, fd = 0\<rparr> demo_task = Inr (cpu, k') \<and>
    cpu_eip cpu = 0xC0001000 \<and> cpu_cs cpu = 0x23 \<and> translate k' 0xBFFFE008 = Some 0x1A00008"
proof -
  obtain st st1 st2 where st: "pmm_alloc_one_page demo_singles = Inr (\<lparr>a_addr = 0x1A02000, a_size = 0, a_state = 1\<rparr>, st)"
    "pmm_alloc_one_page st = Inr (\<lparr>a_addr = 0x1A01000, a_size = 0, a_state = 1\<rparr>, st1)"
    "pmm_alloc_one_page st1 = Inr (\<lparr>a_addr = 0x1A00000, a_size = 0, a_state = 1\<rparr>, st2)"
    using demo_three_pages by blast
  have pb: "page_base 0xBFFFE008 = (0xBFFFE000 :: uint32)" "page_base 0x1A00000 = (0x1A00000 :: uint32)" by (simp_all add: page_base_def)
  show ?thesis
    using start_user_task_enters [of demo_bytes demo_pool_bytes demo_task
        "\<lparr>is_from_file = False, function_f = 0xC0001000, args_f = 0, fd = 0\<rparr>", OF _ _ _ _ _ _ demo_supply [OF st(1)] st(2) _ st(3)]
      demo_task_space demo_task_free pb by fastforce
qed

end
