(* ===== verification/Interrupts.thy ===== *)
theory Interrupts
  imports Threads
begin

text \<open>
  \<^verbatim>\<open>src/kernel/modules/interrupt/interrupt.c\<close> with the drivers of the interrupt controller and
  the keyboard: the interrupt descriptor table, the table of handlers, the programming of the
  8259A and the 8253. The arrays have 256 entries; an index outside them is undefined behaviour.
  The entry points \<open>isr n\<close> and the addresses of the tables come from the linker and are
  parameters. The handlers and the dispatch of an interrupt are in \<open>Handlers\<close>.
\<close>

section \<open>Tables\<close>

record interrupt_discripter_t =
  offset_low :: uint16
  selector :: uint16
  default_bit8 :: byte
  inf :: byte
  offset_high :: uint16

record lidt_target_t =
  l_limit :: uint16
  l_base :: uint32

text \<open>The functions the kernel registers; \<open>None\<close> in the table is a NULL pointer.\<close>

datatype int_server_func_t = Default_server_func | Page_fault_func | Timer_server_func | Interrupt_handler_keyboard

record irq_tables =
  idt_entries :: "int \<Rightarrow> interrupt_discripter_t"
  int_server_func_list :: "int \<Rightarrow> int_server_func_t option"
  lidt_target :: lidt_target_t
  idtr :: lidt_target_t

abbreviation default_inf :: byte where "default_inf \<equiv> 0x8E"
abbreviation kern_cs :: uint16 where "kern_cs \<equiv> 0x08"

definition set_int_disc :: "int \<Rightarrow> uint32 \<Rightarrow> uint16 \<Rightarrow> byte \<Rightarrow> irq_tables \<Rightarrow> fault + irq_tables" where
  "set_int_disc int_no offset sel i q =
     (if 0 \<le> int_no \<and> int_no < 256
      then Inr (q\<lparr>idt_entries := (idt_entries q)(int_no := \<lparr>offset_low = ucast offset, selector = sel, default_bit8 = 0,
                inf = i, offset_high = ucast (drop_bit 16 offset)\<rparr>)\<rparr>)
      else Inl Undefined)"

definition register_interrupt :: "int \<Rightarrow> int_server_func_t \<Rightarrow> irq_tables \<Rightarrow> fault + irq_tables" where
  "register_interrupt int_no target_func q =
     (if 0 \<le> int_no \<and> int_no < 256
      then Inr (q\<lparr>int_server_func_list := (int_server_func_list q)(int_no := Some target_func)\<rparr>)
      else Inl Undefined)"

section \<open>Hardware\<close>

definition timer_init :: "uint32 \<Rightarrow> kernel \<Rightarrow> fault + kernel" where
  "timer_init frequency k =
     (if frequency = 0 then Inl Undefined
      else let divisor = 1193180 div frequency;
               k1 = outb 0x43 0x36 k;
               low = ucast (divisor AND 0xFF);
               hign = ucast (drop_bit 8 divisor AND 0xFF)
           in Inr (outb 0x40 hign (outb 0x40 low k1)))"

text \<open>The initialisation words of master and slave controller, in the order they are sent.\<close>

definition init_words :: "(uint16 \<times> byte) list" where
  "init_words = [(0x20, 0x11), (0x21, 0x20), (0x21, 0x04), (0x21, 0x01), (0xA0, 0x11), (0xA1, 0x28), (0xA1, 0x02), (0xA1, 0x01)]"

definition init_8259A :: "kernel \<Rightarrow> kernel" where
  "init_8259A k = fold (\<lambda>(port, value). outb port value) init_words k"

section \<open>Initialisation\<close>

definition idt_init :: "(int \<Rightarrow> uint32) \<Rightarrow> uint32 \<Rightarrow> irq_tables \<Rightarrow> kernel \<Rightarrow> fault + (irq_tables \<times> kernel)" where
  "idt_init isr idt_addr q k =
     (let k1 = init_8259A k
      in bindE (foldE (\<lambda>n. set_int_disc n (isr n) kern_cs default_inf) [0..47] q) (\<lambda>q1.
         bindE (foldE (\<lambda>n. register_interrupt n Default_server_func) ([0..31] @ [33..47]) q1) (\<lambda>q2.
         bindE (register_interrupt 14 Page_fault_func q2) (\<lambda>q3.
         bindE (register_interrupt 32 Timer_server_func q3) (\<lambda>q4.
         let q5 = q4\<lparr>lidt_target := \<lparr>l_limit = 8 * 256, l_base = idt_addr\<rparr>\<rparr>
         in bindE (timer_init 1000 k1) (\<lambda>k2. Inr (q5\<lparr>idtr := lidt_target q5\<rparr>, cli k2)))))))"

definition keyboard_init :: "irq_tables \<Rightarrow> fault + irq_tables" where
  "keyboard_init q = register_interrupt 33 Interrupt_handler_keyboard q"

section \<open>Properties\<close>

text \<open>The address that the processor reads from a gate.\<close>

definition gate_offset :: "interrupt_discripter_t \<Rightarrow> uint32" where
  "gate_offset d = ucast (offset_low d) OR push_bit 16 (ucast (offset_high d))"

lemma split_offset: "ucast (ucast w :: uint16) OR push_bit 16 (ucast (ucast (drop_bit 16 w) :: uint16)) = (w :: uint32)"
proof (rule bit_word_eqI)
  fix n assume "n < LENGTH(32)"
  then have "n < 32" by simp
  then show "bit (ucast (ucast w :: uint16) OR push_bit 16 (ucast (ucast (drop_bit 16 w) :: uint16)) :: uint32) n = bit w n"
    by (cases "n < 16") (auto simp: bit_simps)
qed

lemma set_gates:
  "(\<forall>n\<in>set ns. 0 \<le> n \<and> n < 256) \<Longrightarrow> \<exists>q'. foldE (\<lambda>n. set_int_disc n (isr n) sel i) ns q = Inr q' \<and>
     int_server_func_list q' = int_server_func_list q \<and>
     (\<forall>n. idt_entries q' n = (if n \<in> set ns then \<lparr>offset_low = ucast (isr n), selector = sel, default_bit8 = 0, inf = i,
        offset_high = ucast (drop_bit 16 (isr n))\<rparr> else idt_entries q n))"
proof (induction ns arbitrary: q)
  case (Cons m ns)
  define q1 where "q1 = q\<lparr>idt_entries := (idt_entries q)(m := \<lparr>offset_low = ucast (isr m), selector = sel, default_bit8 = 0,
                inf = i, offset_high = ucast (drop_bit 16 (isr m))\<rparr>)\<rparr>"
  have "set_int_disc m (isr m) sel i q = Inr q1" using Cons.prems by (simp add: set_int_disc_def q1_def)
  then show ?case using Cons.IH [of q1] Cons.prems by (auto simp: q1_def)
qed simp

lemma set_handlers:
  "(\<forall>n\<in>set ns. 0 \<le> n \<and> n < 256) \<Longrightarrow> \<exists>q'. foldE (\<lambda>n. register_interrupt n f) ns q = Inr q' \<and> idt_entries q' = idt_entries q \<and>
     (\<forall>n. int_server_func_list q' n = (if n \<in> set ns then Some f else int_server_func_list q n))"
proof (induction ns arbitrary: q)
  case (Cons m ns)
  define q1 where "q1 = q\<lparr>int_server_func_list := (int_server_func_list q)(m := Some f)\<rparr>"
  have "register_interrupt m f q = Inr q1" using Cons.prems by (simp add: register_interrupt_def q1_def)
  then show ?case using Cons.IH [of q1] Cons.prems by (auto simp: q1_def)
qed simp

lemma init_log: "io_log (init_8259A k) = io_log k @ map (\<lambda>(p, v). Outb p v) init_words"
  by (simp add: init_8259A_def init_words_def outb_def)

lemma idt_init_run:
  "\<exists>q' k'. idt_init isr idt_addr q k = Inr (q', k') \<and> \<not> int_flag k' \<and>
    (\<forall>n. 0 \<le> n \<and> n \<le> 47 \<longrightarrow> gate_offset (idt_entries q' n) = isr n \<and> selector (idt_entries q' n) = 8 \<and> inf (idt_entries q' n) = 0x8E \<and>
       int_server_func_list q' n = Some (if n = 32 then Timer_server_func else if n = 14 then Page_fault_func else Default_server_func)) \<and>
    (\<forall>n. n < 0 \<or> 47 < n \<longrightarrow> idt_entries q' n = idt_entries q n \<and> int_server_func_list q' n = int_server_func_list q n) \<and>
    io_log k' = io_log k @ map (\<lambda>(p, v). Outb p v) init_words @ [Outb 0x43 0x36, Outb 0x40 0xA9, Outb 0x40 0x04] \<and>
    idtr q' = \<lparr>l_limit = 2048, l_base = idt_addr\<rparr>"
proof -
  obtain q1 where q1: "foldE (\<lambda>n. set_int_disc n (isr n) kern_cs default_inf) [0..47] q = Inr q1"
    "int_server_func_list q1 = int_server_func_list q"
    "\<forall>n. idt_entries q1 n = (if n \<in> set [0..47] then \<lparr>offset_low = ucast (isr n), selector = kern_cs, default_bit8 = 0,
        inf = default_inf, offset_high = ucast (drop_bit 16 (isr n))\<rparr> else idt_entries q n)"
    using set_gates [of "[0..47]" isr kern_cs default_inf q] by auto
  have "\<forall>n\<in>set ([0..31] @ [33..47]). 0 \<le> n \<and> n < (256 :: int)" by (simp only: set_append set_upto) auto
  then obtain q2 where q2: "foldE (\<lambda>n. register_interrupt n Default_server_func) ([0..31] @ [33..47]) q1 = Inr q2"
    "idt_entries q2 = idt_entries q1"
    "\<forall>n. int_server_func_list q2 n = (if n \<in> set ([0..31] @ [33..47]) then Some Default_server_func else int_server_func_list q1 n)"
    using set_handlers [of "[0..31] @ [33..47]" Default_server_func q1] by blast
  define q' where "q' = q2\<lparr>int_server_func_list := (int_server_func_list q2)(14 := Some Page_fault_func, 32 := Some Timer_server_func),
    lidt_target := \<lparr>l_limit = 2048, l_base = idt_addr\<rparr>, idtr := \<lparr>l_limit = 2048, l_base = idt_addr\<rparr>\<rparr>"
  define k' where "k' = cli (outb 0x40 0x04 (outb 0x40 0xA9 (outb 0x43 0x36 (init_8259A k))))"
  have "timer_init 1000 (init_8259A k) = Inr (outb 0x40 0x04 (outb 0x40 0xA9 (outb 0x43 0x36 (init_8259A k))))"
    by (simp add: timer_init_def)
  then have run: "idt_init isr idt_addr q k = Inr (q', k')"
    using q1(1) q2(1) unfolding idt_init_def Let_def by (simp add: register_interrupt_def q'_def k'_def)
  have g: "idt_entries q' n = (if 0 \<le> n \<and> n \<le> 47 then \<lparr>offset_low = ucast (isr n), selector = kern_cs, default_bit8 = 0,
        inf = default_inf, offset_high = ucast (drop_bit 16 (isr n))\<rparr> else idt_entries q n)" for n
    using q1(3) q2(2) by (simp add: q'_def)
  have lines: "n \<in> set ([0..31] @ [33..47]) \<longleftrightarrow> 0 \<le> n \<and> n \<le> 47 \<and> n \<noteq> 32" for n :: int
    by (simp only: set_append set_upto) auto
  have f: "int_server_func_list q' n = (if n = 32 then Some Timer_server_func else if n = 14 then Some Page_fault_func
      else if 0 \<le> n \<and> n \<le> 47 then Some Default_server_func else int_server_func_list q n)" for n
    using q2(3) q1(2) unfolding lines by (simp add: q'_def)
  have "gate_offset (idt_entries q' n) = isr n" if "0 \<le> n \<and> n \<le> 47" for n
    using that by (simp add: g gate_offset_def split_offset)
  then show ?thesis using run g f init_log [of k]
    by (intro exI [of _ q'] exI [of _ k']) (auto simp: k'_def cli_def outb_def q'_def)
qed

text \<open>
  C38. \<^verbatim>\<open>idt_init\<close> succeeds with interrupts closed. Every vector from 0 to 47 has a present
  ring-0 interrupt gate to its own entry point, and its handler: the clock for 32, the page
  fault for 14, the default one for the rest. The controllers map their lines to the vectors
  from 32 and 40, and the clock is set to 1193180 / 1000. All other vectors are untouched.
\<close>

theorem idt_init_tables:
  "\<exists>q' k'. idt_init isr idt_addr q k = Inr (q', k') \<and> \<not> int_flag k' \<and>
    (\<forall>n. 0 \<le> n \<and> n \<le> 47 \<longrightarrow> gate_offset (idt_entries q' n) = isr n \<and> selector (idt_entries q' n) = 8 \<and> inf (idt_entries q' n) = 0x8E \<and>
       int_server_func_list q' n = Some (if n = 32 then Timer_server_func else if n = 14 then Page_fault_func else Default_server_func)) \<and>
    (\<forall>n. n < 0 \<or> 47 < n \<longrightarrow> idt_entries q' n = idt_entries q n \<and> int_server_func_list q' n = int_server_func_list q n) \<and>
    io_log k' = io_log k @ map (\<lambda>(p, v). Outb p v) init_words @ [Outb 0x43 0x36, Outb 0x40 0xA9, Outb 0x40 0x04] \<and>
    idtr q' = \<lparr>l_limit = 2048, l_base = idt_addr\<rparr>"
  by (rule idt_init_run)

theorem idt_init_tables_witness:
  "\<exists>q' k'. idt_init (\<lambda>n. 0xC0100000 + of_int n * 16) 0xC0200000
      \<lparr>idt_entries = (\<lambda>_. \<lparr>offset_low = 0, selector = 0, default_bit8 = 0, inf = 0, offset_high = 0\<rparr>),
       int_server_func_list = (\<lambda>_. None), lidt_target = \<lparr>l_limit = 0, l_base = 0\<rparr>, idtr = \<lparr>l_limit = 0, l_base = 0\<rparr>\<rparr>
      undefined = Inr (q', k') \<and>
    gate_offset (idt_entries q' 32) = 0xC0100200 \<and> int_server_func_list q' 32 = Some Timer_server_func \<and>
    inf (idt_entries q' 48) = 0"
proof -
  obtain q' k' where r: "idt_init (\<lambda>n. 0xC0100000 + of_int n * 16) 0xC0200000
      \<lparr>idt_entries = (\<lambda>_. \<lparr>offset_low = 0, selector = 0, default_bit8 = 0, inf = 0, offset_high = 0\<rparr>),
       int_server_func_list = (\<lambda>_. None), lidt_target = \<lparr>l_limit = 0, l_base = 0\<rparr>, idtr = \<lparr>l_limit = 0, l_base = 0\<rparr>\<rparr>
      undefined = Inr (q', k')"
    and g: "\<forall>n. 0 \<le> n \<and> n \<le> 47 \<longrightarrow> gate_offset (idt_entries q' n) = 0xC0100000 + of_int n * 16 \<and>
       selector (idt_entries q' n) = 8 \<and> inf (idt_entries q' n) = 0x8E \<and>
       int_server_func_list q' n = Some (if n = 32 then Timer_server_func else if n = 14 then Page_fault_func else Default_server_func)"
    and o: "\<forall>n. n < 0 \<or> 47 < n \<longrightarrow> idt_entries q' n = \<lparr>offset_low = 0, selector = 0, default_bit8 = 0, inf = 0, offset_high = 0\<rparr> \<and>
       int_server_func_list q' n = None"
    using idt_init_tables [of "\<lambda>n. 0xC0100000 + of_int n * 16" "0xC0200000"
      "\<lparr>idt_entries = (\<lambda>_. \<lparr>offset_low = 0, selector = 0, default_bit8 = 0, inf = 0, offset_high = 0\<rparr>),
       int_server_func_list = (\<lambda>_. None), lidt_target = \<lparr>l_limit = 0, l_base = 0\<rparr>, idtr = \<lparr>l_limit = 0, l_base = 0\<rparr>\<rparr>" undefined]
    by auto
  show ?thesis using r spec [OF g, of 32] spec [OF o, of 48] by auto
qed

end
