(* ===== verification/PrintkInstance.thy ===== *)
theory PrintkInstance
  imports PrintkFormat
begin

text \<open>A concrete call of \<^verbatim>\<open>printk\<close>: the format \<^verbatim>\<open>"%d!"\<close> with the argument 42, under a free lock.\<close>

section \<open>The machine with its string literals\<close>

definition demo_lits :: "byte list" where
  "demo_lits = [48, 120, 48, 48, 48, 48, 48, 48, 48, 48, 0, 48, 48, 48, 48, 48, 48, 48, 48, 0, 37, 100, 33, 0]"

definition lit_mem :: "uint32 \<Rightarrow> byte" where
  "lit_mem x = (if 0x10000 \<le> unat x \<and> unat x < 0x10000 + length demo_lits then demo_lits ! (unat x - 0x10000) else demo_mem x)"

definition lit_kernel :: kernel where
  "lit_kernel = demo_kernel\<lparr>pmem := lit_mem, cur_tcb := 0x1000\<rparr>"

lemma lit_length: "length demo_lits = 24"
  by (simp add: demo_lits_def)

lemma stable_cong:
  fixes m m' :: kernel
  assumes "pmem m' = pmem m" "cr3 m' = cr3 m"
  shows "stable I R m' = stable I R m"
proof -
  have "translate m' = translate m" by (rule ext) (simp add: translate_def pde_paddr_def assms Let_def)
  moreover have "translate (m'\<lparr>pmem := h\<rparr>) = translate (m\<lparr>pmem := h\<rparr>)" for h
    by (rule ext) (simp add: translate_def pde_paddr_def assms Let_def)
  ultimately show ?thesis unfolding stable_def assms(1) by simp
qed

lemma lit_stable: "stable demo_data demo_window lit_kernel" "v \<in> demo_window \<Longrightarrow> translate lit_kernel v = Some (v - 0xC0000000)"
proof -
  have h: "\<forall>a. a \<notin> demo_data \<longrightarrow> lit_mem a = pmem demo_kernel a"
    by (auto simp: lit_mem_def lit_length demo_data_def word_less_nat_alt)
  note u = stable_update [OF demo_data_stable h]
  have "stable demo_data demo_window lit_kernel = stable demo_data demo_window (demo_kernel\<lparr>pmem := lit_mem\<rparr>)"
    by (rule stable_cong) (simp_all add: lit_kernel_def)
  then show "stable demo_data demo_window lit_kernel" using u(1) by blast
  have tr: "translate lit_kernel = translate (demo_kernel\<lparr>pmem := lit_mem\<rparr>)"
    by (rule ext) (simp add: lit_kernel_def translate_def pde_paddr_def Let_def)
  show "translate lit_kernel v = Some (v - 0xC0000000)" if "v \<in> demo_window"
    using u(2) that demo_window_translate(1) tr by simp
qed

lemma lit_byte: "i < 24 \<Longrightarrow> vmem lit_kernel (0xC0010000 + of_nat i) = demo_lits ! i"
proof -
  assume i: "i < 24"
  have n: "unat (of_nat i :: uint32) = i" using i by (intro unat_of_nat_32) simp
  have "0xC0010000 + of_nat i \<in> demo_window"
    using span_window [of "0xC0010000" 24] span_mem [OF i, of "0xC0010000"] by auto
  then have "vmem lit_kernel (0xC0010000 + of_nat i) = lit_mem (0x10000 + of_nat i)"
    using lit_stable(2) by (simp add: vmem_def) (simp add: lit_kernel_def)
  moreover have "unat (0x10000 + of_nat i :: uint32) = 0x10000 + i" using n i by (simp add: unat_word_ariths)
  ultimately show ?thesis using i by (simp add: lit_mem_def lit_length)
qed

lemma lit_string:
  assumes "demo_lits = pre @ bs @ 0 # post" "0 \<notin> set bs"
  shows "cstr (vmem lit_kernel) (0xC0010000 + of_nat (length pre)) bs"
proof -
  have len: "length pre + length bs < 24" using arg_cong [OF assms(1), of length] lit_length by simp
  have "vmem lit_kernel (0xC0010000 + of_nat (length pre) + of_nat i) = (bs @ 0 # post) ! i" if "i \<le> length bs" for i
  proof -
    have "demo_lits ! (length pre + i) = (bs @ 0 # post) ! i" by (simp only: assms(1) nth_append_length_plus)
    then show ?thesis using lit_byte [of "length pre + i"] len that by (simp add: add.assoc)
  qed
  then show ?thesis using assms(2) by (simp add: cstr_nth nth_append)
qed

section \<open>The call\<close>

definition demo_addrs :: printk_addrs where
  "demo_addrs = \<lparr>staticArry = 0xC0020000, insert_m = 0xC0020100, dec_m = 0xC0020200,
     hex_m = \<lparr>static_hexstr = 0xC0020300, temp_arry = 0xC0020400, temp_arry2 = 0xC0020500,
       lit_0x = 0xC0010000, lit_0 = 0xC001000B\<rparr>\<rparr>"

lemma work_demo:
  "work demo_addrs = span 0xC0020000 100 \<union> span 0xC0020100 100 \<union> (span 0xC0020200 32 \<union> span 0xC0020300 11 \<union>
     span 0xC0020400 9 \<union> span 0xC0020500 9)"
  by (simp add: work_def scratch_def demo_addrs_def)

lemma demo_layout: "printk_layout demo_window demo_addrs"
proof -
  have "work demo_addrs \<subseteq> demo_window" unfolding work_demo by (intro Un_least span_window) simp_all
  moreover have "span (staticArry demo_addrs) 100 \<inter> span (insert_m demo_addrs) 100 = {} \<and>
      (span (staticArry demo_addrs) 100 \<union> span (insert_m demo_addrs) 100) \<inter> scratch demo_addrs = {}"
    unfolding scratch_def Int_Un_distrib Int_Un_distrib2 Un_empty by (intro conjI span_sep) (simp_all add: demo_addrs_def)
  moreover have "span (static_hexstr (hex_m demo_addrs)) 11 \<inter> span (temp_arry (hex_m demo_addrs)) 9 = {} \<and>
      span (static_hexstr (hex_m demo_addrs)) 11 \<inter> span (temp_arry2 (hex_m demo_addrs)) 9 = {} \<and>
      span (temp_arry (hex_m demo_addrs)) 9 \<inter> span (temp_arry2 (hex_m demo_addrs)) 9 = {}"
    by (intro conjI span_sep) (simp_all add: demo_addrs_def)
  ultimately show ?thesis unfolding printk_layout_def by blast
qed

lemma demo_literal:
  assumes "demo_lits = pre @ bs @ 0 # post" "0 \<notin> set bs" "a = 0xC0010000 + of_nat (length pre)"
  shows "string_at demo_window demo_addrs (vmem lit_kernel) a bs"
proof -
  have len: "length pre + length bs < 24" using arg_cong [OF assms(1), of length] lit_length by simp
  have sub: "span a (Suc (length bs)) \<subseteq> span 0xC0010000 24" unfolding assms(3) using len by (intro span_shift) simp
  have w: "span 0xC0010000 24 \<subseteq> demo_window" by (rule span_window) simp_all
  have "span 0xC0010000 24 \<inter> work demo_addrs = {}"
    unfolding work_demo Int_Un_distrib Un_empty by (intro conjI span_sep) simp_all
  then show ?thesis using lit_string [OF assms(1,2)] sub w unfolding string_at_def assms(3) by blast
qed

definition demo_printk :: printk_sys where
  "demo_printk = printk_init_lock \<lparr>p_vga = \<lparr>cursor_x = 0, cursor_y = 0, con = lit_kernel\<rparr>, p_nodes = (\<lambda>_. \<lparr>n_thread = 0, n_next = None\<rparr>),
     printk_lock_init_flag = False, printk_lock = \<lparr>holder = 7, l_sem = \<lparr>s_val = 9, wait_queue = \<lparr>q_head = Some 3\<rparr>\<rparr>\<rparr>\<rparr>"

lemma demo_printk_fields: "p_vga demo_printk = \<lparr>cursor_x = 0, cursor_y = 0, con = lit_kernel\<rparr>"
  by (simp add: demo_printk_def printk_init_lock_def)

lemma demo_printk_free: "printk_free demo_printk"
  by (simp add: printk_free_def lock_free_def demo_printk_def printk_init_lock_def lock_init_def sem_init_def
      sync_tool_sem_init_queue_def waiting_def lit_kernel_def)

theorem printk_color_prints_witness:
  "\<exists>v'. printk_color black white demo_addrs 0x2000 0xC0010014 [42] demo_printk = Inr (None, demo_printk\<lparr>p_vga := v'\<rparr>) \<and>
    screen (con v') 0 = (52, 15) \<and> screen (con v') 1 = (50, 15) \<and> screen (con v') 2 = (33, 15) \<and> pos v' = 3"
proof -
  let ?str = "\<lambda>_. []" and ?v = "p_vga demo_printk"
  have eight: "replicate 8 (48 :: byte) = [48, 48, 48, 48, 48, 48, 48, 48]" by (simp add: eval_nat_numeral)
  have "string_at demo_window demo_addrs (vmem lit_kernel) 0xC0010000 (48 # 120 # replicate 8 48)"
    unfolding eight by (rule demo_literal [of "[]"]) (simp_all add: demo_lits_def)
  moreover have "string_at demo_window demo_addrs (vmem lit_kernel) 0xC001000B (replicate 8 48)"
    unfolding eight by (rule demo_literal [of "take 11 demo_lits"]) (simp_all add: demo_lits_def)
  ultimately have strs: "strings_ok demo_window demo_addrs {} ?str (vmem (con ?v))"
    by (simp add: strings_ok_def demo_addrs_def demo_printk_fields)
  have f: "string_at demo_window demo_addrs (vmem (con ?v)) 0xC0010014 [37, 100, 33]"
    unfolding demo_printk_fields vga.simps by (rule demo_literal [of "take 20 demo_lits"]) (simp_all add: demo_lits_def)
  have ok: "vga_ok demo_data demo_window ?v" unfolding vga_ok_def using lit_stable(1) demo_video by (simp add: demo_printk_fields)
  have vid: "video \<inter> work demo_addrs = {}"
    unfolding work_demo Int_Un_distrib Un_empty Int_commute [of video] by (intro conjI span_sep) simp_all
  have tx: "arg_text ?str 100 42 = [52, 50]" by (simp add: arg_text_def decimal_def dec_rev.simps)
  have c: "takes_arg 100" by (simp add: takes_arg_def)
  have fm: "fmt ?str [37, 100, 33] [42] = [52, 50, 33]" using tx c by simp
  have p: "printable {} ?str 0 [37, 100, 33] [42]" using tx c by simp
  have at: "attr_of black white = 15" by (simp add: attr_of_def)
  have st: "vga_state ?v = (screen lit_kernel, 0)" by (simp add: vga_state_def pos_def demo_printk_fields)
  have spec: "fold (kputc_spec 15) [52, 50, 33] (screen lit_kernel, 0) =
      ((screen lit_kernel)(0 := (52, 15), 1 := (50, 15), 2 := (33, 15)), 3)"
    by (simp add: kputc_spec_def putc_spec_def) (simp add: numeral_2_eq_2)
  have len: "length [37, 100, 33 :: byte] < 100" by simp
  obtain v' where "printk_color black white demo_addrs 0x2000 0xC0010014 [42] demo_printk = Inr (None, demo_printk\<lparr>p_vga := v'\<rparr>)"
    "same_screen (vga_state v') (fold (kputc_spec (attr_of black white)) (fmt ?str [37, 100, 33] [42]) (vga_state ?v))"
    using printk_color_prints [OF ok demo_layout vid strs f len p demo_printk_free, of black white "0x2000"] by blast
  then show ?thesis unfolding fm at st spec by (auto simp: same_screen_def vga_state_def)
qed

end
