(* ===== verification/Handlers.thy ===== *)
theory Handlers
  imports Interrupts PrintkInstance
begin

text \<open>
  The interrupt handlers of \<^verbatim>\<open>interrupt.c\<close> and \<^verbatim>\<open>keyboard.c\<close>, and the routing of an interrupt to its
  handler. All handlers but the clock print a message; a handler that finds the lock of \<^verbatim>\<open>printk\<close> taken
  suspends the thread it interrupted. The addresses of the format literals, the register \<^verbatim>\<open>CR2\<close> that \<^verbatim>\<open>get_cr2\<close> stores in
  \<^verbatim>\<open>_CR2\<close>, and the devices behind the ports are in the record \<open>int_env\<close>.
\<close>

section \<open>Handlers\<close>

record int_env =
  e_printk :: printk_addrs
  e_wait_node :: uint32
  e_default :: uint32
  e_fault_early :: uint32
  e_fault_task :: uint32
  e_keyboard :: uint32
  e_CR2 :: uint32
  e_device :: "uint16 \<Rightarrow> byte"

definition default_server_func :: "int_env \<Rightarrow> uint32 \<Rightarrow> printk_sys \<Rightarrow> fault + (wait_flags option \<times> printk_sys)" where
  "default_server_func E int_no s = printk (e_printk E) (e_wait_node E) (e_default E) [int_no] s"

definition page_fault_func :: "int_env \<Rightarrow> printk_sys \<Rightarrow> fault + (wait_flags option \<times> printk_sys)" where
  "page_fault_func E s =
     (let k = con (p_vga s); cur = get_running_progress k
      in if cur = 0 then printk (e_printk E) (e_wait_node E) (e_fault_early E) [e_CR2 E] s
         else printk (e_printk E) (e_wait_node E) (e_fault_task E) [e_CR2 E, tid (tcb k cur)] s)"

definition interrupt_handler_keyboard :: "int_env \<Rightarrow> printk_sys \<Rightarrow> fault + (wait_flags option \<times> printk_sys)" where
  "interrupt_handler_keyboard E s =
     (let byte1 = inb (e_device E) 0x60; val = ucast byte1 AND 0x000000FF
      in printk (e_printk E) (e_wait_node E) (e_keyboard E) [val] s)"

text \<open>The call through the function pointer: \<^verbatim>\<open>int_no\<close> is passed on.\<close>

definition run_handler :: "int_server_func_t \<Rightarrow> int_env \<Rightarrow> uint32 \<Rightarrow> printk_sys \<Rightarrow> fault + (wait_flags option \<times> printk_sys)" where
  "run_handler f E int_no s =
     (case f of
        Timer_server_func \<Rightarrow> bindE (timer_server_func (con (p_vga s))) (\<lambda>(_, k). Inr (None, s\<lparr>p_vga := (p_vga s)\<lparr>con := k\<rparr>\<rparr>))
      | Page_fault_func \<Rightarrow> page_fault_func E s
      | Default_server_func \<Rightarrow> default_server_func E int_no s
      | Interrupt_handler_keyboard \<Rightarrow> interrupt_handler_keyboard E s)"

text \<open>The table has 256 entries; an entry that was never set is a NULL pointer.\<close>

definition int_func_route :: "int \<Rightarrow> irq_tables \<Rightarrow> int_env \<Rightarrow> printk_sys \<Rightarrow> fault + (wait_flags option \<times> printk_sys)" where
  "int_func_route int_no q E s =
     (if 0 \<le> int_no \<and> int_no < 256
      then case int_server_func_list q int_no of None \<Rightarrow> Inl Undefined | Some f \<Rightarrow> run_handler f E (of_int int_no) s
      else Inl Undefined)"

section \<open>Properties\<close>


definition demo_env :: int_env where
  "demo_env = \<lparr>e_printk = demo_addrs, e_wait_node = 0x2000, e_default = 0xC0010014, e_fault_early = 0xC0010014,
     e_fault_task = 0xC0010014, e_keyboard = 0xC0010014, e_CR2 = 0, e_device = (\<lambda>_. 0x1E)\<rparr>"


end
