(* ===== verification/Links.thy ===== *)
theory Links
  imports SyncLock VmmInstance
begin

text \<open>
  \<^verbatim>\<open>src/libs/utils/list.c\<close>: the linked list of the kernel, optionally protected by a lock. Every
  change is bracketed by \<^verbatim>\<open>_lock_acquire\<close> and \<^verbatim>\<open>_lock_release\<close>; a thread that has to wait is
  suspended inside \<^verbatim>\<open>_lock_acquire\<close>, and \<open>locked_resume\<close> is the rest of the operation when it
  runs again. Pointers found before the lock is taken are part of that rest.
\<close>

section \<open>State\<close>

record link_node_t =
  ln_next :: "uint32 option"
  ln_data :: uint32

record link_t =
  head :: "uint32 option"
  have_lock :: bool
  lock_init_flag :: bool
  link_lock :: lock_t

text \<open>A list with the memory of its nodes, the queue nodes of its lock, and the kernel.\<close>

record link_sys =
  the_link :: link_t
  link_nodes :: "uint32 \<Rightarrow> link_node_t"
  wait_nodes :: nodes
  l_kernel :: kernel

section \<open>The lock of a list\<close>

text \<open>\<open>wn\<close> is the address of the queue node that \<^verbatim>\<open>sem_P\<close> keeps on its stack.\<close>

definition link_lock_acquire :: "uint32 \<Rightarrow> link_sys \<Rightarrow> fault + (wait_flags option \<times> link_sys)" where
  "link_lock_acquire wn s =
     (if lock_init_flag (the_link s)
      then bindE (lock_acquire wn (link_lock (the_link s)) (wait_nodes s) (l_kernel s)) (\<lambda>(w, l, h, k).
             Inr (w, s\<lparr>the_link := (the_link s)\<lparr>link_lock := l\<rparr>, wait_nodes := h, l_kernel := k\<rparr>))
      else Inr (None, s))"

definition link_lock_release :: "link_sys \<Rightarrow> link_sys" where
  "link_lock_release s =
     (if lock_init_flag (the_link s)
      then (case lock_release (link_lock (the_link s)) (wait_nodes s) (l_kernel s) of (l, h, k) \<Rightarrow>
             s\<lparr>the_link := (the_link s)\<lparr>link_lock := l\<rparr>, wait_nodes := h, l_kernel := k\<rparr>)
      else s)"

definition locked :: "uint32 \<Rightarrow> (link_sys \<Rightarrow> link_sys) \<Rightarrow> link_sys \<Rightarrow> fault + (wait_flags option \<times> link_sys)" where
  "locked wn body s =
     bindE (link_lock_acquire wn s) (\<lambda>(w, s1).
       case w of Some fl \<Rightarrow> Inr (Some fl, s1) | None \<Rightarrow> Inr (None, link_lock_release (body s1)))"

definition locked_resume ::
  "wait_flags \<Rightarrow> uint32 \<Rightarrow> (link_sys \<Rightarrow> link_sys) \<Rightarrow> link_sys \<Rightarrow> fault + (wait_flags option \<times> link_sys)" where
  "locked_resume fl wn body s =
     bindE (lock_acquire_resume fl wn (link_lock (the_link s)) (wait_nodes s) (l_kernel s)) (\<lambda>(w, l, h, k).
       let s1 = s\<lparr>the_link := (the_link s)\<lparr>link_lock := l\<rparr>, wait_nodes := h, l_kernel := k\<rparr>
       in case w of Some fl' \<Rightarrow> Inr (Some fl', s1) | None \<Rightarrow> Inr (None, link_lock_release (body s1)))"

section \<open>Operations\<close>

text \<open>Neither initialisation sets the head.\<close>

definition link_init_without_lock :: "link_t \<Rightarrow> link_t" where
  "link_init_without_lock link = link\<lparr>have_lock := False, lock_init_flag := False\<rparr>"

definition link_init_lock :: "link_t \<Rightarrow> link_t" where
  "link_init_lock link = link\<lparr>have_lock := True, link_lock := lock_init (link_lock link), lock_init_flag := True\<rparr>"

definition set_head :: "uint32 option \<Rightarrow> link_sys \<Rightarrow> link_sys" where
  "set_head p s = s\<lparr>the_link := (the_link s)\<lparr>head := p\<rparr>\<rparr>"

definition set_link_next :: "uint32 \<Rightarrow> uint32 option \<Rightarrow> link_sys \<Rightarrow> link_sys" where
  "set_link_next n p s = s\<lparr>link_nodes := (link_nodes s)(n := (link_nodes s n)\<lparr>ln_next := p\<rparr>)\<rparr>"

partial_function (option) find_data :: "(uint32 \<Rightarrow> link_node_t) \<Rightarrow> uint32 \<Rightarrow> uint32 option \<Rightarrow> bool option" where
  "find_data h data probe =
     (case probe of None \<Rightarrow> Some False
      | Some p \<Rightarrow> if ln_data (h p) = data then Some True else find_data h data (ln_next (h p)))"

text \<open>The code returns the datum, converted to a pointer, not the node; \<open>0\<close> is NULL.\<close>

definition link_find_node_by_data :: "uint32 \<Rightarrow> link_sys \<Rightarrow> fault + uint32" where
  "link_find_node_by_data data s =
     (case head (the_link s) of None \<Rightarrow> Inr 0
      | Some p \<Rightarrow> bindE (loopE (find_data (link_nodes s) data (Some p))) (\<lambda>found. Inr (if found then data else 0)))"

definition link_add_tail :: "uint32 \<Rightarrow> uint32 \<Rightarrow> link_sys \<Rightarrow> fault + (wait_flags option \<times> link_sys)" where
  "link_add_tail wn node s =
     (case head (the_link s) of
        None \<Rightarrow> locked wn (set_head (Some node)) s
      | Some p \<Rightarrow> bindE (loopE (last_node (\<lambda>n. ln_next (link_nodes s n)) p)) (\<lambda>probe.
          locked wn (set_link_next probe (Some node)) s))"

definition link_add_head :: "uint32 \<Rightarrow> uint32 \<Rightarrow> link_sys \<Rightarrow> fault + (wait_flags option \<times> link_sys)" where
  "link_add_head wn node s =
     locked wn (\<lambda>s1. let probe = head (the_link s1) in set_link_next node probe (set_head (Some node) s1)) s"

text \<open>The result is \<^verbatim>\<open>True\<close> when a node was removed; it is known before the lock is taken.\<close>

definition remove_next_node :: "uint32 \<Rightarrow> uint32 \<Rightarrow> link_sys \<Rightarrow> fault + (bool \<times> wait_flags option \<times> link_sys)" where
  "remove_next_node wn node s =
     (if ln_next (link_nodes s node) = None then Inr (False, None, s)
      else bindE (locked wn (set_link_next node None) s) (\<lambda>(w, s'). Inr (True, w, s')))"

text \<open>The search of both removals: the first node whose successor satisfies the test.\<close>

partial_function (option) find_before ::
  "(uint32 \<Rightarrow> link_node_t) \<Rightarrow> (uint32 \<Rightarrow> bool) \<Rightarrow> uint32 \<Rightarrow> uint32 option option" where
  "find_before h P probe =
     (case ln_next (h probe) of None \<Rightarrow> Some None
      | Some q \<Rightarrow> if P q then Some (Some probe) else find_before h P q)"

definition link_remove_by_data :: "uint32 \<Rightarrow> uint32 \<Rightarrow> link_sys \<Rightarrow> fault + (bool \<times> wait_flags option \<times> link_sys)" where
  "link_remove_by_data wn data s =
     (case head (the_link s) of None \<Rightarrow> Inr (False, None, s)
      | Some p \<Rightarrow> bindE (loopE (find_before (link_nodes s) (\<lambda>q. ln_data (link_nodes s q) = data) p)) (\<lambda>r.
          case r of None \<Rightarrow> Inr (False, None, s) | Some probe \<Rightarrow> remove_next_node wn probe s))"

definition link_remove_by_node :: "uint32 \<Rightarrow> uint32 \<Rightarrow> link_sys \<Rightarrow> fault + (bool \<times> wait_flags option \<times> link_sys)" where
  "link_remove_by_node wn node s =
     (case head (the_link s) of None \<Rightarrow> Inr (False, None, s)
      | Some p \<Rightarrow> bindE (loopE (find_before (link_nodes s) (\<lambda>q. q = node) p)) (\<lambda>r.
          case r of None \<Rightarrow> Inr (False, None, s) | Some probe \<Rightarrow> remove_next_node wn probe s))"

section \<open>Lists in memory\<close>

definition link_list :: "link_sys \<Rightarrow> uint32 list \<Rightarrow> bool" where
  "link_list s xs \<longleftrightarrow> chain (\<lambda>n. ln_next (link_nodes s n)) (head (the_link s)) xs"

text \<open>The list has no lock, or its lock is free and a thread other than NULL is running.\<close>

definition link_free :: "link_sys \<Rightarrow> bool" where
  "link_free s \<longleftrightarrow> lock_init_flag (the_link s) \<longrightarrow>
     lock_free (link_lock (the_link s)) (wait_nodes s) (l_kernel s)"

text \<open>A change that leaves the lock, the queue and the kernel alone.\<close>

definition plain :: "(link_sys \<Rightarrow> link_sys) \<Rightarrow> bool" where
  "plain f \<longleftrightarrow> (\<forall>s l h k. f (s\<lparr>the_link := (the_link s)\<lparr>link_lock := l\<rparr>, wait_nodes := h, l_kernel := k\<rparr>) =
     (f s)\<lparr>the_link := (the_link (f s))\<lparr>link_lock := l\<rparr>, wait_nodes := h, l_kernel := k\<rparr> \<and>
     lock_init_flag (the_link (f s)) = lock_init_flag (the_link s) \<and> link_lock (the_link (f s)) = link_lock (the_link s) \<and>
     wait_nodes (f s) = wait_nodes s \<and> l_kernel (f s) = l_kernel s)"

lemma plain_updates [simp]: "plain (set_head p)" "plain (set_link_next n p)"
  "plain (\<lambda>s. set_link_next n (head (the_link s)) (set_head (Some n) s))"
  by (simp_all add: plain_def set_head_def set_link_next_def)

text \<open>With a free lock the change is made at once, and the lock is free again.\<close>

lemma locked_free:
  assumes free: "link_free s" and f: "plain f"
  shows "locked wn f s = Inr (None, f s)" "link_free (f s)"
proof -
  have fs: "lock_init_flag (the_link (f s)) = lock_init_flag (the_link s)" "link_lock (the_link (f s)) = link_lock (the_link s)"
    "wait_nodes (f s) = wait_nodes s" "l_kernel (f s) = l_kernel s"
    using f unfolding plain_def by blast+
  then show "link_free (f s)" using free by (simp add: link_free_def)
  show "locked wn f s = Inr (None, f s)"
  proof (cases "lock_init_flag (the_link s)")
    case True
    define l where "l = link_lock (the_link s)"
    have l: "lock_free l (wait_nodes s) (l_kernel s)" using free True by (simp add: link_free_def l_def)
    define m where "m = lock_taken l (l_kernel s)"
    note acq = lock_free_cycle(1) [OF l, of wn, folded m_def]
    note rel = lock_free_cycle(2) [OF l refl, folded m_def]
    have upd: "f (s\<lparr>the_link := (the_link s)\<lparr>link_lock := m\<rparr>, wait_nodes := wait_nodes s, l_kernel := l_kernel s\<rparr>) =
        (f s)\<lparr>the_link := (the_link (f s))\<lparr>link_lock := m\<rparr>, wait_nodes := wait_nodes s, l_kernel := l_kernel s\<rparr>"
      using f unfolding plain_def by blast
    have "(f s)\<lparr>the_link := (the_link (f s))\<lparr>link_lock := l\<rparr>, wait_nodes := wait_nodes s, l_kernel := l_kernel s\<rparr> = f s"
      using fs by (cases "f s") (auto simp: l_def)
    then show ?thesis
      using True fs upd acq rel unfolding l_def by (simp add: locked_def link_lock_acquire_def link_lock_release_def)
  next
    case False
    then show ?thesis using fs by (simp add: locked_def link_lock_acquire_def link_lock_release_def)
  qed
qed

lemma link_next_upd: "(\<lambda>n. ln_next (link_nodes (set_link_next m p s) n)) = (\<lambda>n. ln_next (link_nodes s n))(m := p)"
  by (simp add: set_link_next_def fun_eq_iff)

lemma link_head_upd [simp]: "head (the_link (set_link_next m p s)) = head (the_link s)" "head (the_link (set_head p s)) = p"
  "link_nodes (set_head p s) = link_nodes s"
  by (simp_all add: set_link_next_def set_head_def)

lemma add_head_run:
  assumes "link_list s xs" "link_free s" "node \<notin> set xs"
  shows "\<exists>s'. link_add_head wn node s = Inr (None, s') \<and> link_list s' (node # xs) \<and> link_free s'"
proof -
  let ?f = "\<lambda>s. set_link_next node (head (the_link s)) (set_head (Some node) s)"
  have "link_list (?f s) (node # xs)" using assms(1,3) by (simp add: link_list_def link_next_upd)
  then show ?thesis using locked_free [OF assms(2) plain_updates(3)] by (simp add: link_add_head_def Let_def)
qed

lemma add_tail_run:
  assumes xs: "link_list s xs" and free: "link_free s" and n: "node \<notin> set xs" "ln_next (link_nodes s node) = None"
  shows "\<exists>s'. link_add_tail wn node s = Inr (None, s') \<and> link_list s' (xs @ [node]) \<and> link_free s'"
proof (cases xs rule: rev_cases)
  case Nil
  then have h: "head (the_link s) = None" using xs by (simp add: link_list_def)
  have "link_list (set_head (Some node) s) [node]" using n by (simp add: link_list_def)
  then show ?thesis using h Nil locked_free [OF free plain_updates(1)] by (simp add: link_add_tail_def)
next
  case (snoc ys y)
  let ?nx = "\<lambda>n. ln_next (link_nodes s n)"
  obtain p where p: "head (the_link s) = Some p" using xs snoc by (cases "head (the_link s)") (auto simp: link_list_def)
  have c: "chain ?nx (head (the_link s)) (ys @ [y])" using xs snoc by (simp add: link_list_def)
  then have "last_node ?nx p = Some y" using last_node_chain [of ?nx p "ys @ [y]"] p by simp
  moreover have "link_list (set_link_next y (Some node) s) (ys @ [y, node])"
    unfolding link_list_def link_next_upd link_head_upd using chain_snoc [OF c] n snoc by simp
  ultimately show ?thesis using p snoc locked_free [OF free plain_updates(2)] by (simp add: link_add_tail_def)
qed

lemma find_before_found:
  "chain (\<lambda>n. ln_next (h n)) (Some p) (p # xs @ q # ys) \<Longrightarrow> P q \<Longrightarrow> \<forall>x\<in>set xs. \<not> P x \<Longrightarrow>
     find_before h P p = Some (Some (last (p # xs)))"
proof (induction xs arbitrary: p)
  case (Cons x xs)
  then have "ln_next (h p) = Some x" "chain (\<lambda>n. ln_next (h n)) (Some x) (x # xs @ q # ys)" by simp_all
  then show ?case using Cons.IH [of x] Cons.prems(2,3) by (subst find_before.simps) auto
qed (simp add: find_before.simps)

lemma find_before_missing:
  "chain (\<lambda>n. ln_next (h n)) (Some p) (p # xs) \<Longrightarrow> \<forall>x\<in>set xs. \<not> P x \<Longrightarrow> find_before h P p = Some None"
proof (induction xs arbitrary: p)
  case (Cons x xs)
  then have "ln_next (h p) = Some x" "chain (\<lambda>n. ln_next (h n)) (Some x) (x # xs)" by simp_all
  then show ?case using Cons.IH [of x] Cons.prems(2) by (subst find_before.simps) auto
qed (simp add: find_before.simps)

lemma remove_run:
  assumes xs: "link_list s (p # xs @ q # ys)" and free: "link_free s" and P: "P q" "\<forall>x\<in>set xs. \<not> P x"
  shows "\<exists>s'. bindE (loopE (find_before (link_nodes s) P p)) (\<lambda>r.
      case r of None \<Rightarrow> Inr (False, None, s) | Some probe \<Rightarrow> remove_next_node wn probe s) = Inr (True, None, s') \<and>
    link_list s' (p # xs) \<and> link_free s'"
proof -
  let ?nx = "\<lambda>n. ln_next (link_nodes s n)"
  obtain zs y where zs: "p # xs = zs @ [y]" by (metis rev_exhaust list.discI)
  have c: "chain ?nx (Some p) (p # xs @ q # ys)" "head (the_link s) = Some p" using xs by (simp_all add: link_list_def)
  have fb: "find_before (link_nodes s) P p = Some (Some y)" using find_before_found [of "link_nodes s", OF c(1), of P, OF P] zs by simp
  have c2: "chain ?nx (Some p) (zs @ y # q # ys)" using c(1) zs by (metis append.assoc append_Cons append_Nil)
  then have "?nx y = Some q" using chain_append_suffix [of ?nx "Some p" zs y "q # ys"] by simp
  moreover have "link_list (set_link_next y None s) (zs @ [y])"
    unfolding link_list_def link_next_upd link_head_upd c(2) by (rule chain_cut [OF c2])
  ultimately show ?thesis
    using fb zs locked_free [OF free plain_updates(2)] by (simp add: remove_next_node_def)
qed

section \<open>Properties\<close>

text \<open>
  C33. Insertion implements a sequence: with the lock free (or without a lock) \<^verbatim>\<open>link_add_head\<close> puts
  a new node in front, \<^verbatim>\<open>link_add_tail\<close> puts it behind the last one when its \<^verbatim>\<open>next\<close> field is NULL,
  and the lock is free afterwards.
\<close>

theorem link_add_sequence:
  assumes "link_list s xs" "link_free s" "node \<notin> set xs" "ln_next (link_nodes s node) = None"
  shows "(\<exists>s'. link_add_head wn node s = Inr (None, s') \<and> link_list s' (node # xs) \<and> link_free s') \<and>
    (\<exists>s'. link_add_tail wn node s = Inr (None, s') \<and> link_list s' (xs @ [node]) \<and> link_free s')"
  using add_head_run [OF assms(1-3)] add_tail_run [OF assms] by blast

text \<open>
  C34. Removal cuts the list: removing a node, by address or by datum, reports success but drops all
  nodes behind it as well, because the predecessor's \<^verbatim>\<open>next\<close> is set to NULL. The first node is never
  removed: the search starts at its successor.
\<close>

theorem link_remove_truncates:
  assumes "link_list s (p # xs @ q # ys)" "link_free s" "\<forall>x\<in>set xs. ln_data (link_nodes s x) \<noteq> ln_data (link_nodes s q)"
  shows "(\<exists>s'. link_remove_by_node wn q s = Inr (True, None, s') \<and> link_list s' (p # xs) \<and> link_free s') \<and>
    (\<exists>s'. link_remove_by_data wn (ln_data (link_nodes s q)) s = Inr (True, None, s') \<and> link_list s' (p # xs) \<and> link_free s') \<and>
    link_remove_by_node wn p s = Inr (False, None, s)"
proof -
  have h: "head (the_link s) = Some p" and c: "chain (\<lambda>n. ln_next (link_nodes s n)) (Some p) (p # xs @ q # ys)"
    using assms(1) by (simp_all add: link_list_def)
  have d: "distinct (p # xs @ q # ys)" by (rule chain_distinct [OF c])
  then have "find_before (link_nodes s) (\<lambda>x. x = p) p = Some None" using find_before_missing [of "link_nodes s", OF c, of "\<lambda>x. x = p"] by auto
  then have "link_remove_by_node wn p s = Inr (False, None, s)" using h by (simp add: link_remove_by_node_def)
  moreover have "\<forall>x\<in>set xs. x \<noteq> q" using d by auto
  ultimately show ?thesis
    using remove_run [OF assms(1,2), of "\<lambda>x. x = q" wn] assms(3)
      remove_run [OF assms(1,2), of "\<lambda>x. ln_data (link_nodes s x) = ln_data (link_nodes s q)" wn] h
    by (simp add: link_remove_by_node_def link_remove_by_data_def)
qed

section \<open>A concrete list\<close>

text \<open>Four nodes with their own addresses as data, under a lock that is free; node 5 is not linked.\<close>

definition demo_links :: link_sys where
  "demo_links = \<lparr>the_link = link_init_lock \<lparr>head = Some 1, have_lock = False, lock_init_flag = False,
       link_lock = \<lparr>holder = 7, l_sem = \<lparr>s_val = 9, wait_queue = \<lparr>q_head = Some 3\<rparr>\<rparr>\<rparr>\<rparr>,
     link_nodes = (\<lambda>n. \<lparr>ln_next = (if n < 4 then Some (n + 1) else None), ln_data = n\<rparr>),
     wait_nodes = (\<lambda>_. \<lparr>n_thread = 0, n_next = None\<rparr>), l_kernel = demo_kernel\<lparr>cur_tcb := 0x1000\<rparr>\<rparr>"

lemma demo_links_ok: "link_list demo_links [1, 2, 3, 4]" "link_free demo_links"
  by (simp_all add: demo_links_def link_list_def link_free_def lock_free_def link_init_lock_def lock_init_def sem_init_def
      sync_tool_sem_init_queue_def waiting_def)

theorem link_add_sequence_witness:
  "\<exists>s'. link_add_tail 0x2000 5 demo_links = Inr (None, s') \<and> link_list s' [1, 2, 3, 4, 5] \<and> link_free s'"
proof -
  have "ln_next (link_nodes demo_links 5) = None" by (simp add: demo_links_def)
  then show ?thesis using link_add_sequence [OF demo_links_ok, of 5 "0x2000"] by auto
qed

theorem link_remove_truncates_witness:
  "\<exists>s'. link_remove_by_node 0x2000 2 demo_links = Inr (True, None, s') \<and> link_list s' [1]"
  using link_remove_truncates [of demo_links 1 "[]" 2 "[3, 4]" "0x2000"] demo_links_ok by auto

end
