(* ===== verification/Entry.thy ===== *)
theory Entry
  imports UserTask Interrupts PrintkInstance Links
begin

text \<open>
  \<^verbatim>\<open>src/kernel/entry.c\<close>: the start of the kernel, from the jump of \<^verbatim>\<open>boot.s\<close> to the endless loop of
  the main thread. The addresses that the linker and \<^verbatim>\<open>boot.s\<close> fix are the record \<open>boot_params\<close>. The
  definition is the sequence of calls without a clock interrupt between \<^verbatim>\<open>sti\<close> and the loop; what
  such an interrupt does is \<open>int_func_route\<close>.
\<close>

record boot_params =
  b_mmap :: "pm_entry list"
  b_isr :: "int \<Rightarrow> uint32"
  b_idt :: uint32
  b_gdt :: uint32
  b_tss :: uint32
  b_data_selector :: uint16
  b_main_TCB :: uint32
  b_exit :: uint32
  b_func :: uint32
  b_printk :: printk_addrs
  b_message :: uint32
  b_wait_node :: uint32

record kern_sys =
  k_out :: printk_sys
  k_irq :: irq_tables
  k_lock :: lock_t
  k_sem :: sem_t

text \<open>The modules that need no running thread, on the machine after \<^verbatim>\<open>vga_init\<close>.\<close>

definition init_memory :: "boot_params \<Rightarrow> kernel \<Rightarrow> fault + kernel" where
  "init_memory B k =
     bindE (pmm_init (kern_end k) (b_mmap B) (pm k)) (\<lambda>st.
     bindE (vmm_pre_init (k\<lparr>pm := st\<rparr>)) vmm_init)"

definition init_tables :: "boot_params \<Rightarrow> irq_tables \<Rightarrow> kernel \<Rightarrow> fault + (irq_tables \<times> kernel)" where
  "init_tables B q k =
     bindE (idt_init (b_isr B) (b_idt B) q k) (\<lambda>(q1, k1).
     bindE (tss_init (b_gdt B) (b_tss B) (b_data_selector B) k1) (\<lambda>k2.
       Inr (q1, threads_init (b_main_TCB B) k2)))"

text \<open>
  The calls from \<^verbatim>\<open>pmm_init\<close> to \<^verbatim>\<open>create_kern_thread\<close>. \<^verbatim>\<open>printk_init_lock\<close>, \<^verbatim>\<open>lock_init\<close> and \<^verbatim>\<open>sem_init\<close>, which the
  code has between them, set variables that none of these calls reads: they stand in \<open>kern_entry\<close>.
\<close>

definition kern_start :: "boot_params \<Rightarrow> bitmap \<Rightarrow> irq_tables \<Rightarrow> kernel \<Rightarrow> fault + (irq_tables \<times> kernel)" where
  "kern_start B default_bitmap q k =
     bindE (init_memory B k) (\<lambda>k1.
     bindE (init_tables B q k1) (\<lambda>(q2, k2).
     bindE (keyboard_init q2) (\<lambda>q3.
     bindE (create_kern_thread 1 (b_func B) 0 default_bitmap (b_exit B) (sti k2)) (\<lambda>k4. Inr (q3, k4)))))"

definition kern_entry :: "boot_params \<Rightarrow> bitmap \<Rightarrow> kern_sys \<Rightarrow> fault + (wait_flags option \<times> kern_sys)" where
  "kern_entry B default_bitmap s =
     bindE (vga_init (p_vga (k_out s))) (\<lambda>v.
     bindE (kern_start B default_bitmap (k_irq s) (con v)) (\<lambda>(q3, k4).
     let out = printk_init_lock (k_out s);
         s3 = s\<lparr>k_irq := q3, k_lock := lock_init (k_lock s), k_sem := sem_init 2 (k_sem s)\<rparr>
     in bindE (printk (b_printk B) (b_wait_node B) (b_message B) [b_func B] (out\<lparr>p_vga := v\<lparr>con := k4\<rparr>\<rparr>)) (\<lambda>(w, out').
          Inr (w, s3\<lparr>k_out := out'\<rparr>))))"

end
