(* ===== verification/TssLoad.thy ===== *)
theory TssLoad
  imports Tss VmmKernel Strings
begin

text \<open>
  \<^verbatim>\<open>tss_init\<close> on a mapped descriptor table: the descriptor of the task state segment is written, the
  processor loads it and marks it busy, which is what the function checks before it returns.
\<close>

lemma store_bytes_ok:
  "stable J R k \<Longrightarrow> span a (length bs) \<subseteq> R \<Longrightarrow> length bs < 2 ^ 32 \<Longrightarrow>
   \<exists>k'. store_bytes a bs k = Inr k' \<and> stable J R k' \<and> rest_of J k' = rest_of J k \<and>
     (\<forall>i<length bs. vmem k' (a + of_nat i) = bs ! i) \<and> (\<forall>x\<in>R. x \<notin> span a (length bs) \<longrightarrow> vmem k' x = vmem k x)"
proof (induction bs arbitrary: a k)
  case (Cons b bs)
  let ?n = "length bs"
  have sp: "span a (Suc ?n) = insert a (span (a + 1) ?n)" by (rule span_Suc)
  obtain t where t: "store8 a b k = Inr t" "stable J R t" "rest_of J t = rest_of J k" "\<forall>x\<in>R. vmem t x = ((vmem k)(a := b)) x"
    using mmu.st_ok [OF Cons.prems(1), of a b] Cons.prems(2) sp by auto
  have sub: "span (a + 1) ?n \<subseteq> R" using Cons.prems(2) sp by auto
  obtain k' where k': "store_bytes (a + 1) bs t = Inr k'" "stable J R k'" "rest_of J k' = rest_of J t"
    "\<forall>i<?n. vmem k' (a + 1 + of_nat i) = bs ! i" "\<forall>x\<in>R. x \<notin> span (a + 1) ?n \<longrightarrow> vmem k' x = vmem t x"
    using Cons.IH [OF t(2) sub] Cons.prems(3) by auto
  have "a \<notin> span (a + 1) ?n" using span_not_mem [of ?n a] Cons.prems(3) by simp
  then have "vmem k' a = b" using k'(5) t(4) Cons.prems(2) sp by auto
  then have "vmem k' (a + of_nat i) = (b # bs) ! i" if "i < length (b # bs)" for i
    using k'(4) that by (cases i) (simp_all add: algebra_simps)
  moreover have "\<forall>x\<in>R. x \<notin> span a (length (b # bs)) \<longrightarrow> vmem k' x = vmem k x" using k'(5) t(4) sp by auto
  ultimately show ?case using t k' by auto
qed simp

text \<open>The word that \<^verbatim>\<open>get_TSS_desc_high_word\<close> reads shows the busy bit.\<close>

lemma load32_bit9:
  assumes "stable J R k" "{a, a + 1, a + 2, a + 3} \<subseteq> R"
  shows "\<exists>w. load32 a k = Inr w \<and> bit w 9 = bit (vmem k (a + 1)) 1"
proof -
  have "load8 x k = Inr (vmem k x)" if "x \<in> {a, a + 1, a + 2, a + 3}" for x using mmu.ld_ok [OF assms(1)] assms(2) that by blast
  then have "load32 a k = Inr (ucast (vmem k a) OR push_bit 8 (ucast (vmem k (a + 1))) OR push_bit 16 (ucast (vmem k (a + 2))) OR
      push_bit 24 (ucast (vmem k (a + 3))))" by (simp add: load32_def)
  moreover have "bit (ucast b0 OR push_bit 8 (ucast b1) OR push_bit 16 (ucast b2) OR push_bit 24 (ucast b3) :: uint32) 9 = bit (b1 :: byte) 1"
    for b0 b1 b2 b3 :: byte by (auto simp: bit_simps dest: bit_imp_le_length)
  ultimately show ?thesis by blast
qed

lemma tss_init_run:
  fixes tss_addr :: uint32 and sel :: uint16
  assumes st: "stable J (span (get_tss_desc gdt) 8) k"
  defines "d \<equiv> get_tss_desc gdt" and "bs \<equiv> desc_bytes (create_tss_desc tss_addr 107 TSS_ATTR_LOW TSS_ATTR_HIGH)"
    and "k0 \<equiv> k\<lparr>tss_cpu0 := tss_zero\<lparr>tss_io_base := 108, tss_ss0 := ucast sel AND 0x0000FFFF\<rparr>\<rparr>"
  shows "\<exists>k'. tss_init gdt tss_addr sel k = Inr k' \<and> rest_of J k' = rest_of J k0 \<and>
    (\<forall>i<8. vmem k' (d + of_nat i) = (bs[5 := 0x8B]) ! i)"
proof -
  let ?R = "span d 8"
  have st0: "stable J ?R k0"
  proof -
    have "translate (k0\<lparr>pmem := h\<rparr>) = translate (k\<lparr>pmem := h\<rparr>)" "translate k0 = translate k" for h
      by (rule same_mmu(3); simp add: k0_def)+
    then show ?thesis using st by (simp add: stable_def k0_def d_def)
  qed
  have len: "length bs = 8" by (simp add: bs_def desc_bytes_def)
  have inR: "d + of_nat i \<in> ?R" if "i < 8" for i using that by (rule span_mem)
  have R5: "d + 5 \<in> ?R" "{d + 4, d + 4 + 1, d + 4 + 2, d + 4 + 3} \<subseteq> ?R"
    using inR [of 5] inR [of 4] inR [of 6] inR [of 7] by (simp_all add: add.assoc)
  obtain k2 where k2: "store_bytes d bs k0 = Inr k2" "stable J ?R k2" "rest_of J k2 = rest_of J k0"
    "\<forall>i<8. vmem k2 (d + of_nat i) = bs ! i"
    using store_bytes_ok [OF st0, of d bs] len by auto
  have b5: "bs ! 5 = 0x89" by (simp add: bs_def desc_bytes_def create_tss_desc_def)
  then have v5: "vmem k2 (d + 5) = 0x89" using k2(4) [rule_format, of 5] by simp
  obtain k3 where k3: "store8 (d + 5) 0x8B k2 = Inr k3" "stable J ?R k3" "rest_of J k3 = rest_of J k2"
    "\<forall>x\<in>?R. vmem k3 x = ((vmem k2)(d + 5 := 0x8B)) x"
    using mmu.st_ok [OF k2(2) R5(1), of "0x8B"] by blast
  have ltr: "ltr d k2 = Inr k3" using mmu.ld_ok [OF k2(2) R5(1)] k3(1) v5 by (simp add: ltr_def)
  obtain w2 w3 where w: "load32 (d + 4) k2 = Inr w2" "bit w2 9 = bit (vmem k2 (d + 4 + 1)) 1"
    "load32 (d + 4) k3 = Inr w3" "bit w3 9 = bit (vmem k3 (d + 4 + 1)) 1"
    using load32_bit9 [OF k2(2) R5(2)] load32_bit9 [OF k3(2) R5(2)] by blast
  have "vmem k3 (d + 5) = 0x8B" using k3(4) R5(1) by simp
  moreover have "d + 4 + 1 = d + 5" by simp
  ultimately have "bit w2 9 \<noteq> bit w3 9" unfolding w(2,4) by (simp only: v5) (simp add: bit_iff_odd)
  then have "w3 \<noteq> w2" by auto
  then have "tss_init gdt tss_addr sel k = Inr k3"
    using k2(1) ltr w(1,3) unfolding tss_init_def get_TSS_desc_high_word_def Let_def d_def [symmetric] k0_def [symmetric]
    by (simp add: bs_def [symmetric])
  moreover have "vmem k3 (d + of_nat i) = (bs[5 := 0x8B]) ! i" if i: "i < 8" for i
  proof -
    have "d + of_nat i = d + 5 \<longleftrightarrow> i = 5" using span_inj [of i 5 d] i by auto
    then show ?thesis using k3(4) inR [OF i] k2(4) i len by (simp add: nth_list_update)
  qed
  ultimately show ?thesis using k3(3) k2(3) by auto
qed


end
