(* ===== verification/BootTables.thy ===== *)
theory BootTables
  imports VmmProps
begin

text \<open>
  \<^verbatim>\<open>set_page\<close> of \<^verbatim>\<open>boot.s\<close>: the page directory and page tables that the kernel starts with, as a function on
  physical memory (paging is off when it runs), and the address space that they define.
\<close>

section \<open>The code\<close>

text \<open>\<open>PG_US_S|PG_RW_W|PG_P\<close>\<close>

abbreviation PG_KERN :: uint32 where "PG_KERN \<equiv> 3"

text \<open>The loops that clear \<open>n + 1\<close> bytes, the first one after the loop.\<close>

fun clear_table :: "nat \<Rightarrow> uint32 \<Rightarrow> (uint32 \<Rightarrow> byte) \<Rightarrow> (uint32 \<Rightarrow> byte)" where
  "clear_table 0 b m = m(b := 0)"
| "clear_table (Suc n) b m = clear_table n b (m(b + of_nat (Suc n) := 0))"

text \<open>
  \<^verbatim>\<open>mul cx\<close> multiplies the 16-bit registers \<^verbatim>\<open>ax\<close> and \<^verbatim>\<open>cx\<close> and leaves the upper half of \<^verbatim>\<open>eax\<close>, here 0, as it is:
  what is added to the address of the first table is the product modulo \<open>2 ^ 16\<close>.
\<close>

definition table_entry :: "nat \<Rightarrow> uint32 \<Rightarrow> uint32" where
  "table_entry cx P = (ucast (4096 * of_nat cx :: uint16) + P) OR PG_KERN"

fun create_pde :: "nat \<Rightarrow> uint32 \<Rightarrow> uint32 \<Rightarrow> (uint32 \<Rightarrow> byte) \<Rightarrow> (uint32 \<Rightarrow> byte)" where
  "create_pde 0 D P m = m"
| "create_pde (Suc n) D P m = create_pde n D P (st32p m (D + of_nat (Suc n) * 4 + 0xC00) (table_entry (Suc n) P))"

fun create_pte :: "nat \<Rightarrow> uint32 \<Rightarrow> (uint32 \<Rightarrow> byte) \<Rightarrow> (uint32 \<Rightarrow> byte)" where
  "create_pte 0 P m = m"
| "create_pte (Suc n) P m = create_pte n P (st32p m (P + of_nat (Suc n) * 4) (push_bit 12 (of_nat (Suc n)) AND 0xFFFFF000 OR PG_KERN))"

text \<open>\<open>D\<close> is \<^verbatim>\<open>kern_dir_table\<close> and \<open>P\<close> is \<^verbatim>\<open>kern_page_table\<close>.\<close>

definition set_page :: "uint32 \<Rightarrow> uint32 \<Rightarrow> (uint32 \<Rightarrow> byte) \<Rightarrow> (uint32 \<Rightarrow> byte)" where
  "set_page D P m =
     (let m1 = clear_table 4095 D m;
          m2 = clear_table (4096 * 256) P m1;
          m3 = create_pde 255 D P m2;
          e = P OR PG_KERN;
          m4 = st32p (st32p m3 (D + 0xC00) e) D e;
          m5 = create_pte 1023 P m4;
          m6 = st32p m5 P (0 OR PG_KERN)
      in st32p m6 (D + 0xC00 + 255 * 4) (D OR PG_KERN))"

section \<open>What it leaves in memory\<close>

lemma clear_table_byte: "n < 2 ^ 32 \<Longrightarrow> clear_table n b m x = (if x \<in> span b (Suc n) then 0 else m x)"
proof (induction n arbitrary: m)
  case 0
  show ?case by (auto simp: span_def)
next
  case (Suc n)
  have s: "span b (Suc (Suc n)) = insert (b + of_nat (Suc n)) (span b (Suc n))"
    unfolding span_def by (simp only: lessThan_Suc [of "Suc n"] image_insert)
  show ?case unfolding clear_table.simps s using Suc by simp
qed

text \<open>The entry \<open>i\<close> of a table at \<open>T\<close>.\<close>

abbreviation slot :: "uint32 \<Rightarrow> nat \<Rightarrow> uint32" where
  "slot T i \<equiv> T + of_nat (4 * i)"

lemma slot_mask: "i < 1024 \<Longrightarrow> slot T i = T + (of_nat i AND 0x3FF) * 4"
proof -
  assume i: "i < 1024"
  have "unat (of_nat i :: uint32) = i" using i by (intro unat_of_nat_32) simp
  then have "of_nat i AND 0x3FF = (of_nat i :: uint32)" using i and_low(2) [of "of_nat i"] by (simp add: word_unat_eq_iff)
  then show ?thesis by (simp add: mult.commute)
qed

lemma slot_aligned:
  assumes "page_base T = T" "i < 1024" shows "aligned4 (slot T i)"
  unfolding slot_mask [OF assms(2)] using aligned_entries(3) [of T "of_nat i"] assms(1) by simp

lemma slot_frame:
  assumes "page_base T = T" "i < 1024" shows "page_base (slot T i) = T"
  unfolding slot_mask [OF assms(2)] using entry_frame [of 0 T "of_nat i"] assms(1) by simp

lemma slot_eq: "i < 1024 \<Longrightarrow> j < 1024 \<Longrightarrow> slot T i = slot T j \<longleftrightarrow> i = j"
proof -
  assume i: "i < 1024" "j < 1024"
  have "unat (of_nat (4 * l) :: uint32) = 4 * l" if "l < 1024" for l using that by (intro unat_of_nat_32) simp
  then show ?thesis using i by (metis add_left_cancel mult_cancel1 zero_neq_numeral)
qed

lemma ld_st: "aligned4 a \<Longrightarrow> aligned4 b \<Longrightarrow> ld32p (st32p m a w) b = (if b = a then w else ld32p m b)"
  by simp

lemma pde_slot: "D + of_nat i * 4 + 0xC00 = slot D (768 + i)"
  by (simp add: algebra_simps)

lemma create_pde_word:
  assumes D: "page_base D = D" and n: "n \<le> 255" and b: "aligned4 b"
  shows "(\<And>i. 0 < i \<Longrightarrow> i \<le> n \<Longrightarrow> b \<noteq> slot D (768 + i)) \<Longrightarrow> ld32p (create_pde n D P m) b = ld32p m b"
    "0 < i \<Longrightarrow> i \<le> n \<Longrightarrow> ld32p (create_pde n D P m) (slot D (768 + i)) = table_entry i P"
proof -
  have other: "(\<And>i. 0 < i \<Longrightarrow> i \<le> n \<Longrightarrow> b \<noteq> slot D (768 + i)) \<Longrightarrow> ld32p (create_pde n D P m) b = ld32p m b"
    if "n \<le> 255" "aligned4 b" for n b m
    using that
  proof (induction n arbitrary: m)
    case (Suc n)
    have "aligned4 (slot D (768 + Suc n))" by (rule slot_aligned [OF D]) (use Suc.prems(2) in simp)
    moreover have "ld32p (create_pde n D P m') b = ld32p m' b" for m'
      by (rule Suc.IH) (use Suc.prems in auto)
    moreover have "b \<noteq> slot D (768 + Suc n)" by (rule Suc.prems(1)) simp_all
    ultimately show ?case unfolding create_pde.simps pde_slot using Suc.prems(3) by (simp only: ld_st if_False)
  qed simp
  show "(\<And>i. 0 < i \<Longrightarrow> i \<le> n \<Longrightarrow> b \<noteq> slot D (768 + i)) \<Longrightarrow> ld32p (create_pde n D P m) b = ld32p m b"
    using other [OF n b] by blast
  show "0 < i \<Longrightarrow> i \<le> n \<Longrightarrow> ld32p (create_pde n D P m) (slot D (768 + i)) = table_entry i P"
    using n
  proof (induction n arbitrary: m)
    case (Suc n)
    have al: "aligned4 (slot D (768 + i))" by (rule slot_aligned [OF D]) (use Suc.prems in simp)
    show ?case
    proof (cases "i = Suc n")
      case True
      have "slot D (768 + i) \<noteq> slot D (768 + j)" if "0 < j" "j \<le> n" for j
        using slot_eq [of "768 + i" "768 + j" D] that True Suc.prems(3) by simp
      then show ?thesis unfolding create_pde.simps pde_slot
        by (subst other) (use Suc.prems(3) al True in auto)
    qed (use Suc in auto)
  qed simp
qed

lemma create_pte_word:
  assumes P: "page_base P = P" and n: "n \<le> 1023" and b: "aligned4 b"
  shows "(\<And>i. 0 < i \<Longrightarrow> i \<le> n \<Longrightarrow> b \<noteq> slot P i) \<Longrightarrow> ld32p (create_pte n P m) b = ld32p m b"
    "0 < i \<Longrightarrow> i \<le> n \<Longrightarrow> ld32p (create_pte n P m) (slot P i) = (push_bit 12 (of_nat i) AND 0xFFFFF000 OR PG_KERN)"
proof -
  have sl: "P + of_nat i * 4 = slot P i" for i by (simp add: mult.commute)
  have other: "(\<And>i. 0 < i \<Longrightarrow> i \<le> n \<Longrightarrow> b \<noteq> slot P i) \<Longrightarrow> ld32p (create_pte n P m) b = ld32p m b"
    if "n \<le> 1023" "aligned4 b" for n b m
    using that
  proof (induction n arbitrary: m)
    case (Suc n)
    have "aligned4 (slot P (Suc n))" by (rule slot_aligned [OF P]) (use Suc.prems(2) in simp)
    moreover have "ld32p (create_pte n P m') b = ld32p m' b" for m'
      by (rule Suc.IH) (use Suc.prems in auto)
    moreover have "b \<noteq> slot P (Suc n)" by (rule Suc.prems(1)) simp_all
    ultimately show ?case unfolding create_pte.simps sl using Suc.prems(3) by (simp only: ld_st if_False)
  qed simp
  show "(\<And>i. 0 < i \<Longrightarrow> i \<le> n \<Longrightarrow> b \<noteq> slot P i) \<Longrightarrow> ld32p (create_pte n P m) b = ld32p m b"
    using other [OF n b] by blast
  show "0 < i \<Longrightarrow> i \<le> n \<Longrightarrow> ld32p (create_pte n P m) (slot P i) = (push_bit 12 (of_nat i) AND 0xFFFFF000 OR PG_KERN)"
    using n
  proof (induction n arbitrary: m)
    case (Suc n)
    have al: "aligned4 (slot P i)" by (rule slot_aligned [OF P]) (use Suc.prems in simp)
    show ?case
    proof (cases "i = Suc n")
      case True
      have "slot P i \<noteq> slot P j" if "0 < j" "j \<le> n" for j
        using slot_eq [of i j P] that True Suc.prems(3) by simp
      then show ?thesis unfolding create_pte.simps sl
        by (subst other) (use Suc.prems(3) al True in auto)
    qed (use Suc in auto)
  qed simp
qed

text \<open>The entries of the directory and of the first table.\<close>

lemma table_entry_0: "P OR PG_KERN = table_entry 0 P"
  by (simp add: table_entry_def)

lemma set_page_dir:
  assumes D: "page_base D = D" and P: "page_base P = P" "D \<noteq> P" and i: "i < 1024"
  shows "ld32p (set_page D P m) (slot D i) =
    (if i = 1023 then D OR PG_KERN else if 768 \<le> i then table_entry (i - 768) P else if i = 0 then table_entry 0 P else 0)"
proof -
  define m2 where "m2 = clear_table (4096 * 256) P (clear_table 4095 D m)"
  define m3 where "m3 = create_pde 255 D P m2"
  define m4 where "m4 = st32p (st32p m3 (slot D 768) (table_entry 0 P)) (slot D 0) (table_entry 0 P)"
  define m5 where "m5 = create_pte 1023 P m4"
  have run: "set_page D P m = st32p (st32p m5 (slot P 0) (0 OR PG_KERN)) (slot D 1023) (D OR PG_KERN)"
    unfolding set_page_def Let_def m5_def m4_def m3_def m2_def table_entry_0 [symmetric] by (simp add: add.commute)
  have al: "aligned4 (slot D j)" "aligned4 (slot P j)" if "j < 1024" for j using slot_aligned D P that by blast+
  have ne: "slot D i \<noteq> slot P j" if "j < 1024" for j
    using slot_frame [OF D i] slot_frame [OF P(1) that] P(2) by metis
  have m5: "ld32p m5 (slot D i) = ld32p m4 (slot D i)"
    unfolding m5_def by (rule create_pte_word(1) [OF P(1) _ al(1) [OF i]]) (use ne in auto)
  have zero: "ld32p m2 (slot D i) = 0"
  proof -
    have "m2 (slot D i + of_nat j) = 0" if "j < 4" for j
    proof -
      have "slot D i + of_nat j = D + of_nat (4 * i + j)" by (simp add: add.assoc)
      moreover have "4 * i + j < Suc 4095" using i that by simp
      then have "D + of_nat (4 * i + j) \<in> span D (Suc 4095)" by (rule span_mem)
      ultimately have "slot D i + of_nat j \<in> span D (Suc 4095)" by (simp only:)
      moreover have "4096 * 256 < (2 ^ 32 :: nat)" "4095 < (2 ^ 32 :: nat)" by simp_all
      ultimately show ?thesis unfolding m2_def by (simp only: clear_table_byte if_True if_cancel)
    qed
    then show ?thesis using ld32p_cong [of m2 "slot D i" "\<lambda>_. 0"] by (simp add: ld32p_def)
  qed
  have m3: "ld32p m3 (slot D i) = (if 768 < i then table_entry (i - 768) P else 0)"
  proof (cases "768 < i")
    case True
    then have e: "slot D i = slot D (768 + (i - 768))" by simp
    show ?thesis unfolding m3_def using True i by (subst e) (subst create_pde_word(2) [OF D _ al(1) [OF i]], auto)
  next
    case False
    have "slot D i \<noteq> slot D (768 + j)" if "0 < j" "j \<le> 255" for j
      using slot_eq [of i "768 + j" D] i that False by simp
    then show ?thesis unfolding m3_def using False zero create_pde_word(1) [OF D _ al(1) [OF i], of 255 P m2] by simp
  qed
  have "ld32p m4 (slot D i) = (if i = 0 then table_entry 0 P else if 768 \<le> i then table_entry (i - 768) P else 0)"
    unfolding m4_def using al(1) [OF i] al(1) [of 768] al(1) [of 0] slot_eq [OF i, of 0 D] slot_eq [OF i, of 768 D] m3
    by (simp only: ld_st) auto
  then show ?thesis
    unfolding run using al(1) [OF i] al(1) [of 1023] al(2) [of 0] ne [of 0] slot_eq [OF i, of 1023 D] m5
    by (simp only: ld_st) auto
qed

lemma set_page_table:
  assumes D: "page_base D = D" and P: "page_base P = P" "D \<noteq> P" and i: "i < 1024"
  shows "ld32p (set_page D P m) (slot P i) = (push_bit 12 (of_nat i) AND 0xFFFFF000 OR PG_KERN)"
proof -
  define m4 where "m4 = st32p (st32p (create_pde 255 D P (clear_table (4096 * 256) P (clear_table 4095 D m))) (slot D 768) (table_entry 0 P)) (slot D 0) (table_entry 0 P)"
  define m5 where "m5 = create_pte 1023 P m4"
  have run: "set_page D P m = st32p (st32p m5 (slot P 0) (0 OR PG_KERN)) (slot D 1023) (D OR PG_KERN)"
    unfolding set_page_def Let_def m5_def m4_def table_entry_0 [symmetric] by (simp add: add.commute)
  have al: "aligned4 (slot D j)" "aligned4 (slot P j)" if "j < 1024" for j using slot_aligned D P that by blast+
  have ne: "slot P i \<noteq> slot D 1023"
    using slot_frame [OF P(1) i] slot_frame [OF D, of 1023] P(2) by auto
  have "ld32p m5 (slot P i) = (push_bit 12 (of_nat i) AND 0xFFFFF000 OR PG_KERN)" if "0 < i"
    unfolding m5_def by (rule create_pte_word(2) [OF P(1) _ al(2) [OF i] that]) (use i in simp_all)
  then show ?thesis
    unfolding run using al(2) [OF i] al(1) [of 1023] al(2) [of 0] ne slot_eq [OF i, of 0 P]
    by (simp only: ld_st) auto
qed

section \<open>The address space of the boot tables\<close>

lemma low16: "unat (ucast (4096 * of_nat j :: uint16) :: uint32) = 4096 * (j mod 16)"
proof -
  have "unat (4096 * of_nat j :: uint16) = 4096 * j mod 65536"
    by (simp add: unat_word_ariths unsigned_of_nat take_bit_eq_mod mod_mult_right_eq)
  also have "\<dots> = 4096 * (j mod 16)" using mult_mod_right [of 4096 j 16] by simp
  finally show ?thesis by (simp add: unsigned_ucast_eq take_bit_nat_eq_self)
qed

lemma or_flags: "page_base x = x \<Longrightarrow> page_base (x OR PG_KERN) = x" "bit (x OR PG_KERN) 0"
proof -
  have p: "PG_KERN = mask 2" by (simp add: mask_eq_decr_exp)
  show "bit (x OR PG_KERN) 0" unfolding p by (simp add: bit_or_iff bit_mask_iff)
  assume x: "page_base x = x"
  have lo: "bit x n \<Longrightarrow> 12 \<le> n" for n using page_base_bit [of x n] unfolding x by blast
  show "page_base (x OR PG_KERN) = x"
    unfolding p
  proof (rule bit_word_eqI)
    fix n show "bit (page_base (x OR mask 2)) n = bit x n" using lo [of n] by (auto simp: bit_or_iff bit_mask_iff)
  qed
qed

text \<open>The 255 entries of the kernel half have 16 tables.\<close>

lemma table_entry_base:
  assumes P: "page_base P = P" "unat P + 0x10000 \<le> 2 ^ 32"
  shows "unat (page_base (table_entry j P)) = unat P + 4096 * (j mod 16)" "bit (table_entry j P) 0"
proof -
  show "bit (table_entry j P) 0" unfolding table_entry_def by (rule or_flags(2))
  let ?o = "ucast (4096 * of_nat j :: uint16) :: uint32"
  have "j mod 16 < 16" by simp
  then have u: "unat (?o + P) = unat P + 4096 * (j mod 16)" using P(2) low16 [of j] by (simp add: unat_word_ariths)
  have q: "unat P = unat P div 4096 * 4096" using unat_page_base [of P] P(1) by simp
  have "unat (?o + P) = (unat P div 4096 + j mod 16) * 4096" using u q by simp
  then have "unat (page_base (?o + P)) = unat (?o + P)" unfolding unat_page_base by simp
  then have "page_base (?o + P) = ?o + P" by (simp only: word_unat_eq_iff)
  then show "unat (page_base (table_entry j P)) = unat P + 4096 * (j mod 16)"
    unfolding table_entry_def using or_flags(1) u by metis
qed

text \<open>Directory and tables lie at \<open>D\<close> as \<open>set_page\<close> left them.\<close>

definition boot_tables :: "uint32 \<Rightarrow> (uint32 \<Rightarrow> byte) \<Rightarrow> bool" where
  "boot_tables D h \<longleftrightarrow> page_base D = D \<and> unat D + 0x101000 \<le> 0x400000 \<and>
     (\<exists>m. \<forall>x. D \<le> x \<and> unat x < unat D + 0x101000 \<longrightarrow> h x = set_page D (D + 0x1000) m x)"

lemma boot_tables_entries:
  assumes b: "boot_tables D h" and i: "i < 1024"
  shows "ld32p h (slot D i) = (if i = 1023 then D OR PG_KERN else if 768 \<le> i then table_entry (i - 768) (D + 0x1000)
      else if i = 0 then table_entry 0 (D + 0x1000) else 0)"
    "ld32p h (slot (D + 0x1000) i) = (push_bit 12 (of_nat i) AND 0xFFFFF000 OR PG_KERN)"
    "page_base (D + 0x1000) = D + 0x1000" "unat (D + 0x1000) = unat D + 0x1000"
proof -
  have D: "page_base D = D" "unat D + 0x101000 \<le> 0x400000" using b by (simp_all add: boot_tables_def)
  show u: "unat (D + 0x1000) = unat D + 0x1000" using D(2) by (simp add: unat_word_ariths)
  have q: "unat D = unat D div 4096 * 4096" using unat_page_base [of D] D(1) by simp
  have "unat (D + 0x1000) = (unat D div 4096 + 1) * 4096" using u q by simp
  then have "unat (page_base (D + 0x1000)) = unat (D + 0x1000)" unfolding unat_page_base by simp
  then show P: "page_base (D + 0x1000) = D + 0x1000" by (simp only: word_unat_eq_iff)
  obtain m where m: "\<And>x. D \<le> x \<Longrightarrow> unat x < unat D + 0x101000 \<Longrightarrow> h x = set_page D (D + 0x1000) m x"
    using b unfolding boot_tables_def by blast
  have ld: "ld32p h a = ld32p (set_page D (D + 0x1000) m) a" if "unat a = unat D + j" "j + 3 < 0x101000" for a j
  proof (rule ld32p_cong)
    fix l :: nat assume l: "l < 4"
    have "unat (of_nat l :: uint32) = l" using l by (intro unat_of_nat_32) simp
    then have "unat (a + of_nat l) = unat D + j + l" using that l D(2) by (simp add: unat_word_ariths)
    then show "h (a + of_nat l) = set_page D (D + 0x1000) m (a + of_nat l)" using that l by (intro m) (simp_all add: word_le_nat_alt)
  qed
  have si: "unat (of_nat (4 * i) :: uint32) = 4 * i" using i by (intro unat_of_nat_32) simp
  have s: "unat (slot D i) = unat D + 4 * i" "unat (slot (D + 0x1000) i) = unat D + (0x1000 + 4 * i)"
    using si u D(2) i by (simp_all only: unat_word_ariths) simp_all
  have ne: "D \<noteq> D + 0x1000" by simp
  show "ld32p h (slot D i) = (if i = 1023 then D OR PG_KERN else if 768 \<le> i then table_entry (i - 768) (D + 0x1000)
      else if i = 0 then table_entry 0 (D + 0x1000) else 0)"
    using ld [OF s(1)] set_page_dir [OF D(1) P ne i, of m] i by simp
  show "ld32p h (slot (D + 0x1000) i) = (push_bit 12 (of_nat i) AND 0xFFFFF000 OR PG_KERN)"
    using ld [OF s(2)] set_page_table [OF D(1) P ne i, of m] i by simp
qed

text \<open>The machine that runs with these tables.\<close>

lemma dir_below: "unat (drop_bit 22 (v :: uint32)) < 1024"
  using unat_lt_32 [of v] by (simp add: drop_bit_eq_div unat_div div_less_iff_less_mult)

lemma boot_pde:
  assumes "boot_tables D (pmem k)" "cr3 k = D"
  shows "pde_of k v = (let d = unat (drop_bit 22 v) in if d = 1023 then D OR PG_KERN
      else if 768 \<le> d then table_entry (d - 768) (D + 0x1000) else if d = 0 then table_entry 0 (D + 0x1000) else 0)"
proof -
  have D: "page_base D = D" using assms(1) by (simp add: boot_tables_def)
  have "pde_paddr k v = slot D (unat (drop_bit 22 v))" using D assms(2) by (simp add: pde_paddr_def mult.commute)
  then show ?thesis unfolding pde_of_def Let_def using boot_tables_entries(1) [OF assms(1) dir_below [of v]] by simp
qed

lemma boot_table:
  assumes "boot_tables D (pmem k)" "cr3 k = D"
  shows "mapped_dir k v \<longleftrightarrow> 768 \<le> unat (drop_bit 22 v) \<or> drop_bit 22 v = 0"
    "768 \<le> unat (drop_bit 22 v) \<Longrightarrow> unat (page_base (pde_of k v)) =
      (if unat (drop_bit 22 v) = 1023 then unat D else unat D + 0x1000 + 4096 * ((unat (drop_bit 22 v) - 768) mod 16))"
    "drop_bit 22 v = 0 \<Longrightarrow> unat (page_base (pde_of k v)) = unat D + 0x1000"
proof -
  have D: "page_base D = D" "unat D + 0x101000 \<le> 0x400000" using assms(1) by (simp_all add: boot_tables_def)
  note P = boot_tables_entries(3,4) [OF assms(1), of 0, simplified]
  have "unat (D + 0x1000) + 0x10000 \<le> 2 ^ 32" using P(2) D(2) by simp
  note te = table_entry_base [OF P(1) this]
  note pde = boot_pde [OF assms, of v, unfolded Let_def]
  show "mapped_dir k v \<longleftrightarrow> 768 \<le> unat (drop_bit 22 v) \<or> drop_bit 22 v = 0"
    unfolding mapped_dir_def pde using te(2) or_flags(2) [of D] by (auto simp: unat_eq_0)
  show "unat (page_base (pde_of k v)) =
      (if unat (drop_bit 22 v) = 1023 then unat D else unat D + 0x1000 + 4096 * ((unat (drop_bit 22 v) - 768) mod 16))"
    if "768 \<le> unat (drop_bit 22 v)"
    unfolding pde using that te(1) or_flags(1) [OF D(1)] P(2) D(1) by auto
  show "unat (page_base (pde_of k v)) = unat D + 0x1000" if "drop_bit 22 v = 0"
    unfolding pde using that te(1) [of 0] P(2) by simp
qed

text \<open>Bytes before and behind the tables are outside them.\<close>

lemma boot_off_tables:
  assumes t: "boot_tables D (pmem k)" "cr3 k = D" and X: "\<forall>x\<in>X. unat x < unat D \<or> unat D + 0x101000 \<le> unat x"
  shows "off_tables X k"
proof -
  have D: "page_base D = D" "unat D + 0x101000 \<le> 0x400000" using t(1) by (simp_all add: boot_tables_def)
  have q: "unat D = unat D div 4096 * 4096" using unat_page_base [of D] D(1) by simp
  have range: "unat D \<le> unat (page_base (pde_of k v)) \<and> unat (page_base (pde_of k v)) < unat D + 0x101000" if "mapped_dir k v" for v
  proof -
    have "j mod 16 < 16" for j :: nat by simp
    then have "4096 * (j mod 16) < 0x10000" for j :: nat by simp
    then show ?thesis using boot_table [OF t, of v] that by (fastforce split: if_splits)
  qed
  have out: "unat (page_base x) < unat D \<or> unat D + 0x101000 \<le> unat (page_base x)" if "x \<in> X" for x
  proof (cases "unat x < unat D")
    case True
    then show ?thesis using page_base_le [of x] by (auto simp: word_le_nat_alt)
  next
    case False
    then have "(unat D div 4096 + 257) * 4096 \<le> unat x" using X that q by fastforce
    then have "unat D div 4096 + 257 \<le> unat x div 4096" by (simp add: less_eq_div_iff_mult_less_eq)
    then have "(unat D div 4096 + 257) * 4096 \<le> unat x div 4096 * 4096" by (rule mult_le_mono1)
    then show ?thesis using q by (simp add: unat_page_base)
  qed
  have "page_base x \<noteq> page_base (cr3 k)" "mapped_dir k v \<Longrightarrow> page_base x \<noteq> page_base (pde_of k v)" if "x \<in> X" for x v
    using out [OF that] range [of v] t(2) D(1) by auto
  then show ?thesis unfolding off_tables_def by blast
qed

text \<open>The first 4 MB are mapped at 0xC0000000.\<close>

lemma boot_translate:
  assumes t: "boot_tables D (pmem k)" "cr3 k = D" and v: "0xC0000000 \<le> v" "v < 0xC0400000"
  shows "translate k v = Some (v - 0xC0000000)"
proof -
  have u: "0xC0000000 \<le> unat v" "unat v < 0xC0400000" using v by (simp_all add: word_le_nat_alt word_less_nat_alt)
  then have d: "unat (drop_bit 22 v) = 768" by (simp add: drop_bit_eq_div unat_div)
  have "unat (page_base (pde_of k v)) = unat (D + 0x1000)"
    using boot_table(2) [OF t, of v] boot_tables_entries(4) [OF t(1), of 0] d by simp
  then have T: "page_base (pde_of k v) = D + 0x1000" by (simp only: word_unat_eq_iff)
  have mp: "bit (pde_of k v) 0" using boot_table(1) [OF t, of v] d by (simp add: mapped_dir_def)
  let ?x = "drop_bit 12 v AND 0x3FF"
  let ?i = "unat ?x"
  have i: "?i < 1024" unfolding and_low by simp
  have "pte_paddr (pde_of k v) v = slot (D + 0x1000) ?i" unfolding pte_paddr_def T by (simp add: mult.commute)
  then have pte: "pte_of k v = (push_bit 12 ?x AND 0xFFFFF000 OR PG_KERN)"
    unfolding pte_of_def using boot_tables_entries(2) [OF t(1) i] by simp
  have b: "page_base (push_bit 12 y AND 0xFFFFF000) = push_bit 12 y AND 0xFFFFF000" "push_bit 12 y AND 0xFFFFF000 = push_bit 12 y" for y :: uint32
    by (rule bit_word_eqI; auto simp: bit_simps page_base_def [symmetric])+
  have pe: "page_base (pte_of k v) = push_bit 12 ?x" "bit (pte_of k v) 0"
    unfolding pte b(2) by (rule or_flags(1) [OF b(1) [unfolded b(2)]], rule or_flags(2))
  have "push_bit 12 ?x OR (v AND 0xFFF) = v - 0xC0000000"
  proof -
    have "push_bit 12 ?x OR (v AND 0xFFF) = v AND mask 22"
      unfolding masks by (rule bit_word_eqI) (auto simp: bit_simps)
    moreover have "unat (v AND mask 22) = unat v mod 0x400000"
      unfolding take_bit_eq_mask [symmetric] unsigned_take_bit_eq by (simp add: take_bit_eq_mod)
    moreover have "unat v mod 0x400000 = unat v - 0xC0000000" using u by (simp add: mod_nat_eqI)
    ultimately show ?thesis using v(1) by (simp add: word_unat_eq_iff unat_sub)
  qed
  then show ?thesis using pe mp by (simp add: translate_eq)
qed

lemma boot_tables_space:
  assumes t: "boot_tables D (pmem k)" "cr3 k = D" "kern_dir_table_paddr k = D"
  shows "boot_space k"
proof -
  have D: "page_base D = D" "unat D + 0x101000 \<le> 0x400000" using t(1) by (simp_all add: boot_tables_def)
  have "ld32p (pmem k) (slot D 1023) = D OR PG_KERN" using boot_tables_entries(1) [OF t(1), of 1023] by simp
  then have "self_mapped k" using or_flags [of D] D(1) t(2) by (simp add: self_mapped_def)
  moreover have "translate k (D + 0xC0000000) = Some D"
  proof -
    have "unat (D + 0xC0000000) = unat D + 0xC0000000" using D(2) by (simp add: unat_word_ariths)
    then show ?thesis using boot_translate [OF t(1,2), of "D + 0xC0000000"] D(2) by (simp add: word_le_nat_alt word_less_nat_alt)
  qed
  moreover have "pde_of k v = pde_of k (prim v)" if "drop_bit 22 v \<noteq> 0" for v
  proof -
    have te: "table_entry j (D + 0x1000) = table_entry (j mod 16) (D + 0x1000)" for j
    proof -
      have "(ucast (4096 * of_nat j :: uint16) :: uint32) = ucast (4096 * of_nat (j mod 16) :: uint16)"
        using low16 [of j] low16 [of "j mod 16"] by (simp add: word_unat_eq_iff)
      then show ?thesis by (simp only: table_entry_def)
    qed
    show ?thesis unfolding boot_pde [OF t(1,2)] prim_index using dir_below [of v] te [of "unat (drop_bit 22 v) - 768"]
      by (auto simp: Let_def)
  qed
  moreover have "page_base (pde_of k v) \<noteq> page_base (pde_of k w)"
    if "mapped_dir k v" "mapped_dir k w" "drop_bit 22 v \<noteq> 0" "drop_bit 22 w \<noteq> 0" "drop_bit 22 (prim v) \<noteq> drop_bit 22 (prim w)" for v w
  proof -
    have h: "768 \<le> unat (drop_bit 22 v)" "768 \<le> unat (drop_bit 22 w)" using boot_table(1) [OF t(1,2)] that(1-4) by blast+
    have "unat (drop_bit 22 (prim v)) \<noteq> unat (drop_bit 22 (prim w))" using that(5) by (simp add: word_unat_eq_iff)
    then show ?thesis using boot_table(2) [OF t(1,2) h(1)] boot_table(2) [OF t(1,2) h(2)] h
      unfolding prim_index by (auto simp: Let_def word_unat_eq_iff split: if_splits)
  qed
  ultimately show ?thesis unfolding boot_space_def t(2,3) using D(1) by blast
qed

end
