(* ===== verification/Boot.thy ===== *)
theory Boot
  imports Entry UserPages TssLoad ThreadsInstance BootTables
begin

text \<open>
  The start of the kernel: what the initialisation of \<^verbatim>\<open>kern_entry\<close> establishes on the machine that
  \<^verbatim>\<open>boot.s\<close> hands over.
\<close>

section \<open>The memory modules\<close>

text \<open>
  The address space at the jump to \<^verbatim>\<open>kern_entry\<close>: the boot page tables, a page table for every kernel address, and the
  bitmap of the kernel in the physical bytes \<open>I\<close>, below the end of the kernel. \<open>boot_layout_memory\<close> below derives it from
  the tables that \<open>set_page\<close> builds.
\<close>

definition boot_memory :: "uint32 set \<Rightarrow> kernel \<Rightarrow> bool" where
  "boot_memory I k \<longleftrightarrow> boot_space k \<and> off_tables I k \<and> (\<forall>v\<ge>0xC0000000. mapped_dir k v) \<and> unat (kern_end k) \<le> 0x400000 \<and>
     (\<forall>v\<in>kbytes k. \<exists>p\<in>I. translate k v = Some p) \<and> inj_on (translate k) (kbytes k) \<and>
     (\<forall>v\<in>kbytes k. 0xC0000000 \<le> v \<and> unat v < 0xC0000000 + unat (kern_end k))"

lemma boot_memory_cong: "boot_memory I (k\<lparr>pm := st\<rparr>) = boot_memory I k"
  using same_mmu [of "k\<lparr>pm := st\<rparr>" k] by (simp add: boot_memory_def boot_space_def off_tables_def)

lemma kernel_dir: "0xC0000000 \<le> v \<Longrightarrow> drop_bit 22 v \<noteq> (0 :: uint32)" "unat v < 0xC0400000 \<Longrightarrow> drop_bit 22 v \<noteq> (0x3FF :: uint32)"
proof -
  assume "0xC0000000 \<le> v"
  then have "0xC0000000 div 4194304 \<le> unat v div 4194304" by (intro div_le_mono) (simp add: word_le_nat_alt)
  then show "drop_bit 22 v \<noteq> (0 :: uint32)" by (auto simp: drop_bit_eq_div word_unat_eq_iff unat_div)
next
  assume "unat v < 0xC0400000"
  then have "unat v div 4194304 < 769" by (simp add: div_less_iff_less_mult)
  then show "drop_bit 22 v \<noteq> (0x3FF :: uint32)" by (auto simp: drop_bit_eq_div word_unat_eq_iff unat_div)
qed

lemma pre_init_space:
  assumes b: "boot_memory I k"
  shows "\<exists>k'. vmm_pre_init k = Inr k' \<and> shared_tables k' \<and> (\<forall>X. off_tables X k \<longrightarrow> off_tables X k') \<and> (\<forall>v\<ge>0xC0000000. mapped_dir k' v) \<and>
    (\<forall>v. drop_bit 22 v = 0 \<longrightarrow> translate k' v = None) \<and>
    (\<forall>v. drop_bit 22 v \<noteq> 0 \<longrightarrow> drop_bit 22 v \<noteq> 0x3FF \<longrightarrow> translate k' v = translate k v) \<and>
    pm k' = pm k \<and> kern_bitmap k' = kern_bitmap k \<and> kern_end k' = kern_end k"
proof -
  let ?k = "k\<lparr>pmem := st32p (pmem k) (kern_dir_table_paddr k) 0, cr3 := kern_dir_table_paddr k\<rparr>"
  have bs: "boot_space k" using b by (simp add: boot_memory_def)
  note r = pre_init_run [OF bs]
  have m: "mapped_dir ?k v \<longleftrightarrow> mapped_dir k v \<and> drop_bit 22 v \<noteq> 0" for v by (simp add: mapped_dir_def r(2))
  have "translate ?k v = None" if "drop_bit 22 v = 0" for v using r(2) [of v] that by (simp add: translate_eq)
  moreover have "translate ?k v = translate k v" if "drop_bit 22 v \<noteq> 0" "drop_bit 22 v \<noteq> 0x3FF" for v
    using r(2) [of v] r(3) [of v] that by (auto simp: translate_eq mapped_dir_def)
  moreover have "shared_tables ?k" by (rule pre_init_shared [OF bs])
  moreover have "off_tables X ?k" if "off_tables X k" for X
  proof -
    have c: "page_base (cr3 k) = page_base (kern_dir_table_paddr k)" using bs unfolding boot_space_def by simp
    show ?thesis unfolding off_tables_def
    proof (intro ballI conjI allI impI)
      fix x assume "x \<in> X"
      then show "page_base x \<noteq> page_base (cr3 ?k)" using that c by (simp add: off_tables_def)
    next
      fix x v assume "x \<in> X" "mapped_dir ?k v"
      then show "page_base x \<noteq> page_base (pde_of ?k v)" using that r(2) [of v] unfolding off_tables_def m by simp
    qed
  qed
  moreover have "\<forall>v\<ge>0xC0000000. mapped_dir ?k v" using b m kernel_dir(1) by (auto simp: boot_memory_def)
  ultimately show ?thesis using r(1) by (intro exI [of _ ?k]) simp
qed

lemma vmm_init_space:
  assumes sp: "shared_tables k" "off_tables I k" "\<forall>v\<ge>0xC0000000. mapped_dir k v"
    and by': "\<forall>v\<in>kbytes k. \<exists>p\<in>I. translate k v = Some p" "inj_on (translate k) (kbytes k)"
      "\<forall>v\<in>kbytes k. 0xC0000000 \<le> v \<and> unat v < 0xC0000000 + unat (kern_end k)" and ke: "unat (kern_end k) \<le> 0x400000"
  shows "\<exists>k'. vmm_init k = Inr k' \<and> kspace I k' \<and> pm k' = pm k \<and> translate k' = translate k \<and>
    kern_bitmap k' = kern_bitmap k \<and> kfree k' = {(unat (kern_end k) + 4095) div 4096..<255 * 1024} \<and>
    (\<forall>X. off_tables X k \<longrightarrow> off_tables X k')"
proof -
  have "stable I (kbytes k) k" unfolding stable_def using by'(1,2) off_tables_write(4) [OF sp(2)] by blast
  then obtain k' where k': "vmm_init k = Inr k'" "pm k' = pm k" "kern_bitmap k' = kern_bitmap k"
    "kern_vmm_pool k' = kpool (kern_bitmap k)" "kfree k' = {(unat (kern_end k) + 4095) div 4096..<255 * 1024}"
    "rest_of I k' = rest_of I (k\<lparr>kern_vmm_pool := kpool (kern_bitmap k)\<rparr>)"
    using kern_init_ok [of I k] ke by auto
  let ?k1 = "k\<lparr>kern_vmm_pool := kpool (kern_bitmap k)\<rparr>"
  note m = same_mmu [of ?k1 k, simplified]
  have o1: "off_tables I ?k1" using sp(2) m by (simp add: off_tables_def)
  note w = off_tables_write [OF o1 rest_of_eq(2) [OF k'(6)], folded rest_of_eq(1) [OF k'(6)]]
  have cr: "cr3 k' = cr3 k" by (subst rest_of_eq(1) [OF k'(6)]) simp
  have tr: "translate k' = translate k" using w(4) m(3) by auto
  have "page_index (kpool (kern_bitmap k)) v \<notin> kfree k'" if v: "v \<in> kbytes k" for v
  proof -
    let ?x = "unat (page_base v) - 0xC0000000"
    have "0xC0000000 \<le> unat v" "unat v < 0xC0000000 + unat (kern_end k)" "unat (page_base v) \<le> unat v"
      using by'(3) v page_base_le [of v] by (auto simp: word_le_nat_alt)
    then have "?x < unat (kern_end k)" by linarith
    then have "(?x + 4096) div 4096 \<le> (unat (kern_end k) + 4095) div 4096" by (intro div_le_mono) simp
    then show ?thesis by (simp add: page_index_def k'(5))
  qed
  moreover have "shared_tables k'" using sp(1) w m by (simp add: shared_tables_def)
  moreover have offs: "off_tables X k'" if "off_tables X k" for X using that w m cr by (simp add: off_tables_def)
  moreover have "\<forall>v\<ge>0xC0000000. mapped_dir k' v" using sp(3) w(2) m by simp
  moreover have "v < 0xC4000000" if "v \<in> kbytes k" for v using by'(3) that ke by (fastforce simp: word_less_nat_alt)
  ultimately have "kspace I k'"
    using by' sp(2) k'(5) unfolding kspace_def k'(3,4) tr by simp
  then show ?thesis using k' tr offs by blast
qed

lemma init_memory_run:
  assumes b: "boot_memory I k" and p: "SINGLE_LINK (pm k) = None" "2048 \<le> managed_pages (kern_end k) (b_mmap B)"
  defines "M \<equiv> managed_pages (kern_end k) (b_mmap B)"
  shows "\<exists>k'. init_memory B k = Inr k' \<and> kspace I k' \<and> pmm_inv (pm k') (init_lists (single_first M)) (map of_nat [single_first M..<M]) \<and>
    pmm_page_start (pm k') = push_bit 12 (drop_bit 12 (kern_end k) + 1) \<and>
    free_page_nos (init_lists (single_first M)) (map of_nat [single_first M..<M]) = {..<M} \<and>
    kfree k' = {(unat (kern_end k) + 4095) div 4096..<255 * 1024} \<and>
    (\<forall>v. drop_bit 22 v = 0 \<longrightarrow> translate k' v = None) \<and>
    (\<forall>v. drop_bit 22 v \<noteq> 0 \<longrightarrow> drop_bit 22 v \<noteq> 0x3FF \<longrightarrow> translate k' v = translate k v) \<and>
    (\<forall>X. off_tables X k \<longrightarrow> off_tables X k')"
proof -
  let ?L = "init_lists (single_first M)" and ?S = "map of_nat [single_first M..<M]"
  obtain st where st: "pmm_init (kern_end k) (b_mmap B) (pm k) = Inr st" "pmm_inv st ?L ?S" "free_page_nos ?L ?S = {..<M}"
    "pmm_page_start st = push_bit 12 (drop_bit 12 (kern_end k) + 1)"
    using pmm_init_inv [OF p] unfolding M_def by blast
  let ?k0 = "k\<lparr>pm := st\<rparr>"
  have b0: "boot_memory I ?k0" using b by (simp add: boot_memory_cong)
  have t0: "translate ?k0 = translate k" "off_tables X ?k0 = off_tables X k" for X
    using same_mmu [of ?k0 k] by (simp_all add: off_tables_def)
  obtain k1 where k1: "vmm_pre_init ?k0 = Inr k1" "shared_tables k1" "\<forall>X. off_tables X k \<longrightarrow> off_tables X k1" "\<forall>v\<ge>0xC0000000. mapped_dir k1 v"
    "\<forall>v. drop_bit 22 v = 0 \<longrightarrow> translate k1 v = None"
    "\<forall>v. drop_bit 22 v \<noteq> 0 \<longrightarrow> drop_bit 22 v \<noteq> 0x3FF \<longrightarrow> translate k1 v = translate k v"
    "pm k1 = st" "kern_bitmap k1 = kern_bitmap k" "kern_end k1 = kern_end k"
    using pre_init_space [OF b0] unfolding t0 by auto
  have ke: "unat (kern_end k) \<le> 0x400000" and I1: "off_tables I k1" using b k1(3) by (simp_all add: boot_memory_def)
  have tr: "translate k1 v = translate k v" if "v \<in> kbytes k" for v
  proof -
    have "0xC0000000 \<le> v" "unat v < 0xC0400000" using b that ke by (auto simp: boot_memory_def)
    then show ?thesis using k1(6) kernel_dir by blast
  qed
  have "inj_on (translate k1) (kbytes k)" using b tr by (simp add: boot_memory_def inj_on_def)
  then obtain k2 where k2: "vmm_init k1 = Inr k2" "kspace I k2" "pm k2 = pm k1" "translate k2 = translate k1"
    "kfree k2 = {(unat (kern_end k1) + 4095) div 4096..<255 * 1024}" "\<forall>X. off_tables X k1 \<longrightarrow> off_tables X k2"
    using vmm_init_space [OF k1(2) I1 k1(4)] b tr ke unfolding k1(8,9) boot_memory_def by auto
  have "init_memory B k = Inr k2" using st(1) k1(1) k2(1) by (simp add: init_memory_def)
  then show ?thesis using k2 k1(3,5,6,7,9) st(2-) by auto
qed

section \<open>Interrupts, task state segment and main thread\<close>

lemma idt_init_frame: "idt_init isr a q k = Inr (q', k') \<Longrightarrow> k' = k\<lparr>io_log := io_log k', int_flag := False\<rparr>"
  by (auto simp: idt_init_def Let_def bindE_eq_Inr timer_init_def init_8259A_def init_words_def outb_def cli_def)

lemma init_tables_run:
  assumes k: "kspace I k" and g: "stable G (span (get_tss_desc (b_gdt B)) 8) k" "off_tables G k" "G \<inter> I = {}" and m: "b_main_TCB B \<noteq> 0"
  shows "\<exists>q' k'. init_tables B q k = Inr (q', k') \<and> kspace I k' \<and> translate k' = translate k \<and> kfree k' = kfree k \<and> pm k' = pm k \<and>
    kern_vmm_pool k' = kern_vmm_pool k \<and> threads_ok k' [] \<and> cur_tcb k' = b_main_TCB B \<and> (\<forall>X. off_tables X k \<longrightarrow> off_tables X k') \<and>
    (\<forall>n. 0 \<le> n \<and> n \<le> 47 \<longrightarrow> gate_offset (idt_entries q' n) = b_isr B n) \<and> int_server_func_list q' 32 = Some Timer_server_func"
proof -
  obtain q1 k1 where q1: "idt_init (b_isr B) (b_idt B) q k = Inr (q1, k1)"
    "\<forall>n. 0 \<le> n \<and> n \<le> 47 \<longrightarrow> gate_offset (idt_entries q1 n) = b_isr B n" "int_server_func_list q1 32 = Some Timer_server_func"
    using idt_init_run [of "b_isr B" "b_idt B" q k] by force
  note e1 = idt_init_frame [OF q1(1)]
  have f1: "pmem k1 = pmem k" "cr3 k1 = cr3 k" "kern_vmm_pool k1 = kern_vmm_pool k" "kern_bitmap k1 = kern_bitmap k" "pm k1 = pm k"
    by (subst e1; simp)+
  note s1 = same_space [OF f1(1-4)]
  let ?T = "tss_zero\<lparr>tss_io_base := 108, tss_ss0 := ucast (b_data_selector B) AND 0x0000FFFF\<rparr>"
  let ?k1 = "k1\<lparr>tss_cpu0 := ?T\<rparr>"
  obtain k2 where k2: "tss_init (b_gdt B) (b_tss B) (b_data_selector B) k1 = Inr k2" "rest_of G k2 = rest_of G ?k1"
    using tss_init_run [of G "b_gdt B" k1] g(1) unfolding s1(5) by blast
  note s2 = same_space [of ?k1 k1, simplified]
  have "kspace I ?k1" "off_tables G ?k1" using k g(2) s1(1,4) s2(1,4) by blast+
  note st = kspace_frame_step [OF this g(3) k2(2)]
  have f2: "pm k2 = pm k1" "kern_vmm_pool k2 = kern_vmm_pool k1" "kern_bitmap k2 = kern_bitmap k1" "cr3 k2 = cr3 k1"
    by (subst rest_of_eq(1) [OF k2(2)]; simp)+
  let ?k3 = "threads_init (b_main_TCB B) k2"
  note s3 = same_space [of ?k3 k2]
  have f3: "pmem ?k3 = pmem k2" "cr3 ?k3 = cr3 k2" "kern_vmm_pool ?k3 = kern_vmm_pool k2" "kern_bitmap ?k3 = kern_bitmap k2" "pm ?k3 = pm k2"
    by (simp_all add: threads_init_def init_main_thread_def upd_tcb_def)
  have off: "off_tables X ?k3" if "off_tables X k" for X
  proof -
    have "off_tables X ?k1" using that s1(4) s2(4) by blast
    then have "off_tables X k2" using st(5) f2(4) by (simp add: off_tables_def mapped_dir_def)
    then show ?thesis using s3(4) [OF f3(1-4)] by blast
  qed
  have th: "threads_ok ?k3 []" "cur_tcb ?k3 = b_main_TCB B"
    using m by (simp_all add: threads_init_def init_main_thread_def upd_tcb_def threads_ok_def ring_def check_kern_stack_overflow_def)
  have run: "init_tables B q k = Inr (q1, ?k3)" using q1(1) k2(1) by (simp add: init_tables_def)
  have "kspace I ?k3" using st(1) s3(1) [OF f3(1-4)] by blast
  moreover have "translate ?k3 = translate k" using s3(2) [OF f3(1-4)] st(2) s2(2) s1(2) by simp
  moreover have "kfree ?k3 = kfree k" using s3(3) [OF f3(1-4)] st(3) s2(3) s1(3) by simp
  ultimately show ?thesis using run th off q1(2,3) f1(3,5) f2(1,2) f3(3,5) by (intro exI [of _ q1] exI [of _ ?k3]) simp
qed

section \<open>The first thread\<close>

lemma create_kern_thread_run:
  assumes k: "kspace I k" "kfree k \<noteq> {}" and low: "Min (kfree k) < 16384"
    and pm: "pmm_alloc_one_page (pm k) = Inr (a, st')" "a_state a \<noteq> 0"
    and off: "off_tables (frame (a_addr a)) k" "frame (a_addr a) \<inter> I = {}"
    and th: "threads_ok k xs" "page_addr (kern_vmm_pool k) (Min (kfree k)) \<notin> set (cur_tcb k # xs)"
  defines "t \<equiv> page_addr (kern_vmm_pool k) (Min (kfree k))"
  shows "\<exists>k'. create_kern_thread i func args pool exit_addr k = Inr k' \<and> kspace I k' \<and> threads_ok k' (t # xs) \<and>
    cur_tcb k' = cur_tcb k \<and> int_flag k' \<and> status k' t = TASK_READY \<and> tid (tcb k' t) = i \<and> c_esp (t_context (tcb k' t)) = t + 4084 \<and>
    load32 (t + 4084) k' = Inr func \<and> load32 (t + 4088) k' = Inr exit_addr \<and> load32 (t + 4092) k' = Inr args \<and>
    kfree k' = kfree k - {Min (kfree k)}"
proof -
  let ?p = "page_base (a_addr a)"
  obtain k1 where k1: "vmm_kern_alloc k = Inr (t, k1)" "fresh_page I t ?p k1" "t \<noteq> 0xFFFFFFFF"
    "space_change I {} [t \<mapsto> ?p] st' k k1"
    using alloc_fresh_full [OF k low pm off, folded t_def] by blast
  note g = mem_only_fields [OF space_changeD(2) [OF k1(4)]]
  note f = k1(2) [unfolded fresh_page_def]
  have ix: "page_index (kern_vmm_pool k) t = Min (kfree k)"
    using kern_alloc_run [OF k] unfolding kspaceD(4) [OF k(1)] t_def by metis
  have th1: "threads_ok k1 xs" using th(1) g(1,2) by (simp add: threads_ok_def check_kern_stack_overflow_def)
  have t: "t \<notin> set (cur_tcb k1 # xs)" "t \<noteq> 0" using th(2) g(2) kern_alloc_target(2) [OF k low] by (auto simp: t_def)
  obtain k' where k': "create_thread i func args t 1 True pool 0 exit_addr k1 = Inr k'" "threads_ok k' (t # xs)"
    "cur_tcb k' = cur_tcb k1" "int_flag k'" "status k' t = TASK_READY" "tid (tcb k' t) = i"
    "c_esp (t_context (tcb k' t)) = t + 1 * PAGE_SIZE - 12"
    "load32 (t + 1 * PAGE_SIZE - 12) k' = Inr func" "load32 (t + 1 * PAGE_SIZE - 8) k' = Inr exit_addr"
    "load32 (t + 1 * PAGE_SIZE - 4) k' = Inr args"
    "rest_of (frame ?p) (k'\<lparr>tcb := tcb k1, int_flag := int_flag k1\<rparr>) = rest_of (frame ?p) k1"
    using create_thread_keeps [OF th1 t fresh_stack [OF k1(2)]] by blast
  have "frame ?p \<inter> I = {}" "off_tables (frame ?p) k1" "kspace I k1" using f by blast+
  note s = kspace_frame_step [OF this(3,2,1) k'(11)]
  have sp: "kspace I k' = kspace I (k'\<lparr>tcb := tcb k1, int_flag := int_flag k1\<rparr>)"
    "kfree k' = kfree (k'\<lparr>tcb := tcb k1, int_flag := int_flag k1\<rparr>)" by (rule same_space; simp)+
  have "create_kern_thread i func args pool exit_addr k = Inr k'" using k1(1,3) k'(1) by (simp add: create_kern_thread_def)
  moreover have "kfree k' = kfree k - {Min (kfree k)}" using sp(2) s(3) space_changeD(4) [OF k1(4)] ix by simp
  moreover have e: "t + 1 * PAGE_SIZE - 12 = t + 4084" "t + 1 * PAGE_SIZE - 8 = t + 4088" "t + 1 * PAGE_SIZE - 4 = t + 4092" by simp_all
  ultimately show ?thesis using s(1) sp(1) k'(2-6) k'(7-10) [unfolded e] g(2) by (intro exI [of _ k']) simp
qed

section \<open>The start of the kernel\<close>

text \<open>The highest physical page that the page manager has: the first that it hands out.\<close>

definition top_page :: "uint32 \<Rightarrow> pm_entry list \<Rightarrow> uint32" where
  "top_page kern_end' mmap = push_bit 12 (of_nat (managed_pages kern_end' mmap - 1)) + push_bit 12 (drop_bit 12 kern_end' + 1)"

text \<open>
  What the start needs of memory: the memory of \<open>boot_memory\<close>, more than 2048 pages behind
  the kernel, the highest of which holds no table and no bitmap, and the descriptor table in the physical bytes \<open>G\<close>
  and the control block of the main thread within the kernel.
\<close>

definition boot_facts :: "uint32 set \<Rightarrow> uint32 set \<Rightarrow> boot_params \<Rightarrow> kernel \<Rightarrow> bool" where
  "boot_facts I G B k \<longleftrightarrow> boot_memory I k \<and> SINGLE_LINK (pm k) = None \<and> 2048 < managed_pages (kern_end k) (b_mmap B) \<and>
     off_tables (frame (top_page (kern_end k) (b_mmap B))) k \<and> frame (top_page (kern_end k) (b_mmap B)) \<inter> I = {} \<and>
     stable G (span (get_tss_desc (b_gdt B)) 8) k \<and> off_tables G k \<and> G \<inter> I = {} \<and>
     (\<forall>v\<in>span (get_tss_desc (b_gdt B)) 8. 0xC0000000 \<le> v \<and> unat v < 0xC0400000) \<and>
     b_main_TCB B \<noteq> 0 \<and> unat (b_main_TCB B) < 0xC0000000 + unat (kern_end k)"

lemma boot_one_page:
  assumes "pmm_inv st (init_lists (single_first M)) (map of_nat [single_first M..<M])" "2048 < M"
  shows "\<exists>st'. pmm_alloc_one_page st = Inr (\<lparr>a_addr = push_bit 12 (of_nat (M - 1)) + pmm_page_start st, a_size = 0, a_state = 1\<rparr>, st')"
proof -
  have "1024 * ((M - 2049) div 1024) \<le> M - 2049" by simp
  then have "single_first M < M" using assms(2) by (simp add: single_first_def)
  then have "[single_first M..<M] = [single_first M..<M - 1] @ [M - 1]" using upt_Suc_append [of "single_first M" "M - 1"] by simp
  then have "pmm_rel st (init_lists (single_first M)) (map of_nat [single_first M..<M - 1] @ [of_nat (M - 1)])"
    using pmm_invD(1) [OF assms(1)] by simp
  then show ?thesis using pmm_alloc_one_page_rel by (fastforce simp: pmm_page_no_to_addr_def)
qed

lemma stable_again:
  assumes "stable G R k" "off_tables G k'" "\<And>v. v \<in> R \<Longrightarrow> translate k' v = translate k v"
  shows "stable G R k'"
proof -
  have "inj_on (translate k') R" using assms(1,3) by (simp add: stable_def inj_on_def)
  moreover have "\<forall>v\<in>R. \<exists>p\<in>G. translate k' v = Some p" using assms(1,3) by (simp add: stable_def)
  ultimately show ?thesis using off_tables_write(4) [OF assms(2)] unfolding stable_def by blast
qed

lemma first_page:
  assumes "kspace I k" "kfree k = {n..<255 * 1024}" "n \<le> 1024"
  shows "kfree k \<noteq> {}" "Min (kfree k) = n" "page_addr (kern_vmm_pool k) n = 0xC0000000 + of_nat n * 0x1000"
    "unat (page_addr (kern_vmm_pool k) n) = 0xC0000000 + n * 4096"
proof -
  show "kfree k \<noteq> {}" using assms(2,3) by simp
  show "Min (kfree k) = n" unfolding assms(2) using assms(3) by (intro Min_eqI) auto
  show a: "page_addr (kern_vmm_pool k) n = 0xC0000000 + of_nat n * 0x1000"
    using kspaceD(4) [OF assms(1)] by (simp add: page_addr_def)
  have "unat (of_nat n :: uint32) = n" using assms(3) by (intro unat_of_nat_32) simp
  then show "unat (page_addr (kern_vmm_pool k) n) = 0xC0000000 + n * 4096"
    unfolding a using assms(3) by (simp add: unat_word_ariths)
qed

lemma kern_start_run:
  assumes L: "boot_facts I G B k"
  defines "n \<equiv> (unat (kern_end k) + 4095) div 4096"
  defines "t \<equiv> 0xC0000000 + of_nat n * 0x1000"
  shows "\<exists>q' k'. kern_start B pool q k = Inr (q', k') \<and> kspace I k' \<and> threads_ok k' [t] \<and> cur_tcb k' = b_main_TCB B \<and> int_flag k' \<and>
    status k' t = TASK_READY \<and> tid (tcb k' t) = 1 \<and>
    load32 (c_esp (t_context (tcb k' t))) k' = Inr (b_func B) \<and> load32 (c_esp (t_context (tcb k' t)) + 4) k' = Inr (b_exit B) \<and>
    kfree k' = {Suc n..<255 * 1024} \<and> int_server_func_list q' 32 = Some Timer_server_func \<and>
    int_server_func_list q' 33 = Some Interrupt_handler_keyboard"
proof -
  note L' = L [unfolded boot_facts_def]
  let ?M = "managed_pages (kern_end k) (b_mmap B)" and ?a = "top_page (kern_end k) (b_mmap B)"
  have b: "boot_memory I k" "SINGLE_LINK (pm k) = None" "2048 \<le> ?M" "2048 < ?M" using L' by simp_all
  obtain k1 where k1: "init_memory B k = Inr k1" "kspace I k1"
    "pmm_inv (pm k1) (init_lists (single_first ?M)) (map of_nat [single_first ?M..<?M])"
    "pmm_page_start (pm k1) = push_bit 12 (drop_bit 12 (kern_end k) + 1)" "kfree k1 = {n..<255 * 1024}"
    "\<forall>v. drop_bit 22 v \<noteq> 0 \<longrightarrow> drop_bit 22 v \<noteq> 0x3FF \<longrightarrow> translate k1 v = translate k v"
    "\<forall>X. off_tables X k \<longrightarrow> off_tables X k1"
    using init_memory_run [OF b(1-3)] unfolding n_def by blast
  have "stable G (span (get_tss_desc (b_gdt B)) 8) k1"
    by (rule stable_again [of _ _ k]) (use L' k1(6,7) kernel_dir in blast)+
  moreover have "off_tables G k1" "G \<inter> I = {}" "b_main_TCB B \<noteq> 0" using L' k1(7) by simp_all
  ultimately obtain q2 k2 where k2: "init_tables B q k1 = Inr (q2, k2)" "kspace I k2" "kfree k2 = kfree k1" "pm k2 = pm k1"
    "kern_vmm_pool k2 = kern_vmm_pool k1" "threads_ok k2 []" "cur_tcb k2 = b_main_TCB B" "\<forall>X. off_tables X k1 \<longrightarrow> off_tables X k2"
    "int_server_func_list q2 32 = Some Timer_server_func"
    using init_tables_run [OF k1(2), of G B q] by auto
  let ?k3 = "sti k2"
  note s3 = same_space [of ?k3 k2, simplified sti_def, simplified]
  have f3: "kspace I ?k3" "kfree ?k3 = {n..<255 * 1024}" "off_tables X ?k3 = off_tables X k2" "pm ?k3 = pm k1" "kern_vmm_pool ?k3 = kern_vmm_pool k1"
    "threads_ok ?k3 []" "cur_tcb ?k3 = b_main_TCB B" for X
    using s3 k2(2-7) k1(5) by (simp_all add: sti_def threads_ok_def check_kern_stack_overflow_def)
  have "unat (kern_end k) + 4095 \<le> 0x400FFF" using b(1) by (simp add: boot_memory_def)
  then have "n \<le> 0x400FFF div 4096" unfolding n_def by (rule div_le_mono)
  then have n1: "n \<le> 1024" by simp
  note fp = first_page [OF f3(1,2) n1]
  have low: "Min (kfree ?k3) < 16384" using fp(2) n1 by simp
  have nt: "page_addr (kern_vmm_pool ?k3) n = t" using fp(3) by (simp add: t_def)
  have "x \<le> (x + 4095) div 4096 * 4096" for x :: nat
    using div_mult_mod_eq [of "x + 4095" 4096] mod_less_divisor [of 4096 "x + 4095"] by linarith
  then have "unat (kern_end k) \<le> n * 4096" by (simp only: n_def)
  then have tm: "t \<noteq> b_main_TCB B" using fp(4) nt L' by auto
  obtain st' where st': "pmm_alloc_one_page (pm ?k3) = Inr (\<lparr>a_addr = ?a, a_size = 0, a_state = 1\<rparr>, st')"
    using boot_one_page [OF k1(3) b(4)] f3(4) k1(4) by (auto simp: top_page_def)
  have off: "off_tables (frame ?a) ?k3" "frame ?a \<inter> I = {}" using L' k1(7) k2(8) f3(3) by blast+
  obtain k4 where k4: "create_kern_thread 1 (b_func B) 0 pool (b_exit B) ?k3 = Inr k4" "kspace I k4" "threads_ok k4 [t]"
    "cur_tcb k4 = cur_tcb ?k3" "int_flag k4" "status k4 t = TASK_READY" "tid (tcb k4 t) = 1" "c_esp (t_context (tcb k4 t)) = t + 4084"
    "load32 (t + 4084) k4 = Inr (b_func B)" "load32 (t + 4088) k4 = Inr (b_exit B)" "kfree k4 = kfree ?k3 - {n}"
    using create_kern_thread_run [OF f3(1) fp(1) low st' _ _ _ f3(6), of 1 "b_func B" 0 pool "b_exit B"] off tm unfolding fp(2) nt f3(7) by auto
  have "{a..<b} - {a} = {Suc a..<b}" for a b :: nat by auto
  then have kf: "kfree k4 = {Suc n..<255 * 1024}" using k4(11) f3(2) by (simp only:)
  have kb: "keyboard_init q2 = Inr (q2\<lparr>int_server_func_list := (int_server_func_list q2)(33 := Some Interrupt_handler_keyboard)\<rparr>)"
    by (simp add: keyboard_init_def register_interrupt_def)
  have e: "load32 (4088 + t) k4 = Inr (b_exit B)" by (subst add.commute) (rule k4(10))
  show ?thesis
    using k1(1) k2(1) kb k4(1) by (simp add: kern_start_def) (use k4 kf k2(9) f3(7) e in simp)
qed

text \<open>
  The machine that linker script and \<^verbatim>\<open>boot.s\<close> hand over. Directory and page tables lie at
  \<^verbatim>\<open>kern_dir_table\<close>, above 1 MB, as \<open>set_page\<close> left them; bitmap, descriptor table and the control block of the main thread
  lie behind them in the kernel image, which ends below 4 MB; the memory map describes more than 2048 pages behind the kernel
  and so few that \<^verbatim>\<open>page_array\<close> ends below the display memory.
\<close>

definition boot_layout :: "boot_params \<Rightarrow> kernel \<Rightarrow> bool" where
  "boot_layout B k \<longleftrightarrow>
     (let D = kern_dir_table_paddr k; lo = 0xC0101000 + unat D; hi = 0xC0000000 + unat (kern_end k)
      in boot_tables D (pmem k) \<and> cr3 k = D \<and> 0x100000 \<le> unat D \<and> hi \<le> 0xC0400000 \<and>
         (\<forall>v\<in>kbytes k. lo \<le> unat v \<and> unat v < hi) \<and>
         (\<forall>v\<in>span (get_tss_desc (b_gdt B)) 8. lo \<le> unat v \<and> unat v < hi \<and> v \<notin> kbytes k) \<and>
         b_main_TCB B \<noteq> 0 \<and> unat (b_main_TCB B) < hi) \<and>
     SINGLE_LINK (pm k) = None \<and> 2048 < managed_pages (kern_end k) (b_mmap B) \<and> page_array_fits (kern_end k) (b_mmap B)"

text \<open>The physical bytes behind kernel addresses of the first 4 MB.\<close>

definition kphys :: "uint32 set \<Rightarrow> uint32 set" where
  "kphys R = (\<lambda>v. v - 0xC0000000) ` R"

lemma boot_window:
  assumes t: "boot_tables D (pmem k)" "cr3 k = D" and R: "\<forall>v\<in>R. 0xC0101000 + unat D \<le> unat v \<and> unat v < 0xC0400000"
  shows "off_tables (kphys R) k" "\<forall>v\<in>R. \<exists>p\<in>kphys R. translate k v = Some p" "inj_on (translate k) R" "stable (kphys R) R k"
    "\<forall>p\<in>kphys R. unat D + 0x101000 \<le> unat p"
proof -
  have tr: "translate k v = Some (v - 0xC0000000)" if "v \<in> R" for v
    by (rule boot_translate [OF t]) (use R that in \<open>force simp: word_le_nat_alt word_less_nat_alt\<close>)+
  have u: "unat (v - 0xC0000000) = unat v - 0xC0000000" if "v \<in> R" for v
    using R that by (force simp: unat_sub word_le_nat_alt)
  show b: "\<forall>p\<in>kphys R. unat D + 0x101000 \<le> unat p" using R u by (fastforce simp: kphys_def)
  then show off: "off_tables (kphys R) k" by (intro boot_off_tables [OF t]) blast
  show e: "\<forall>v\<in>R. \<exists>p\<in>kphys R. translate k v = Some p" using tr by (auto simp: kphys_def)
  show i: "inj_on (translate k) R" by (rule inj_onI) (simp add: tr)
  show "stable (kphys R) R k" unfolding stable_def using e i off_tables_write(4) [OF off] by blast
qed

lemma top_page_above:
  assumes "2048 < managed_pages ke mmap" "page_array_fits ke mmap" "unat ke \<le> 0x400000"
  shows "page_base (top_page ke mmap) = top_page ke mmap" "unat ke < unat (top_page ke mmap)"
proof -
  let ?M = "managed_pages ke mmap"
  have M: "?M \<le> 54592" using assms(2) by (simp add: page_array_fits_def page_array_end_def)
  have d: "unat (drop_bit 12 ke) = unat ke div 4096" by (simp add: drop_bit_eq_div unat_div)
  have dl: "unat ke div 4096 \<le> 1024" using div_le_mono [OF assms(3), of 4096] by simp
  have um: "unat (of_nat (?M - 1) :: uint32) = ?M - 1" using M by (intro unat_of_nat_32) simp
  have "unat (push_bit 12 (of_nat (?M - 1)) :: uint32) = (?M - 1) * 4096"
    unfolding push_bit_eq_mult using um M by (simp add: unat_word_ariths)
  moreover have "unat (push_bit 12 (drop_bit 12 ke + 1)) = (unat ke div 4096 + 1) * 4096"
    unfolding push_bit_eq_mult using d dl by (simp add: unat_word_ariths)
  ultimately have u: "unat (top_page ke mmap) = (?M - 1 + (unat ke div 4096 + 1)) * 4096"
    using M dl unfolding top_page_def by (simp add: unat_word_ariths)
  then have "unat (page_base (top_page ke mmap)) = unat (top_page ke mmap)" unfolding unat_page_base by simp
  then show "page_base (top_page ke mmap) = top_page ke mmap" by (simp only: word_unat_eq_iff)
  have "unat ke < (unat ke div 4096 + 1) * 4096" using dividend_less_div_times [of 4096 "unat ke"] by (simp add: algebra_simps)
  then show "unat ke < unat (top_page ke mmap)" unfolding u by (rule less_le_trans) simp
qed

lemma boot_layout_memory:
  assumes L: "boot_layout B k"
  shows "boot_facts (kphys (kbytes k)) (kphys (span (get_tss_desc (b_gdt B)) 8)) B k"
proof -
  let ?D = "kern_dir_table_paddr k" and ?I = "kphys (kbytes k)" and ?S = "span (get_tss_desc (b_gdt B)) 8"
  note L' = L [unfolded boot_layout_def Let_def]
  have t: "boot_tables ?D (pmem k)" "cr3 k = ?D" using L' by blast+
  have ke: "unat (kern_end k) \<le> 0x400000" using L' by simp
  have R: "\<forall>v\<in>kbytes k. 0xC0101000 + unat ?D \<le> unat v \<and> unat v < 0xC0400000" "\<forall>v\<in>?S. 0xC0101000 + unat ?D \<le> unat v \<and> unat v < 0xC0400000"
    using L' by (meson less_le_trans)+
  note w = boot_window [OF t R(1)] and g = boot_window [OF t R(2)]
  have D: "unat ?D + 0x101000 \<le> unat (kern_end k)"
  proof -
    have "kern_bitmap k \<in> kbytes k" using span_mem [of 0 "0x8000" "kern_bitmap k"] by (simp add: bitmap_bytes_def)
    then show ?thesis using L' by fastforce
  qed
  have md: "\<forall>v\<ge>0xC0000000. mapped_dir k v" using boot_table(1) [OF t] dir_high by blast
  have kb: "\<forall>v\<in>kbytes k. 0xC0000000 \<le> v \<and> unat v < 0xC0000000 + unat (kern_end k)"
    using L' by (fastforce simp: word_le_nat_alt)
  have "boot_memory ?I k"
    unfolding boot_memory_def using boot_tables_space [OF t refl] w(1-3) md ke kb by blast
  moreover have "off_tables (frame (top_page (kern_end k) (b_mmap B))) k" "frame (top_page (kern_end k) (b_mmap B)) \<inter> ?I = {}"
  proof -
    have "2048 < managed_pages (kern_end k) (b_mmap B)" "page_array_fits (kern_end k) (b_mmap B)" using L' by blast+
    note tp = top_page_above [OF this ke]
    have f: "unat (kern_end k) < unat x" if "x \<in> frame (top_page (kern_end k) (b_mmap B))" for x
      using that tp page_base_le [of x] by (simp add: frame_def word_le_nat_alt)
    show "off_tables (frame (top_page (kern_end k) (b_mmap B))) k" by (rule boot_off_tables [OF t]) (use f D in fastforce)
    have "unat p < unat (kern_end k)" if "p \<in> ?I" for p
      using that kb by (force simp: kphys_def unat_sub word_le_nat_alt)
    then show "frame (top_page (kern_end k) (b_mmap B)) \<inter> ?I = {}" using f by (meson disjoint_iff less_asym)
  qed
  moreover have "kphys ?S \<inter> ?I = {}"
    using L' by (auto simp: kphys_def)
  moreover have "\<forall>v\<in>?S. 0xC0000000 \<le> v \<and> unat v < 0xC0400000" using R(2) by (force simp: word_le_nat_alt)
  ultimately show ?thesis unfolding boot_facts_def using L' g(1,4) by blast
qed


section \<open>A concrete machine\<close>

definition demo_params :: boot_params where
  "demo_params = \<lparr>b_mmap = demo_mmap, b_isr = (\<lambda>n. 0xC0100000 + of_int n * 16), b_idt = 0xC0350000, b_gdt = 0xC0340000,
     b_tss = 0xC0341000, b_data_selector = 0x10, b_main_TCB = 0xC0342000, b_exit = 0xC0100200, b_func = 0xC0100100,
     b_printk = undefined, b_message = 0xC0343000, b_wait_node = 0xC0344000\<rparr>"

text \<open>The machine on which \<open>set_page\<close> has run.\<close>

definition demo_boot :: kernel where
  "demo_boot = demo_kernel\<lparr>pmem := set_page 0x100000 0x101000 demo_mem, pm := demo_pmm\<lparr>SINGLE_LINK := None\<rparr>\<rparr>"

definition demo_gdt :: "uint32 set" where
  "demo_gdt = span 0x340030 8"

lemma demo_gdt_off: "off_tables demo_gdt demo_kernel" "demo_gdt \<inter> demo_bytes = {}" "stable demo_gdt (span 0xC0340030 8) demo_kernel"
  and demo_gdt_range: "v \<in> span 0xC0340030 8 \<Longrightarrow> 0xC0000000 \<le> v \<and> unat v < 0xC0400000"
proof -
  have u: "unat (of_nat i :: uint32) = i" if "i < 8" for i :: nat using that by (intro unat_of_nat_32) simp
  have g: "0x340030 \<le> unat x \<and> unat x < 0x340038" if "x \<in> demo_gdt" for x
    using that u by (auto simp: demo_gdt_def span_def unat_word_ariths)
  then have "demo_gdt \<subseteq> demo_words" by (force simp: demo_words_def word_le_nat_alt word_less_nat_alt)
  then show off: "off_tables demo_gdt demo_kernel" using demo_words_off unfolding off_tables_def by blast
  show "demo_gdt \<inter> demo_bytes = {}" using g by (force simp: demo_bytes_def word_le_nat_alt word_less_nat_alt)
  have v: "0xC0000000 \<le> v \<and> unat v < 0xC0400000 \<and> translate demo_kernel v = Some (v - 0xC0000000) \<and> v - 0xC0000000 \<in> demo_gdt"
    if "v \<in> span 0xC0340030 8" for v
  proof -
    obtain i where i: "i < 8" "v = 0xC0340030 + of_nat i" using \<open>v \<in> _\<close> by (auto simp: span_def)
    have "unat v = 0xC0340030 + i" using i u [of i] by (simp add: unat_word_ariths)
    then have r: "0xC0000000 \<le> v" "unat v < 0xC0400000" using i(1) by (simp_all add: word_le_nat_alt)
    moreover have "v - 0xC0000000 = 0x340030 + of_nat i" by (simp add: i(2))
    moreover have "0x340030 + of_nat i \<in> demo_gdt" unfolding demo_gdt_def by (rule span_mem [OF i(1)])
    ultimately show ?thesis using demo_translate [of v] by (simp add: word_less_nat_alt)
  qed
  then show "v \<in> span 0xC0340030 8 \<Longrightarrow> 0xC0000000 \<le> v \<and> unat v < 0xC0400000" by blast
  have "inj_on (translate demo_kernel) (span 0xC0340030 8)" by (rule inj_onI) (use v in auto)
  then show "stable demo_gdt (span 0xC0340030 8) demo_kernel"
    unfolding stable_def using v off_tables_write(4) [OF off] by blast
qed

lemma demo_boot_layout: "boot_layout demo_params demo_boot"
proof -
  have d: "get_tss_desc (b_gdt demo_params) = 0xC0340030" by (simp add: demo_params_def get_tss_desc_def)
  have M: "managed_pages 0x400000 demo_mmap = 31711" by (simp add: managed_pages_def get_max_pm_addr_def demo_mmap_def)
  have ke: "kern_end demo_boot = 0x400000" "b_mmap demo_params = demo_mmap" "SINGLE_LINK (pm demo_boot) = None"
    "b_main_TCB demo_params = 0xC0342000" "kern_bitmap demo_boot = 0xC0300000" "kern_dir_table_paddr demo_boot = 0x100000" "cr3 demo_boot = 0x100000"
    "pmem demo_boot = set_page 0x100000 0x101000 demo_mem"
    by (simp_all add: demo_boot_def demo_params_def)
  have u: "unat (of_nat i :: uint32) = i" if "i < 8" for i :: nat using that by (intro unat_of_nat_32) simp
  have tb: "boot_tables 0x100000 (set_page 0x100000 0x101000 demo_mem)"
    unfolding boot_tables_def by (intro conjI exI [of _ demo_mem]) (simp_all add: page_base_def)
  have k: "0xC0300000 \<le> unat v \<and> unat v < 0xC0308000" if "v \<in> bitmap_bytes (kpool 0xC0300000)" for v
    using demo_range [OF that] by blast
  have g: "0xC0340030 \<le> unat v \<and> unat v < 0xC0340038" if "v \<in> span 0xC0340030 8" for v
    using that u by (auto simp: span_def unat_word_ariths)
  have kb: "\<forall>v\<in>bitmap_bytes (kpool 0xC0300000). 0xC0201000 \<le> unat v \<and> unat v < 0xC0400000" using k by fastforce
  have gd: "\<forall>v\<in>span 0xC0340030 8. 0xC0201000 \<le> unat v \<and> unat v < 0xC0400000 \<and> v \<notin> bitmap_bytes (kpool 0xC0300000)"
    using g k by fastforce
  show ?thesis
    unfolding boot_layout_def Let_def ke d page_array_fits_def page_array_end_def M using tb kb gd by simp
qed

definition demo_irq :: irq_tables where
  "demo_irq = \<lparr>idt_entries = (\<lambda>_. \<lparr>offset_low = 0, selector = 0, default_bit8 = 0, inf = 0, offset_high = 0\<rparr>),
     int_server_func_list = (\<lambda>_. None), lidt_target = \<lparr>l_limit = 0, l_base = 0\<rparr>, idtr = \<lparr>l_limit = 0, l_base = 0\<rparr>\<rparr>"



end
