(* ===== verification/TaskCreate.thy ===== *)
theory TaskCreate
  imports UserStart KernHeap
begin

text \<open>
  The creation of a user task: the pages of its bitmap, its page directory and the page of its thread, and the
  address space that the first activation of the task finds.
\<close>

section \<open>Several physical pages\<close>

text \<open>The frames that \<open>n\<close> requests for one page return, when all of them succeed.\<close>

fun take_frames :: "nat \<Rightarrow> pmm \<Rightarrow> (uint32 list \<times> pmm) option" where
  "take_frames 0 st = Some ([], st)"
| "take_frames (Suc n) st =
     (case pmm_alloc_one_page st of Inl e \<Rightarrow> None
      | Inr (a, st1) \<Rightarrow> if a_state a = 0 then None
          else (case take_frames n st1 of None \<Rightarrow> None | Some (fs, st2) \<Rightarrow> Some (page_base (a_addr a) # fs, st2)))"

lemma take_frames_SucD:
  assumes "take_frames (Suc n) st = Some (fs, st')"
  obtains a st1 gs where "pmm_alloc_one_page st = Inr (a, st1)" "a_state a \<noteq> 0" "take_frames n st1 = Some (gs, st')"
    "fs = page_base (a_addr a) # gs"
  using assms by (auto split: sum.splits if_splits option.splits)

lemma take_frames_length: "take_frames n st = Some (fs, st') \<Longrightarrow> length fs = n"
  by (induction n arbitrary: st fs) (auto elim!: take_frames_SucD simp del: take_frames.simps(2))

lemma take_frames_base: "take_frames n st = Some (fs, st') \<Longrightarrow> f \<in> set fs \<Longrightarrow> page_base f = f"
  by (induction n arbitrary: st fs) (auto elim!: take_frames_SucD simp del: take_frames.simps(2))

lemma take_frames_add:
  "take_frames (n + m) st = Some (fs, st') \<Longrightarrow> \<exists>st1. take_frames n st = Some (take n fs, st1) \<and> take_frames m st1 = Some (drop n fs, st')"
proof (induction n arbitrary: st fs)
  case (Suc n)
  from Suc.prems have "take_frames (Suc (n + m)) st = Some (fs, st')" by simp
  then obtain a st1 gs where a: "pmm_alloc_one_page st = Inr (a, st1)" "a_state a \<noteq> 0" "take_frames (n + m) st1 = Some (gs, st')"
    "fs = page_base (a_addr a) # gs" by (rule take_frames_SucD)
  from Suc.IH [OF a(3)] show ?case using a by auto
qed simp

section \<open>The pages behind the first free one\<close>

definition page_map :: "bitmap \<Rightarrow> nat \<Rightarrow> uint32 list \<Rightarrow> (uint32 \<rightharpoonup> uint32)" where
  "page_map pool m fs = map_of (rev (zip (map (page_addr pool) [m..<m + length fs]) fs))"

lemma page_map_Nil [simp]: "page_map pool m [] = Map.empty"
  by (simp add: page_map_def)

lemma page_map_Cons: "page_map pool m (f # fs) = [page_addr pool m \<mapsto> f] ++ page_map pool (Suc m) fs"
  by (simp add: page_map_def upt_conv_Cons del: upt_Suc)

lemma page_map_append: "page_map pool m (fs @ gs) = page_map pool m fs ++ page_map pool (m + length fs) gs"
  by (induction fs arbitrary: m) (simp_all add: page_map_Cons map_add_assoc del: fun_upd_apply)

lemma page_map_dom: "dom (page_map pool m fs) = page_addr pool ` {m..<m + length fs}"
proof (induction fs arbitrary: m)
  case (Cons f fs)
  have "{m..<m + length (f # fs)} = insert m {Suc m..<Suc m + length fs}" by auto
  then show ?case by (simp only: page_map_Cons dom_map_add Cons.IH dom_fun_upd image_insert) auto
qed simp

lemma page_addr_inj:
  "n < 262144 \<Longrightarrow> n' < 262144 \<Longrightarrow> page_addr (kpool a) n = page_addr (kpool a) n' \<Longrightarrow> n = n'"
proof -
  assume n: "n < 262144" "n' < 262144" and eq: "page_addr (kpool a) n = page_addr (kpool a) n'"
  have "page_index (kpool a) (page_addr (kpool a) n) = n" by (rule page_index_addr(1) [OF kpool_wf]) (simp add: n)
  moreover have "page_index (kpool a) (page_addr (kpool a) n') = n'" by (rule page_index_addr(1) [OF kpool_wf]) (simp add: n)
  ultimately show "n = n'" using eq by metis
qed

lemma page_map_None:
  assumes "n < 262144" "i + length fs \<le> 262144" "n \<notin> {i..<i + length fs}"
  shows "page_map (kpool a) i fs (page_addr (kpool a) n) = None"
proof -
  have "page_addr (kpool a) n \<notin> dom (page_map (kpool a) i fs)"
    unfolding page_map_dom
  proof
    assume "page_addr (kpool a) n \<in> page_addr (kpool a) ` {i..<i + length fs}"
    then obtain l where l: "l \<in> {i..<i + length fs}" "page_addr (kpool a) n = page_addr (kpool a) l" by blast
    then show False using page_addr_inj [of n l a] assms by auto
  qed
  then show ?thesis by (simp add: domIff)
qed

lemma page_map_get:
  "m + length fs \<le> 262144 \<Longrightarrow> j < length fs \<Longrightarrow> page_map (kpool a) m fs (page_addr (kpool a) (m + j)) = Some (fs ! j)"
proof (induction fs arbitrary: m j)
  case (Cons f fs)
  show ?case
  proof (cases j)
    case 0
    have "page_map (kpool a) (Suc m) fs (page_addr (kpool a) m) = None" by (rule page_map_None) (use Cons.prems(1) in auto)
    then show ?thesis using 0 by (simp add: page_map_Cons map_add_def)
  next
    case (Suc i)
    then show ?thesis using Cons.IH [of "Suc m" i] Cons.prems by (simp add: page_map_Cons)
  qed
qed simp

lemma page_map_index:
  assumes "m + length fs \<le> 262144"
  shows "page_index (kpool a) ` dom (page_map (kpool a) m fs) = {m..<m + length fs}"
proof -
  have "page_index (kpool a) (page_addr (kpool a) n) = n" if "n \<in> {m..<m + length fs}" for n
    by (rule page_index_addr(1) [OF kpool_wf]) (use that assms in simp)
  then show ?thesis unfolding page_map_dom image_image by (simp cong: image_cong_simp)
qed

lemma page_addr_Suc: "page_addr pool n + 0x1000 = page_addr pool (Suc n)"
  by (simp add: page_addr_def algebra_simps)

lemma alloc_following_run:
  assumes "kspace I k" "{i..<i + n} \<subseteq> kfree k" "take_frames n (pm k) = Some (fs, st')" "i + n \<le> 16384"
  shows "\<exists>k'. alloc_following n (page_addr (kern_vmm_pool k) i) k = Inr (True, k') \<and> space_change I {} (page_map (kern_vmm_pool k) i fs) st' k k'"
  using assms
proof (induction n arbitrary: i k fs)
  case 0
  then show ?case using space_change_refl [of I k] by simp
next
  case (Suc n)
  let ?t = "page_addr (kern_vmm_pool k) i"
  obtain a st1 gs where a: "pmm_alloc_one_page (pm k) = Inr (a, st1)" "a_state a \<noteq> 0" "take_frames n st1 = Some (gs, st')"
    "fs = page_base (a_addr a) # gs" using Suc.prems(3) by (rule take_frames_SucD)
  have i: "i \<in> kfree k" "i < 16384" using Suc.prems(2,4) by auto
  obtain k1 where k1: "vmm_kern_alloc_one_page ?t k = Inr (?t, k1)" "space_change I {} [?t \<mapsto> page_base (a_addr a)] st1 k k1"
    using alloc_at_taken [OF Suc.prems(1) i a(1,2)] by blast
  note c = space_changeD [OF k1(2)]
  have pool: "kern_vmm_pool k1 = kern_vmm_pool k" by (rule mem_only_fields(6) [OF c(2)])
  have "i < 8 * unat (bm_length (kpool (kern_bitmap k)))" using i(1) by (simp add: free_pages_def)
  note ix = page_index_addr [OF kpool_wf this, folded kspaceD(4) [OF Suc.prems(1)]]
  have "kfree k1 = kfree k - {i}" using c(4) ix(1) by simp
  then have "{Suc i..<Suc i + n} \<subseteq> kfree k1" using Suc.prems(2) by auto
  from Suc.IH [OF c(1) this] obtain k2 where k2: "alloc_following n (page_addr (kern_vmm_pool k) (Suc i)) k1 = Inr (True, k2)"
    "space_change I {} (page_map (kern_vmm_pool k) (Suc i) gs) st' k1 k2" using a(3) c(3) pool Suc.prems(4) by auto
  have "?t \<noteq> KERN_VMM_ALLOC_ERRO" using ix(3) by (auto simp: page_base_def)
  then have "alloc_following (Suc n) ?t k = Inr (True, k2)" using k1(1) k2(1) by (simp add: page_addr_Suc)
  moreover have "space_change I {} (page_map (kern_vmm_pool k) i fs) st' k k2"
    using space_change_trans [OF k1(2) k2(2)] a(4) by (simp add: page_map_Cons)
  ultimately show ?case by blast
qed

section \<open>The bitmap of the task\<close>

text \<open>Consecutive pages mapped to different frames are a window of stable memory in these frames.\<close>

abbreviation frames_of :: "uint32 list \<Rightarrow> uint32 set" where
  "frames_of fs \<equiv> (\<Union>f\<in>set fs. frame f)"

lemma off_frames: "off_tables (frames_of fs) k \<longleftrightarrow> (\<forall>f\<in>set fs. off_tables (frame f) k)"
  by (auto simp: off_tables_def)

lemma page_addr_offset: "page_addr pool m + of_nat x = page_addr pool (m + x div 4096) + of_nat (x mod 4096)"
proof -
  have "of_nat x = (of_nat (x div 4096 * 4096 + x mod 4096) :: uint32)" by simp
  also have "\<dots> = of_nat (x div 4096) * 0x1000 + of_nat (x mod 4096)" by (simp only: of_nat_add of_nat_mult) simp
  finally show ?thesis by (simp add: page_addr_def algebra_simps)
qed

lemma page_map_window:
  assumes c: "space_change I J (page_map (kpool a) m fs) st k k'" and m: "m + length fs \<le> 16384" and x: "x < 4096 * length fs"
    and b: "\<forall>f\<in>set fs. page_base f = f"
  shows "translate k' (page_addr (kpool a) m + of_nat x) = Some (fs ! (x div 4096) + of_nat (x mod 4096))"
    "page_base (page_addr (kpool a) m + of_nat x) = page_addr (kpool a) (m + x div 4096)" "fs ! (x div 4096) \<in> set fs"
    "prim (page_addr (kpool a) m + of_nat x) = page_addr (kpool a) m + of_nat x"
proof -
  let ?j = "x div 4096" and ?t = "page_addr (kpool a) (m + x div 4096)"
  have j: "?j < length fs" using x by (simp add: div_less_iff_less_mult mult.commute)
  then show f: "fs ! ?j \<in> set fs" by simp
  have m': "m + length fs \<le> 262144" "m + ?j < 16384" using m j by simp_all
  have "m + ?j < 8 * unat (bm_length (kpool a))" using m j by simp
  note t = page_index_addr(3) [OF kpool_wf this]
  have "x mod 4096 < 4096" by simp
  note o = page_offset [OF t this] and of = page_offset(3) [OF bspec [OF b f] this]
  show b: "page_base (page_addr (kpool a) m + of_nat x) = ?t" by (subst page_addr_offset) (rule o(1))
  then show p: "prim (page_addr (kpool a) m + of_nat x) = page_addr (kpool a) m + of_nat x"
    using prim_own_page [OF page_addr_primary(3) [OF m'(2), of a], of "page_addr (kpool a) m + of_nat x"] t by simp
  show "translate k' (page_addr (kpool a) m + of_nat x) = Some (fs ! ?j + of_nat (x mod 4096))"
    using space_changeD(7) [OF c, of "page_addr (kpool a) m + of_nat x"] page_map_get [OF m'(1) j, of a] o(2) of p b
      page_addr_offset [of "kpool a" m x] by simp
qed

lemma page_map_stable:
  assumes c: "space_change I J (page_map (kpool a) m fs) st k k'" and m: "m + length fs \<le> 16384" and len: "n \<le> 4096 * l" "l \<le> length fs"
    and b: "\<forall>f\<in>set fs. page_base f = f" and d: "distinct fs"
  shows "inj_on (translate k') (span (page_addr (kpool a) m) n)"
    "v \<in> span (page_addr (kpool a) m) n \<Longrightarrow> \<exists>q\<in>frames_of (take l fs). translate k' v = Some q"
    "v \<in> span (page_addr (kpool a) m) n \<Longrightarrow> \<exists>j < l. page_base v = page_addr (kpool a) (m + j)"
    "v \<in> span (page_addr (kpool a) m) n \<Longrightarrow> prim v = v"
proof -
  note w = page_map_window [OF c m _ b]
  have off: "page_base (fs ! (x div 4096) + of_nat (x mod 4096)) = fs ! (x div 4096)" if "x < 4096 * length fs" for x
    using page_offset(1) [OF bspec [OF b w(3) [OF that]], of "x mod 4096"] by simp
  show "inj_on (translate k') (span (page_addr (kpool a) m) n)"
  proof (rule inj_onI)
    fix v u assume "v \<in> span (page_addr (kpool a) m) n" "u \<in> span (page_addr (kpool a) m) n" and eq: "translate k' v = translate k' u"
    then obtain x y where x: "x < n" "v = page_addr (kpool a) m + of_nat x" and y: "y < n" "u = page_addr (kpool a) m + of_nat y"
      by (auto simp: span_def)
    have l: "x < 4096 * length fs" "y < 4096 * length fs" using x(1) y(1) len by linarith+
    have e: "fs ! (x div 4096) + of_nat (x mod 4096) = fs ! (y div 4096) + of_nat (y mod 4096)"
      using eq w(1) [OF l(1)] w(1) [OF l(2)] x(2) y(2) by simp
    then have f: "fs ! (x div 4096) = fs ! (y div 4096)" using off [OF l(1)] off [OF l(2)] by metis
    have "x div 4096 < length fs" "y div 4096 < length fs" using l by (simp_all add: div_less_iff_less_mult mult.commute)
    then have dv: "x div 4096 = y div 4096" using f d by (simp add: nth_eq_iff_index_eq)
    have "of_nat (x mod 4096) = (of_nat (y mod 4096) :: uint32)" using e f by simp
    moreover have "unat (of_nat (z mod 4096) :: uint32) = z mod 4096" for z :: nat
      by (rule unat_of_nat_32) (rule less_trans [of _ 4096], simp_all)
    ultimately have "x mod 4096 = y mod 4096" by metis
    then show "v = u" using dv x(2) y(2) div_mult_mod_eq [of x 4096] div_mult_mod_eq [of y 4096] by metis
  qed
  show "\<exists>q\<in>frames_of (take l fs). translate k' v = Some q" "\<exists>j < l. page_base v = page_addr (kpool a) (m + j)" "prim v = v"
    if v: "v \<in> span (page_addr (kpool a) m) n" for v
  proof -
    obtain x where x: "x < n" "v = page_addr (kpool a) m + of_nat x" using v by (auto simp: span_def)
    have l: "x < 4096 * length fs" using x(1) len by linarith
    have xl: "x div 4096 < l" using x(1) len by (simp add: div_less_iff_less_mult mult.commute)
    then have "fs ! (x div 4096) \<in> set (take l fs)" using len(2) by (auto simp: in_set_conv_nth)
    moreover have "fs ! (x div 4096) + of_nat (x mod 4096) \<in> frame (fs ! (x div 4096))"
      using off [OF l] b w(3) [OF l] by (simp add: frame_def)
    ultimately show "\<exists>q\<in>frames_of (take l fs). translate k' v = Some q" using w(1) [OF l] x(2) by blast
    show "\<exists>j < l. page_base v = page_addr (kpool a) (m + j)" using w(2) [OF l] x(2) xl by blast
    show "prim v = v" using w(4) [OF l] x(2) by simp
  qed
qed

text \<open>\<open>free_frames I k fs\<close>: the frames are different and hold neither a table nor the bitmap of the kernel.\<close>

definition free_frames :: "uint32 set \<Rightarrow> kernel \<Rightarrow> uint32 list \<Rightarrow> bool" where
  "free_frames I k fs \<longleftrightarrow> distinct fs \<and> (\<forall>f\<in>set fs. off_tables (frame f) k \<and> frame f \<inter> I = {})"

definition task_pool :: "uint32 \<Rightarrow> bitmap" where
  "task_pool v = \<lparr>vaddr_header = v, bm_length = 0x18000, target_addr_header = 0\<rparr>"

lemma task_bitmap_run:
  assumes k: "kspace I k" and m: "m = Min (kfree k)" "{m..<m + 24} \<subseteq> kfree k" "m + 24 \<le> 16384"
    and fs: "take_frames 24 (pm k) = Some (fs, st')" "free_frames I k fs"
  defines "pool \<equiv> task_pool (page_addr (kern_vmm_pool k) m)"
  shows "\<exists>k'. create_user_task_bitmap k = Inr (pool, k') \<and>
    space_change I (frames_of fs) (page_map (kern_vmm_pool k) m fs) st' k k' \<and> free_pages pool (vmem k') = {..<0xC0000}"
proof -
  have kp: "kern_vmm_pool k = kpool (kern_bitmap k)" by (rule kspaceD(4) [OF k])
  define v where "v = page_addr (kern_vmm_pool k) m"
  have ne: "kfree k \<noteq> {}" and mf: "m \<in> kfree k" using m(2) by auto
  have "take_frames (Suc 23) (pm k) = Some (fs, st')" using fs(1) by (simp only: eval_nat_numeral) simp
  then obtain a st1 gs where a: "pmm_alloc_one_page (pm k) = Inr (a, st1)" "a_state a \<noteq> 0" "take_frames 23 st1 = Some (gs, st')"
    "fs = page_base (a_addr a) # gs" by (rule take_frames_SucD)
  obtain k1 where k1: "vmm_kern_alloc k = Inr (v, k1)" "space_change I {} [v \<mapsto> page_base (a_addr a)] st1 k k1"
    using alloc_taken [OF k ne _ a(1,2)] m(3) unfolding v_def m(1) by fastforce
  note c1 = space_changeD [OF k1(2)]
  have pool1: "kern_vmm_pool k1 = kern_vmm_pool k" by (rule mem_only_fields(6) [OF c1(2)])
  have m1: "m < 8 * unat (bm_length (kpool (kern_bitmap k)))" using mf by (simp add: free_pages_def)
  have "kfree k1 = kfree k - {m}" using c1(4) page_index_addr(1) [OF kpool_wf m1] by (simp add: v_def kp)
  then have "{Suc m..<Suc m + 23} \<subseteq> kfree k1" using m(2) by auto
  from alloc_following_run [OF c1(1) this, of gs st'] a(3) c1(3) m(3) obtain k2 where
    k2: "alloc_following 23 (v + 0x1000) k1 = Inr (True, k2)" "space_change I {} (page_map (kern_vmm_pool k) (Suc m) gs) st' k1 k2"
    by (auto simp: pool1 v_def page_addr_Suc)
  have c2: "space_change I {} (page_map (kern_vmm_pool k) m fs) st' k k2"
    using space_change_trans [OF k1(2) k2(2)] a(4) by (simp add: page_map_Cons v_def)
  have len: "length fs = 24" and base: "\<forall>f\<in>set fs. page_base f = f"
    using take_frames_length [OF fs(1)] take_frames_base [OF fs(1)] by auto
  have bound: "m + length fs \<le> 16384" using m(3) len by simp
  have J: "off_tables (frames_of fs) k2" "frames_of fs \<inter> I = {}" "distinct fs"
    using fs(2) space_change_off [OF c2] by (auto simp: free_frames_def off_frames)
  have bb: "bitmap_bytes pool = span v 0x18000" by (simp add: bitmap_bytes_def pool_def task_pool_def v_def)
  have "0x18000 \<le> 4096 * (24 :: nat)" "24 \<le> length fs" "take 24 fs = fs" using len by simp_all
  note w = page_map_stable [OF c2 [unfolded kp] bound this(1,2) base J(3), folded kp, folded v_def, folded bb, unfolded this(3)]
  have "stable (frames_of fs) (bitmap_bytes pool) k2"
    unfolding stable_def using w(1,2) off_tables_write(4) [OF J(1)] by blast
  from mmu.bitmap_init_mem_ok [OF this subset_refl] obtain k3 where
    k3: "bitmap_init_mem store8 pool k2 = Inr k3" "rest_of (frames_of fs) k3 = rest_of (frames_of fs) k2"
    "free_pages pool (vmem k3) = {..<8 * unat (bm_length pool)}" by blast
  have "space_change I (frames_of fs) Map.empty (pm k2) k2 k3"
    by (rule space_change_write [OF space_changeD(1) [OF c2] J(1,2) k3(2)])
  from space_change_trans [OF c2 this] have "space_change I (frames_of fs) (page_map (kern_vmm_pool k) m fs) st' k k3"
    using space_changeD(3) [OF c2] by simp
  moreover have "v \<noteq> KERN_VMM_ALLOC_ERRO"
    using page_index_addr(3) [OF kpool_wf m1] unfolding v_def kp by (auto simp: page_base_def)
  then have "create_user_task_bitmap k = Inr (pool, k3)"
    using k1(1) k2(1) k3(1) by (simp add: create_user_task_bitmap_def pool_def task_pool_def v_def [symmetric])
  moreover have "free_pages pool (vmem k3) = {..<0xC0000}" using k3(3) by (simp add: pool_def task_pool_def)
  ultimately show ?thesis by blast
qed

section \<open>The pages of the task\<close>

lemma Min_rest:
  fixes F :: "nat set"
  assumes "finite F" "m = Min F" "{m..m + j} \<subseteq> F"
  shows "Min (F - {m..<m + j}) = m + j" "m + j \<in> F - {m..<m + j}"
proof -
  have mj: "m + j \<in> F" using assms(3) by auto
  show "m + j \<in> F - {m..<m + j}" using mj by simp
  show "Min (F - {m..<m + j}) = m + j"
  proof (rule Min_eqI)
    show "finite (F - {m..<m + j})" using assms(1) by simp
    show "m + j \<in> F - {m..<m + j}" using mj by simp
    fix y assume y: "y \<in> F - {m..<m + j}"
    then have "m \<le> y" using Min_le [OF assms(1)] assms(2) by blast
    then show "m + j \<le> y" using y by auto
  qed
qed

lemma change_kfree:
  assumes "kspace I k" "space_change I J (page_map (kern_vmm_pool k) m fs) st k k'" "m + length fs \<le> 262144"
  shows "kfree k' = kfree k - {m..<m + length fs}"
  using space_changeD(4) [OF assms(2)] page_map_index [OF assms(3)] kspaceD(4) [OF assms(1)] by simp

text \<open>Taking other pages and writing to other frames keeps the bits of the pool.\<close>

lemma pool_kept:
  assumes c: "space_change I J M st k k'" and off: "off_tables Q k" "Q \<inter> (I \<union> J) = {}"
    and b: "\<And>v. v \<in> bitmap_bytes pool \<Longrightarrow> (\<exists>q\<in>Q. translate k v = Some q) \<and> M (page_base (prim v)) = None"
  shows "free_pages pool (vmem k') = free_pages pool (vmem k)"
proof (rule free_pages_cong)
  fix v assume v: "v \<in> bitmap_bytes pool"
  then obtain q where q: "q \<in> Q" "translate k v = Some q" "M (page_base (prim v)) = None" using b by blast
  have "pmem k' q = pmem k q" using space_changeD(6) [OF c, of q] off q(1) by (auto simp: off_tables_def)
  moreover have "translate k' v = Some q" using space_changeD(7) [OF c, of v] q by simp
  ultimately show "vmem k' v = vmem k v" using q(2) by (simp add: vmem_def)
qed

text \<open>The bytes of the pool after all pages are taken, and the pages behind it.\<close>

lemma task_pool_bytes: "bitmap_bytes (task_pool v) = span v 0x18000"
  by (simp add: bitmap_bytes_def task_pool_def)

lemma frames_disjoint: "\<forall>f\<in>set fs. page_base f = f \<Longrightarrow> distinct (fs @ gs) \<Longrightarrow> \<forall>f\<in>set gs. page_base f = f \<Longrightarrow> frames_of fs \<inter> frames_of gs = {}"
  by (auto simp: frame_def)

lemma task_pages_run:
  assumes k: "kspace I k" and m: "m = Min (kfree k)" "{m..<m + 26} \<subseteq> kfree k" "m + 26 \<le> 16384"
    and fs: "take_frames 26 (pm k) = Some (fs, st')" "free_frames I k fs"
  defines "P \<equiv> kern_vmm_pool k"
  shows "\<exists>k1 k2 k3. create_user_task_bitmap k = Inr (task_pool (page_addr P m), k1) \<and> create_user_task_pdt k1 = Inr (page_addr P (m + 24), k2) \<and>
    vmm_kern_alloc k2 = Inr (page_addr P (m + 25), k3) \<and> space_change I (frames_of fs) (page_map P m fs) st' k k3 \<and>
    task_dir (fs ! 24) k3 \<and> free_pages (task_pool (page_addr P m)) (vmem k3) = {..<0xC0000}"
proof -
  have P: "P = kpool (kern_bitmap k)" unfolding P_def by (rule kspaceD(4) [OF k])
  obtain st1 where st1: "take_frames 24 (pm k) = Some (take 24 fs, st1)" "take_frames 2 st1 = Some (drop 24 fs, st')"
    using take_frames_add [of 24 2 "pm k"] fs(1) by auto
  define gs where "gs = take 24 fs"
  have "take_frames (Suc (Suc 0)) st1 = Some (drop 24 fs, st')" using st1(2) by (simp only: eval_nat_numeral) simp
  then obtain a st2 b where a: "pmm_alloc_one_page st1 = Inr (a, st2)" "a_state a \<noteq> 0" and b: "pmm_alloc_one_page st2 = Inr (b, st')" "a_state b \<noteq> 0"
    and dr: "drop 24 fs = [page_base (a_addr a), page_base (a_addr b)]"
    by (auto elim!: take_frames_SucD simp del: take_frames.simps(2))
  define p q where "p = page_base (a_addr a)" and "q = page_base (a_addr b)"
  have F: "fs = gs @ [p, q]" using append_take_drop_id [of 24 fs] dr by (simp add: gs_def p_def q_def)
  have lg: "length gs = 24" using take_frames_length [OF st1(1)] by (simp add: gs_def)
  have base: "\<forall>f\<in>set fs. page_base f = f" using take_frames_base [OF fs(1)] by blast
  have ff: "free_frames I k gs" "distinct fs" "\<forall>f\<in>set fs. off_tables (frame f) k \<and> frame f \<inter> I = {}"
    using fs(2) by (auto simp: free_frames_def F)
  have bound: "m + 26 \<le> 262144" "m + 24 \<le> 16384" using m(3) by simp_all
  have "{m..<m + 24} \<subseteq> kfree k" using m(2) by auto
  from task_bitmap_run [OF k m(1) this bound(2), of gs st1] obtain k1 where
    k1: "create_user_task_bitmap k = Inr (task_pool (page_addr P m), k1)" "space_change I (frames_of gs) (page_map P m gs) st1 k k1"
    "free_pages (task_pool (page_addr P m)) (vmem k1) = {..<0xC0000}"
    using st1(1) ff(1) unfolding P_def gs_def by blast
  note c1 = space_changeD [OF k1(2)]
  have fin: "finite (kfree k)" by (rule free_pages_finite)
  have f1: "kfree k1 = kfree k - {m..<m + 24}" using change_kfree [OF k k1(2) [unfolded P_def]] lg bound by simp
  have "{m..m + 24} \<subseteq> kfree k" using m(2) by auto
  note min1 = Min_rest [OF fin m(1) this, folded f1]
  have pool1: "kern_vmm_pool k1 = P" using mem_only_fields(6) [OF c1(2)] by (simp add: P_def)
  have "off_tables (frame (a_addr a)) k1" "frame (a_addr a) \<inter> I = {}"
    using ff(3) space_change_off [OF k1(2)] frame_base [of "a_addr a"] by (simp_all add: F p_def)
  from create_user_task_pdt_full [OF c1(1) _ _ _ a(2) this] obtain k2 where
    k2: "create_user_task_pdt k1 = Inr (page_addr P (m + 24), k2)" "space_change I (frame p) [page_addr P (m + 24) \<mapsto> p] st2 k1 k2" "task_dir p k2"
    using a(1) c1(3) min1 m(3) unfolding pool1 p_def by auto
  note c2 = space_changeD [OF k2(2)]
  have c12: "space_change I (frames_of (gs @ [p])) (page_map P m (gs @ [p])) st2 k k2"
    using space_change_trans [OF k1(2) k2(2)] lg by (simp add: page_map_append page_map_Cons Un_commute)
  have f2: "kfree k2 = kfree k - {m..<m + 25}" using change_kfree [OF k c12 [unfolded P_def]] lg bound by simp
  have "{m..m + 25} \<subseteq> kfree k" using m(2) by auto
  note min2 = Min_rest [OF fin m(1) this, folded f2]
  have pool2: "kern_vmm_pool k2 = P" using mem_only_fields(6) [OF c2(2)] pool1 by simp
  from alloc_taken [OF c2(1) _ _ _ b(2)] obtain k3 where
    k3: "vmm_kern_alloc k2 = Inr (page_addr P (m + 25), k3)" "space_change I {} [page_addr P (m + 25) \<mapsto> q] st' k2 k3"
    using b(1) c2(3) min2 m(3) unfolding pool2 q_def by auto
  have c13: "space_change I (frames_of (gs @ [p])) (page_map P m fs) st' k k3"
    using space_change_trans [OF c12 k3(2)] lg by (simp add: F page_map_append page_map_Cons add.commute [of 25 m])
  then have all: "space_change I (frames_of fs) (page_map P m fs) st' k k3" by (auto simp: space_change_def F)
  have offp: "off_tables (frame p) k2" "frame p \<inter> I = {}" using ff(3) space_change_off [OF c12] by (simp_all add: F)
  have dir: "task_dir p k3" by (rule task_dir_step [OF k2(3) k3(2) offp(1)]) (use offp(2) in simp)
  have c23: "space_change I (frame p) (page_map P (m + 24) [p, q]) st' k1 k3"
    using space_change_trans [OF k2(2) k3(2)] by (simp add: page_map_Cons add.commute [of 25 m])
  have "free_pages (task_pool (page_addr P m)) (vmem k3) = free_pages (task_pool (page_addr P m)) (vmem k1)"
  proof (rule pool_kept [OF c23])
    show "off_tables (frames_of gs) k1" using ff(3) space_change_off [OF k1(2)] by (simp add: off_frames F)
    have "frames_of gs \<inter> frames_of [p, q] = {}" by (rule frames_disjoint) (use base ff(2) in \<open>auto simp: F\<close>)
    then show "frames_of gs \<inter> (I \<union> frame p) = {}" using ff(3) by (auto simp: F)
    fix v assume "v \<in> bitmap_bytes (task_pool (page_addr P m))"
    then have v: "v \<in> span (page_addr P m) 0x18000" by (simp only: task_pool_bytes)
    have g: "m + length gs \<le> 16384" "0x18000 \<le> 4096 * (24 :: nat)" "24 \<le> length gs" "\<forall>f\<in>set gs. page_base f = f" "distinct gs" "take 24 gs = gs"
      using bound lg base ff(2) by (auto simp: F)
    note w = page_map_stable(2,3,4) [OF k1(2) [unfolded P] g(1-5) v [unfolded P], unfolded g(6)]
    obtain j where j: "j < 24" "page_base v = page_addr P (m + j)" using w(2) lg P by auto
    have "page_map P (m + 24) [p, q] (page_base (prim v)) = None"
      unfolding w(3) j(2) P by (rule page_map_None) (use j(1) bound in auto)
    then show "(\<exists>q\<in>frames_of gs. translate k1 v = Some q) \<and> page_map P (m + 24) [p, q] (page_base (prim v)) = None" using w(1) by blast
  qed
  then have "free_pages (task_pool (page_addr P m)) (vmem k3) = {..<0xC0000}" using k1(3) by simp
  moreover have "fs ! 24 = p" using lg by (simp add: F nth_append)
  ultimately show ?thesis using k1(1) k2(1) k3(1) all dir by blast
qed

section \<open>The address space of the task\<close>

text \<open>
  When the processor uses the new directory, the invariant of the address space of a task holds, with the frames of
  its bitmap and its pool.
\<close>

lemma task_space:
  assumes k: "kspace I k" and c: "space_change I J (page_map (kern_vmm_pool k) m fs) st k y" and n: "24 < length fs" "{m..<m + length fs} \<subseteq> kfree k" "m + length fs \<le> 16384"
    and ff: "free_frames I k fs" "\<forall>f\<in>set fs. page_base f = f" and d: "task_dir (fs ! 24) y"
  defines "P \<equiv> kern_vmm_pool k" and "u \<equiv> y\<lparr>cr3 := fs ! 24\<rparr>"
  shows "user_space I (frames_of (take 24 fs)) (task_pool (page_addr P m)) (page_addr P (m + 24)) u"
    "ufree (task_pool (page_addr P m)) u = ufree (task_pool (page_addr P m)) y" "v < 0xC0000000 \<Longrightarrow> translate u v = None"
proof -
  let ?p = "fs ! 24" and ?d = "page_addr P (m + 24)" and ?J = "frames_of (take 24 fs)" and ?pool = "task_pool (page_addr P m)"
  have P: "P = kpool (kern_bitmap k)" unfolding P_def by (rule kspaceD(4) [OF k])
  note cD = space_changeD [OF c]
  note sp = new_space [OF d, folded u_def]
  show "v < 0xC0000000 \<Longrightarrow> translate u v = None" by (rule sp(2))
  have bound: "m + length fs \<le> 255 * 1024" and bound': "m + length fs \<le> 262144" using n(3) by simp_all
  have fr: "kfree y = kfree k - {m..<m + length fs}" by (rule change_kfree [OF k c bound'])
  have kb: "kern_bitmap y = kern_bitmap k" "kern_vmm_pool y = P" using mem_only_fields(5,6) [OF cD(2)] by (simp_all add: P_def)
  have p: "?p \<in> set fs" "page_base ?p = ?p" using n(1) ff(2) by simp_all
  have off: "off_tables (frame f) y" "frame f \<inter> I = {}" if "f \<in> set fs" for f
    using ff(1) that space_change_off [OF c] by (auto simp: free_frames_def)
  have sub: "set (take 24 fs) \<subseteq> set fs" by (rule set_take_subset)
  have J: "off_tables ?J y" "?J \<inter> I = {}" using off sub unfolding off_frames by blast+
  have "distinct (take 24 fs @ [?p])"
  proof -
    have "take 25 fs = take 24 fs @ [?p]" using take_Suc_conv_app_nth [OF n(1)] by simp
    then show ?thesis using ff(1) distinct_take [of fs 25] by (simp add: free_frames_def)
  qed
  then have "?J \<inter> frames_of [?p] = {}" by (intro frames_disjoint) (use sub ff(2) p(2) in auto)
  then have Jp: "frame ?p \<inter> ?J = {}" by auto
  note kn = new_kspace [OF cD(1) d off(1) off(2), OF p(1) p(1), folded u_def]
  note kJ = new_kspace(3) [OF cD(1) d off(1) off(2), OF p(1) p(1), folded u_def, OF J(1) Jp]
  have pg: "page_index P (page_addr P (m + j)) = m + j" "page_base (page_addr P (m + j)) = page_addr P (m + j)"
    "0xC0000000 \<le> page_addr P (m + j)" "drop_bit 22 (page_addr P (m + j)) \<noteq> 0x3FF" "m + j \<notin> kfree y"
    "page_addr P (m + j) < 0xC4000000" "prim (page_addr P (m + j)) = page_addr P (m + j)" if "j < length fs" for j
  proof -
    have b: "m + j < 8 * unat (bm_length (kpool (kern_bitmap k)))" using that bound' by simp
    note ix = page_index_addr [OF kpool_wf b, folded P]
    show "page_index P (page_addr P (m + j)) = m + j" "page_base (page_addr P (m + j)) = page_addr P (m + j)" using ix by blast+
    have "page_index (kpool (kern_bitmap k)) (page_addr P (m + j)) < 255 * 1024" using ix(1) that bound unfolding P by simp
    note t = pool_target [OF k ix(2) [unfolded P] this [unfolded P], folded P]
    show "0xC0000000 \<le> page_addr P (m + j)" "drop_bit 22 (page_addr P (m + j)) \<noteq> 0x3FF" using t by blast+
    show "m + j \<notin> kfree y" using fr that by auto
    have "m + j < 16384" using that n(3) by simp
    note q = page_addr_primary [OF this, of "kern_bitmap k", folded P]
    show "page_addr P (m + j) < 0xC4000000" "prim (page_addr P (m + j)) = page_addr P (m + j)" by (fact q)+
  qed
  note d24 = pg [OF n(1)]
  have dir: "translate u v = Some (page_base ?p OR (v AND 0xFFF))" if v: "page_base v = ?d" for v
  proof -
    have "drop_bit 22 v = drop_bit 22 ?d" using page_fields [of v ?d] v d24(2) by simp
    moreover have "?d \<le> v" using page_base_le [of v] v by simp
    moreover have "translate y v = Some (?p OR (v AND 0xFFF))"
      using cD(7) [of v] page_map_get [OF bound' n(1), of "kern_bitmap k"] v prim_own_page [OF d24(7), of v] d24(2)
      by (simp add: P_def [symmetric] P [symmetric])
    ultimately show ?thesis using sp(3) [of v] d24(3,4) p(2) by (simp add: order_trans [OF d24(3)])
  qed
  have "0x18000 \<le> 4096 * (24 :: nat)" "24 \<le> length fs" "distinct fs" using n(1) ff(1) by (simp_all add: free_frames_def)
  note w = page_map_stable [OF c [folded P_def, unfolded P] n(3) this(1,2) ff(2) this(3), folded P, folded task_pool_bytes]
  have same: "translate u v = translate y v" "0xC0000000 \<le> v" "page_index P v \<notin> kfree u" "v < 0xC4000000"
    if v: "v \<in> bitmap_bytes ?pool" for v
  proof -
    obtain j where j: "j < 24" "page_base v = page_addr P (m + j)" using w(3) [OF v] by blast
    have jl: "j < length fs" using j(1) n(1) by simp
    show h: "0xC0000000 \<le> v" using order_trans [OF pg(3) [OF jl]] page_base_le [of v] j(2) by simp
    have "drop_bit 12 v = drop_bit 12 (page_addr P (m + j))" using page_fields [of v "page_addr P (m + j)"] j(2) pg(2) [OF jl] by simp
    then have "unat v div 4096 = unat (page_addr P (m + j)) div 4096" by (simp add: drop_bit_eq_div word_unat_eq_iff unat_div)
    moreover have "unat (page_addr P (m + j)) div 4096 < 0xC4000"
      using pg(6) [OF jl] by (simp add: word_less_nat_alt div_less_iff_less_mult)
    ultimately have "unat v div 4096 < 0xC4000" by simp
    then show "v < 0xC4000000" by (simp add: word_less_nat_alt div_less_iff_less_mult)
    have "drop_bit 22 v = drop_bit 22 (page_addr P (m + j))"
      using page_fields [of v "page_addr P (m + j)"] j(2) pg(2) [OF jl] by simp
    then show "translate u v = translate y v" using sp(3) [OF h] pg(4) [OF jl] by simp
    have "page_index P v = page_index P (page_base v)" by (simp add: page_index_def)
    then show "page_index P v \<notin> kfree u" using j(2) pg(1,5) [OF jl] kn(2) by simp
  qed
  have ku: "kern_vmm_pool u = P" using kb(2) by (simp add: u_def)
  have in_u: "inj_on (translate u) (bitmap_bytes ?pool)" using w(1) same(1) by (simp add: inj_on_def)
  have cu: "cr3 u = ?p" by (simp add: u_def)
  have at_u: "(\<exists>q\<in>?J. translate u v = Some q) \<and> 0xC0000000 \<le> v \<and> v < 0xC4000000 \<and> page_index P v \<notin> kfree u" if v: "v \<in> bitmap_bytes ?pool" for v
    using w(2) [OF v] same [OF v] by simp
  have pl: "wf_bitmap ?pool" "bm_length ?pool = 0x18000" "target_addr_header ?pool = 0"
    by (simp_all add: task_pool_def wf_bitmap_def page_base_def)
  have "page_index P ?d \<notin> kfree u" using d24(1,5) kn(2) by simp
  then show "user_space I ?J ?pool ?d u"
    unfolding user_space_def ku cu using kn(1) d24(2,3,6) dir pl kJ J(2) in_u at_u by blast
  show "ufree ?pool u = ufree ?pool y"
  proof (rule free_pages_cong)
    fix v assume "v \<in> bitmap_bytes ?pool"
    then have "translate u v = translate y v" by (rule same(1))
    then show "vmem u v = vmem y v" by (simp add: vmem_def) (simp add: u_def)
  qed
qed

section \<open>A task that is ready to be loaded\<close>

text \<open>
  \<open>task_ready I J pool d p k\<close>: in the machine \<open>k\<close>, which uses another directory, the page \<open>d\<close> in frame \<open>p\<close> holds
  the directory of a task with the pool \<open>pool\<close> in the bytes \<open>J\<close>, all pages of the pool free.
\<close>

definition task_ready :: "uint32 set \<Rightarrow> uint32 set \<Rightarrow> bitmap \<Rightarrow> uint32 \<Rightarrow> uint32 \<Rightarrow> kernel \<Rightarrow> bool" where
  "task_ready I J pool d p k \<longleftrightarrow> kspace I k \<and> 0xC0000000 \<le> d \<and> translate k d = Some p \<and> task_dir p k \<and>
     off_tables (frame p) k \<and> frame p \<inter> I = {} \<and> user_space I J pool d (k\<lparr>cr3 := p\<rparr>) \<and> ufree pool (k\<lparr>cr3 := p\<rparr>) = {..<0xC0000}"

lemma task_ready_cong:
  assumes "pmem k' = pmem k" "cr3 k' = cr3 k" "kern_vmm_pool k' = kern_vmm_pool k" "kern_bitmap k' = kern_bitmap k"
  shows "task_ready I J pool d p k' = task_ready I J pool d p k"
proof -
  let ?k' = "k'\<lparr>cr3 := p\<rparr>" and ?k = "k\<lparr>cr3 := p\<rparr>"
  have e: "pmem ?k' = pmem ?k" "cr3 ?k' = cr3 ?k" "kern_vmm_pool ?k' = kern_vmm_pool ?k" "kern_bitmap ?k' = kern_bitmap ?k"
    using assms by simp_all
  have "task_dir p k' = task_dir p k" using assms(1) same_mmu(1) [OF assms(1,2)] by (simp add: task_dir_def)
  then show ?thesis
    using same_space(1,2,4) [OF assms] user_space_cong [OF e] same_mmu(5) [OF e(1,2)] by (simp add: task_ready_def)
qed

lemma task_v2p:
  assumes "task_ready I J pool d p k"
  shows "vmm_v2p d k = Inr p" "p \<noteq> V2P_ERROR"
proof -
  have r: "kspace I k" "0xC0000000 \<le> d" "translate k d = Some p" "page_base p = p"
    using assms by (simp_all add: task_ready_def task_dir_def)
  show "vmm_v2p d k = Inr p" using vmm_v2p_run [OF kspaceD(5) [OF r(1)] kspaceD(3) [OF r(1,2)]] r(3) by blast
  show "p \<noteq> V2P_ERROR" using r(4) by (auto simp: page_base_def)
qed

text \<open>The machine once the directory is loaded.\<close>

lemma task_loaded:
  assumes t: "task_ready I J pool d p k"
    and x: "pmem x = pmem k" "cr3 x = p" "kern_vmm_pool x = kern_vmm_pool k" "kern_bitmap x = kern_bitmap k"
  shows "user_space I J pool d x" "ufree pool x = {..<0xC0000}" "kfree x = kfree k"
    "v < 0xC0000000 \<Longrightarrow> translate x v = None" "v < 0xC0000000 \<Longrightarrow> \<not> mapped_dir x v"
    "off_tables Q k \<Longrightarrow> frame p \<inter> Q = {} \<Longrightarrow> off_tables Q x"
    "0xC0000000 \<le> v \<Longrightarrow> drop_bit 22 v \<noteq> 0x3FF \<Longrightarrow> load8 v x = load8 v k"
proof -
  let ?k = "k\<lparr>cr3 := p\<rparr>"
  have r: "kspace I k" "task_dir p k" "off_tables (frame p) k" "frame p \<inter> I = {}" "user_space I J pool d ?k" "ufree pool ?k = {..<0xC0000}"
    using t by (simp_all add: task_ready_def)
  have e: "pmem x = pmem ?k" "cr3 x = cr3 ?k" "kern_vmm_pool x = kern_vmm_pool ?k" "kern_bitmap x = kern_bitmap ?k" using x by simp_all
  note s = same_space [OF e] and m = same_mmu [OF e(1,2)] and n = new_kspace [OF r(1-4)] and sp = new_space [OF r(2)]
  show "user_space I J pool d x" using user_space_cong [OF e] r(5) by simp
  show "ufree pool x = {..<0xC0000}" using m(5) r(6) by simp
  show "kfree x = kfree k" using s(3) n(2) by simp
  show "v < 0xC0000000 \<Longrightarrow> translate x v = None" using s(2) sp(2) by simp
  show "off_tables Q k \<Longrightarrow> frame p \<inter> Q = {} \<Longrightarrow> off_tables Q x" using s(4) n(3) by simp
  show "\<not> mapped_dir x v" if "v < 0xC0000000"
  proof -
    have "drop_bit 22 v \<noteq> 0x3FF" by (rule user_dir [OF that])
    then show ?thesis using new_pde [OF r(2), of v] that m(1) by (simp add: mapped_dir_def)
  qed
  show "load8 v x = load8 v k" if "0xC0000000 \<le> v" "drop_bit 22 v \<noteq> 0x3FF"
    using s(2) sp(3) [OF that] x(1) by (simp add: load8_def trE_def split: option.splits)
qed

section \<open>Creating the task\<close>

lemma create_user_task_run:
  assumes k: "kspace I k" and m: "m = Min (kfree k)" "{m..<m + 26} \<subseteq> kfree k" "m + 26 \<le> 16384"
    and fs: "take_frames 26 (pm k) = Some (fs, st')" "free_frames I k fs"
    and th: "ring (nextt k) (cur_tcb k) xs" "T \<notin> set (cur_tcb k # xs)" and T: "T = page_addr (kern_vmm_pool k) (m + 25)"
  defines "pool \<equiv> task_pool (page_addr (kern_vmm_pool k) m)" and "d \<equiv> page_addr (kern_vmm_pool k) (m + 24)"
  shows "\<exists>k'. create_user_task i args start exit_addr k = Inr k' \<and> kfree k' = kfree k - {m..<m + 26} \<and> pm k' = st' \<and>
    USER_PAGE_DIR_IS_LOADED k' = USER_PAGE_DIR_IS_LOADED k \<and>
    ring (nextt k') (cur_tcb k) (T # xs) \<and> cur_tcb k' = cur_tcb k \<and> tcb k' (cur_tcb k) = (tcb k (cur_tcb k))\<lparr>t_next := T\<rparr> \<and>
    int_flag k' \<and> status k' T = TASK_READY \<and> tid (tcb k' T) = i \<and>
    \<not> is_kern_thread (tcb k' T) \<and> user_vmm_pool (tcb k' T) = pool \<and> pdt_vaddr (tcb k' T) = d \<and> page_counte (tcb k' T) = 1 \<and>
    c_eflags (t_context (tcb k' T)) = 0x202 \<and> c_esp (t_context (tcb k' T)) = T + 4084 \<and>
    load32 (T + 4084) k' = Inr start \<and> load32 (T + 4088) k' = Inr exit_addr \<and> load32 (T + 4092) k' = Inr args \<and>
    task_ready I (frames_of (take 24 fs)) pool d (fs ! 24) k' \<and> (\<forall>Q. off_tables Q k \<longrightarrow> off_tables Q k')"
proof -
  let ?P = "kern_vmm_pool k" and ?p = "fs ! 24" and ?q = "fs ! 25"
  have kp: "?P = kpool (kern_bitmap k)" by (rule kspaceD(4) [OF k])
  obtain k1 k2 k3 where k1: "create_user_task_bitmap k = Inr (pool, k1)" and k2: "create_user_task_pdt k1 = Inr (d, k2)"
    and k3: "vmm_kern_alloc k2 = Inr (T, k3)" "space_change I (frames_of fs) (page_map ?P m fs) st' k k3" "task_dir ?p k3"
      "free_pages pool (vmem k3) = {..<0xC0000}"
    using task_pages_run [OF k m fs] unfolding pool_def d_def T by blast
  have len: "length fs = 26" and base: "\<forall>f\<in>set fs. page_base f = f" using take_frames_length [OF fs(1)] take_frames_base [OF fs(1)] by auto
  have n: "24 < length fs" "25 < length fs" "{m..<m + length fs} \<subseteq> kfree k" "m + length fs \<le> 16384" using len m(2,3) by simp_all
  have bound: "m + length fs \<le> 262144" "m + 25 < 255 * 1024" using m(3) len by simp_all
  note c3 = space_changeD [OF k3(2)] and g3 = mem_only_fields [OF space_changeD(2) [OF k3(2)]]
  have pq: "?p \<in> set fs" "?q \<in> set fs" "page_base ?p = ?p" "page_base ?q = ?q" "?p \<noteq> ?q"
    using n base fs(2) by (auto simp: free_frames_def nth_eq_iff_index_eq)
  have off: "off_tables (frame f) k3" "frame f \<inter> I = {}" "off_tables (frame f) k" if "f \<in> set fs" for f
    using fs(2) that space_change_off [OF k3(2)] by (auto simp: free_frames_def)
  have pg: "page_base (page_addr ?P (m + j)) = page_addr ?P (m + j)" "0xC0000000 \<le> page_addr ?P (m + j)"
    "prim (page_addr ?P (m + j)) = page_addr ?P (m + j)" if "j \<le> 25" for j
  proof -
    have b: "m + j < 8 * unat (bm_length (kpool (kern_bitmap k)))" using that bound(2) by simp
    note ix = page_index_addr [OF kpool_wf b]
    show "page_base (page_addr ?P (m + j)) = page_addr ?P (m + j)" unfolding kp by (rule ix(3))
    show "0xC0000000 \<le> page_addr ?P (m + j)" unfolding kp by (rule pool_target(1) [OF k ix(2)]) (use ix(1) that bound(2) in simp)
    show "prim (page_addr ?P (m + j)) = page_addr ?P (m + j)" unfolding kp by (rule page_addr_primary(3)) (use that m(3) in simp)
  qed
  have fT: "fresh_page I T ?q k3"
    by (rule change_fresh [OF k3(2)]) (use page_map_get [OF bound(1) n(2), of "kern_bitmap k"] pg [of 25] off(2,3) [OF pq(2)] pq(4) in \<open>simp_all add: T kp\<close>)
  have ring3: "ring (nextt k3) (cur_tcb k3) xs" "T \<notin> set (cur_tcb k3 # xs)" using th g3(1,2) by simp_all
  obtain k' where k': "create_thread i start args T 1 False pool d exit_addr k3 = Inr k'" "ring (nextt k') (cur_tcb k') (T # xs)"
    "cur_tcb k' = cur_tcb k3" "int_flag k'" "status k' T = TASK_READY" "tid (tcb k' T) = i" "\<not> is_kern_thread (tcb k' T)"
    "c_eflags (t_context (tcb k' T)) = 0x202" "c_esp (t_context (tcb k' T)) = T + 1 * PAGE_SIZE - 12" "load32 (T + 1 * PAGE_SIZE - 12) k' = Inr start"
    "load32 (T + 1 * PAGE_SIZE - 8) k' = Inr exit_addr" "load32 (T + 1 * PAGE_SIZE - 4) k' = Inr args" "page_counte (tcb k' T) = 1"
    "user_vmm_pool (tcb k' T) = pool" "pdt_vaddr (tcb k' T) = d"
    "rest_of (frame ?q) (k'\<lparr>tcb := tcb k3, int_flag := int_flag k3\<rparr>) = rest_of (frame ?q) k3"
    "tcb k' (cur_tcb k3) = (tcb k3 (cur_tcb k3))\<lparr>t_next := T\<rparr>"
    using create_thread_run [OF ring3 refl fresh_stack [OF fT], of i start args False pool d exit_addr] by blast
  define y where "y = k'\<lparr>tcb := tcb k3, int_flag := int_flag k3\<rparr>"
  have w: "space_change I (frame ?q) Map.empty st' k3 y"
    using space_change_write [OF c3(1) off(1,2) [OF pq(2)] k'(16)] c3(3) by (simp add: y_def)
  have "frames_of fs \<union> frame ?q = frames_of fs" using pq(2) by blast
  then have all: "space_change I (frames_of fs) (page_map ?P m fs) st' k y" using space_change_trans [OF k3(2) w] by simp
  have "frame ?p \<inter> frame ?q = {}" using pq(3-5) by (auto simp: frame_def)
  then have dir: "task_dir ?p y" using off(2) [OF pq(1)] by (intro task_dir_step [OF k3(3) w off(1) [OF pq(1)]]) blast
  have d24: "distinct fs" "0x18000 \<le> 4096 * (24 :: nat)" "24 \<le> length fs" using fs(2) len by (simp_all add: free_frames_def)
  have bits: "ufree pool y = {..<0xC0000}"
  proof -
    have "free_pages pool (vmem y) = free_pages pool (vmem k3)"
    proof (rule pool_kept [OF w])
      have sub: "set (take 24 fs) \<subseteq> set fs" by (rule set_take_subset)
      show "off_tables (frames_of (take 24 fs)) k3" using off(1) sub unfolding off_frames by blast
      have "?q \<notin> set (take 24 fs)" using d24(1) n(2) by (auto simp: in_set_conv_nth nth_eq_iff_index_eq)
      then have "frame ?q \<inter> frames_of (take 24 fs) = {}" using base sub pq(4) by (auto simp: frame_def)
      then show "frames_of (take 24 fs) \<inter> (I \<union> frame ?q) = {}" using off(2) sub by blast
      fix v assume "v \<in> bitmap_bytes pool"
      then have v: "v \<in> span (page_addr (kpool (kern_bitmap k)) m) 0x18000" by (simp only: task_pool_bytes pool_def kp)
      then show "(\<exists>q\<in>frames_of (take 24 fs). translate k3 v = Some q) \<and> Map.empty (page_base (prim v)) = None"
        using page_map_stable(2) [OF k3(2) [unfolded kp] n(4) d24(2,3) base d24(1) v] by simp
    qed
    then show ?thesis using k3(4) by simp
  qed
  note ts = task_space [OF k all n(1,3,4) fs(2) base dir, folded pool_def d_def]
  have eq: "pmem k' = pmem y" "cr3 k' = cr3 y" "kern_vmm_pool k' = kern_vmm_pool y" "kern_bitmap k' = kern_bitmap y" "pm k' = pm y"
    "USER_PAGE_DIR_IS_LOADED k' = USER_PAGE_DIR_IS_LOADED y" by (simp_all add: y_def)
  note ss = same_space [OF eq(1-4)]
  have ki: "kspace I k'" using ss(1) space_changeD(1) [OF all] by simp
  have run: "create_user_task i args start exit_addr k = Inr k'"
  proof -
    have "d \<noteq> 0xFFFFFFFF" "T \<noteq> 0xFFFFFFFF" using pg(1) [of 24] pg(1) [of 25] by (auto simp: d_def T page_base_def)
    then show ?thesis using k1 k2 k3(1) k'(1) by (simp add: create_user_task_def)
  qed
  have "translate k' d = Some ?p"
  proof -
    have "d AND 0xFFF = 0" using page_offset(2) [OF pg(1) [of 24], of 0] by (simp add: d_def)
    then show ?thesis
      using ss(2) space_changeD(7) [OF all, of d] page_map_get [OF bound(1) n(1), of "kern_bitmap k"] pg(1,3) [of 24] by (simp add: d_def kp)
  qed
  then have "task_ready I (frames_of (take 24 fs)) pool d ?p y"
    unfolding task_ready_def
    using space_changeD(1) [OF all] pg(2) [of 24] ss(2) dir off(2,3) [OF pq(1)] space_change_off [OF all] ts(1,2) bits by (simp add: d_def)
  then have tr: "task_ready I (frames_of (take 24 fs)) pool d ?p k'" using task_ready_cong [OF eq(1-4)] by simp
  have kf: "kfree k' = kfree k - {m..<m + 26}" using ss(3) change_kfree [OF k all bound(1)] len by simp
  have offs: "\<forall>Q. off_tables Q k \<longrightarrow> off_tables Q k'" using ss(4) space_change_off [OF all] by simp
  have ck: "cur_tcb k' = cur_tcb k" "pm k' = st'" "USER_PAGE_DIR_IS_LOADED k' = USER_PAGE_DIR_IS_LOADED k"
    "tcb k' (cur_tcb k) = (tcb k (cur_tcb k))\<lparr>t_next := T\<rparr>"
    using k'(3,17) g3(1,2) eq(5,6) space_changeD(3) [OF all] mem_only_fields(3) [OF space_changeD(2) [OF all]] by simp_all
  have e: "T + 1 * PAGE_SIZE - 12 = T + 4084" "T + 1 * PAGE_SIZE - 8 = T + 4088" "T + 1 * PAGE_SIZE - 4 = T + 4092" by simp_all
  show ?thesis
    using run kf ck k'(2,4-8,13-15) k'(9-12) [unfolded e] tr offs by (intro exI [of _ k']) simp
qed

section \<open>Running the task\<close>

text \<open>The scheduler starts a user task that is the next ready thread: it loads the directory of the task.\<close>

lemma schedule_user:
  assumes ring: "ring (nextt k) (cur_tcb k) (T # xs)" and c0: "cur_tcb k \<noteq> 0" and mg: "check_kern_stack_overflow (cur_tcb k) k"
    and t: "status k T = TASK_READY" "\<not> is_kern_thread (tcb k T)" "pdt_vaddr (tcb k T) = d" and r: "task_ready I J pool d p k"
  shows "\<exists>x. schedule k = Inr (True, x) \<and> cur_tcb x = T \<and> pmem x = pmem k \<and> cr3 x = p \<and> kern_vmm_pool x = kern_vmm_pool k \<and>
    kern_bitmap x = kern_bitmap k \<and> pm x = pm k \<and> USER_PAGE_DIR_IS_LOADED x = USER_PAGE_DIR_IS_LOADED k \<and>
    regs x = t_context (tcb k T) \<and> status x T = TASK_RUNNING \<and> \<not> is_kern_thread (tcb x T) \<and>
    user_vmm_pool (tcb x T) = user_vmm_pool (tcb k T) \<and> pdt_vaddr (tcb x T) = d \<and>
    tss_esp0 (tss_cpu0 x) = T + page_counte (tcb k T) * PAGE_SIZE"
proof -
  let ?c = "cur_tcb k"
  have Tc: "T \<noteq> ?c" using ring by (auto simp: ring_def)
  define k1 where "k1 = (if status k ?c = TASK_RUNNING then upd_tcb ?c (\<lambda>t. t\<lparr>task_status := TASK_READY\<rparr>) k else k)"
  define k3 where "k3 = (upd_tcb T (\<lambda>t. t\<lparr>task_status := TASK_RUNNING, time_left := TIME_CONT\<rparr>) k1)\<lparr>cur_tcb := T\<rparr>"
  have e: "pmem k3 = pmem k" "cr3 k3 = cr3 k" "kern_vmm_pool k3 = kern_vmm_pool k" "kern_bitmap k3 = kern_bitmap k"
    by (simp_all add: k3_def k1_def upd_tcb_def)
  have f3: "\<not> is_kern_thread (tcb k3 T)" "pdt_vaddr (tcb k3 T) = d" "user_vmm_pool (tcb k3 T) = user_vmm_pool (tcb k T)"
    "t_context (tcb k3 T) = t_context (tcb k T)" "status k3 T = TASK_RUNNING" "page_counte (tcb k3 T) = page_counte (tcb k T)"
    "cur_tcb k3 = T" "pm k3 = pm k" "USER_PAGE_DIR_IS_LOADED k3 = USER_PAGE_DIR_IS_LOADED k"
    using t(2,3) Tc by (simp_all add: k3_def k1_def) (simp_all add: upd_tcb_def)
  note v = task_v2p [OF task_ready_cong [OF e, THEN iffD2, OF r]]
  have "active_task T k3 = Inr (tss_update T (active_pdt p k3))"
    using f3(1,2) v by (simp add: active_task_def)
  moreover have "find_ready (nextt k) (\<lambda>p. status k p = TASK_READY) ?c ?c = Some T"
    using find_ready_ring [OF ring, of "\<lambda>p. status k p = TASK_READY"] t(1) by simp
  moreover note f3(7)
  ultimately have "schedule k = Inr (True, switch_to ?c T (tss_update T (active_pdt p k3)))"
    using c0 mg Tc
    by (simp only: schedule_def get_running_progress_def Let_def loopE_Some bindE_Inr if_True if_False not_True_eq_False
        simp_thms flip: k1_def k3_def)
  then show ?thesis
    using Tc f3 e
    by (intro exI [of _ "switch_to ?c T (tss_update T (active_pdt p k3))"])
      (simp add: switch_to_def Let_def outb_def tss_update_def active_pdt_def upd_tcb_def)
qed

text \<open>A word of the kernel half below the window reads the same in the address space of the task.\<close>

lemma task_load32:
  fixes x :: kernel
  assumes r: "task_ready I J pool d p k" and x: "pmem x = pmem k" "cr3 x = p" "kern_vmm_pool x = kern_vmm_pool k" "kern_bitmap x = kern_bitmap k"
    and t: "page_base t = t" "0xC0000000 \<le> t" "drop_bit 22 t \<noteq> 0x3FF" and n: "n + 3 < 4096"
  shows "load32 (t + of_nat n) x = load32 (t + of_nat n) k"
proof -
  have "load8 (t + of_nat j) x = load8 (t + of_nat j) k" if "j < 4096" for j
  proof -
    have b: "page_base (t + of_nat j) = t" by (rule page_offset(1) [OF t(1) that])
    then have "drop_bit 22 (t + of_nat j) = drop_bit 22 t" using page_fields [of "t + of_nat j" t] t(1) by simp
    moreover have "0xC0000000 \<le> t + of_nat j" using t(2) page_base_le [of "t + of_nat j"] b by simp
    ultimately show ?thesis using task_loaded(7) [OF r x, of "t + of_nat j"] t(3) by simp
  qed
  from this [of n] this [of "n + 1"] this [of "n + 2"] this [of "n + 3"] show ?thesis
    using n by (simp add: load32_def ac_simps)
qed

lemma user_task_run:
  assumes k: "kspace I k" and m: "m = Min (kfree k)" "{m..<m + 27} \<subseteq> kfree k" "m + 27 \<le> 16384"
    and fs: "take_frames 29 (pm k) = Some (fs, st')" "free_frames I k fs"
    and th: "ring (nextt k) (cur_tcb k) xs" "T \<notin> set (cur_tcb k # xs)" and T: "T = page_addr (kern_vmm_pool k) (m + 25)"
    and c: "cur_tcb k \<noteq> 0" "check_kern_stack_overflow (cur_tcb k) k" and on: "USER_PAGE_DIR_IS_LOADED k"
    and f: "\<not> is_from_file params" "function_f params \<noteq> 0"
  shows "\<exists>k1 k2 cpu k3. create_user_task i args start exit_addr k = Inr k1 \<and> schedule k1 = Inr (True, k2) \<and>
    cur_tcb k2 = T \<and> c_esp (regs k2) = T + 4084 \<and> load32 (T + 4084) k2 = Inr start \<and> load32 (T + 4092) k2 = Inr args \<and>
    tss_esp0 (tss_cpu0 k2) = T + PAGE_SIZE \<and> start_user_task params k2 = Inr (cpu, k3) \<and> cpu_eip cpu = function_f params \<and>
    cpu_cs cpu = 0x23 \<and> cpu_ss cpu = 0x2B \<and> cpu_esp cpu = 0xBFFFF000 \<and> int_flag k3 \<and>
    (\<forall>w < 0xC0000000. translate k3 w =
       (if page_base w = 0xBFFFE000 then Some (fs ! 28 OR (w AND 0xFFF))
        else if page_base w = 0xBFFFF000 then Some (fs ! 27 OR (w AND 0xFFF)) else None))"
proof -
  let ?P = "kern_vmm_pool k" and ?pool = "task_pool (page_addr (kern_vmm_pool k) m)" and ?d = "page_addr (kern_vmm_pool k) (m + 24)"
  let ?J = "frames_of (take 24 fs)"
  obtain st1 where st1: "take_frames 26 (pm k) = Some (take 26 fs, st1)" "take_frames 3 st1 = Some (drop 26 fs, st')"
    using take_frames_add [of 26 3 "pm k"] fs(1) by auto
  have "take_frames (Suc (Suc (Suc 0))) st1 = Some (drop 26 fs, st')" using st1(2) by (simp only: eval_nat_numeral) simp
  then obtain b0 s2 a0 s3 b1 where al: "pmm_alloc_one_page st1 = Inr (b0, s2)" "a_state b0 \<noteq> 0" "pmm_alloc_one_page s2 = Inr (a0, s3)"
    "a_state a0 \<noteq> 0" "pmm_alloc_one_page s3 = Inr (b1, st')" "a_state b1 \<noteq> 0"
    and dr: "drop 26 fs = [page_base (a_addr b0), page_base (a_addr a0), page_base (a_addr b1)]"
    by (auto elim!: take_frames_SucD simp del: take_frames.simps(2))
  have len: "length fs = 29" and base: "\<forall>f\<in>set fs. page_base f = f" using take_frames_length [OF fs(1)] take_frames_base [OF fs(1)] by auto
  have nth: "fs ! 26 = page_base (a_addr b0)" "fs ! 27 = page_base (a_addr a0)" "fs ! 28 = page_base (a_addr b1)"
    using dr len nth_drop [of 26 fs 0] nth_drop [of 26 fs 1] nth_drop [of 26 fs 2] by simp_all
  have "free_frames I k (take 26 fs)" using fs(2) set_take_subset [of 26 fs] by (auto simp: free_frames_def)
  moreover have "{m..<m + 26} \<subseteq> kfree k" "m + 26 \<le> 16384" using m(2,3) by auto
  moreover have t24: "take 24 (take 26 fs) = take 24 fs" "take 26 fs ! 24 = fs ! 24" by simp_all
  ultimately obtain k1 where k1: "create_user_task i args start exit_addr k = Inr k1" "kfree k1 = kfree k - {m..<m + 26}" "pm k1 = st1"
    "USER_PAGE_DIR_IS_LOADED k1 = USER_PAGE_DIR_IS_LOADED k" "ring (nextt k1) (cur_tcb k1) (T # xs)" "cur_tcb k1 = cur_tcb k"
    "tcb k1 (cur_tcb k) = (tcb k (cur_tcb k))\<lparr>t_next := T\<rparr>" "status k1 T = TASK_READY" "\<not> is_kern_thread (tcb k1 T)"
    "user_vmm_pool (tcb k1 T) = ?pool" "pdt_vaddr (tcb k1 T) = ?d" "page_counte (tcb k1 T) = 1" "c_esp (t_context (tcb k1 T)) = T + 4084"
    "load32 (T + 4084) k1 = Inr start" "load32 (T + 4092) k1 = Inr args" "task_ready I ?J ?pool ?d (fs ! 24) k1"
    "\<forall>Q. off_tables Q k \<longrightarrow> off_tables Q k1"
    using create_user_task_run [OF k m(1) _ _ st1(1) _ th T, of i args start exit_addr] by auto
  have c1: "cur_tcb k1 \<noteq> 0" "check_kern_stack_overflow (cur_tcb k1) k1" using c k1(6,7) by (simp_all add: check_kern_stack_overflow_def)
  obtain k2 where k2: "schedule k1 = Inr (True, k2)" "cur_tcb k2 = T" "pmem k2 = pmem k1" "cr3 k2 = fs ! 24" "kern_vmm_pool k2 = kern_vmm_pool k1"
    "kern_bitmap k2 = kern_bitmap k1" "pm k2 = st1" "USER_PAGE_DIR_IS_LOADED k2" "regs k2 = t_context (tcb k1 T)"
    "\<not> is_kern_thread (tcb k2 T)" "user_vmm_pool (tcb k2 T) = ?pool" "pdt_vaddr (tcb k2 T) = ?d" "tss_esp0 (tss_cpu0 k2) = T + PAGE_SIZE"
    using schedule_user [OF k1(5) c1 k1(8,9,11,16)] k1(3,4,10,12) on by auto
  note l = task_loaded [OF k1(16) k2(3-6)]
  have "m + 26 \<in> kfree k" using m(2) by auto
  then have bound: "m + 26 < 255 * 1024" by (rule kspaceD(6) [OF k])
  have kp: "?P = kpool (kern_bitmap k)" by (rule kspaceD(4) [OF k])
  have b: "m + 25 < 8 * unat (bm_length (kpool (kern_bitmap k)))" using bound by simp
  note ix = page_index_addr [OF kpool_wf b, folded kp, folded T]
  have pT: "page_base T = T" "0xC0000000 \<le> T" "drop_bit 22 T \<noteq> 0x3FF"
    using ix(3) pool_target(1,3) [OF k ix(2) [unfolded kp]] ix(1) bound unfolding kp by simp_all
  have ld: "load32 (T + 4084) k2 = Inr start" "load32 (T + 4092) k2 = Inr args"
    using task_load32 [OF k1(16) k2(3-6) pT, of 4084] task_load32 [OF k1(16) k2(3-6) pT, of 4092] k1(14,15) by simp_all
  have f26: "fs ! 26 \<in> set fs" "frame (fs ! 26) = frame (a_addr b0)" using len nth_mem [of 26 fs] by (simp_all add: nth(1))
  have ne: "fs ! 26 \<notin> set (take 24 fs)" "fs ! 26 \<noteq> fs ! 24"
    using fs(2) len by (auto simp: free_frames_def in_set_conv_nth nth_eq_iff_index_eq)
  have b26: "page_base (fs ! 26) = fs ! 26" "page_base (fs ! 24) = fs ! 24" using base len by simp_all
  have "frame (fs ! 24) \<inter> frame (a_addr b0) = {}" using ne(2) b26 unfolding f26(2) [symmetric] by (auto simp: frame_def)
  moreover have "off_tables (frame (a_addr b0)) k1" using fs(2) f26 k1(17) by (auto simp: free_frames_def)
  ultimately have off: "off_tables (frame (a_addr b0)) k2" by (intro l(6))
  have "frame (a_addr b0) \<inter> (I \<union> ?J) = {}"
  proof -
    have "frame (a_addr b0) \<inter> I = {}" using fs(2) f26 by (auto simp: free_frames_def)
    moreover have "frame (fs ! 26) \<inter> ?J = {}" using ne(1) b26(1) base set_take_subset [of 24 fs] by (auto simp: frame_def)
    ultimately show ?thesis using f26(2) by blast
  qed
  moreover have "m + 26 \<in> kfree k2" using \<open>m + 26 \<in> kfree k\<close> l(3) k1(2) by auto
  moreover from this have "kfree k2 \<noteq> {}" "Min (kfree k2) \<le> m + 26" using Min_le [OF free_pages_finite] by blast+
  moreover from this(2) have "Min (kfree k2) < 16384" using m(3) by simp
  ultimately have sup: "table_supply (I \<union> ?J) 0xBFFFF000 k2 s2" using l(5) [of "0xBFFFF000"] off al(1,2) k2(7) by (simp add: table_supply_def)
  have us: "user_space I ?J (user_vmm_pool (tcb k2 (cur_tcb k2))) (pdt_vaddr (tcb k2 (cur_tcb k2))) k2" using l(1) k2(2,11,12) by simp
  have fr: "{0xBFFFE, 0xBFFFF} \<subseteq> ufree (user_vmm_pool (tcb k2 (cur_tcb k2))) k2" using l(2) k2(2,11) by simp
  have nk: "\<not> is_kern_thread (tcb k2 (cur_tcb k2))" using k2(2,10) by simp
  from start_user_task_run [OF us k2(8) nk f fr sup al(3,4,5,6)] obtain cpu k3 where
    k3: "start_user_task params k2 = Inr (cpu, k3)" "cpu_eip cpu = function_f params" "cpu_cs cpu = 0x23" "cpu_ss cpu = 0x2B"
    "cpu_esp cpu = 0xBFFFF000" "int_flag k3"
    "\<forall>w < 0xC0000000. translate k3 w = (if page_base w = 0xBFFFE000 then Some (page_base (a_addr b1) OR (w AND 0xFFF))
       else if page_base w = 0xBFFFF000 then Some (page_base (a_addr a0) OR (w AND 0xFFF)) else translate k2 w)" by blast
  have "\<forall>w < 0xC0000000. translate k3 w = (if page_base w = 0xBFFFE000 then Some (fs ! 28 OR (w AND 0xFFF))
     else if page_base w = 0xBFFFF000 then Some (fs ! 27 OR (w AND 0xFFF)) else None)"
    using k3(7) l(4) unfolding nth by metis
  moreover have "c_esp (regs k2) = T + 4084" using k1(13) k2(9) by simp
  ultimately show ?thesis using k1(1) k2(1,2,13) ld k3(1-6) by blast
qed

end
