(* ===== verification/TaskRelease.thy ===== *)
theory TaskRelease
  imports TaskCreate
begin

text \<open>
  The release of the bitmap of a task, and the self test of the module, which creates and releases bitmaps: the virtual
  pages come back, the physical pages do not.
\<close>

lemma release_following_run:
  assumes "kspace I k" "m + n \<le> 16384" "\<forall>j<n. \<forall>v\<in>kbytes k. page_base v \<noteq> page_addr (kpool (kern_bitmap k)) (m + j)"
  shows "\<exists>k'. release_following n (page_addr (kpool (kern_bitmap k)) m) k = Inr k' \<and> kspace I k' \<and> pm k' = pm k \<and>
    kern_bitmap k' = kern_bitmap k \<and> kfree k' = kfree k \<union> {m..<m + n} \<and> pde_of k' = pde_of k \<and> cr3 k' = cr3 k"
  using assms
proof (induction n arbitrary: m k)
  case (Suc n)
  let ?t = "page_addr (kpool (kern_bitmap k)) m"
  have "m < 8 * unat (bm_length (kpool (kern_bitmap k)))" using Suc.prems(2) by simp
  note ix = page_index_addr [OF kpool_wf this]
  have own: "prim ?t = ?t" by (rule page_addr_primary(3)) (use Suc.prems(2) in simp)
  have "\<forall>v\<in>kbytes k. page_base v \<noteq> ?t" using Suc.prems(3) by (metis add_0_right zero_less_Suc)
  then have "page_index (kpool (kern_bitmap k)) ?t < 255 * 1024" "\<forall>v\<in>kbytes k. page_base (prim v) \<noteq> page_base (prim ?t)"
    using ix(1,3) Suc.prems(2) own kspaceD(12) [OF Suc.prems(1)] by simp_all
  from kern_release_run [OF Suc.prems(1) ix(2) this] obtain k1 where k1: "vmm_kern_release_one_page ?t k = Inr k1" "kspace I k1"
    "pm k1 = pm k" "kern_bitmap k1 = kern_bitmap k" "kfree k1 = insert m (kfree k)" "pde_of k1 = pde_of k" "cr3 k1 = cr3 k"
    unfolding ix(1) by blast
  have b: "Suc m + n \<le> 16384" using Suc.prems(2) by simp
  have "\<forall>j<n. \<forall>v\<in>kbytes k1. page_base v \<noteq> page_addr (kpool (kern_bitmap k1)) (Suc m + j)"
  proof (intro allI impI)
    fix j assume "j < n"
    then show "\<forall>v\<in>kbytes k1. page_base v \<noteq> page_addr (kpool (kern_bitmap k1)) (Suc m + j)"
      using Suc.prems(3) [rule_format, of "Suc j"] k1(4) by simp
  qed
  from Suc.IH [OF k1(2) b this] obtain k' where
    k': "release_following n (page_addr (kpool (kern_bitmap k1)) (Suc m)) k1 = Inr k'" "kspace I k'" "pm k' = pm k1"
    "kern_bitmap k' = kern_bitmap k1" "kfree k' = kfree k1 \<union> {Suc m..<Suc m + n}" "pde_of k' = pde_of k1" "cr3 k' = cr3 k1" by blast
  have "{m..<m + Suc n} = insert m {Suc m..<Suc m + n}" by auto
  then have "kfree k' = kfree k \<union> {m..<m + Suc n}" using k'(5) k1(5) by simp
  moreover have "release_following (Suc n) ?t k = Inr k'" using k1(1,4) k'(1) by (simp add: page_addr_Suc)
  moreover have "pm k' = pm k" "kern_bitmap k' = kern_bitmap k" "pde_of k' = pde_of k" "cr3 k' = cr3 k" using k'(3,4,6,7) k1(3,4,6,7) by simp_all
  ultimately show ?case using k'(2) by blast
qed simp

lemma off_tables_same: "pde_of k' = pde_of k \<Longrightarrow> cr3 k' = cr3 k \<Longrightarrow> off_tables A k' = off_tables A k"
  by (simp add: off_tables_def mapped_dir_def)

text \<open>One round of the test.\<close>

lemma bitmap_round_run:
  assumes k: "kspace I k" and m: "m = Min (kfree k)" "{m..<m + 24} \<subseteq> kfree k" "m + 24 \<le> 16384"
    and fs: "take_frames 24 (pm k) = Some (fs, st')" "free_frames I k fs"
  shows "\<exists>bm k1 k2. create_user_task_bitmap k = Inr (bm, k1) \<and> release_user_task_bitmap bm k1 = Inr k2 \<and> kspace I k2 \<and> pm k2 = st' \<and>
    kern_bitmap k2 = kern_bitmap k \<and> kfree k2 = kfree k \<and> pde_of k2 = pde_of k \<and> cr3 k2 = cr3 k"
proof -
  have kp: "kern_vmm_pool k = kpool (kern_bitmap k)" by (rule kspaceD(4) [OF k])
  let ?bm = "task_pool (page_addr (kern_vmm_pool k) m)"
  obtain k1 where k1: "create_user_task_bitmap k = Inr (?bm, k1)" "space_change I (frames_of fs) (page_map (kern_vmm_pool k) m fs) st' k k1"
    using task_bitmap_run [OF k m fs] by blast
  note c = space_changeD [OF k1(2)] and g = mem_only_fields [OF space_changeD(2) [OF k1(2)]]
  have len: "length fs = 24" by (rule take_frames_length [OF fs(1)])
  note b = m(3)
  have "m + length fs \<le> 262144" using b len by simp
  then have f1: "kfree k1 = kfree k - {m..<m + 24}" using change_kfree [OF k k1(2)] len by simp
  have "\<forall>j<24. \<forall>v\<in>kbytes k1. page_base v \<noteq> page_addr (kpool (kern_bitmap k1)) (m + j)"
  proof (intro allI impI)
    fix j :: nat assume j: "j < 24"
    then have "m + j < 8 * unat (bm_length (kpool (kern_bitmap k)))" using b by simp
    note ix = page_index_addr [OF kpool_wf this]
    have fj: "page_index (kpool (kern_bitmap k)) (page_addr (kpool (kern_bitmap k)) (m + j)) \<in> kfree k" using ix(1) m(2) j by auto
    have own: "prim (page_addr (kpool (kern_bitmap k)) (m + j)) = page_addr (kpool (kern_bitmap k)) (m + j)"
      by (rule page_addr_primary(3)) (use b j in simp)
    show "\<forall>v\<in>kbytes k1. page_base v \<noteq> page_addr (kpool (kern_bitmap k1)) (m + j)"
      using busy_not_bitmap [OF k fj own] ix(3) g(5) kspaceD(12) [OF k] own by simp
  qed
  from release_following_run [OF c(1) b this] obtain k2 where
    k2: "release_following 24 (page_addr (kpool (kern_bitmap k1)) m) k1 = Inr k2" "kspace I k2" "pm k2 = pm k1" "kern_bitmap k2 = kern_bitmap k1"
    "kfree k2 = kfree k1 \<union> {m..<m + 24}" "pde_of k2 = pde_of k1" "cr3 k2 = cr3 k1" by blast
  have "release_user_task_bitmap ?bm k1 = Inr k2" using k2(1) kp g(5) by (simp add: release_user_task_bitmap_def task_pool_def)
  moreover have "kfree k2 = kfree k" using k2(5) f1 m(2) by blast
  moreover have "pm k2 = st'" "kern_bitmap k2 = kern_bitmap k" "pde_of k2 = pde_of k" "cr3 k2 = cr3 k" using k2(3,4,6,7) g(4,5) c(3,5) by simp_all
  ultimately show ?thesis using k1(1) k2(2) by blast
qed

lemma free_frames_sub: "free_frames I k fs \<Longrightarrow> distinct gs \<Longrightarrow> set gs \<subseteq> set fs \<Longrightarrow> free_frames I k gs"
  by (auto simp: free_frames_def)

lemma user_task_test_loop_run:
  assumes "kspace I k" "m = Min (kfree k)" "{m..<m + 24} \<subseteq> kfree k" "m + 24 \<le> 16384" "take_frames (24 * n) (pm k) = Some (fs, st')" "free_frames I k fs"
  shows "\<exists>k'. user_task_test_loop n k = Inr k' \<and> kspace I k' \<and> kfree k' = kfree k \<and> pm k' = st'"
  using assms
proof (induction n arbitrary: k fs)
  case (Suc n)
  have "take_frames (24 + 24 * n) (pm k) = Some (fs, st')" using Suc.prems(5) by (simp only: mult_Suc_right)
  then obtain st1 where st1: "take_frames 24 (pm k) = Some (take 24 fs, st1)" "take_frames (24 * n) st1 = Some (drop 24 fs, st')"
    using take_frames_add by blast
  have d: "distinct fs" using Suc.prems(6) by (simp add: free_frames_def)
  have "free_frames I k (take 24 fs)" by (rule free_frames_sub [OF Suc.prems(6)]) (use d set_take_subset [of 24 fs] in simp_all)
  from bitmap_round_run [OF Suc.prems(1-4) st1(1) this] obtain bm k1 k2 where k2: "create_user_task_bitmap k = Inr (bm, k1)"
    "release_user_task_bitmap bm k1 = Inr k2" "kspace I k2" "pm k2 = st1" "kern_bitmap k2 = kern_bitmap k" "kfree k2 = kfree k"
    "pde_of k2 = pde_of k" "cr3 k2 = cr3 k" by blast
  have "free_frames I k (drop 24 fs)" by (rule free_frames_sub [OF Suc.prems(6)]) (use d set_drop_subset [of 24 fs] in simp_all)
  then have "free_frames I k2 (drop 24 fs)" using off_tables_same [OF k2(7,8)] by (simp add: free_frames_def)
  from Suc.IH [OF k2(3) _ _ Suc.prems(4) _ this] obtain k' where "user_task_test_loop n k2 = Inr k'" "kspace I k'" "kfree k' = kfree k2" "pm k' = st'"
    using Suc.prems(2,3) k2(4,6) st1(2) by auto
  then show ?case using k2(1,2,6) by auto
qed auto

end
