(* ===== verification/TaskProps.thy ===== *)
theory TaskProps
  imports TaskRelease
begin

text \<open>
  The life of a user task from its creation to its first instruction, as two properties: what
  \<^verbatim>\<open>create_user_task\<close> establishes, and what happens when the scheduler runs the new task.
\<close>

section \<open>Creation\<close>

text \<open>
  C16. Creating a user task. With 26 consecutive free kernel pages in the first 64 MB of the kernel half and 26 physical pages that hold no table and no
  bitmap, \<^verbatim>\<open>create_user_task\<close> returns and takes exactly these pages. The new thread is linked behind the current one
  and is ready, with \<^verbatim>\<open>start_user_task\<close>, \<^verbatim>\<open>exit\<close> and the argument on its stack. When \<^verbatim>\<open>active_task\<close> activates it,
  the processor uses a directory in which no user address is mapped, all 3 GB are free in the pool of the task, the
  invariant of its address space holds, and the kernel stack in the task state segment is the page of the thread.
\<close>

theorem create_user_task_ready:
  assumes "kspace I k" "m = Min (kfree k)" "{m..<m + 26} \<subseteq> kfree k" "m + 26 \<le> 16384" "take_frames 26 (pm k) = Some (fs, st')" "free_frames I k fs"
    "ring (nextt k) (cur_tcb k) xs" "T \<notin> set (cur_tcb k # xs)" "T = page_addr (kern_vmm_pool k) (m + 25)"
  shows "\<exists>k' k''. create_user_task i args start exit_addr k = Inr k' \<and> kfree k' = kfree k - {m..<m + 26} \<and>
    ring (nextt k') (cur_tcb k') (T # xs) \<and> status k' T = TASK_READY \<and> tid (tcb k' T) = i \<and> c_esp (t_context (tcb k' T)) = T + 4084 \<and>
    load32 (T + 4084) k' = Inr start \<and> load32 (T + 4088) k' = Inr exit_addr \<and> load32 (T + 4092) k' = Inr args \<and>
    active_task T k' = Inr k'' \<and> user_space I (frames_of (take 24 fs)) (user_vmm_pool (tcb k'' T)) (pdt_vaddr (tcb k'' T)) k'' \<and>
    ufree (user_vmm_pool (tcb k'' T)) k'' = {..<0xC0000} \<and> (\<forall>v < 0xC0000000. translate k'' v = None) \<and>
    tss_esp0 (tss_cpu0 k'') = T + PAGE_SIZE"
proof -
  let ?pool = "task_pool (page_addr (kern_vmm_pool k) m)" and ?d = "page_addr (kern_vmm_pool k) (m + 24)"
  obtain k' where k': "create_user_task i args start exit_addr k = Inr k'" "kfree k' = kfree k - {m..<m + 26}"
    "ring (nextt k') (cur_tcb k) (T # xs)" "cur_tcb k' = cur_tcb k" "status k' T = TASK_READY" "tid (tcb k' T) = i"
    "\<not> is_kern_thread (tcb k' T)" "user_vmm_pool (tcb k' T) = ?pool" "pdt_vaddr (tcb k' T) = ?d" "page_counte (tcb k' T) = 1"
    "c_esp (t_context (tcb k' T)) = T + 4084" "load32 (T + 4084) k' = Inr start" "load32 (T + 4088) k' = Inr exit_addr"
    "load32 (T + 4092) k' = Inr args" "task_ready I (frames_of (take 24 fs)) ?pool ?d (fs ! 24) k'"
    using create_user_task_run [OF assms, of i args start exit_addr] by blast
  define k'' where "k'' = tss_update T (active_pdt (fs ! 24) k')"
  have act: "active_task T k' = Inr k''" using k'(7,9) task_v2p [OF k'(15)] by (simp add: active_task_def k''_def)
  have x: "pmem k'' = pmem k'" "cr3 k'' = fs ! 24" "kern_vmm_pool k'' = kern_vmm_pool k'" "kern_bitmap k'' = kern_bitmap k'"
    "tcb k'' = tcb k'" "tss_esp0 (tss_cpu0 k'') = T + PAGE_SIZE" using k'(10) by (simp_all add: k''_def tss_update_def active_pdt_def)
  note l = task_loaded [OF k'(15) x(1-4)]
  show ?thesis
    using k'(1-6,8,9,11-14) act l(1,2,4) x(5,6) by (intro exI [of _ k'] exI [of _ k'']) simp
qed

section \<open>From creation to the first instruction\<close>

text \<open>
  C17. A user task runs. A kernel thread creates the task with 29 physical pages at hand and 27 consecutive free kernel pages
  in the first 64 MB of the kernel half, the last one for a page table. The next call of the scheduler loads the address space of the task and resumes it on its kernel stack, which
  holds \<^verbatim>\<open>start_user_task\<close> and the argument. \<^verbatim>\<open>start_user_task\<close> then enters privilege level 3 at the function of the
  parameters, and of all user addresses exactly the argument page and the stack page are mapped, to the last two of the
  physical pages.
\<close>

theorem user_task_runs:
  assumes "kspace I k" "m = Min (kfree k)" "{m..<m + 27} \<subseteq> kfree k" "m + 27 \<le> 16384" "take_frames 29 (pm k) = Some (fs, st')" "free_frames I k fs"
    "ring (nextt k) (cur_tcb k) xs" "T \<notin> set (cur_tcb k # xs)" "T = page_addr (kern_vmm_pool k) (m + 25)" "cur_tcb k \<noteq> 0"
    "check_kern_stack_overflow (cur_tcb k) k" "USER_PAGE_DIR_IS_LOADED k" "\<not> is_from_file params" "function_f params \<noteq> 0"
  shows "\<exists>k1 k2 cpu k3. create_user_task i args start exit_addr k = Inr k1 \<and> schedule k1 = Inr (True, k2) \<and>
    cur_tcb k2 = T \<and> c_esp (regs k2) = T + 4084 \<and> load32 (T + 4084) k2 = Inr start \<and> load32 (T + 4092) k2 = Inr args \<and>
    tss_esp0 (tss_cpu0 k2) = T + PAGE_SIZE \<and> start_user_task params k2 = Inr (cpu, k3) \<and> cpu_eip cpu = function_f params \<and>
    cpu_cs cpu = 0x23 \<and> cpu_ss cpu = 0x2B \<and> cpu_esp cpu = 0xBFFFF000 \<and> int_flag k3 \<and>
    (\<forall>w < 0xC0000000. translate k3 w =
       (if page_base w = 0xBFFFE000 then Some (fs ! 28 OR (w AND 0xFFF))
        else if page_base w = 0xBFFFF000 then Some (fs ! 27 OR (w AND 0xFFF)) else None))"
  by (rule user_task_run [OF assms])

section \<open>Release\<close>

text \<open>
  C18. Releasing the bitmap of a task. A round of \<^verbatim>\<open>user_task_test\<close> allocates and releases the 24 pages of a bitmap. With
  24 consecutive free kernel pages in the first 64 MB of the kernel half and enough physical pages, \<open>n\<close> rounds
  return, restore the free virtual pages of the kernel and keep the invariant, but the page manager has lost \<open>24 * n\<close>
  pages: none of the physical pages is given back.
\<close>

theorem user_task_test_leaks:
  assumes "kspace I k" "m = Min (kfree k)" "{m..<m + 24} \<subseteq> kfree k" "m + 24 \<le> 16384" "take_frames (24 * n) (pm k) = Some (fs, st')" "free_frames I k fs"
  shows "\<exists>k'. user_task_test_loop n k = Inr k' \<and> kspace I k' \<and> kfree k' = kfree k \<and> pm k' = st'"
  by (rule user_task_test_loop_run [OF assms])

section \<open>A concrete creation\<close>

text \<open>
  The ring of \<open>demo_threads\<close> with a page manager that has the 29 single pages from \<open>0x1A00000\<close> on; the last one is
  handed out first.
\<close>

definition demo_many :: pmm where
  "demo_many = demo_pmm\<lparr>page_array := (\<lambda>n. \<lparr>page_no = n, p_next = (if n = 0 then Some 3072 else if n = 4104 then Some 4108
     else if 6144 \<le> n \<and> n < 6172 then Some (n + 1) else None), p_state = 1\<rparr>)\<rparr>"

definition demo_pages :: "uint32 list" where
  "demo_pages = map (\<lambda>i. of_nat (6172 - i)) [0..<29]"

definition demo_creator :: kernel where
  "demo_creator = demo_threads\<lparr>pm := demo_many\<rparr>"

lemma take_frames_rel:
  assumes "pmm_rel st L (xs @ rev ys)" "page_base (pmm_page_start st) = pmm_page_start st"
  shows "\<exists>st'. take_frames (length ys) st = Some (map (pmm_page_no_to_addr st) ys, st')"
  using assms
proof (induction ys arbitrary: st)
  case (Cons y ys)
  have "pmm_rel st L ((xs @ rev ys) @ [y])" using Cons.prems(1) by simp
  from pmm_alloc_one_page_rel [OF this] obtain st1 where
    st1: "pmm_alloc_one_page st = Inr (\<lparr>a_addr = pmm_page_no_to_addr st y, a_size = 0, a_state = 1\<rparr>, st1)" "pmm_rel st1 L (xs @ rev ys)"
    "geometry st1 = geometry st" by auto
  have g: "pmm_page_start st1 = pmm_page_start st" using st1(3) by (simp add: geometry_def)
  then have "pmm_page_no_to_addr st1 = pmm_page_no_to_addr st" by (simp add: fun_eq_iff pmm_page_no_to_addr_def)
  then show ?case using Cons.IH [OF st1(2)] Cons.prems(2) g st1(1) page_addr_aligned [OF Cons.prems(2)] by auto
qed simp

lemma chain_upto:
  "(\<And>i. i < n \<Longrightarrow> nx (f i) = Some (f (Suc i))) \<Longrightarrow> nx (f n) = None \<Longrightarrow> chain nx (Some (f 0)) (map f [0..<Suc n])"
proof (induction n arbitrary: f)
  case (Suc n)
  have "[0..<Suc (Suc n)] = 0 # map Suc [0..<Suc n]" by (simp add: map_Suc_upt upt_conv_Cons del: upt_Suc)
  then show ?case using Suc.IH [of "\<lambda>i. f (Suc i)"] Suc.prems by (simp add: comp_def del: upt_Suc)
qed simp

lemma demo_many_rel: "pmm_rel demo_many demo_lists ([] @ rev demo_pages)"
proof -
  have nx: "nextf demo_many = (\<lambda>n. if n = 0 then Some 3072 else if n = 4104 then Some 4108
    else if 6144 \<le> n \<and> n < 6172 then Some (n + 1) else None)" by (simp add: nextf_def demo_many_def fun_eq_iff)
  have ch: "chain (nextf demo_many) (MULTI_LINK demo_many c) (demo_lists c)" for c
    unfolding nx by (simp add: demo_many_def demo_pmm_def demo_lists_def)
  let ?f = "\<lambda>i. 6144 + of_nat i :: uint32"
  have u: "unat (?f i) = 6144 + i" if "i \<le> 28" for i
  proof -
    have "unat (of_nat i :: uint32) = i" using that by (intro unat_of_nat_32) simp
    then show ?thesis using that by (simp add: unat_word_ariths)
  qed
  have rv: "rev demo_pages = map ?f [0..<29]"
  proof (rule nth_equalityI)
    fix j assume "j < length (rev demo_pages)"
    then have j: "j < 29" by (simp add: demo_pages_def)
    then have "rev demo_pages ! j = of_nat (6172 - (28 - j))" by (simp add: demo_pages_def rev_nth)
    moreover have "6172 - (28 - j) = 6144 + j" using j by simp
    ultimately show "rev demo_pages ! j = map ?f [0..<29] ! j" using j by simp
  qed (simp add: demo_pages_def)
  have "chain (nextf demo_many) (Some (?f 0)) (map ?f [0..<Suc 28])"
  proof (rule chain_upto)
    fix i :: nat assume i: "i < 28"
    then have "6144 \<le> ?f i" "?f i < 6172" "?f i \<noteq> 0" "?f i \<noteq> 4104"
      using u [of i] by (auto simp: word_le_nat_alt word_less_nat_alt word_unat_eq_iff)
    then show "nextf demo_many (?f i) = Some (?f (Suc i))" by (simp add: nx add.commute)
  qed (simp add: nx)
  then have "chain (nextf demo_many) (SINGLE_LINK demo_many) (rev demo_pages)"
    unfolding rv by (simp add: demo_many_def demo_pmm_def)
  moreover have "n \<in> set (rev demo_pages) \<Longrightarrow> 6144 \<le> unat n \<and> unat n < 6173" for n unfolding rv using u by auto
  then have r: "n \<in> set demo_pages \<Longrightarrow> 6144 \<le> n \<and> n < 8192" for n by (fastforce simp: word_le_nat_alt word_less_nat_alt)
  have "set demo_pages \<inter> {0, 3072, 4096, 4104, 4108} = {}" using r by force
  ultimately show ?thesis
    using ch r unfolding pmm_rel_def listed_def
    by (auto simp: demo_lists_def demo_many_def demo_pmm_def split: if_splits)
qed

lemma demo_frames:
  "\<exists>st'. take_frames 29 demo_many = Some (map (\<lambda>i. of_nat (0x1A1C000 - 4096 * i)) [0..<29], st')"
proof -
  have st: "pmm_page_start demo_many = 0x200000" by (simp add: demo_many_def demo_pmm_def)
  have "pmm_page_no_to_addr demo_many (of_nat (6172 - i)) = of_nat (0x1A1C000 - 4096 * i)" if "i < 29" for i
  proof -
    have "pmm_page_no_to_addr demo_many (of_nat (6172 - i)) = of_nat ((6172 - i) * 4096 + 0x200000)"
      unfolding pmm_page_no_to_addr_def st push_bit_eq_mult by simp
    moreover have "(6172 - i) * 4096 + 0x200000 = 0x1A1C000 - 4096 * i" using that by simp
    ultimately show ?thesis by simp
  qed
  then have "map (pmm_page_no_to_addr demo_many) demo_pages = map (\<lambda>i. of_nat (0x1A1C000 - 4096 * i)) [0..<29]"
    by (simp add: demo_pages_def del: of_nat_diff)
  moreover have "length demo_pages = 29" by (simp add: demo_pages_def)
  ultimately show ?thesis using take_frames_rel [OF demo_many_rel] st by (simp add: page_base_def)
qed

lemma demo_creator_facts:
  "kspace demo_bytes demo_creator" "Min (kfree demo_creator) = 1024" "{1024..<1024 + 27} \<subseteq> kfree demo_creator"
  "ring (nextt demo_creator) (cur_tcb demo_creator) [0xC0320000, 0xC0330000]" "cur_tcb demo_creator = 0xC0310000"
  "kern_vmm_pool demo_creator = kpool 0xC0300000" "pm demo_creator = demo_many" "USER_PAGE_DIR_IS_LOADED demo_creator"
  "check_kern_stack_overflow (cur_tcb demo_creator) demo_creator"
  "free_frames demo_bytes demo_creator (map (\<lambda>i. of_nat (0x1A1C000 - 4096 * i)) [0..<29])"
proof -
  have e: "pmem demo_creator = pmem demo_kernel" "cr3 demo_creator = cr3 demo_kernel" "kern_vmm_pool demo_creator = kern_vmm_pool demo_kernel"
    "kern_bitmap demo_creator = kern_bitmap demo_kernel" by (simp_all add: demo_creator_def demo_threads_def)
  note s = same_space [OF e]
  show "kspace demo_bytes demo_creator" using s(1) demo_kspace by simp
  have f: "kfree demo_creator = {1024..<255 * 1024}" using s(3) demo_free by simp
  show "Min (kfree demo_creator) = 1024" unfolding s(3) by (rule demo_min(1))
  show "{1024..<1024 + 27} \<subseteq> kfree demo_creator" unfolding f by auto
  have t: "tcb demo_creator = tcb demo_threads" "cur_tcb demo_creator = 0xC0310000" by (simp_all add: demo_creator_def)
  show "ring (nextt demo_creator) (cur_tcb demo_creator) [0xC0320000, 0xC0330000]" "check_kern_stack_overflow (cur_tcb demo_creator) demo_creator"
    using demo_threads_ok by (simp_all add: threads_ok_def t check_kern_stack_overflow_def)
  show "cur_tcb demo_creator = 0xC0310000" by (rule t(2))
  show "kern_vmm_pool demo_creator = kpool 0xC0300000" using e(3) by simp
  show "pm demo_creator = demo_many" "USER_PAGE_DIR_IS_LOADED demo_creator"
    by (simp_all add: demo_creator_def demo_threads_def demo_kernel_def)
  let ?f = "\<lambda>i. of_nat (0x1A1C000 - 4096 * i) :: uint32"
  have u: "unat (?f i) = 0x1A1C000 - 4096 * i" for i by (rule unat_of_nat_32) simp
  have b: "page_base (?f i) = ?f i" "0x308000 \<le> unat (?f i)" if "i < 29" for i
  proof -
    have "0x1A1C000 - 4096 * i = (6684 - i) * 4096" by simp
    then have "unat (page_base (?f i)) = unat (?f i)" unfolding unat_page_base u by simp
    then show "page_base (?f i) = ?f i" by (simp only: word_unat_eq_iff)
    show "0x308000 \<le> unat (?f i)" unfolding u using that by simp
  qed
  have "inj_on ?f (set [0..<29])"
  proof (rule inj_onI)
    fix i j assume ij: "i \<in> set [0..<29]" "j \<in> set [0..<29]" and "?f i = ?f j"
    then have "0x1A1C000 - 4096 * i = 0x1A1C000 - 4096 * j" using u [of i] u [of j] by metis
    then show "i = j" using ij by simp
  qed
  then have "distinct (map ?f [0..<29])" by (simp only: distinct_map) simp
  moreover have "off_tables (frame (?f i)) demo_creator \<and> frame (?f i) \<inter> demo_bytes = {}" if "i < 29" for i
    using demo_frame [OF b [OF that]] s(4) by simp
  ultimately show "free_frames demo_bytes demo_creator (map ?f [0..<29])" unfolding free_frames_def by auto
qed

theorem create_user_task_ready_witness:
  "\<exists>k' k''. create_user_task 5 0xC0001000 0xC0002000 0xC0003000 demo_creator = Inr k' \<and> tid (tcb k' 0xC0419000) = 5 \<and>
    active_task 0xC0419000 k' = Inr k'' \<and> translate k'' 0x1000 = None"
proof -
  define fs :: "uint32 list" where "fs = map (\<lambda>i. of_nat (0x1A1C000 - 4096 * i)) [0..<29]"
  obtain st where st: "take_frames 29 demo_many = Some (fs, st)" using demo_frames unfolding fs_def by blast
  have "(29 :: nat) = 26 + 3" by simp
  then obtain st1 where st1: "take_frames 26 demo_many = Some (take 26 fs, st1)" using take_frames_add st by metis
  have f: "free_frames demo_bytes demo_creator fs" unfolding fs_def by (rule demo_creator_facts(10))
  then have ff: "free_frames demo_bytes demo_creator (take 26 fs)"
    unfolding free_frames_def using set_take_subset [of 26 fs] distinct_take [of fs 26] by blast
  have "{1024..<1024 + 26} \<subseteq> kfree demo_creator" using demo_creator_facts(3) by auto
  note facts = create_user_task_ready [OF demo_creator_facts(1) demo_creator_facts(2) [symmetric] this _ _ ff demo_creator_facts(4)]
  have T: "0xC0419000 \<notin> set (cur_tcb demo_creator # [0xC0320000, 0xC0330000])"
    "0xC0419000 = page_addr (kern_vmm_pool demo_creator) (1024 + 25)"
    unfolding demo_creator_facts(5,6) by (simp_all add: page_addr_def)
  have tf: "take_frames 26 (pm demo_creator) = Some (take 26 fs, st1)" using st1 demo_creator_facts(7) by simp
  obtain k' k'' where "create_user_task 5 0xC0001000 0xC0002000 0xC0003000 demo_creator = Inr k'" "tid (tcb k' 0xC0419000) = 5"
    "active_task 0xC0419000 k' = Inr k''" "\<forall>v < 0xC0000000. translate k'' v = None"
    using facts [OF _ tf T, of 5 "0xC0001000" "0xC0002000" "0xC0003000"] by auto
  then show ?thesis by auto
qed

theorem user_task_test_leaks_witness:
  "\<exists>k' fs st'. user_task_test_loop 1 demo_creator = Inr k' \<and> kfree k' = kfree demo_creator \<and>
    take_frames 24 demo_many = Some (fs, st') \<and> pm k' = st'"
proof -
  define fs :: "uint32 list" where "fs = map (\<lambda>i. of_nat (0x1A1C000 - 4096 * i)) [0..<29]"
  obtain st where st: "take_frames 29 demo_many = Some (fs, st)" using demo_frames unfolding fs_def by blast
  have "(29 :: nat) = 24 + 5" by simp
  then obtain st1 where st1: "take_frames 24 demo_many = Some (take 24 fs, st1)" using take_frames_add st by metis
  have "free_frames demo_bytes demo_creator fs" unfolding fs_def by (rule demo_creator_facts(10))
  moreover from this have "distinct (take 24 fs)" by (simp add: free_frames_def)
  ultimately have ff: "free_frames demo_bytes demo_creator (take 24 fs)" by (rule free_frames_sub) (rule set_take_subset)
  have "{1024..<1024 + 24} \<subseteq> kfree demo_creator" using demo_creator_facts(3) by auto
  note u = user_task_test_leaks [OF demo_creator_facts(1) demo_creator_facts(2) [symmetric] this, of 1, OF _ _ ff]
  have "take_frames (24 * 1) (pm demo_creator) = Some (take 24 fs, st1)" using st1 demo_creator_facts(7) by simp
  from u [OF _ this] show ?thesis using st1 by auto
qed

theorem user_task_runs_witness:
  "\<exists>k1 k2 cpu k3. create_user_task 5 0xC0001000 0xC0002000 0xC0003000 demo_creator = Inr k1 \<and> schedule k1 = Inr (True, k2) \<and>
    start_user_task \<lparr>is_from_file = False, function_f = 0xC0004000, args_f = 0, fd = 0\<rparr> k2 = Inr (cpu, k3) \<and>
    cpu_eip cpu = 0xC0004000 \<and> cpu_cs cpu = 0x23 \<and> translate k3 0x1000 = None"
proof -
  define fs :: "uint32 list" where "fs = map (\<lambda>i. of_nat (0x1A1C000 - 4096 * i)) [0..<29]"
  obtain st where st: "take_frames 29 demo_many = Some (fs, st)" using demo_frames unfolding fs_def by blast
  have ff: "free_frames demo_bytes demo_creator fs" unfolding fs_def by (rule demo_creator_facts(10))
  have pb: "page_base 0x1000 = (0x1000 :: uint32)" by (simp add: page_base_def)
  let ?p = "\<lparr>is_from_file = False, function_f = 0xC0004000, args_f = 0, fd = 0\<rparr>"
  have T: "0xC0419000 \<notin> set (cur_tcb demo_creator # [0xC0320000, 0xC0330000])" "cur_tcb demo_creator \<noteq> 0"
    "0xC0419000 = page_addr (kern_vmm_pool demo_creator) (1024 + 25)"
    unfolding demo_creator_facts(5,6) by (simp_all add: page_addr_def)
  have tf: "take_frames 29 (pm demo_creator) = Some (fs, st)" using st demo_creator_facts(7) by simp
  obtain k1 k2 cpu k3 where r: "create_user_task 5 0xC0001000 0xC0002000 0xC0003000 demo_creator = Inr k1" "schedule k1 = Inr (True, k2)"
    "start_user_task ?p k2 = Inr (cpu, k3)" "cpu_eip cpu = function_f ?p" "cpu_cs cpu = 0x23"
    "\<forall>w < 0xC0000000. translate k3 w = (if page_base w = 0xBFFFE000 then Some (fs ! 28 OR (w AND 0xFFF))
       else if page_base w = 0xBFFFF000 then Some (fs ! 27 OR (w AND 0xFFF)) else None)"
    using user_task_runs [OF demo_creator_facts(1) demo_creator_facts(2) [symmetric] demo_creator_facts(3) _ tf ff demo_creator_facts(4) T(1,3,2)
        demo_creator_facts(9,8), of ?p 5 "0xC0001000" "0xC0002000" "0xC0003000"] by auto
  moreover have "translate k3 0x1000 = None" using r(6) [rule_format, of "0x1000"] pb by simp
  ultimately show ?thesis by auto
qed

end
