(* ===== verification/Multiboot.thy ===== *)
theory Multiboot
  imports ThreadsInstance
begin

text \<open>
  \<^verbatim>\<open>src/include/boot_struct.h\<close> and its reader in \<^verbatim>\<open>pmm.c\<close>: the information that the boot loader leaves in memory, and the
  walk over its memory map. The other theories take the map as a list of entries; here it is read from the machine, at
  the address \<^verbatim>\<open>mboot_ptr\<close>.
\<close>

section \<open>The structures\<close>

record multiboot_t =
  mb_flags :: uint32
  mb_mem_lower :: uint32
  mb_mem_upper :: uint32
  mb_boot_device :: uint32
  mb_cmdline :: uint32
  mb_mods_count :: uint32
  mb_mods_addr :: uint32
  mb_num :: uint32
  mb_size :: uint32
  mb_addr :: uint32
  mb_shndx :: uint32
  mb_mmap_length :: uint32
  mb_mmap_addr :: uint32
  mb_drives_length :: uint32
  mb_drives_addr :: uint32
  mb_config_table :: uint32
  mb_boot_loader_name :: uint32
  mb_apm_table :: uint32
  mb_vbe_control_info :: uint32
  mb_vbe_mode_info :: uint32
  mb_vbe_mode :: uint32
  mb_vbe_interface_seg :: uint32
  mb_vbe_interface_off :: uint32
  mb_vbe_interface_len :: uint32

text \<open>The structures are packed: their words in the order of the fields.\<close>

definition multiboot_words :: "multiboot_t \<Rightarrow> uint32 list" where
  "multiboot_words m = [mb_flags m, mb_mem_lower m, mb_mem_upper m, mb_boot_device m, mb_cmdline m, mb_mods_count m, mb_mods_addr m,
     mb_num m, mb_size m, mb_addr m, mb_shndx m, mb_mmap_length m, mb_mmap_addr m, mb_drives_length m, mb_drives_addr m,
     mb_config_table m, mb_boot_loader_name m, mb_apm_table m, mb_vbe_control_info m, mb_vbe_mode_info m, mb_vbe_mode m,
     mb_vbe_interface_seg m, mb_vbe_interface_off m, mb_vbe_interface_len m]"

definition pm_entry_words :: "pm_entry \<Rightarrow> uint32 list" where
  "pm_entry_words e = [e_size e, base_addr_low e, base_addr_high e, length_low e, length_high e, e_type e]"

section \<open>Reading the memory map\<close>

text \<open>\<^verbatim>\<open>mboot_ptr->mmap_addr+mboot_ptr->mmap_length\<close>, which the loop computes again in every round.\<close>

definition mmap_end :: "uint32 \<Rightarrow> 'a machine_scheme \<Rightarrow> fault + uint32" where
  "mmap_end mboot k = bindE (load32 (mboot + 48) k) (\<lambda>a. bindE (load32 (mboot + 44) k) (\<lambda>n. Inr (a + n)))"

definition read_block :: "uint32 \<Rightarrow> 'a machine_scheme \<Rightarrow> fault + (uint32 \<times> uint32 \<times> uint32)" where
  "read_block cur k =
     bindE (load32 (cur + 4) k) (\<lambda>base. bindE (load32 (cur + 12) k) (\<lambda>len. bindE (load32 (cur + 20) k) (\<lambda>type. Inr (base, len, type))))"

partial_function (option) max_pm_addr_loop :: "uint32 \<Rightarrow> uint32 \<Rightarrow> uint32 \<Rightarrow> 'a machine_scheme \<Rightarrow> (fault + uint32) option" where
  "max_pm_addr_loop mboot cur max_addr k =
     (case mmap_end mboot k of
        Inl e \<Rightarrow> Some (Inl e)
      | Inr map_end \<Rightarrow>
          if cur < map_end
          then (case read_block cur k of
                  Inl e \<Rightarrow> Some (Inl e)
                | Inr b \<Rightarrow> max_pm_addr_loop mboot (cur + 24)
                    (case b of (base, len, type) \<Rightarrow> if type = 1 \<and> max_addr < base + len then base + len else max_addr) k)
          else Some (Inr max_addr))"

definition read_max_pm_addr :: "uint32 \<Rightarrow> 'a machine_scheme \<Rightarrow> fault + uint32" where
  "read_max_pm_addr mboot k = bindE (load32 (mboot + 48) k) (\<lambda>a. joinE (max_pm_addr_loop mboot a 0 k))"

definition pmm_init_boot :: "uint32 \<Rightarrow> kernel \<Rightarrow> fault + kernel" where
  "pmm_init_boot mboot k =
     bindE (read_max_pm_addr mboot k) (\<lambda>max_addr.
     bindE (pmm_init_to (kern_end k) max_addr (pm k)) (\<lambda>st. Inr (k\<lparr>pm := st\<rparr>)))"

section \<open>The map as a list\<close>

definition words_at :: "uint32 \<Rightarrow> uint32 list \<Rightarrow> 'a machine_scheme \<Rightarrow> bool" where
  "words_at a ws k \<longleftrightarrow> (\<forall>i < length ws. load32 (a + of_nat (4 * i)) k = Inr (ws ! i))"

text \<open>The boot loader left the structure \<open>m\<close> with the entries \<open>es\<close>, which end below the last address.\<close>

definition boot_map :: "uint32 \<Rightarrow> multiboot_t \<Rightarrow> pm_entry list \<Rightarrow> 'a machine_scheme \<Rightarrow> bool" where
  "boot_map mboot m es k \<longleftrightarrow> words_at mboot (multiboot_words m) k \<and> words_at (mb_mmap_addr m) (concat (map pm_entry_words es)) k \<and>
     mb_mmap_length m = of_nat (24 * length es) \<and> unat (mb_mmap_addr m) + 24 * length es < 2 ^ 32"

lemma words_at_append: "words_at a (ws @ vs) k \<longleftrightarrow> words_at a ws k \<and> words_at (a + of_nat (4 * length ws)) vs k"
proof -
  have "words_at a (ws @ vs) k \<Longrightarrow> words_at a ws k" unfolding words_at_def by (auto simp: nth_append split: if_splits)
  moreover have "words_at (a + of_nat (4 * length ws)) vs k" if w: "words_at a (ws @ vs) k"
    unfolding words_at_def
  proof (intro allI impI)
    fix i assume "i < length vs"
    then show "load32 (a + of_nat (4 * length ws) + of_nat (4 * i)) k = Inr (vs ! i)"
      using w [unfolded words_at_def, rule_format, of "length ws + i"] by (simp add: algebra_simps nth_append)
  qed
  moreover have "words_at a (ws @ vs) k" if w: "words_at a ws k" "words_at (a + of_nat (4 * length ws)) vs k"
    unfolding words_at_def
  proof (intro allI impI)
    fix i assume i: "i < length (ws @ vs)"
    show "load32 (a + of_nat (4 * i)) k = Inr ((ws @ vs) ! i)"
    proof (cases "i < length ws")
      case True
      then show ?thesis using w(1) by (simp add: words_at_def nth_append)
    next
      case False
      then obtain j where j: "i = length ws + j" by (metis le_Suc_ex not_less)
      then show ?thesis using w(2) [unfolded words_at_def, rule_format, of j] i by (simp add: algebra_simps nth_append)
    qed
  qed
  ultimately show ?thesis by blast
qed

lemma read_block_at:
  assumes "words_at cur (pm_entry_words e) k"
  shows "read_block cur k = Inr (base_addr_low e, length_low e, e_type e)"
proof -
  have w: "i < 6 \<Longrightarrow> load32 (cur + of_nat (4 * i)) k = Inr (pm_entry_words e ! i)" for i
    using assms by (simp add: words_at_def pm_entry_words_def)
  show ?thesis using w [of 1] w [of 3] w [of 5] by (simp add: read_block_def pm_entry_words_def)
qed

lemma mmap_fields:
  assumes "words_at mboot (multiboot_words m) k"
  shows "load32 (mboot + 48) k = Inr (mb_mmap_addr m)" "mmap_end mboot k = Inr (mb_mmap_addr m + mb_mmap_length m)"
proof -
  have w: "i < 24 \<Longrightarrow> load32 (mboot + of_nat (4 * i)) k = Inr (multiboot_words m ! i)" for i
    using assms by (simp add: words_at_def multiboot_words_def)
  show "load32 (mboot + 48) k = Inr (mb_mmap_addr m)" using w [of 12] by (simp add: multiboot_words_def)
  then show "mmap_end mboot k = Inr (mb_mmap_addr m + mb_mmap_length m)" using w [of 11] by (simp add: mmap_end_def multiboot_words_def)
qed

lemma max_pm_addr_loop_run:
  "mmap_end mboot k = Inr (cur + of_nat (24 * length es)) \<Longrightarrow> words_at cur (concat (map pm_entry_words es)) k \<Longrightarrow>
   unat cur + 24 * length es < 2 ^ 32 \<Longrightarrow> max_pm_addr_loop mboot cur a k = Some (Inr (get_max_pm_addr_loop es a))"
proof (induction es arbitrary: cur a)
  case Nil
  then show ?case by (simp add: max_pm_addr_loop.simps [of mboot cur])
next
  case (Cons e es)
  have len: "length (pm_entry_words e) = 6" by (simp add: pm_entry_words_def)
  have w: "words_at cur (pm_entry_words e) k" "words_at (cur + 24) (concat (map pm_entry_words es)) k"
    using Cons.prems(2) len by (simp_all add: words_at_append)
  have u: "unat (of_nat (24 * length (e # es)) :: uint32) = 24 * length (e # es)" using Cons.prems(3) by (intro unat_of_nat_32) simp
  then have "unat (cur + of_nat (24 * length (e # es))) = unat cur + 24 * length (e # es)" using Cons.prems(3) by (simp only: unat_word_ariths) simp
  then have lt: "cur < cur + of_nat (24 * length (e # es))" by (simp add: word_less_nat_alt del: of_nat_mult)
  have "unat (cur + 24) = unat cur + 24" using Cons.prems(3) by (simp add: unat_word_ariths)
  then have "unat (cur + 24) + 24 * length es < 2 ^ 32" using Cons.prems(3) by simp
  moreover have "mmap_end mboot k = Inr (cur + 24 + of_nat (24 * length es))" using Cons.prems(1) by (simp add: algebra_simps)
  ultimately have "max_pm_addr_loop mboot (cur + 24) b k = Some (Inr (get_max_pm_addr_loop es b))" for b
    using Cons.IH w(2) by blast
  then show ?case
    using Cons.prems(1) lt read_block_at [OF w(1)] by (subst max_pm_addr_loop.simps) (simp del: of_nat_mult)
qed

text \<open>
  C2. Reading the memory map. When the boot loader left a map in memory whose entries have the size that the code assumes,
  the initialisation of the page manager that walks this memory is the initialisation with the list of these entries,
  which the other properties are about; in particular the walk ends and reads no other memory.
\<close>

theorem pmm_init_reads_map:
  assumes "boot_map mboot m es k"
  shows "read_max_pm_addr mboot k = Inr (get_max_pm_addr es) \<and>
    pmm_init_boot mboot k = bindE (pmm_init (kern_end k) es (pm k)) (\<lambda>st. Inr (k\<lparr>pm := st\<rparr>))"
proof -
  note b = assms [unfolded boot_map_def]
  note f = mmap_fields [OF b [THEN conjunct1]]
  have "max_pm_addr_loop mboot (mb_mmap_addr m) 0 k = Some (Inr (get_max_pm_addr_loop es 0))"
    by (rule max_pm_addr_loop_run) (use b f(2) in simp_all)
  then have "read_max_pm_addr mboot k = Inr (get_max_pm_addr es)" using f(1) by (simp add: read_max_pm_addr_def get_max_pm_addr_def)
  then show ?thesis by (simp add: pmm_init_boot_def pmm_init_def)
qed

section \<open>A map in memory\<close>

text \<open>The boot information of a machine with 128 MB, at \<open>0xC0380000\<close> in \<open>demo_kernel\<close>, followed by its memory map.\<close>

definition demo_map :: "pm_entry list" where
  "demo_map = [\<lparr>e_size = 20, base_addr_low = 0, base_addr_high = 0, length_low = 0x9FC00, length_high = 0, e_type = 1\<rparr>,
     \<lparr>e_size = 20, base_addr_low = 0x100000, base_addr_high = 0, length_low = 0x7EE0000, length_high = 0, e_type = 1\<rparr>,
     \<lparr>e_size = 20, base_addr_low = 0xFFFC0000, base_addr_high = 0, length_low = 0x40000, length_high = 0, e_type = 2\<rparr>]"

definition demo_info :: multiboot_t where
  "demo_info = \<lparr>mb_flags = 0x40, mb_mem_lower = 639, mb_mem_upper = 129920, mb_boot_device = 0, mb_cmdline = 0, mb_mods_count = 0,
     mb_mods_addr = 0, mb_num = 0, mb_size = 0, mb_addr = 0, mb_shndx = 0, mb_mmap_length = 72, mb_mmap_addr = 0xC0380060,
     mb_drives_length = 0, mb_drives_addr = 0, mb_config_table = 0, mb_boot_loader_name = 0, mb_apm_table = 0,
     mb_vbe_control_info = 0, mb_vbe_mode_info = 0, mb_vbe_mode = 0, mb_vbe_interface_seg = 0, mb_vbe_interface_off = 0,
     mb_vbe_interface_len = 0\<rparr>"

definition demo_info_words :: "uint32 list" where
  "demo_info_words = multiboot_words demo_info @ concat (map pm_entry_words demo_map)"

definition info_mem :: "uint32 \<Rightarrow> byte" where
  "info_mem x = (let n = unat x - 0x380000
     in if 0x380000 \<le> unat x \<and> n < 168 then ucast (drop_bit (8 * (n mod 4)) (demo_info_words ! (n div 4))) else demo_mem x)"

definition info_kernel :: kernel where
  "info_kernel = demo_kernel\<lparr>pmem := info_mem\<rparr>"

lemma info_translate:
  assumes "0xC0000000 \<le> v" "v < 0xC0400000"
  shows "translate info_kernel v = Some (v - 0xC0000000)"
proof -
  have "\<forall>a. a \<notin> demo_words \<longrightarrow> info_mem a = pmem demo_kernel a"
    by (auto simp: info_mem_def demo_words_def word_le_nat_alt word_less_nat_alt Let_def)
  from off_tables_write(4) [OF demo_words_off this] show ?thesis using demo_translate [OF assms] by (simp add: info_kernel_def)
qed

lemma info_words: "words_at 0xC0380000 demo_info_words info_kernel"
  unfolding words_at_def
proof (intro allI impI)
  fix i assume "i < length demo_info_words"
  then have i: "i < 42" by (simp add: demo_info_words_def multiboot_words_def demo_map_def pm_entry_words_def)
  let ?v = "of_nat (0xC0380000 + 4 * i) :: uint32"
  have v: "unat ?v = 0xC0380000 + 4 * i" using i by (intro unat_of_nat_32) simp
  have eq: "0xC0380000 + of_nat (4 * i) = ?v" by simp
  have al: "aligned4 ?v" unfolding aligned4_def v by presburger
  have rng: "0xC0000000 \<le> ?v" "?v < 0xC0400000" unfolding word_le_nat_alt word_less_nat_alt v using i by simp_all
  have p: "?v - 0xC0000000 = of_nat (0x380000 + 4 * i)" by simp
  have byte: "info_mem (of_nat (0x380000 + 4 * i) + of_nat j) = ucast (drop_bit (8 * j) (demo_info_words ! i))" if "j < 4" for j
  proof -
    have "unat (of_nat (0x380000 + 4 * i + j) :: uint32) = 0x380000 + 4 * i + j" using i that by (intro unat_of_nat_32) simp
    then have u: "unat (of_nat (0x380000 + 4 * i) + of_nat j :: uint32) = 0x380000 + (4 * i + j)" by (simp only: of_nat_add add.assoc)
    have "(4 * i + j) mod 4 = j" "(4 * i + j) div 4 = i" "4 * i + j < 168" using that i by presburger+
    then show ?thesis unfolding info_mem_def u Let_def by simp
  qed
  have "ld32p info_mem (of_nat (0x380000 + 4 * i)) = demo_info_words ! i"
    using byte [of 0] byte [of 1] byte [of 2] byte [of 3] word_of_bytes [of "demo_info_words ! i"] by (simp add: ld32p_def del: of_nat_add of_nat_mult)
  then show "load32 (0xC0380000 + of_nat (4 * i)) info_kernel = Inr (demo_info_words ! i)"
    unfolding eq access32(1) [OF al info_translate [OF rng]] p by (simp add: info_kernel_def)
qed

lemma info_boot_map: "boot_map 0xC0380000 demo_info demo_map info_kernel"
proof -
  have "length (multiboot_words demo_info) = 24" by (simp add: multiboot_words_def)
  then have "words_at 0xC0380000 (multiboot_words demo_info) info_kernel"
    "words_at 0xC0380060 (concat (map pm_entry_words demo_map)) info_kernel"
    using info_words unfolding demo_info_words_def words_at_append by simp_all
  then show ?thesis by (simp add: boot_map_def) (simp add: demo_info_def demo_map_def)
qed

theorem pmm_init_reads_map_witness:
  "read_max_pm_addr 0xC0380000 info_kernel = Inr 0x7FE0000 \<and>
   pmm_init_boot 0xC0380000 info_kernel = bindE (pmm_init 0x400000 demo_map demo_pmm) (\<lambda>st. Inr (info_kernel\<lparr>pm := st\<rparr>))"
proof -
  have "get_max_pm_addr demo_map = 0x7FE0000" by (simp add: get_max_pm_addr_def demo_map_def)
  moreover have "kern_end info_kernel = 0x400000" "pm info_kernel = demo_pmm" by (simp_all add: info_kernel_def)
  ultimately show ?thesis using pmm_init_reads_map [OF info_boot_map] by simp
qed

end
