(* ===== verification/Spec2Isabelle.thy ===== *)
theory Spec2Isabelle
  imports PmmProps BitmapTest SyncProps StringProps VgaProps KernLog UserStart Handlers Boot KernHeap TaskProps Multiboot
begin

text \<open>
  A verification of BHOS, a small kernel for the 32-bit x86 written in C.

  The program. \<^verbatim>\<open>boot.s\<close> builds the first page tables and jumps to \<^verbatim>\<open>kern_entry\<close>, which clears the
  screen, hands the physical memory to a buddy allocator, removes the identity mapping, sets up the
  pool of kernel pages, the interrupt and task state tables and the ring of threads, and starts
  a first thread. From then on the clock interrupt drives a round robin scheduler; threads
  share semaphores and locks, allocate kernel pages, print through a locked \<^verbatim>\<open>printk\<close>, and can become
  user tasks with an address space of their own.

  How the parts depend on each other: \<^verbatim>\<open>vmm.c\<close> takes virtual pages from a bitmap
  pool and physical pages from \<^verbatim>\<open>pmm.c\<close>, and writes page tables through a recursive mapping; the
  bitmap itself lies in memory that \<^verbatim>\<open>vmm.c\<close> maps. \<^verbatim>\<open>threads.c\<close> takes the page of a thread from \<^verbatim>\<open>vmm.c\<close>; \<^verbatim>\<open>sync.c\<close> blocks
  and wakes threads; \<^verbatim>\<open>printk.c\<close> and \<^verbatim>\<open>list.c\<close> take a lock; \<^verbatim>\<open>user_task.c\<close> uses all of them.
\<close>

section \<open>Theories\<close>

text \<open>
  Foundations.
  \<^item> \<open>Prelude\<close>: the integer types of \<^verbatim>\<open>types.h\<close>, faults, linked lists as \<open>chain\<close>, pages of 4 KB.
  \<^item> \<open>Interfaces\<close>: the contracts as locales. \<open>byte_memory\<close>: a region in which bytes are read back
    as written and everything else stays; interpreted as \<open>flat\<close> on the memory of a C
    program and as \<open>mmu\<close> on the paged machine, so that the string and bitmap code is proved once and holds on
    mapped memory. \<open>page_source\<close>: a source that hands out pages of a finite set, each once; interpreted on
    the bitmap pool. \<open>fifo_queue\<close>: interpreted on the wait queue.
  \<^item> \<open>Machine\<close>: physical memory, \<^verbatim>\<open>cr3\<close>, the walk of the two page table levels, the interrupt
    flag and the log of port writes. \<open>Kernel\<close>: the global variables of the kernel, the thread control
    block of \<^verbatim>\<open>threads.h\<close>, \<^verbatim>\<open>tss_t\<close>, and the interrupt flag functions of \<^verbatim>\<open>interrupt.c\<close>.

  Memory.
  \<^item> \<open>Pmm\<close> (\<^verbatim>\<open>pmm.c\<close>): the operations. \<open>PmmLists\<close>, \<open>PmmBuddy\<close>, \<open>PmmAlloc\<close>, \<open>PmmInit\<close>: \<open>pmm_rel\<close> relates the
    lists to lists of page numbers, \<open>buddy_ok\<close> says that free blocks are aligned and disjoint, \<open>pmm_inv\<close> is
    the invariant. \<open>PmmProps\<close>: the properties. \<open>Multiboot\<close> (\<^verbatim>\<open>boot_struct.h\<close>): the memory map as the boot loader leaves it
    in memory, and the walk of \<^verbatim>\<open>get_max_pm_addr\<close> over it, which refines the map as a list.
  \<^item> \<open>CString\<close>, \<open>Strings\<close>, \<open>StringNums\<close>, \<open>StringProps\<close> (\<^verbatim>\<open>string.c\<close>): the routines over any byte memory,
    strings as byte lists, decimal and hexadecimal numbers.
  \<^item> \<open>Bitmap\<close>, \<open>BitmapProps\<close> (\<^verbatim>\<open>bitmap.c\<close>): a pool as the set of its free pages; \<open>BitmapTest\<close>: its self test, by the number of rounds.
  \<^item> \<open>Vmm\<close> (\<^verbatim>\<open>vmm.c\<close>): the operations. \<open>VmmWindow\<close>: the recursive window. \<open>VmmSpace\<close>, \<open>VmmKernel\<close>,
    \<open>VmmInit\<close>, \<open>VmmProps\<close>: the invariant \<open>kspace\<close> of the kernel address space and what every operation does to
    translations and free pages. \<open>VmmInstance\<close>: a concrete machine that satisfies it.
    \<open>KernHeap\<close>: all sequences of kernel page operations as a step relation.

  Threads.
  \<^item> \<open>Tss\<close>, \<open>TssLoad\<close> (\<^verbatim>\<open>tss.c\<close>): descriptor and initialisation.
  \<^item> \<open>Threads\<close> (\<^verbatim>\<open>threads.c\<close> and the context switch of \<^verbatim>\<open>threads_asm.s\<close>); \<open>ThreadsRing\<close>, \<open>ThreadsLife\<close>, \<open>ThreadsProps\<close>,
    \<open>ThreadsInstance\<close>: the ring as a list, \<open>threads_ok\<close>, scheduling, creation, exit.
  \<^item> \<open>Sync\<close> (\<^verbatim>\<open>sync.c\<close>); \<open>SyncLock\<close>, \<open>LockSystem\<close>, \<open>SyncProps\<close>: the wait queue, and all interleavings of
    threads that share a lock, as a step relation with its invariant.
  \<^item> \<open>Links\<close> (\<^verbatim>\<open>list.c\<close>): the list with an optional lock.
  \<^item> \<open>UserTask\<close> (\<^verbatim>\<open>user_task.c\<close>); \<open>FreshPage\<close>: the account \<open>space_change\<close> of the pages taken and the frames written,
    which composes; \<open>UserSpace\<close>: the directory of a new task; \<open>UserPages\<close>: the invariant
    \<open>user_space\<close> and user page allocation; \<open>UserStart\<close>: entering privilege level 3; \<open>TaskCreate\<close>, \<open>TaskProps\<close>: the whole
    of \<^verbatim>\<open>create_user_task\<close> and the way of a task from its creation to its first instruction. \<open>TaskRelease\<close>: giving the
    pages of a bitmap back, in the rounds of \<^verbatim>\<open>user_task_test\<close>.

  Devices and entry.
  \<^item> \<open>Vga\<close>, \<open>VgaScreen\<close>, \<open>VgaProps\<close> (\<^verbatim>\<open>vga_basic.c\<close>): the console refines a screen of cells.
  \<^item> \<open>Printk\<close>, \<open>PrintkFormat\<close>, \<open>PrintkInstance\<close> (\<^verbatim>\<open>printk.c\<close>), \<open>KernLog\<close> (\<^verbatim>\<open>kern_log.c\<close>).
  \<^item> \<open>Interrupts\<close> (\<^verbatim>\<open>interrupt.c\<close>, \<^verbatim>\<open>_8259A.c\<close>) and \<open>Handlers\<close> (the handlers, \<^verbatim>\<open>keyboard.c\<close>, the dispatch).
  \<^item> \<open>Entry\<close>, \<open>Boot\<close> (\<^verbatim>\<open>entry.c\<close>): the start of the kernel and the invariants it establishes.
\<close>

section \<open>How the code is represented\<close>

text \<open>
  State. C integers are words of their width, with wrap-around. Memory that the code addresses
  by numbers (page tables, bitmaps, stacks, strings, the screen) is the byte memory of the machine, reached through
  the page tables; every access can be a page fault. Structures that the code only reaches
  through typed pointers (thread control blocks, the page array, queue and list nodes) are maps from addresses
  or indices to records. Addresses that the linker fixes, format literals and the values that devices deliver are
  parameters.

  Outcomes. An operation returns \<open>Inr\<close> of its result and the new state, or \<open>Inl\<close> of a fault: \<open>PageFault\<close>, \<open>Stopped\<close>
  (the macro \<^verbatim>\<open>STOP\<close>), \<open>Spin\<close> (a loop that never ends), \<open>Undefined\<close> (undefined behaviour of C). Loops over a
  counter are recursive functions; a loop over a list or a string that may not end is a partial function into \<open>option\<close>, and \<open>loopE\<close> or
  \<open>joinE\<close> turn a missing result into \<open>Spin\<close>. The properties state that a call returns as the existence of an \<open>Inr\<close>
  result, never as a condition; no fuel is used.

  Context switches. \<^verbatim>\<open>switch_to\<close> saves and loads the callee-saved registers, the flags and the stack pointer of the thread control
  block. A call that blocks inside (\<^verbatim>\<open>sem_P\<close>, \<^verbatim>\<open>lock_acquire\<close>, \<^verbatim>\<open>printk\<close>) ends in the model at the switch and returns the values the thread keeps on its
  stack; a resume function is the rest of the call. Code between \<^verbatim>\<open>cli\<close> and \<^verbatim>\<open>sti\<close> is one step of the
  interleaving semantics.
\<close>

section \<open>What the lemmas show\<close>

text \<open>
  \<^item> Physical pages: initialisation lists every managed page once; allocation and release move exactly
    the pages of one block; the invariant is kept; errors change nothing. The splitting code files blocks under
    a wrong size, and the merging search skips the head of a list: both are shown on concrete requests.
  \<^item> Virtual pages: the window addresses the entries it should; allocation maps exactly one page to the physical
    page it got, release unmaps exactly one; the pool and the translations agree; held pages never share a
    physical page and no sequence of operations faults; without memory nothing changes.
  \<^item> User tasks: a new directory shares the kernel half and has no user page; a page allocation in the running
    task creates its table when needed and changes one user page; the first return enters level 3 as intended. Creation,
    scheduling and start are composed: the 26 pages of a new task are exactly those taken, its pool is free, and after
    the start the argument and the stack page alone are mapped. A failed allocation loses a page of the pool,
    and releasing a bitmap loses its physical pages.
  \<^item> Threads: round robin with a bound on waiting, fresh slices, creation, blocking and waking, exit.
  \<^item> Synchronisation: mutual exclusion and no lost wakeup under all interleavings, first-in first-out wake-up;
    the two ways in which it fails: a lone thread in \<^verbatim>\<open>sem_P\<close>, and nested sections of one lock.
  \<^item> Output: strings, numbers, console and \<^verbatim>\<open>printk\<close> against reference definitions.
  \<^item> Start: the calls of \<^verbatim>\<open>kern_entry\<close> establish the invariants that the other properties assume.
  Each property with hypotheses is applied to a concrete state in the theorem of the same name with
  the suffix \<open>_witness\<close>; the concrete states are the definitions named \<open>demo_\<close>.
\<close>

section \<open>Not modelled\<close>

text \<open>
  \<^item> \<^verbatim>\<open>boot.s\<close> and the entry stubs of \<^verbatim>\<open>interrupt_asm.s\<close>: their effects are hypotheses on the initial state
    (\<open>boot_layout\<close>) and the semantics of the machine. \<^verbatim>\<open>syscall.c\<close> has two empty functions.
  \<^item> The translation cache: a translation is always read from memory, and \<^verbatim>\<open>invlpg\<close> is logged only.
    Protection bits are written as the code writes them, but only the present bit has an effect.
  \<^item> Messages that a component prints on the way; \<open>Printk\<close> models printing itself, and \<open>Handlers\<close>, \<open>KernLog\<close> and \<open>Entry\<close> the calls whose
    purpose it is. \<^verbatim>\<open>pmm_show_page_count\<close>, \<^verbatim>\<open>print_mem\<close>, the test functions other than \<^verbatim>\<open>user_task_test\<close> and \<^verbatim>\<open>bitmap_test\<close>, \<^verbatim>\<open>printbasic\<close> (no caller, prints
    nothing) and the functions with empty bodies are left out.
  \<^item> A clock interrupt inside \<^verbatim>\<open>kern_entry\<close> between \<^verbatim>\<open>sti\<close> and its endless loop, and interrupts inside code that
    runs with them open, other than between the steps of \<open>LockSystem\<close>.
  \<^item> The lists of blocks by size are eleven variables selected by a switch in the code and a function of the size here. Signed
    counters that the code keeps small are natural numbers or words.
\<close>

end
